(* ===== verification/Prelude.thy ===== *)
theory Prelude
  imports Main "HOL-Library.Word"
begin

unbundle bit_operations_syntax

section \<open>Prelude: machine types, helper calls, printf, key order\<close>

text \<open>
  The vocabulary every component shares:
  \<^item> the C integer types as words, and the context a BPF program reads through the kernel's
    helper calls (\<open>bpf_get_current_pid_tgid\<close>, \<open>bpf_get_current_comm\<close>, \<open>bpf_ktime_get_ns\<close>,
    \<open>bpf_get_smp_processor_id\<close>) as a record that is an input of every handler;
  \<^item> the conversions of \<open>printf\<close> that the tools use on integers and C strings;
  \<^item> the order in which the \<open>get_next_key\<close> call of a BPF map enumerates keys;
  \<^item> the saturating difference the tools use against unsigned underflow.
  The collections \<open>fmt_simps\<close> and \<open>map_laws\<close> gather what the component proofs unfold.
\<close>

named_theorems fmt_simps \<open>evaluation of printf conversions\<close>
named_theorems map_laws \<open>facts about BPF map operations\<close>
named_theorems tool_defs \<open>definitions of tool operations, unfolded in witnesses\<close>

type_synonym u8 = "8 word"
type_synonym u16 = "16 word"
type_synonym u32 = "32 word"
type_synonym u64 = "64 word"

text \<open>A task name is the kernel's \<open>char[TASK_COMM_LEN]\<close>: 16 bytes, NUL terminated.\<close>

type_synonym comm = "char list"

subsection \<open>What a BPF program reads from the kernel\<close>

record helpers =
  cur_pid_tgid :: u64
  cur_comm :: comm
  ktime_ns :: u64
  smp_cpu :: u32

text \<open>\<open>bpf_get_current_pid_tgid() >> 32\<close>, assigned to a \<open>__u32\<close>: the process id (tgid).\<close>

definition tgid_of :: "u64 \<Rightarrow> u32" where
  "tgid_of x = ucast (drop_bit 32 x)"

text \<open>\<open>(u32)bpf_get_current_pid_tgid()\<close>: the thread id.\<close>

definition tid_of :: "u64 \<Rightarrow> u32" where
  "tid_of x = ucast x"

definition mk_pid_tgid :: "u32 \<Rightarrow> u32 \<Rightarrow> u64" where
  "mk_pid_tgid tgid tid = push_bit 32 (ucast tgid) OR ucast tid"

definition cur_pid :: "'a helpers_scheme \<Rightarrow> u32" where
  "cur_pid h = tgid_of (cur_pid_tgid h)"

text \<open>A concrete context: a single-threaded task on a CPU at a time.\<close>

definition task_ctx :: "u32 \<Rightarrow> string \<Rightarrow> u64 \<Rightarrow> u32 \<Rightarrow> helpers" where
  "task_ctx pid name ts cpu =
     \<lparr>cur_pid_tgid = mk_pid_tgid pid pid,
      cur_comm = take 16 (name @ replicate 16 (CHR 0x00)),
      ktime_ns = ts, smp_cpu = cpu\<rparr>"

subsection \<open>printf conversions\<close>

definition digit_char :: "nat \<Rightarrow> char" where
  "digit_char d = char_of (48 + d)"

text \<open>\<open>%u\<close> and \<open>%llu\<close>: decimal digits, no leading zeros.\<close>

fun fmt_nat :: "nat \<Rightarrow> string" where
  "fmt_nat n = (if n < 10 then [digit_char n] else fmt_nat (n div 10) @ [digit_char (n mod 10)])"

declare fmt_nat.simps [simp del]

definition fmt_u :: "'a::len word \<Rightarrow> string" where
  "fmt_u w = fmt_nat (unat w)"

text \<open>\<open>%d\<close> and \<open>%ld\<close>.\<close>

definition fmt_d :: "int \<Rightarrow> string" where
  "fmt_d i = (if i < 0 then CHR ''-'' # fmt_nat (nat (- i)) else fmt_nat (nat i))"

text \<open>\<open>%s\<close> on a \<open>char\<close> array: the bytes before the first NUL.\<close>

definition c_str :: "char list \<Rightarrow> string" where
  "c_str = takeWhile (\<lambda>c. c \<noteq> CHR 0x00)"

definition nl :: string where
  "nl = [CHR 0x0A]"

text \<open>\<open>key: value\<close> followed by a newline, the line format of the tools.\<close>

definition kv_line :: "string \<Rightarrow> string \<Rightarrow> string" where
  "kv_line k v = k @ '': '' @ v @ nl"

text \<open>Reading a decimal numeral back, the inverse of \<open>%u\<close> and \<open>%llu\<close>.\<close>

definition digit_val :: "char \<Rightarrow> nat" where
  "digit_val c = of_char c - 48"

definition read_nat :: "string \<Rightarrow> nat" where
  "read_nat s = foldl (\<lambda>acc c. 10 * acc + digit_val c) 0 s"

subsection \<open>Key enumeration\<close>

text \<open>
  \<open>BPF_MAP_GET_NEXT_KEY\<close> (bpf(2)): for a NULL key, or a key that is not in the map, the first
  key; for a key of the map, the one after it; an error after the last one. \<open>keys_from ks cur\<close>
  are the keys still to come when the map enumerates its keys as \<open>ks\<close>.
\<close>

definition keys_from :: "'k list \<Rightarrow> 'k option \<Rightarrow> 'k list" where
  "keys_from ks cur =
     (case cur of
        None \<Rightarrow> ks
      | Some k \<Rightarrow> if k \<in> set ks then tl (dropWhile (\<lambda>x. x \<noteq> k) ks) else ks)"

definition first_key :: "'k list \<Rightarrow> 'k option" where
  "first_key ks = (case ks of [] \<Rightarrow> None | k # _ \<Rightarrow> Some k)"

subsection \<open>Differences of counters\<close>

text \<open>\<open>cur > prev ? cur - prev : 0\<close>\<close>

definition sat_diff :: "u64 \<Rightarrow> u64 \<Rightarrow> u64" where
  "sat_diff cur prev = (if cur > prev then cur - prev else 0)"

subsection \<open>Lemmas\<close>

lemma tgid_of_mk [simp]: "tgid_of (mk_pid_tgid tgid tid) = tgid"
  unfolding tgid_of_def mk_pid_tgid_def
  by (rule bit_word_eqI) (auto simp: bit_simps dest: bit_imp_le_length)

lemma tid_of_mk [simp]: "tid_of (mk_pid_tgid tgid tid) = tid"
  unfolding tid_of_def mk_pid_tgid_def
  by (rule bit_word_eqI) (auto simp: bit_simps)

lemma cur_pid_task_ctx [simp]: "cur_pid (task_ctx pid name ts cpu) = pid"
  by (simp add: cur_pid_def task_ctx_def)

lemma task_ctx_fields [simp]:
  "ktime_ns (task_ctx pid name ts cpu) = ts" "smp_cpu (task_ctx pid name ts cpu) = cpu"
  "cur_pid_tgid (task_ctx pid name ts cpu) = mk_pid_tgid pid pid"
  by (simp_all add: task_ctx_def)

lemma fmt_nat_small [fmt_simps]: "n < 10 \<Longrightarrow> fmt_nat n = [digit_char n]"
  by (simp add: fmt_nat.simps)

lemma fmt_nat_large [fmt_simps]: "\<not> n < 10 \<Longrightarrow> fmt_nat n = fmt_nat (n div 10) @ [digit_char (n mod 10)]"
  by (subst fmt_nat.simps) simp

lemma digit_char_simps [fmt_simps]:
  "digit_char 0 = CHR ''0''" "digit_char 1 = CHR ''1''" "digit_char (Suc 0) = CHR ''1''"
  "digit_char 2 = CHR ''2''" "digit_char 3 = CHR ''3''" "digit_char 4 = CHR ''4''"
  "digit_char 5 = CHR ''5''" "digit_char 6 = CHR ''6''" "digit_char 7 = CHR ''7''"
  "digit_char 8 = CHR ''8''" "digit_char 9 = CHR ''9''"
  by (simp_all add: digit_char_def char_of_def bit_0)

lemma fmt_nat_nonempty [simp]: "fmt_nat n \<noteq> []"
  by (subst fmt_nat.simps) simp

lemma digit_val_digit_char [simp]: "d < 10 \<Longrightarrow> digit_val (digit_char d) = d"
  by (simp add: digit_val_def digit_char_def)

lemma read_nat_snoc: "read_nat (s @ [c]) = 10 * read_nat s + digit_val c"
  by (simp add: read_nat_def)

lemma read_fmt_nat [simp]: "read_nat (fmt_nat n) = n"
proof (induction n rule: fmt_nat.induct)
  case (1 n)
  show ?case
  proof (cases "n < 10")
    case True
    then show ?thesis by (simp add: fmt_nat_small read_nat_def)
  next
    case False
    with 1 have "read_nat (fmt_nat (n div 10)) = n div 10" by simp
    with False show ?thesis by (simp add: fmt_nat_large read_nat_snoc)
  qed
qed

lemma fmt_nat_inject [simp]: "fmt_nat m = fmt_nat n \<longleftrightarrow> m = n"
  by (metis read_fmt_nat)

lemma fmt_u_inject [simp]: "fmt_u v = fmt_u w \<longleftrightarrow> v = w"
  by (simp add: fmt_u_def word_unat_eq_iff)

lemma digit_char_in_range: "d < 10 \<Longrightarrow> of_char (digit_char d) \<in> {48..57::nat}"
  by (simp add: digit_char_def)

lemma fmt_nat_digits: "c \<in> set (fmt_nat n) \<Longrightarrow> of_char c \<in> {48..57::nat}"
proof (induction n rule: fmt_nat.induct)
  case (1 n)
  then show ?case
    by (cases "n < 10")
      (auto simp: fmt_nat_small fmt_nat_large digit_char_in_range simp del: atLeastAtMost_iff)
qed

lemma keys_from_None [simp]: "keys_from ks None = ks"
  by (simp add: keys_from_def)

lemma keys_from_absent: "k \<notin> set ks \<Longrightarrow> keys_from ks (Some k) = ks"
  by (simp add: keys_from_def)

lemma keys_from_split: "k \<notin> set pre \<Longrightarrow> keys_from (pre @ k # rest) (Some k) = rest"
  by (induction pre) (auto simp: keys_from_def)

lemma keys_from_suffix: "\<exists>pre. ks = pre @ keys_from ks cur"
proof (cases cur)
  case None
  then show ?thesis by simp
next
  case (Some k)
  show ?thesis
  proof (cases "k \<in> set ks")
    case True
    then obtain pre rest where "ks = pre @ k # rest" "k \<notin> set pre"
      by (meson split_list_first)
    then have "ks = (pre @ [k]) @ keys_from ks cur"
      by (simp add: Some keys_from_split)
    then show ?thesis by blast
  next
    case False
    then show ?thesis by (simp add: Some keys_from_absent)
  qed
qed

lemma keys_from_step:
  assumes "distinct ks" and "keys_from ks cur = k # rest"
  shows "keys_from ks (Some k) = rest"
proof -
  from keys_from_suffix [of ks cur] obtain pre where "ks = pre @ k # rest"
    using assms(2) by auto
  moreover with assms(1) have "k \<notin> set pre" by auto
  ultimately show ?thesis by (simp add: keys_from_split)
qed

lemma keys_from_subset: "set (keys_from ks cur) \<subseteq> set ks"
  using keys_from_suffix [of ks cur] by (metis Un_upper2 set_append)

lemma first_key_simps [simp]:
  "first_key [] = None" "first_key (k # ks) = Some k"
  by (simp_all add: first_key_def)

lemma first_key_None [simp]: "first_key ks = None \<longleftrightarrow> ks = []"
  by (cases ks) simp_all

text \<open>Arrays indexed by a process id.\<close>

lemma nth_update_word:
  "xs[unat k := v] ! unat j = (if j = k \<and> unat k < length xs then v else xs ! unat j)"
  by (cases "unat k < length xs") (auto simp: nth_list_update word_unat_eq_iff list_update_beyond)

lemma distinct_singleton_list:
  assumes "distinct xs" and "set xs = {x}"
  shows "xs = [x]"
proof -
  have "length xs = Suc 0" using distinct_card [OF assms(1)] assms(2) by simp
  then show ?thesis using assms(2) by (cases xs) simp_all
qed

lemma concat_singletons:
  "(\<And>x. x \<in> set xs \<Longrightarrow> f x = [g x]) \<Longrightarrow> concat (map f xs) = map g xs"
  by (induction xs) auto

lemma sum_weight_one: "sum_list (map (\<lambda>_. 1) xs) = (of_nat (length xs) :: u64)"
  by (induction xs) (simp_all add: add.commute)

lemma sum_filter_lengths: "(\<Sum>k\<in>f ` set xs. length (filter (\<lambda>x. f x = k) xs)) = length xs"
proof -
  have "(\<Sum>k\<in>K. length (filter (\<lambda>x. f x = k) xs)) = length xs" if "finite K" "f ` set xs \<subseteq> K" for K
    using that
  proof (induction xs)
    case (Cons x xs)
    have "(\<Sum>k\<in>K. length (filter (\<lambda>y. f y = k) (x # xs))) =
        (\<Sum>k\<in>K. (if f x = k then 1 else 0) + length (filter (\<lambda>y. f y = k) xs))"
      by (rule sum.cong) auto
    then show ?case using Cons by (simp add: sum.distrib)
  qed simp
  then show ?thesis by blast
qed

lemma unat_sat_diff: "unat (sat_diff a b) = unat a - unat b"
proof (cases "b < a")
  case True
  then have "b \<le> a" by simp
  then have "unat (a - b) = unat a - unat b" by (rule unat_sub)
  with True show ?thesis by (simp add: sat_diff_def)
next
  case False
  then show ?thesis by (simp add: sat_diff_def word_less_nat_alt)
qed

lemma unat_add_no_wrap:
  fixes a d :: u64
  assumes "unat a + unat d < 2 ^ 64"
  shows "unat (a + d) = unat a + unat d"
  using assms by (simp add: unat_word_ariths)

lemma unat_sum_list:
  fixes xs :: "u64 list"
  assumes "sum_list (map unat xs) < 2 ^ 64"
  shows "unat (sum_list xs) = sum_list (map unat xs)"
  using assms by (induction xs) (simp_all add: unat_add_no_wrap)

lemma no_wrap_append:
  fixes xs ys :: "u64 list"
  assumes "sum_list (map unat (xs @ ys)) < 2 ^ 64"
  shows "unat (sum_list xs) + unat (sum_list ys) < 2 ^ 64"
proof -
  have "sum_list (map unat xs) + sum_list (map unat ys) < 2 ^ 64" using assms by simp
  then show ?thesis by (simp add: unat_sum_list)
qed

lemma sat_diff_add:
  assumes "unat a + unat d < 2 ^ 64"
  shows "sat_diff (a + d) a = d"
proof -
  have "unat (sat_diff (a + d) a) = unat d"
    using unat_add_no_wrap [OF assms] by (simp add: unat_sat_diff)
  then show ?thesis by (simp add: word_unat_eq_iff)
qed

end
