(* ===== verification/BpfMap.thy ===== *)
theory BpfMap
  imports Prelude "HOL-Library.Multiset"
begin

section \<open>BPF maps: the interface the tools rely on\<close>

text \<open>
  The kernel's maps are not code of this repository. Every operation of a tool takes the map
  calls it makes as a parameter, a record \<open>map_ops\<close> over an abstract map state \<open>'m\<close>:
  \<^item> \<open>lookup_elem\<close>: \<open>bpf_map_lookup_elem\<close> in a BPF program (\<open>None\<close> is the NULL pointer) and
    \<open>bpf_map__lookup_elem\<close> in user space (\<open>None\<close> is a non-zero result, \<open>lookup_errno\<close> its value);
  \<^item> \<open>store_elem\<close>: a write through the pointer a lookup returned (\<open>*val = v\<close>,
    \<open>__sync_fetch_and_add(val, d)\<close>);
  \<^item> \<open>update_elem\<close>, \<open>delete_elem\<close>: return code and new state; \<open>next_key\<close>:
    \<open>bpf_map__get_next_key\<close>, where \<open>None\<close> as a key is NULL and \<open>None\<close> as a result is \<open>-ENOENT\<close>.
  What bpf(2) and the kernel's map documentation promise is stated as locales: \<open>bpf_map\<close> for
  every map type, \<open>bpf_hash\<close> for \<open>BPF_MAP_TYPE_HASH\<close>, \<open>bpf_array\<close> for \<open>BPF_MAP_TYPE_ARRAY\<close>.
  No law says where an update puts a key in the enumeration order: \<open>stable_hash\<close> adds that an
  update of a present key keeps the order, and is assumed only where it is said.
  Theory \<open>MapInstances\<close> gives two hash maps and an array that satisfy the laws; they are what
  the witnesses run on.
\<close>

datatype update_flag = BPF_ANY | BPF_NOEXIST | BPF_EXIST

record ('m, 'k, 'v) map_ops =
  lookup_elem :: "'m \<Rightarrow> 'k \<Rightarrow> 'v option"
  lookup_errno :: "'m \<Rightarrow> 'k \<Rightarrow> int"
  store_elem :: "'m \<Rightarrow> 'k \<Rightarrow> 'v \<Rightarrow> 'm"
  update_elem :: "'m \<Rightarrow> 'k \<Rightarrow> 'v \<Rightarrow> update_flag \<Rightarrow> int \<times> 'm"
  delete_elem :: "'m \<Rightarrow> 'k \<Rightarrow> int \<times> 'm"
  next_key :: "'m \<Rightarrow> 'k option \<Rightarrow> 'k option"

subsection \<open>The counting idiom of the BPF programs\<close>

text \<open>
  \<open>val = lookup(m, k); if (val) __sync_fetch_and_add(val, d); else update(m, k, &d, flag)\<close>
\<close>

definition add_or_insert ::
  "('m, 'k, u64) map_ops \<Rightarrow> 'm \<Rightarrow> 'k \<Rightarrow> u64 \<Rightarrow> update_flag \<Rightarrow> 'm" where
  "add_or_insert ops m k d fl =
     (case lookup_elem ops m k of
        Some v \<Rightarrow> store_elem ops m k (v + d)
      | None \<Rightarrow> snd (update_elem ops m k d fl))"

text \<open>The same idiom on one counter field of a struct: a present entry is modified in place by
  \<open>f\<close>, an absent one is created with \<open>v0\<close>.\<close>

definition modify_or_insert ::
  "('m, 'k, 'v) map_ops \<Rightarrow> 'm \<Rightarrow> 'k \<Rightarrow> ('v \<Rightarrow> 'v) \<Rightarrow> 'v \<Rightarrow> update_flag \<Rightarrow> 'm" where
  "modify_or_insert ops m k f v0 fl =
     (case lookup_elem ops m k of
        Some v \<Rightarrow> store_elem ops m k (f v)
      | None \<Rightarrow> snd (update_elem ops m k v0 fl))"

text \<open>\<open>val = lookup(m, k); if (val) __sync_fetch_and_add(val, d);\<close> with no else branch.\<close>

definition add_if_present ::
  "('m, 'k, u64) map_ops \<Rightarrow> 'm \<Rightarrow> 'k \<Rightarrow> u64 \<Rightarrow> 'm" where
  "add_if_present ops m k d =
     (case lookup_elem ops m k of Some v \<Rightarrow> store_elem ops m k (v + d) | None \<Rightarrow> m)"

text \<open>What a map says about the counter \<open>cnt\<close> of its entries: an absent key counts as 0.\<close>

definition count_at :: "('m, 'k, 'v) map_ops \<Rightarrow> ('v \<Rightarrow> u64) \<Rightarrow> 'm \<Rightarrow> 'k \<Rightarrow> u64" where
  "count_at ops cnt m k = (case lookup_elem ops m k of Some v \<Rightarrow> cnt v | None \<Rightarrow> 0)"

subsection \<open>The laws\<close>

locale bpf_map =
  fixes ops :: "('m, 'k, 'v) map_ops"
    and keys :: "'m \<Rightarrow> 'k list"
    and cap :: "'m \<Rightarrow> nat"
  assumes keys_distinct: "distinct (keys m)"
    and keys_lookup: "k \<in> set (keys m) \<longleftrightarrow> lookup_elem ops m k \<noteq> None"
    and keys_cap: "length (keys m) \<le> cap m"
    and lookup_errno_0: "lookup_errno ops m k = 0 \<longleftrightarrow> lookup_elem ops m k \<noteq> None"
    and next_key_order: "next_key ops m cur = first_key (keys_from (keys m) cur)"
    and lookup_store: "k \<in> set (keys m) \<Longrightarrow>
      lookup_elem ops (store_elem ops m k v) = (lookup_elem ops m)(k \<mapsto> v)"
    and keys_store: "k \<in> set (keys m) \<Longrightarrow> keys (store_elem ops m k v) = keys m"
    and cap_store: "cap (store_elem ops m k v) = cap m"
    and update_ok: "fst (update_elem ops m k v fl) = 0 \<Longrightarrow>
      lookup_elem ops (snd (update_elem ops m k v fl)) = (lookup_elem ops m)(k \<mapsto> v)"
    and update_fail: "fst (update_elem ops m k v fl) \<noteq> 0 \<Longrightarrow> snd (update_elem ops m k v fl) = m"
    and update_noexist: "k \<in> set (keys m) \<Longrightarrow> fst (update_elem ops m k v BPF_NOEXIST) \<noteq> 0"
    and update_exist: "k \<notin> set (keys m) \<Longrightarrow> fst (update_elem ops m k v BPF_EXIST) \<noteq> 0"
    and cap_update: "cap (snd (update_elem ops m k v fl)) = cap m"
begin

lemma keys_lookup_Some: "lookup_elem ops m k = Some v \<Longrightarrow> k \<in> set (keys m)"
  by (simp add: keys_lookup)

lemma dom_lookup: "dom (lookup_elem ops m) = set (keys m)"
  by (auto simp: keys_lookup)

lemma keys_Nil_iff: "keys m = [] \<longleftrightarrow> (\<forall>k. lookup_elem ops m k = None)"
  using dom_lookup [of m] by (auto simp flip: set_empty simp: dom_def)

lemma keys_update_ok:
  assumes "fst (update_elem ops m k v fl) = 0"
  shows "set (keys (snd (update_elem ops m k v fl))) = insert k (set (keys m))"
  using update_ok [OF assms] unfolding dom_lookup [symmetric] by simp

lemma mset_keys_insert:
  assumes "fst (update_elem ops m k v fl) = 0" and "k \<notin> set (keys m)"
  shows "mset (keys (snd (update_elem ops m k v fl))) = add_mset k (mset (keys m))"
proof -
  have d: "distinct (k # keys m)" using assms(2) keys_distinct [of m] by simp
  have "set (keys (snd (update_elem ops m k v fl))) = set (k # keys m)"
    using keys_update_ok [OF assms(1)] by simp
  then have "mset (keys (snd (update_elem ops m k v fl))) = mset (k # keys m)"
    by (rule iffD1 [OF set_eq_iff_mset_eq_distinct [OF keys_distinct d]])
  then show ?thesis by simp
qed

lemma keys_modify:
  "set (keys (modify_or_insert ops m k f v0 fl)) \<subseteq> insert k (set (keys m))"
proof (cases "lookup_elem ops m k")
  case None
  then show ?thesis
    by (cases "fst (update_elem ops m k v0 fl) = 0")
      (auto simp: modify_or_insert_def keys_update_ok update_fail)
next
  case (Some v)
  then show ?thesis by (auto simp: modify_or_insert_def keys_store dest: keys_lookup_Some)
qed

lemma lookup_modify_other:
  "k' \<noteq> k \<Longrightarrow> lookup_elem ops (modify_or_insert ops m k f v0 fl) k' = lookup_elem ops m k'"
proof (cases "lookup_elem ops m k")
  case None
  assume "k' \<noteq> k"
  with None show ?thesis
    by (cases "fst (update_elem ops m k v0 fl) = 0")
      (auto simp: modify_or_insert_def update_ok update_fail)
next
  case (Some v)
  assume "k' \<noteq> k"
  with Some show ?thesis
    by (simp add: modify_or_insert_def lookup_store keys_lookup_Some)
qed

lemma lookup_update_other:
  "k' \<noteq> k \<Longrightarrow> lookup_elem ops (snd (update_elem ops m k v fl)) k' = lookup_elem ops m k'"
  by (cases "fst (update_elem ops m k v fl) = 0") (simp_all add: update_ok update_fail)

lemma lookup_modify_cases:
  assumes "lookup_elem ops (modify_or_insert ops m k f v0 fl) j = Some v"
  shows "lookup_elem ops m j = Some v \<or> j = k \<and> (v = v0 \<or> (\<exists>u. lookup_elem ops m k = Some u \<and> v = f u))"
proof (cases "lookup_elem ops m k")
  case None
  with assms show ?thesis
    by (cases "fst (update_elem ops m k v0 fl) = 0") (auto simp: modify_or_insert_def update_ok update_fail split: if_splits)
next
  case (Some u)
  with assms show ?thesis by (auto simp: modify_or_insert_def lookup_store keys_lookup split: if_splits)
qed

lemma cap_modify: "cap (modify_or_insert ops m k f v0 fl) = cap m"
  by (simp add: modify_or_insert_def cap_store cap_update split: option.split)

lemma lookup_modify_present:
  "lookup_elem ops m k = Some v \<Longrightarrow>
     lookup_elem ops (modify_or_insert ops m k f v0 fl) = (lookup_elem ops m)(k \<mapsto> f v)"
  by (simp add: modify_or_insert_def lookup_store keys_lookup_Some)

text \<open>A full map takes no new key.\<close>

lemma update_full:
  assumes "k \<notin> set (keys m)" and "\<not> length (keys m) < cap m"
  shows "snd (update_elem ops m k v fl) = m"
proof (cases "fst (update_elem ops m k v fl) = 0")
  case True
  let ?m = "snd (update_elem ops m k v fl)"
  have "length (keys ?m) = Suc (length (keys m))"
    using mset_keys_insert [OF True assms(1)] by (metis size_add_mset size_mset)
  with assms(2) keys_cap [of ?m] cap_update [of m k v fl] show ?thesis by simp
qed (rule update_fail)

lemma modify_full:
  "k \<notin> set (keys m) \<Longrightarrow> \<not> length (keys m) < cap m \<Longrightarrow> modify_or_insert ops m k f v0 fl = m"
  using update_full by (simp add: modify_or_insert_def keys_lookup)

lemma count_modify_present:
  fixes cnt :: "'v \<Rightarrow> u64"
  assumes "k \<in> set (keys m)" and "\<And>v. cnt (f v) = cnt v + d"
  shows "count_at ops cnt (modify_or_insert ops m k f v0 fl) =
    (count_at ops cnt m)(k := count_at ops cnt m k + d)"
proof -
  obtain v where v: "lookup_elem ops m k = Some v" using assms(1) keys_lookup by blast
  show ?thesis using assms(2) by (simp add: fun_eq_iff count_at_def lookup_modify_present [OF v] v)
qed

lemma modify_insert_fails:
  "lookup_elem ops m k = None \<Longrightarrow> fst (update_elem ops m k v0 fl) \<noteq> 0 \<Longrightarrow>
     modify_or_insert ops m k f v0 fl = m"
  by (simp add: modify_or_insert_def update_fail)

end

text \<open>A hash map: a delete removes a present key and fails on an absent one; an update the flag
  permits succeeds on a present key and, while the map holds fewer than \<open>max_entries\<close> keys, on
  an absent one (\<open>E2BIG\<close> otherwise).\<close>

locale bpf_hash = bpf_map +
  assumes update_present:
      "k \<in> set (keys m) \<Longrightarrow> fl \<noteq> BPF_NOEXIST \<Longrightarrow> fst (update_elem ops m k v fl) = 0"
    and update_room:
      "k \<notin> set (keys m) \<Longrightarrow> fl \<noteq> BPF_EXIST \<Longrightarrow> length (keys m) < cap m \<Longrightarrow>
         fst (update_elem ops m k v fl) = 0"
    and delete_present: "k \<in> set (keys m) \<Longrightarrow> fst (delete_elem ops m k) = 0"
    and lookup_delete: "k \<in> set (keys m) \<Longrightarrow>
      lookup_elem ops (snd (delete_elem ops m k)) = (lookup_elem ops m)(k := None)"
    and keys_delete: "k \<in> set (keys m) \<Longrightarrow> keys (snd (delete_elem ops m k)) = remove1 k (keys m)"
    and delete_absent: "k \<notin> set (keys m) \<Longrightarrow> fst (delete_elem ops m k) \<noteq> 0 \<and> snd (delete_elem ops m k) = m"
    and cap_delete: "cap (snd (delete_elem ops m k)) = cap m"
begin

lemma lookup_delete_any: "lookup_elem ops (snd (delete_elem ops m k)) = (lookup_elem ops m)(k := None)"
proof (cases "k \<in> set (keys m)")
  case True
  then show ?thesis by (rule lookup_delete)
next
  case False
  then have "lookup_elem ops m k = None" by (simp add: keys_lookup)
  then have "(lookup_elem ops m)(k := None) = lookup_elem ops m" by auto
  with delete_absent [OF False] show ?thesis by simp
qed

lemma lookup_modify_room:
  assumes "lookup_elem ops m k = None" and "fl \<noteq> BPF_EXIST" and "length (keys m) < cap m"
  shows "lookup_elem ops (modify_or_insert ops m k f v0 fl) = (lookup_elem ops m)(k \<mapsto> v0)"
  using assms by (simp add: modify_or_insert_def update_ok update_room keys_lookup)

lemma lookup_modify_hash:
  assumes "fl \<noteq> BPF_EXIST" and "k \<in> set (keys m) \<or> length (keys m) < cap m"
  shows "lookup_elem ops (modify_or_insert ops m k f v0 fl) =
    (lookup_elem ops m)(k \<mapsto> (case lookup_elem ops m k of Some v \<Rightarrow> f v | None \<Rightarrow> v0))"
proof (cases "lookup_elem ops m k")
  case None
  with assms show ?thesis by (simp add: lookup_modify_room keys_lookup)
next
  case (Some v)
  then show ?thesis by (simp add: lookup_modify_present)
qed

lemma keys_modify_hash:
  assumes "fl \<noteq> BPF_EXIST" and "k \<in> set (keys m) \<or> length (keys m) < cap m"
  shows "set (keys (modify_or_insert ops m k f v0 fl)) = insert k (set (keys m))"
  using lookup_modify_hash [OF assms] unfolding dom_lookup [symmetric] by simp

lemma lookup_update_room:
  assumes "length (keys m) < cap m \<or> k \<in> set (keys m)"
  shows "lookup_elem ops (snd (update_elem ops m k v BPF_ANY)) = (lookup_elem ops m)(k \<mapsto> v)"
  using assms by (metis update_flag.distinct(1) update_flag.distinct(3) update_ok update_present update_room)

end

text \<open>A set of keys that a map can hold: as long as only keys of \<open>K\<close> are inserted, no update fails.\<close>

definition fits :: "('m \<Rightarrow> 'k list) \<Rightarrow> ('m \<Rightarrow> nat) \<Rightarrow> 'k set \<Rightarrow> 'm \<Rightarrow> bool" where
  "fits keys cap K m \<longleftrightarrow> finite K \<and> set (keys m) \<subseteq> K \<and> card K \<le> cap m"

context bpf_hash
begin

lemma fits_room:
  assumes "fits keys cap K m" and "k \<in> K"
  shows "k \<in> set (keys m) \<or> length (keys m) < cap m"
proof (rule disjCI)
  assume "\<not> length (keys m) < cap m"
  then have "card K \<le> card (set (keys m))"
    using assms(1) distinct_card [OF keys_distinct, of m] by (simp add: fits_def)
  then have "set (keys m) = K" using assms(1) by (intro card_seteq) (auto simp: fits_def)
  with assms(2) show "k \<in> set (keys m)" by simp
qed

lemma lookup_modify_fits:
  assumes "fits keys cap K m" and "k \<in> K" and "fl \<noteq> BPF_EXIST"
  shows "lookup_elem ops (modify_or_insert ops m k f v0 fl) =
    (lookup_elem ops m)(k \<mapsto> (case lookup_elem ops m k of Some v \<Rightarrow> f v | None \<Rightarrow> v0))"
  using lookup_modify_hash [OF assms(3) fits_room [OF assms(1,2)]] .

lemma keys_modify_fits:
  assumes "fits keys cap K m" and "k \<in> K" and "fl \<noteq> BPF_EXIST"
  shows "set (keys (modify_or_insert ops m k f v0 fl)) = insert k (set (keys m))"
  using keys_modify_hash [OF assms(3) fits_room [OF assms(1,2)]] .

lemma lookup_update_fits:
  assumes "fits keys cap K m" and "k \<in> K"
  shows "lookup_elem ops (snd (update_elem ops m k v BPF_ANY)) = (lookup_elem ops m)(k \<mapsto> v)"
  using lookup_update_room fits_room [OF assms] by blast

lemma fits_modify: "fits keys cap K m \<Longrightarrow> k \<in> K \<Longrightarrow> fits keys cap K (modify_or_insert ops m k f v0 fl)"
  using keys_modify [of m k f v0 fl] by (auto simp: fits_def cap_modify)

lemma fits_update: "fits keys cap K m \<Longrightarrow> k \<in> K \<Longrightarrow> fits keys cap K (snd (update_elem ops m k v fl))"
  by (cases "fst (update_elem ops m k v fl) = 0")
    (auto simp: fits_def cap_update keys_update_ok update_fail)

lemma fits_delete: "fits keys cap K m \<Longrightarrow> fits keys cap K (snd (delete_elem ops m k))"
proof (cases "k \<in> set (keys m)")
  case True
  assume "fits keys cap K m"
  then show ?thesis using set_remove1_subset [of k "keys m"]
    by (auto simp: fits_def cap_delete keys_delete [OF True])
next
  case False
  assume "fits keys cap K m"
  then show ?thesis using delete_absent [OF False] by simp
qed

lemma count_add_fits:
  fixes cnt :: "'c \<Rightarrow> u64"
  assumes "fits keys cap K m" and "k \<in> K" and "fl \<noteq> BPF_EXIST"
    and "\<And>v. cnt (f v) = cnt v + d" and "cnt v0 = d"
  shows "count_at ops cnt (modify_or_insert ops m k f v0 fl) =
    (count_at ops cnt m)(k := count_at ops cnt m k + d)"
  using assms(4,5)
  by (auto simp: fun_eq_iff count_at_def lookup_modify_fits [OF assms(1-3)] split: option.split)

end

locale stable_hash = bpf_hash +
  assumes keys_update_present:
    "k \<in> set (keys m) \<Longrightarrow> keys (snd (update_elem ops m k v fl)) = keys m"

text \<open>An array map: the keys are the indices below \<open>max_entries\<close>, all present from the start.\<close>

locale bpf_array = bpf_map ops keys cap
  for ops :: "('m, 'i::len word, 'v) map_ops" and keys cap +
  assumes array_keys: "k \<in> set (keys m) \<longleftrightarrow> unat k < cap m"
    and array_update: "unat k < cap m \<Longrightarrow> fl \<noteq> BPF_NOEXIST \<Longrightarrow> fst (update_elem ops m k v fl) = 0"
    and array_delete: "fst (delete_elem ops m k) \<noteq> 0 \<and> snd (delete_elem ops m k) = m"
begin

lemma array_lookup: "unat k < cap m \<Longrightarrow> \<exists>v. lookup_elem ops m k = Some v"
  using array_keys keys_lookup by (metis not_None_eq)

lemma array_lookup_out: "\<not> unat k < cap m \<Longrightarrow> lookup_elem ops m k = None"
  using array_keys keys_lookup by metis

end

text \<open>An array of counters.\<close>

locale counter_array = bpf_array ops keys cap
  for ops :: "('m, 'i::len word, u64) map_ops" and keys cap
begin

lemma cap_add_if: "cap (add_if_present ops m k d) = cap m"
  by (simp add: add_if_present_def cap_store split: option.split)

lemma count_add_if:
  assumes "unat k < cap m"
  shows "count_at ops (\<lambda>v. v) (add_if_present ops m k d) =
    (count_at ops (\<lambda>v. v) m)(k := count_at ops (\<lambda>v. v) m k + d)"
proof -
  obtain v where "lookup_elem ops m k = Some v" using array_lookup [OF assms] by blast
  then show ?thesis
    using assms by (auto simp: add_if_present_def count_at_def fun_eq_iff lookup_store array_keys)
qed

end

subsection \<open>The counting idiom as an in-place modification\<close>

lemma add_or_insert_modify: "add_or_insert ops m k d fl = modify_or_insert ops m k (\<lambda>v. v + d) d fl"
  by (simp add: add_or_insert_def modify_or_insert_def)

end
