(* ===== verification/KeyWalk.thy ===== *)
theory KeyWalk
  imports BpfMap
begin

section \<open>Walking a map with get_next_key\<close>

text \<open>
  Every user-space loader reads its maps with the loop
  \<^verbatim>\<open>
    while (bpf_map__get_next_key(map, cur, &next, sz) == 0) { cur = next; body }
  \<close>
  where the body may print, look the key up and delete it. \<open>key_loop\<close> is that loop over a tool
  state \<open>'s\<close>; it may not end, so its result is an option. The locales state what a body does to
  the map it walks and give, once, what the loop visits, that it ends, and what it prints:
  \<^item> \<open>reading_walk\<close>: the body keeps the keys: the keys after the start key are visited in order;
  \<^item> \<open>read_report\<close>: the body prints a report of the entry and changes nothing;
  \<^item> \<open>local_walk\<close>: the output and effect for a key depend on what the state holds for that key;
  \<^item> \<open>drain_report\<close>: the body prints a report of the entry and deletes it. Deleting the current key
    makes the next call start over, so all the keys are visited provided the first call
    finds one: the walk misses everything when its start key is the last key of the map.
\<close>

partial_function (option) key_loop ::
  "('s \<Rightarrow> 'k option \<Rightarrow> 'k option) \<Rightarrow> ('k \<Rightarrow> 's \<Rightarrow> 'o list \<times> 's) \<Rightarrow> 'k option \<Rightarrow> 's \<Rightarrow>
     ('o list \<times> 's) option" where
  "key_loop nxt body cur s =
     (case nxt s cur of
        None \<Rightarrow> Some ([], s)
      | Some k \<Rightarrow> Option.bind (key_loop nxt body (Some k) (snd (body k s)))
                   (\<lambda>(out, s'). Some (fst (body k s) @ out, s')))"

text \<open>The body run on a list of keys, in order.\<close>

primrec visit :: "('k \<Rightarrow> 's \<Rightarrow> 'o list \<times> 's) \<Rightarrow> 'k list \<Rightarrow> 's \<Rightarrow> 'o list \<times> 's" where
  "visit body [] s = ([], s)"
| "visit body (k # ks) s =
     (fst (body k s) @ fst (visit body ks (snd (body k s))), snd (visit body ks (snd (body k s))))"

lemma visit_append:
  "visit body (ks @ ks') s =
     (fst (visit body ks s) @ fst (visit body ks' (snd (visit body ks s))),
      snd (visit body ks' (snd (visit body ks s))))"
  by (induction ks arbitrary: s) simp_all

lemma key_loop_None: "nxt s cur = None \<Longrightarrow> key_loop nxt body cur s = Some ([], s)"
  by (subst key_loop.simps) simp

lemma key_loop_Some:
  "nxt s cur = Some k \<Longrightarrow> key_loop nxt body (Some k) (snd (body k s)) = Some (visit body ks (snd (body k s))) \<Longrightarrow>
     key_loop nxt body cur s = Some (visit body (k # ks) s)"
  by (subst key_loop.simps) (simp add: case_prod_unfold)

lemma visit_invariant:
  assumes "\<And>k s. k \<in> set ks \<Longrightarrow> P s \<Longrightarrow> P (snd (body k s))" and "P s"
  shows "P (snd (visit body ks s))"
  using assms by (induction ks arbitrary: s) auto

text \<open>Induction over a walk that returns.\<close>

lemma key_loop_induct:
  assumes loop: "key_loop nxt body cur s = Some (out, s')"
    and stop: "\<And>cur s. nxt s cur = None \<Longrightarrow> P cur s [] s"
    and step: "\<And>cur s k out s'. nxt s cur = Some k \<Longrightarrow> P (Some k) (snd (body k s)) out s' \<Longrightarrow> P cur s (fst (body k s) @ out) s'"
  shows "P cur s out s'"
proof -
  let ?Q = "\<lambda>n b cur s r. n = nxt \<longrightarrow> b = body \<longrightarrow> P cur s (fst r) (snd r)"
  have "?Q n b cur s r" if "key_loop n b cur s = Some r" for n b cur s r
  proof (rule key_loop.raw_induct [where P = ?Q, OF _ that])
    fix f n b cur s r
    assume IH: "\<And>n b cur s r. f n b cur s = Some r \<Longrightarrow> ?Q n b cur s r"
      and eq: "(case n s cur of None \<Rightarrow> Some ([], s)
        | Some k \<Rightarrow> Option.bind (f n b (Some k) (snd (b k s))) (\<lambda>(out, s'). Some (fst (b k s) @ out, s'))) = Some r"
    show "?Q n b cur s r"
    proof (intro impI)
      assume nb: "n = nxt" "b = body"
      show "P cur s (fst r) (snd r)"
      proof (cases "nxt s cur")
        case None
        then show ?thesis using eq nb stop by auto
      next
        case (Some k)
        then obtain out s' where "f nxt body (Some k) (snd (body k s)) = Some (out, s')" "r = (fst (body k s) @ out, s')"
          using eq nb by (auto simp: Option.bind_eq_Some_conv)
        then show ?thesis using IH step [OF Some] by fastforce
      qed
    qed
  qed
  from this [OF loop] show ?thesis by simp
qed

lemma key_loop_invariant:
  assumes "key_loop nxt body cur s = Some (out, s')"
    and "\<And>k s. P s \<Longrightarrow> P (snd (body k s))" and "P s"
  shows "P s'"
  by (rule key_loop_induct [OF assms(1), where P = "\<lambda>_ s _ s'. P s \<longrightarrow> P s'", THEN mp]) (auto intro: assms(2,3))

text \<open>What every body prints, the loop prints.\<close>

lemma key_loop_out:
  assumes "key_loop nxt body cur s = Some (out, s')"
    and "\<And>k s. set (fst (body k s)) \<subseteq> A"
  shows "set out \<subseteq> A"
  by (rule key_loop_induct [OF assms(1), where P = "\<lambda>_ _ out _. set out \<subseteq> A"]) (use assms(2) in auto)

lemma visit_out:
  assumes "\<And>k s. set (fst (body k s)) \<subseteq> A"
  shows "set (fst (visit body ks s)) \<subseteq> A"
  using assms by (induction ks arbitrary: s) (auto simp: subset_iff)

text \<open>A loop that from some states always finds a next key and comes back to such a state does not
  return.\<close>

lemma key_loop_diverges:
  assumes step: "\<And>cur s. I cur s \<Longrightarrow> \<exists>k. nxt s cur = Some k \<and> I (Some k) (snd (body k s))"
    and start: "I cur s"
  shows "key_loop nxt body cur s = None"
proof (rule ccontr)
  assume "key_loop nxt body cur s \<noteq> None"
  then obtain out s' where r: "key_loop nxt body cur s = Some (out, s')" by auto
  have "\<not> I cur s" by (rule key_loop_induct [OF r, where P = "\<lambda>cur s _ _. \<not> I cur s"]) (use step in fastforce)+
  with start show False by blast
qed

subsection \<open>Bodies that keep the keys\<close>

locale reading_walk = bpf_map ops keys cap
  for ops :: "('m, 'k, 'v) map_ops" and keys cap +
  fixes getm :: "'s \<Rightarrow> 'm"
    and body :: "'k \<Rightarrow> 's \<Rightarrow> 'o list \<times> 's"
  assumes body_keys: "k \<in> set (keys (getm s)) \<Longrightarrow> keys (getm (snd (body k s))) = keys (getm s)"
begin

lemma loop_visits:
  "key_loop (\<lambda>s. next_key ops (getm s)) body cur s = Some (visit body (keys_from (keys (getm s)) cur) s)"
proof (induction "keys_from (keys (getm s)) cur" arbitrary: cur s)
  case Nil
  then show ?case by (simp add: key_loop_None next_key_order flip: Nil)
next
  case (Cons k ks)
  have "k \<in> set (keys (getm s))"
    using keys_from_subset [of "keys (getm s)" cur] Cons.hyps(2) by (metis list.set_intros(1) subsetD)
  then have same: "keys (getm (snd (body k s))) = keys (getm s)" by (rule body_keys)
  have ks: "ks = keys_from (keys (getm (snd (body k s)))) (Some k)"
    using keys_from_step [OF keys_distinct Cons.hyps(2) [symmetric]] same by simp
  have "next_key ops (getm s) cur = Some k"
    by (simp add: next_key_order flip: Cons.hyps(2))
  then show ?case
    unfolding Cons.hyps(2) [symmetric]
    using Cons.hyps(1) [OF ks] by (intro key_loop_Some) (simp_all flip: ks)
qed

lemma visit_keys:
  "set ks \<subseteq> set (keys (getm s)) \<Longrightarrow> keys (getm (snd (visit body ks s))) = keys (getm s)"
proof (induction ks arbitrary: s)
  case (Cons k ks)
  then show ?case using body_keys [of k s] by simp
qed simp

end

text \<open>A body that prints a report of the entry and leaves the map as it is.\<close>

locale read_report = bpf_map ops keys cap
  for ops :: "('m, 'k, 'v) map_ops" and keys cap +
  fixes getm :: "'s \<Rightarrow> 'm"
    and body :: "'k \<Rightarrow> 's \<Rightarrow> 'o list \<times> 's"
    and report :: "'k \<Rightarrow> 'v \<Rightarrow> 'o list"
  assumes read_out: "lookup_elem ops (getm s) k = Some v \<Longrightarrow> body k s = (report k v, s)"
begin

sublocale rd: reading_walk ops keys cap getm body
  by unfold_locales (metis keys_lookup not_None_eq read_out snd_conv)

lemma visit_reports:
  "set ks \<subseteq> set (keys (getm s)) \<Longrightarrow>
     visit body ks s = (concat (map (\<lambda>k. report k (the (lookup_elem ops (getm s) k))) ks), s)"
proof (induction ks)
  case (Cons k ks)
  then have "lookup_elem ops (getm s) k \<noteq> None" by (simp add: keys_lookup)
  then obtain v where v: "lookup_elem ops (getm s) k = Some v" by auto
  then show ?case using Cons by (simp add: read_out [OF v])
qed simp

lemma loop_reports:
  "key_loop (\<lambda>s. next_key ops (getm s)) body cur s =
     Some (concat (map (\<lambda>k. report k (the (lookup_elem ops (getm s) k))) (keys_from (keys (getm s)) cur)), s)"
  using rd.loop_visits [of cur s] visit_reports [OF keys_from_subset] by metis

end

text \<open>A body whose output and effect for a key depend on, and change, only what the state says about
  that key: \<open>view s k\<close>. Tools that remember the previous value of each counter are of this kind.\<close>

locale local_walk = bpf_map ops keys cap
  for ops :: "('m, 'k, 'v) map_ops" and keys cap +
  fixes getm :: "'s \<Rightarrow> 'm"
    and body :: "'k \<Rightarrow> 's \<Rightarrow> 'o list \<times> 's"
    and inv :: "'s \<Rightarrow> bool"
    and view :: "'s \<Rightarrow> 'k \<Rightarrow> 'x"
    and rep :: "'k \<Rightarrow> 'x \<Rightarrow> 'o list"
    and post :: "'k \<Rightarrow> 'x \<Rightarrow> 'x"
  assumes local_keys: "inv s \<Longrightarrow> k \<in> set (keys (getm s)) \<Longrightarrow> keys (getm (snd (body k s))) = keys (getm s)"
    and local_inv: "inv s \<Longrightarrow> k \<in> set (keys (getm s)) \<Longrightarrow> inv (snd (body k s))"
    and local_out: "inv s \<Longrightarrow> k \<in> set (keys (getm s)) \<Longrightarrow> fst (body k s) = rep k (view s k)"
    and local_view: "inv s \<Longrightarrow> k \<in> set (keys (getm s)) \<Longrightarrow>
      view (snd (body k s)) = (view s)(k := post k (view s k))"
begin

lemma visit_local:
  "inv s \<Longrightarrow> distinct ks \<Longrightarrow> set ks \<subseteq> set (keys (getm s)) \<Longrightarrow>
     fst (visit body ks s) = concat (map (\<lambda>k. rep k (view s k)) ks) \<and>
     view (snd (visit body ks s)) = (\<lambda>k. if k \<in> set ks then post k (view s k) else view s k) \<and>
     keys (getm (snd (visit body ks s))) = keys (getm s) \<and> inv (snd (visit body ks s))"
proof (induction ks arbitrary: s)
  case (Cons k ks)
  have mem: "k \<in> set (keys (getm s))" using Cons.prems by simp
  note st = local_keys [OF Cons.prems(1) mem] local_inv [OF Cons.prems(1) mem]
    local_out [OF Cons.prems(1) mem] local_view [OF Cons.prems(1) mem]
  have "set ks \<subseteq> set (keys (getm (snd (body k s))))" using Cons.prems st(1) by simp
  note IH = Cons.IH [OF st(2) _ this]
  have "map (\<lambda>j. rep j (view (snd (body k s)) j)) ks = map (\<lambda>j. rep j (view s j)) ks"
    using Cons.prems(2) by (intro map_cong) (auto simp: st(4))
  with IH Cons.prems(2) have "fst (visit body ks (snd (body k s))) = concat (map (\<lambda>j. rep j (view s j)) ks)"
    by simp
  moreover have "view (snd (visit body ks (snd (body k s)))) =
      (\<lambda>j. if j \<in> set (k # ks) then post j (view s j) else view s j)"
    using IH Cons.prems(2) by (auto simp: st(4))
  ultimately show ?case using IH Cons.prems(2) st(1,3) by simp
qed simp

lemma loop_local:
  fixes cur :: "'k option"
  assumes "inv s"
  defines "ks \<equiv> keys_from (keys (getm s)) cur"
  shows "\<exists>s'. key_loop (\<lambda>s. next_key ops (getm s)) body cur s =
      Some (concat (map (\<lambda>k. rep k (view s k)) ks), s')
    \<and> view s' = (\<lambda>k. if k \<in> set ks then post k (view s k) else view s k)
    \<and> keys (getm s') = keys (getm s) \<and> inv s'"
proof -
  have loop: "inv s \<Longrightarrow> key_loop (\<lambda>s. next_key ops (getm s)) body cur s =
      Some (visit body (keys_from (keys (getm s)) cur) s)" for cur s
  proof (induction "keys_from (keys (getm s)) cur" arbitrary: cur s)
    case Nil
    then have "next_key ops (getm s) cur = None" by (simp add: next_key_order flip: Nil.hyps)
    then show ?case by (simp add: key_loop_None flip: Nil.hyps)
  next
    case (Cons k ks)
    have mem: "k \<in> set (keys (getm s))"
      using keys_from_subset [of "keys (getm s)" cur] Cons.hyps(2) by (metis list.set_intros(1) subsetD)
    have rest: "ks = keys_from (keys (getm (snd (body k s)))) (Some k)"
      using keys_from_step [OF keys_distinct Cons.hyps(2) [symmetric]] local_keys [OF Cons.prems mem] by simp
    have "next_key ops (getm s) cur = Some k" by (simp add: next_key_order flip: Cons.hyps(2))
    then show ?case
      unfolding Cons.hyps(2) [symmetric]
      using Cons.hyps(1) [OF rest local_inv [OF Cons.prems mem]]
      by (intro key_loop_Some) (simp_all flip: rest)
  qed
  obtain pre where "keys (getm s) = pre @ ks" using keys_from_suffix ks_def by metis
  then have "distinct ks" "set ks \<subseteq> set (keys (getm s))" using keys_distinct [of "getm s"] by auto
  from visit_local [OF assms(1) this] loop [OF assms(1), of cur] show ?thesis
    by (intro exI [of _ "snd (visit body ks s)"]) (simp add: ks_def prod_eq_iff)
qed

end

subsection \<open>Bodies that print and delete\<close>

locale drain_report = bpf_hash ops keys cap
  for ops :: "('m, 'k, 'v) map_ops" and keys cap +
  fixes getm :: "'s \<Rightarrow> 'm"
    and body :: "'k \<Rightarrow> 's \<Rightarrow> 'o list \<times> 's"
    and report :: "'k \<Rightarrow> 'v \<Rightarrow> 'o list"
  assumes drain_out: "lookup_elem ops (getm s) k = Some v \<Longrightarrow> fst (body k s) = report k v"
    and drain_step: "lookup_elem ops (getm s) k = Some v \<Longrightarrow>
      getm (snd (body k s)) = snd (delete_elem ops (getm s) k)"
begin

lemma drain_keys:
  assumes "k \<in> set (keys (getm s))"
  shows "keys (getm (snd (body k s))) = remove1 k (keys (getm s))"
proof -
  obtain v where "lookup_elem ops (getm s) k = Some v" using assms keys_lookup by blast
  then show ?thesis using assms by (simp add: drain_step keys_delete)
qed

lemma drain_lookup:
  assumes "k \<in> set (keys (getm s))"
  shows "lookup_elem ops (getm (snd (body k s))) = (lookup_elem ops (getm s))(k := None)"
proof -
  obtain v where "lookup_elem ops (getm s) k = Some v" using assms keys_lookup by blast
  then show ?thesis using assms by (simp add: drain_step lookup_delete)
qed

text \<open>From a start key that is not in the map (or NULL) the loop visits every key in order.\<close>

lemma drain_all:
  assumes "cur = None \<or> (\<exists>c. cur = Some c \<and> c \<notin> set (keys (getm s)))"
  shows "key_loop (\<lambda>s. next_key ops (getm s)) body cur s = Some (visit body (keys (getm s)) s)"
  using assms
proof (induction "keys (getm s)" arbitrary: cur s)
  case Nil
  then have e: "keys (getm s) = []" by simp
  have "next_key ops (getm s) cur = None"
    by (simp add: next_key_order e keys_from_def split: option.split)
  then show ?case by (simp add: key_loop_None e)
next
  case (Cons k ks)
  have mem: "k \<in> set (keys (getm s))" by (simp flip: Cons.hyps(2))
  have rest: "ks = keys (getm (snd (body k s)))"
    using drain_keys [OF mem] Cons.hyps(2) by (metis remove1.simps(2))
  have "k \<notin> set ks" using keys_distinct [of "getm s"] by (simp flip: Cons.hyps(2))
  moreover have "keys_from (keys (getm s)) cur = keys (getm s)"
    using Cons.prems by (auto simp: keys_from_absent)
  then have "next_key ops (getm s) cur = Some k"
    by (simp add: next_key_order flip: Cons.hyps(2))
  ultimately show ?case
    unfolding Cons.hyps(2) [symmetric]
    using Cons.hyps(1) [OF rest, of "Some k"] by (intro key_loop_Some) (simp_all flip: rest)
qed

text \<open>From any start key: nothing when no key comes after it, everything otherwise.\<close>

lemma drain_from:
  assumes "keys_from (keys (getm s)) cur = k # ks"
  shows "key_loop (\<lambda>s. next_key ops (getm s)) body cur s =
    Some (visit body (k # remove1 k (keys (getm s))) s)"
proof -
  have mem: "k \<in> set (keys (getm s))"
    using keys_from_subset [of "keys (getm s)" cur] assms by (metis list.set_intros(1) subsetD)
  have "k \<notin> set (keys (getm (snd (body k s))))"
    using keys_distinct [of "getm s"] by (simp add: drain_keys [OF mem])
  then have "key_loop (\<lambda>s. next_key ops (getm s)) body (Some k) (snd (body k s)) =
      Some (visit body (remove1 k (keys (getm s))) (snd (body k s)))"
    using drain_all [of "Some k" "snd (body k s)"] by (simp add: drain_keys [OF mem])
  moreover have "next_key ops (getm s) cur = Some k" by (simp add: next_key_order assms)
  ultimately show ?thesis by (intro key_loop_Some)
qed

lemma drain_nothing:
  "keys_from (keys (getm s)) cur = [] \<Longrightarrow> key_loop (\<lambda>s. next_key ops (getm s)) body cur s = Some ([], s)"
  by (simp add: key_loop_None next_key_order)

lemma drain_returns: "\<exists>out s'. key_loop (\<lambda>s. next_key ops (getm s)) body cur s = Some (out, s')"
proof (cases "keys_from (keys (getm s)) cur")
  case Nil
  then show ?thesis using drain_nothing by blast
next
  case (Cons k ks)
  then show ?thesis using drain_from [OF Cons] by (metis prod.collapse)
qed

lemma visit_drained:
  "mset ks = mset (keys (getm s)) \<Longrightarrow> keys (getm (snd (visit body ks s))) = []"
proof (induction ks arbitrary: s)
  case (Cons k ks)
  have mem: "k \<in> set (keys (getm s))"
    using Cons.prems by (metis list.set_intros(1) set_mset_mset)
  have "mset ks = mset (keys (getm (snd (body k s))))"
    using Cons.prems by (simp add: drain_keys [OF mem] mset_remove1) (metis add_mset_remove_trivial)
  then show ?case using Cons.IH by simp
qed simp

lemma visit_drain_out:
  "distinct ks \<Longrightarrow> set ks \<subseteq> set (keys (getm s)) \<Longrightarrow>
     fst (visit body ks s) = concat (map (\<lambda>k. report k (the (lookup_elem ops (getm s) k))) ks)"
proof (induction ks arbitrary: s)
  case (Cons k ks)
  have mem: "k \<in> set (keys (getm s))" using Cons.prems by simp
  then obtain v where v: "lookup_elem ops (getm s) k = Some v" using keys_lookup by blast
  have "set ks \<subseteq> set (keys (getm (snd (body k s))))"
    using Cons.prems keys_distinct [of "getm s"] by (auto simp: drain_keys [OF mem])
  then have "fst (visit body ks (snd (body k s))) =
      concat (map (\<lambda>j. report j (the (lookup_elem ops (getm (snd (body k s))) j))) ks)"
    using Cons by simp
  also have "\<dots> = concat (map (\<lambda>j. report j (the (lookup_elem ops (getm s) j))) ks)"
    using Cons.prems by (intro arg_cong [where f = concat] map_cong) (auto simp: drain_lookup [OF mem])
  finally show ?case by (simp add: v drain_out)
qed simp

lemma visit_lookup:
  "distinct ks \<Longrightarrow> set ks \<subseteq> set (keys (getm s)) \<Longrightarrow>
     lookup_elem ops (getm (snd (visit body ks s))) = lookup_elem ops (getm s) |` (- set ks)"
proof (induction ks arbitrary: s)
  case (Cons k ks)
  have mem: "k \<in> set (keys (getm s))" using Cons.prems by simp
  have "set ks \<subseteq> set (keys (getm (snd (body k s))))"
    using Cons.prems keys_distinct [of "getm s"] by (auto simp: drain_keys [OF mem])
  then have "lookup_elem ops (getm (snd (visit body ks (snd (body k s))))) =
      (lookup_elem ops (getm s))(k := None) |` (- set ks)"
    using Cons by (simp add: drain_lookup [OF mem])
  also have "\<dots> = lookup_elem ops (getm s) |` (- set (k # ks))"
    by (rule ext) (auto simp: restrict_map_def)
  finally show ?case by simp
qed (simp add: restrict_map_def)

lemma cap_visit: "cap (getm (snd (visit body ks s))) = cap (getm s)" if "mset ks \<subseteq># mset (keys (getm s))"
  using that
proof (induction ks arbitrary: s)
  case (Cons k ks)
  then have mem: "k \<in> set (keys (getm s))"
    by (metis insert_subset_eq_iff mset.simps(2) set_mset_mset)
  then obtain v where v: "lookup_elem ops (getm s) k = Some v" using keys_lookup by blast
  have "mset ks \<subseteq># mset (keys (getm (snd (body k s))))"
    using Cons.prems by (simp add: drain_keys [OF mem] mset_remove1 insert_subset_eq_iff)
  then show ?case using Cons.IH [of "snd (body k s)"] by (simp add: drain_step [OF v] cap_delete)
qed simp

text \<open>What the loop prints and leaves, from a start key that is not the last key of the map.\<close>

theorem drain_loop:
  assumes "keys (getm s) = [] \<or> keys_from (keys (getm s)) cur \<noteq> []"
  shows "\<exists>ks s'. mset ks = mset (keys (getm s)) \<and>
    key_loop (\<lambda>s. next_key ops (getm s)) body cur s =
      Some (concat (map (\<lambda>k. report k (the (lookup_elem ops (getm s) k))) ks), s') \<and>
    s' = snd (visit body ks s) \<and> keys (getm s') = [] \<and> cap (getm s') = cap (getm s)"
proof (cases "keys_from (keys (getm s)) cur")
  case Nil
  with assms have e: "keys (getm s) = []" by simp
  show ?thesis
    by (rule exI [of _ "[]"], rule exI [of _ s]) (use drain_nothing [OF Nil] e in simp)
next
  case (Cons k r)
  let ?ks = "k # remove1 k (keys (getm s))"
  have mem: "k \<in> set (keys (getm s))"
    using keys_from_subset [of "keys (getm s)" cur] Cons by (metis list.set_intros(1) subsetD)
  then have perm: "mset ?ks = mset (keys (getm s))" by simp
  moreover have "distinct ?ks" using keys_distinct [of "getm s"] by simp
  moreover have "set ?ks \<subseteq> set (keys (getm s))" using mem set_remove1_subset by fastforce
  ultimately have out: "fst (visit body ?ks s) =
      concat (map (\<lambda>k. report k (the (lookup_elem ops (getm s) k))) ?ks)"
    by (intro visit_drain_out)
  have "key_loop (\<lambda>s. next_key ops (getm s)) body cur s = Some (visit body ?ks s)"
    by (rule drain_from [OF Cons])
  then have "key_loop (\<lambda>s. next_key ops (getm s)) body cur s =
      Some (concat (map (\<lambda>k. report k (the (lookup_elem ops (getm s) k))) ?ks), snd (visit body ?ks s))"
    using out by (metis prod.collapse)
  then show ?thesis
    using perm visit_drained [OF perm] cap_visit [of ?ks s] by (intro exI [of _ ?ks] exI) auto
qed

end

end
