(* ===== verification/Loader.thy ===== *)
theory Loader
  imports Prelude
begin

section \<open>The user-space loaders: effects, signals, polling loops\<close>

text \<open>
  Each tool's \<open>main\<close> opens and loads the BPF skeleton, attaches its programs, then polls the maps
  in a loop around \<open>sleep\<close> until a signal sets \<open>exiting\<close>, and destroys the skeleton at the label
  \<open>cleanup\<close>. What \<open>main\<close> does is a list of effects; what libbpf and the system answer is the
  record \<open>env\<close>: whether the skeleton opened, the codes of load and attach, and for each
  iteration of the loop a \<open>round\<close>: the kernel events that run the BPF programs during its sleep,
  and the signal that arrives in that sleep, if any. A signal the tool installed a handler for sets
  \<open>exiting\<close>, which is read when the loop condition is next evaluated; any other signal kills the
  process during the sleep. A list of rounds with no signal leaves the tool \<open>Running\<close>.
  The map calls of one iteration run with no kernel event in between; the interleaving of
  kernel events with single map calls is the subject of theory \<open>Race\<close>.
\<close>

datatype effect =
    Stdout string
  | Stderr string
  | Flush
  | Sleep nat
  | Destroy
  | Release string

datatype signal = SIGINT | SIGTERM

record 'e round =
  during :: "'e list"
  sig_at :: "signal option"

record 'e env =
  skel_opened :: bool
  load_err :: int
  attach_err :: int
  early_sig :: "signal option"
  rounds :: "'e round list"

datatype status = Exited int | Killed signal | Running

datatype loop_end = Stopped | KilledIn signal | Ongoing

type_synonym ('s, 'o) tick = "'s \<Rightarrow> ('o list \<times> 's) option"

text \<open>\<open>while (!exiting) { sleep(n); tick }\<close>, where \<open>H\<close> are the signals with a handler.\<close>

primrec loop_sleep_first ::
  "nat \<Rightarrow> signal list \<Rightarrow> ('e \<Rightarrow> 's \<Rightarrow> 's) \<Rightarrow> ('s, effect) tick \<Rightarrow> 'e round list \<Rightarrow> 's \<Rightarrow>
     (loop_end \<times> effect list \<times> 's) option" where
  "loop_sleep_first n H ev tick [] s = Some (Ongoing, [], s)"
| "loop_sleep_first n H ev tick (r # rs) s =
     (let s1 = fold ev (during r) s in
      case sig_at r of
        Some g \<Rightarrow>
          if g \<in> set H
          then Option.bind (tick s1) (\<lambda>(out, s2). Some (Stopped, Sleep n # out, s2))
          else Some (KilledIn g, [Sleep n], s1)
      | None \<Rightarrow>
          Option.bind (tick s1) (\<lambda>(out, s2).
          Option.bind (loop_sleep_first n H ev tick rs s2) (\<lambda>(e, out', s3).
            Some (e, Sleep n # out @ out', s3))))"

text \<open>\<open>while (!exiting) { tick; sleep(n); }\<close>\<close>

primrec loop_sleep_last ::
  "nat \<Rightarrow> signal list \<Rightarrow> ('e \<Rightarrow> 's \<Rightarrow> 's) \<Rightarrow> ('s, effect) tick \<Rightarrow> 'e round list \<Rightarrow> 's \<Rightarrow>
     (loop_end \<times> effect list \<times> 's) option" where
  "loop_sleep_last n H ev tick [] s = Some (Ongoing, [], s)"
| "loop_sleep_last n H ev tick (r # rs) s =
     Option.bind (tick s) (\<lambda>(out, s1).
       let s2 = fold ev (during r) s1 in
       case sig_at r of
         Some g \<Rightarrow> Some (if g \<in> set H then Stopped else KilledIn g, out @ [Sleep n], s2)
       | None \<Rightarrow>
           Option.bind (loop_sleep_last n H ev tick rs s2) (\<lambda>(e, out', s3).
             Some (e, out @ [Sleep n] @ out', s3)))"

text \<open>The loop with what precedes and follows it: the banner, and \<open>cleanup\<close> with \<open>err\<close> still 0.
  \<open>early_sig\<close> is a signal between the installation of the handlers and the first test of
  \<open>exiting\<close>.\<close>

definition monitor ::
  "effect list \<Rightarrow> signal list \<Rightarrow> ('e round list \<Rightarrow> 's \<Rightarrow> (loop_end \<times> effect list \<times> 's) option) \<Rightarrow>
     'e env \<Rightarrow> 's \<Rightarrow> (status \<times> effect list \<times> 's) option" where
  "monitor banner H loop env s =
     (case early_sig env of
        Some g \<Rightarrow>
          Some (if g \<in> set H then (Exited 0, banner @ [Destroy], s) else (Killed g, banner, s))
      | None \<Rightarrow>
          Option.bind (loop (rounds env) s) (\<lambda>(e, out, s').
            Some (case e of
                Stopped \<Rightarrow> (Exited 0, banner @ out @ [Destroy], s')
              | KilledIn g \<Rightarrow> (Killed g, banner @ out, s')
              | Ongoing \<Rightarrow> (Running, banner @ out, s'))))"

text \<open>A message on a stream.\<close>

definition err_line :: "string \<Rightarrow> effect" where
  "err_line s = Stderr (s @ nl)"

definition out_kv :: "string \<Rightarrow> string \<Rightarrow> effect" where
  "out_kv k v = Stdout (kv_line k v)"

subsection \<open>Every loader terminates cleanly if its tick does\<close>

text \<open>
  What the loop needs of a tool: an invariant that kernel events keep, under which a tick returns,
  keeps the invariant, and does not destroy the skeleton.
\<close>

definition sig_free :: "'e round list \<Rightarrow> bool" where
  "sig_free rs = list_all (\<lambda>r. sig_at r = None) rs"

locale polled_tool =
  fixes ev :: "'e \<Rightarrow> 's \<Rightarrow> 's"
    and tick :: "('s, effect) tick"
    and inv :: "'s \<Rightarrow> bool"
  assumes ev_inv: "inv s \<Longrightarrow> inv (ev e s)"
    and tick_returns: "inv s \<Longrightarrow> \<exists>out s'. tick s = Some (out, s') \<and> inv s' \<and> Destroy \<notin> set out"
begin

lemma events_inv: "inv s \<Longrightarrow> inv (fold ev es s)"
  by (induction es arbitrary: s) (auto simp: ev_inv)

lemma tickE:
  assumes "inv s"
  obtains out s' where "tick s = Some (out, s')" "inv s'" "Destroy \<notin> set out"
  using tick_returns [OF assms] by blast

lemma loop_first_returns:
  assumes "inv s"
  shows "\<exists>e out s'. loop_sleep_first n H ev tick rs s = Some (e, out, s') \<and> inv s' \<and>
    Destroy \<notin> set out \<and> (e = Ongoing \<longleftrightarrow> sig_free rs) \<and> (\<forall>g. e = KilledIn g \<longrightarrow> g \<notin> set H)"
  using assms
proof (induction rs arbitrary: s)
  case Nil
  then show ?case by (simp add: sig_free_def)
next
  case (Cons r rs)
  let ?s1 = "fold ev (during r) s"
  have i1: "inv ?s1" using Cons.prems by (rule events_inv)
  obtain out s2 where t: "tick ?s1 = Some (out, s2)" "inv s2" "Destroy \<notin> set out"
    using tickE [OF i1] .
  show ?case
  proof (cases "sig_at r")
    case None
    from Cons.IH [OF t(2)] t None show ?thesis by (auto simp: sig_free_def)
  next
    case (Some g)
    with t i1 show ?thesis by (cases "g \<in> set H") (auto simp: sig_free_def)
  qed
qed

lemma loop_last_returns:
  assumes "inv s"
  shows "\<exists>e out s'. loop_sleep_last n H ev tick rs s = Some (e, out, s') \<and> inv s' \<and>
    Destroy \<notin> set out \<and> (e = Ongoing \<longleftrightarrow> sig_free rs) \<and> (\<forall>g. e = KilledIn g \<longrightarrow> g \<notin> set H)"
  using assms
proof (induction rs arbitrary: s)
  case Nil
  then show ?case by (simp add: sig_free_def)
next
  case (Cons r rs)
  obtain out s1 where t: "tick s = Some (out, s1)" "inv s1" "Destroy \<notin> set out"
    using tickE [OF Cons.prems] .
  have i2: "inv (fold ev (during r) s1)" using t(2) by (rule events_inv)
  show ?case
  proof (cases "sig_at r")
    case None
    from Cons.IH [OF i2] t None show ?thesis by (auto simp: sig_free_def)
  next
    case (Some g)
    with t i2 show ?thesis by (auto simp: sig_free_def)
  qed
qed

text \<open>With a handler for both signals: the loader returns, exits with 0 exactly when a signal
  arrived, and then destroys the skeleton exactly once, as its last effect; it is never killed.\<close>

lemma monitor_clean_exit:
  assumes "inv s" and "set H = {SIGINT, SIGTERM}" and "Destroy \<notin> set banner"
    and "loop = loop_sleep_first n H ev tick \<or> loop = loop_sleep_last n H ev tick"
  shows "\<exists>st out s'. monitor banner H loop env s = Some (st, out, s') \<and> inv s' \<and>
    (if early_sig env = None \<and> sig_free (rounds env)
     then st = Running \<and> Destroy \<notin> set out
     else st = Exited 0 \<and> last out = Destroy \<and> count_list out Destroy = 1)"
proof -
  have all: "g \<in> set H" for g using assms(2) by (cases g) auto
  have c0: "Destroy \<notin> set xs \<Longrightarrow> count_list xs Destroy = 0" for xs
    by (simp add: count_list_0_iff)
  obtain e out s' where l: "loop (rounds env) s = Some (e, out, s')" "inv s'" "Destroy \<notin> set out"
      "e = Ongoing \<longleftrightarrow> sig_free (rounds env)" "\<forall>g. e = KilledIn g \<longrightarrow> g \<notin> set H"
    using assms(4) loop_first_returns [OF assms(1), of n H "rounds env"]
      loop_last_returns [OF assms(1), of n H "rounds env"] by auto
  show ?thesis
  proof (cases "early_sig env")
    case (Some g)
    then show ?thesis using assms(1,3) all by (simp add: monitor_def c0 count_list_append)
  next
    case None
    then show ?thesis using l all assms(3)
      by (cases e) (auto simp: monitor_def c0 count_list_append)
  qed
qed

text \<open>With no handler at all a signal kills the loader and the skeleton is never destroyed.\<close>

lemma monitor_no_handler:
  assumes "inv s" and "Destroy \<notin> set banner"
    and "loop = loop_sleep_first n [] ev tick \<or> loop = loop_sleep_last n [] ev tick"
  shows "\<exists>st out s'. monitor banner [] loop env s = Some (st, out, s') \<and> inv s' \<and>
    Destroy \<notin> set out \<and> (\<forall>c. st \<noteq> Exited c)"
proof -
  have stop: "loop_sleep_first n [] ev tick rs s \<noteq> Some (Stopped, out, s')"
    "loop_sleep_last n [] ev tick rs s \<noteq> Some (Stopped, out, s')" for rs s out s'
    by (induction rs arbitrary: s out s')
      (auto simp: Let_def split: option.splits bind_splits)
  obtain e out s' where l: "loop (rounds env) s = Some (e, out, s')" "inv s'" "Destroy \<notin> set out"
    using assms(3) loop_first_returns [OF assms(1), of n "[]" "rounds env"]
      loop_last_returns [OF assms(1), of n "[]" "rounds env"] by auto
  moreover have "e \<noteq> Stopped" using l(1) stop assms(3) by auto
  ultimately show ?thesis using assms(1,2)
    by (cases "early_sig env"; cases e) (auto simp: monitor_def)
qed

end

end
