(* ===== verification/MapInstances.thy ===== *)
theory MapInstances
  imports BpfMap
begin

section \<open>Maps that satisfy the laws\<close>

text \<open>
  Executable maps that the witnesses run on, and the proof that the contracts of \<open>BpfMap\<close> can
  hold. \<open>hash_ops False\<close> keeps the enumeration order when a present key is updated;
  \<open>hash_ops True\<close> moves the updated key to the front, as an update does inside one bucket of
  the kernel's hash table: both satisfy \<open>bpf_hash\<close>, only the first satisfies \<open>stable_hash\<close>.
  \<open>array_ops\<close> is an array of fixed length.
\<close>

record ('k, 'v) hmap =
  hkeys :: "'k list"
  hval :: "'k \<Rightarrow> 'v"
  hcap :: nat

definition hm_keys :: "('k, 'v) hmap \<Rightarrow> 'k list" where
  "hm_keys m = take (hcap m) (remdups (hkeys m))"

definition hm_lookup :: "('k, 'v) hmap \<Rightarrow> 'k \<Rightarrow> 'v option" where
  "hm_lookup m k = (if k \<in> set (hm_keys m) then Some (hval m k) else None)"

definition hm_update ::
  "bool \<Rightarrow> ('k, 'v) hmap \<Rightarrow> 'k \<Rightarrow> 'v \<Rightarrow> update_flag \<Rightarrow> int \<times> ('k, 'v) hmap" where
  "hm_update reorder m k v fl =
     (if k \<in> set (hm_keys m) then
        (if fl = BPF_NOEXIST then (-17, m)
         else (0, m\<lparr>hkeys := (if reorder then k # remove1 k (hm_keys m) else hm_keys m),
                    hval := (hval m)(k := v)\<rparr>))
      else if fl = BPF_EXIST then (-2, m)
      else if length (hm_keys m) < hcap m
        then (0, m\<lparr>hkeys := hm_keys m @ [k], hval := (hval m)(k := v)\<rparr>)
        else (-7, m))"

definition hash_ops :: "bool \<Rightarrow> (('k, 'v) hmap, 'k, 'v) map_ops" where
  "hash_ops reorder =
     \<lparr>lookup_elem = hm_lookup,
      lookup_errno = (\<lambda>m k. if k \<in> set (hm_keys m) then 0 else -2),
      store_elem = (\<lambda>m k v. m\<lparr>hval := (hval m)(k := v)\<rparr>),
      update_elem = hm_update reorder,
      delete_elem = (\<lambda>m k. if k \<in> set (hm_keys m)
        then (0, m\<lparr>hkeys := remove1 k (hm_keys m)\<rparr>) else (-2, m)),
      next_key = (\<lambda>m cur. first_key (keys_from (hm_keys m) cur))\<rparr>"

definition empty_hash :: "nat \<Rightarrow> ('k, 'v) hmap" where
  "empty_hash n = \<lparr>hkeys = [], hval = (\<lambda>_. undefined), hcap = n\<rparr>"

text \<open>A hash map that holds the given entries.\<close>

definition hash_of :: "nat \<Rightarrow> ('k \<times> 'v) list \<Rightarrow> ('k, 'v) hmap" where
  "hash_of n xs = \<lparr>hkeys = map fst xs, hval = (\<lambda>k. the (map_of xs k)), hcap = n\<rparr>"

definition arr_cap :: "'v list \<Rightarrow> nat" where
  "arr_cap xs = min (length xs) (2 ^ 32)"

definition array_ops :: "('v list, u32, 'v) map_ops" where
  "array_ops =
     \<lparr>lookup_elem = (\<lambda>m k. if unat k < length m then Some (m ! unat k) else None),
      lookup_errno = (\<lambda>m k. if unat k < length m then 0 else -2),
      store_elem = (\<lambda>m k v. m[unat k := v]),
      update_elem = (\<lambda>m k v fl.
        if unat k < length m then if fl = BPF_NOEXIST then (-17, m) else (0, m[unat k := v])
        else if fl = BPF_EXIST then (-2, m) else (-7, m)),
      delete_elem = (\<lambda>m k. (-22, m)),
      next_key = (\<lambda>m cur. first_key (keys_from (map word_of_nat [0..<arr_cap m]) cur))\<rparr>"

subsection \<open>The laws hold\<close>

lemma hm_keys_distinct: "distinct (hm_keys m)"
  by (simp add: hm_keys_def)

lemma hm_keys_cap: "length (hm_keys m) \<le> hcap m"
  by (simp add: hm_keys_def)

lemma hm_keys_exact:
  "distinct ks \<Longrightarrow> length ks \<le> hcap m \<Longrightarrow> hm_keys (m\<lparr>hkeys := ks\<rparr>) = ks"
  by (simp add: hm_keys_def distinct_remdups_id)

lemma hm_keys_hval [simp]: "hm_keys (m\<lparr>hval := f\<rparr>) = hm_keys m"
  by (simp add: hm_keys_def)

lemma hm_keys_self [simp]: "hm_keys (m\<lparr>hkeys := hm_keys m\<rparr>) = hm_keys m"
  by (simp add: hm_keys_exact hm_keys_distinct hm_keys_cap)

lemma hm_keys_front:
  assumes "k \<in> set (hm_keys m)"
  shows "hm_keys (m\<lparr>hkeys := k # remove1 k (hm_keys m)\<rparr>) = k # remove1 k (hm_keys m)"
proof (rule hm_keys_exact)
  show "distinct (k # remove1 k (hm_keys m))" using hm_keys_distinct [of m] by simp
  have "length (hm_keys m) > 0" using assms by auto
  then show "length (k # remove1 k (hm_keys m)) \<le> hcap m"
    using assms hm_keys_cap [of m] by (simp add: length_remove1)
qed

lemma hm_keys_add:
  "k \<notin> set (hm_keys m) \<Longrightarrow> length (hm_keys m) < hcap m \<Longrightarrow>
     hm_keys (m\<lparr>hkeys := hm_keys m @ [k]\<rparr>) = hm_keys m @ [k]"
  using hm_keys_distinct [of m] by (intro hm_keys_exact) auto

lemma hm_keys_remove: "hm_keys (m\<lparr>hkeys := remove1 k (hm_keys m)\<rparr>) = remove1 k (hm_keys m)"
  using hm_keys_distinct [of m] hm_keys_cap [of m]
  by (intro hm_keys_exact) (auto simp: length_remove1)

lemmas hm_keys_upd = hm_keys_front hm_keys_add hm_keys_remove

lemma set_remove1_hm_keys: "set (remove1 k (hm_keys m)) = set (hm_keys m) - {k}"
  by (simp add: hm_keys_distinct)

interpretation hm: bpf_hash "hash_ops reorder" hm_keys hcap
proof (unfold_locales, goal_cases)
  case (9 m k v fl)
  then show ?case
    by (auto simp: hash_ops_def hm_update_def hm_lookup_def hm_keys_upd set_remove1_hm_keys
        intro!: ext split: if_splits)
next
  case (17 k m)
  then show ?case
    by (auto simp: hash_ops_def hm_lookup_def hm_keys_upd set_remove1_hm_keys intro!: ext)
qed (auto simp: hash_ops_def hm_update_def hm_lookup_def hm_keys_distinct hm_keys_cap hm_keys_upd
      split: if_splits)

interpretation hs: stable_hash "hash_ops False" hm_keys hcap
  by unfold_locales (simp add: hash_ops_def hm_update_def)

definition arr_keys :: "'v list \<Rightarrow> u32 list" where
  "arr_keys m = map word_of_nat [0..<arr_cap m]"

lemma distinct_arr_keys: "distinct (arr_keys m)"
proof -
  have "inj_on (word_of_nat :: nat \<Rightarrow> u32) {0..<arr_cap m}"
    by (rule inj_onI) (auto simp: arr_cap_def word_of_nat_eq_iff take_bit_nat_eq_self)
  then show ?thesis by (simp add: arr_keys_def distinct_map)
qed

lemma unat_u32_less: "unat (k::u32) < 2 ^ 32"
  using unsigned_less [of k] by simp

lemma set_arr_keys: "k \<in> set (arr_keys m) \<longleftrightarrow> unat k < length m"
proof
  assume "k \<in> set (arr_keys m)"
  then show "unat k < length m"
    by (auto simp: arr_keys_def arr_cap_def unat_of_nat take_bit_nat_eq_self)
next
  assume "unat k < length m"
  then have "unat k < arr_cap m" using unat_u32_less [of k] by (simp add: arr_cap_def)
  moreover have "k = word_of_nat (unat k)" by simp
  ultimately show "k \<in> set (arr_keys m)"
    unfolding arr_keys_def set_map by (intro image_eqI [of _ _ "unat k"]) auto
qed

text \<open>The indices of a loop \<open>for (i = 0; i < n; i++)\<close> as keys.\<close>

lemma index_words:
  assumes "n \<le> 2 ^ 32"
  shows "set (map of_nat [0..<n]) = {c :: u32. unat c < n}" and "distinct (map of_nat [0..<n] :: u32 list)"
proof -
  have arr: "map of_nat [0..<n] = arr_keys (replicate n ())" using assms by (simp add: arr_keys_def arr_cap_def)
  show "set (map of_nat [0..<n]) = {c :: u32. unat c < n}" unfolding arr by (auto simp: set_arr_keys)
  show "distinct (map of_nat [0..<n] :: u32 list)" unfolding arr by (rule distinct_arr_keys)
qed

interpretation ar: bpf_array array_ops arr_keys arr_cap
proof (unfold_locales, goal_cases)
  case 1 show ?case by (rule distinct_arr_keys)
next
  case (3 m) show ?case by (simp add: arr_keys_def)
next
  case (5 m cur) show ?case by (simp add: array_ops_def arr_keys_def)
next
  case (7 k m v) show ?case by (simp add: array_ops_def arr_keys_def arr_cap_def)
next
  case (8 m k v) show ?case by (simp add: array_ops_def arr_cap_def)
next
  case (13 m k v fl) show ?case by (simp add: array_ops_def arr_cap_def)
next
  case (14 k m) show ?case using unat_u32_less [of k] by (simp add: set_arr_keys arr_cap_def)
next
  case (15 k m fl v) then show ?case by (simp add: array_ops_def arr_cap_def)
qed (auto simp: set_arr_keys array_ops_def nth_list_update word_unat_eq_iff
      intro!: ext split: if_splits)

interpretation ca: counter_array array_ops arr_keys arr_cap
  by unfold_locales

lemma hm_keys_empty [simp]: "hm_keys (empty_hash n) = []"
  by (simp add: hm_keys_def empty_hash_def)

lemma hcap_empty [simp]: "hcap (empty_hash n) = n"
  by (simp add: empty_hash_def)

lemma lookup_empty_hash [simp]: "lookup_elem (hash_ops r) (empty_hash n) = (\<lambda>k. None)"
  by (simp add: fun_eq_iff hash_ops_def hm_lookup_def)

lemma lookup_array [simp]:
  "lookup_elem array_ops m k = (if unat k < length m then Some (m ! unat k) else None)"
  by (simp add: array_ops_def)

lemma arr_cap_small [simp]: "length m < 2 ^ 32 \<Longrightarrow> arr_cap m = length m"
  by (simp add: arr_cap_def)

lemma hm_keys_of [simp]:
  "distinct (map fst xs) \<Longrightarrow> length xs \<le> n \<Longrightarrow> hm_keys (hash_of n xs) = map fst xs"
  by (simp add: hm_keys_def hash_of_def distinct_remdups_id)

lemma hcap_of [simp]: "hcap (hash_of n xs) = n"
  by (simp add: hash_of_def)

lemma lookup_hash_of [simp]:
  assumes "distinct (map fst xs)" and "length xs \<le> n"
  shows "lookup_elem (hash_ops r) (hash_of n xs) k = map_of xs k"
proof (cases "k \<in> fst ` set xs")
  case True
  then obtain v where "map_of xs k = Some v" by (metis map_of_eq_None_iff not_None_eq)
  with True assms show ?thesis
    by (simp add: hash_ops_def hm_lookup_def) (simp add: hash_of_def)
next
  case False
  then have "map_of xs k = None" by (simp add: map_of_eq_None_iff)
  with False assms show ?thesis by (simp add: hash_ops_def hm_lookup_def)
qed

end
