(* ===== verification/CDouble.thy ===== *)
theory CDouble
  imports Complex_Main Prelude "HOL-Library.Log_Nat"
begin

section \<open>Doubles in printed values\<close>

text \<open>
  The loaders print microseconds and kilobytes with \<open>%.3f\<close> from expressions such as
  \<open>delta / 1000.0\<close> and \<open>(bytes / 1024.0) / count\<close>: an unsigned 64-bit integer converted to
  \<open>double\<close>, divided as doubles. A non-negative double is the rational it denotes; \<open>rnd53\<close> rounds
  to 53 significant bits, ties to even (IEEE 754 binary64; the values here are between 2^-74 and
  2^64 or zero, far from overflow and from the subnormal range). \<open>fmt_f3\<close> is \<open>%.3f\<close>: the exact
  value rounded to three decimals, ties to even.
  Shown: the relative error of a division, exactness of conversions below 2^53, and that a number
  of nanoseconds below 2^52 printed as \<open>n / 1000.0\<close> shows exactly its microseconds and the three
  digits after them.
\<close>

definition rne :: "rat \<Rightarrow> int" where
  "rne q = (let f = \<lfloor>q\<rfloor>; d = q - of_int f in
     if d < 1/2 then f else if d > 1/2 then f + 1 else if even f then f else f + 1)"

text \<open>The exponent \<open>e\<close> with \<open>2^52 \<le> q / 2^e < 2^53\<close> for \<open>q > 0\<close>.\<close>

definition expo53 :: "rat \<Rightarrow> int" where
  "expo53 q = (case quotient_of q of (n, d) \<Rightarrow>
     let b = int (floorlog 2 (nat n)) - int (floorlog 2 (nat d)) in
     if power_int 2 b \<le> q then b - 52 else b - 53)"

definition rnd53 :: "rat \<Rightarrow> rat" where
  "rnd53 q = (if q \<le> 0 then 0
     else of_int (rne (q / power_int 2 (expo53 q))) * power_int 2 (expo53 q))"

definition d_of_u64 :: "u64 \<Rightarrow> rat" where
  "d_of_u64 w = rnd53 (of_nat (unat w))"

definition d_div :: "rat \<Rightarrow> rat \<Rightarrow> rat" where
  "d_div a b = rnd53 (a / b)"

definition pad3 :: "nat \<Rightarrow> string" where
  "pad3 n = [digit_char (n div 100), digit_char (n div 10 mod 10), digit_char (n mod 10)]"

definition fmt_milli :: "nat \<Rightarrow> string" where
  "fmt_milli t = fmt_nat (t div 1000) @ ''.'' @ pad3 (t mod 1000)"

definition fmt_f3 :: "rat \<Rightarrow> string" where
  "fmt_f3 q = fmt_milli (nat (rne (q * 1000)))"

text \<open>\<open>printf("%.3f", n / 1000.0)\<close>\<close>

definition fmt_us :: "u64 \<Rightarrow> string" where
  "fmt_us w = fmt_f3 (d_div (d_of_u64 w) 1000)"

text \<open>\<open>printf("%.3f", (n / unit) / c)\<close> for \<open>uint64_t\<close> operands \<open>n\<close> and \<open>c\<close>.\<close>

definition fmt_avg :: "rat \<Rightarrow> u64 \<Rightarrow> u64 \<Rightarrow> string" where
  "fmt_avg unit n c = fmt_f3 (d_div (d_div (d_of_u64 n) unit) (d_of_u64 c))"

subsection \<open>Rounding\<close>

lemma rne_error: "\<bar>of_int (rne q) - q\<bar> \<le> 1/2"
proof -
  have "of_int \<lfloor>q\<rfloor> \<le> q" "q < of_int \<lfloor>q\<rfloor> + 1" by linarith+
  then show ?thesis by (auto simp: rne_def Let_def abs_le_iff)
qed

lemma rne_of_int [simp]: "rne (of_int i) = i"
  by (simp add: rne_def)

lemma rne_near:
  assumes "\<bar>q - of_int i\<bar> < 1/2"
  shows "rne q = i"
proof -
  have "\<bar>of_int (rne q) - of_int i\<bar> < (1::rat)"
    using assms rne_error [of q] by linarith
  then have "\<bar>rne q - i\<bar> < 1" by (metis of_int_abs of_int_diff of_int_less_1_iff)
  then show ?thesis by simp
qed

lemma floorlog_rat_bounds:
  assumes "0 < m"
  shows "power_int 2 (int (floorlog 2 m) - 1) \<le> (of_nat m :: rat)"
    and "(of_nat m :: rat) < power_int 2 (int (floorlog 2 m))"
proof -
  have b: "2 ^ (floorlog 2 m - 1) \<le> m" "m < 2 ^ floorlog 2 m"
    using floorlog_bounds [of m 2] assms by auto
  have pos: "0 < floorlog 2 m" using b(2) assms by (cases "floorlog 2 m") auto
  have "power_int 2 (int (floorlog 2 m) - 1) = (2 ^ (floorlog 2 m - 1) :: rat)"
    using pos by (simp add: power_int_def nat_diff_distrib)
  also have "\<dots> \<le> of_nat m" using b(1) by (metis of_nat_le_iff of_nat_numeral of_nat_power)
  finally show "power_int 2 (int (floorlog 2 m) - 1) \<le> (of_nat m :: rat)" .
  have "(of_nat m :: rat) < 2 ^ floorlog 2 m" using b(2) by (metis of_nat_less_iff of_nat_numeral of_nat_power)
  then show "(of_nat m :: rat) < power_int 2 (int (floorlog 2 m))" by simp
qed

lemma expo53_bounds:
  assumes "0 < q"
  shows "power_int 2 (expo53 q + 52) \<le> q" and "q < power_int 2 (expo53 q + 53)"
proof -
  obtain n d where nd: "quotient_of q = (n, d)" by (cases "quotient_of q")
  then have d0: "0 < d" and q: "q = of_int n / of_int d"
    using quotient_of_denom_pos quotient_of_div by blast+
  with assms have n0: "0 < n" by (simp add: zero_less_divide_iff)
  define bn bd where "bn = int (floorlog 2 (nat n))" and "bd = int (floorlog 2 (nat d))"
  have n_b: "power_int 2 (bn - 1) \<le> (of_int n :: rat)" "(of_int n :: rat) < power_int 2 bn"
    using floorlog_rat_bounds [of "nat n"] n0 by (simp_all add: bn_def)
  have d_b: "power_int 2 (bd - 1) \<le> (of_int d :: rat)" "(of_int d :: rat) < power_int 2 bd"
    using floorlog_rat_bounds [of "nat d"] d0 by (simp_all add: bd_def)
  have p: "power_int 2 x > (0::rat)" for x by simp
  have add: "power_int 2 (x + y) = power_int 2 x * (power_int 2 y :: rat)" for x y
    by (simp add: power_int_add)
  have "q < power_int 2 bn / power_int 2 (bd - 1)"
    unfolding q using n_b d_b d0 n0 p by (intro frac_less) auto
  also have "\<dots> = power_int 2 (bn - bd + 1)"
    by (simp add: power_int_diff power_int_add field_simps)
  finally have up: "q < power_int 2 (bn - bd + 1)" .
  have "power_int 2 (bn - 1) / power_int 2 bd \<le> q"
    unfolding q using n_b d_b d0 n0 p by (intro frac_le) auto
  moreover have "power_int 2 (bn - 1) / power_int 2 bd = (power_int 2 (bn - bd - 1) :: rat)"
    by (simp add: power_int_diff power_int_add field_simps)
  ultimately have lo: "power_int 2 (bn - bd - 1) \<le> q" by simp
  have e: "expo53 q = (if power_int 2 (bn - bd) \<le> q then bn - bd - 52 else bn - bd - 53)"
    by (simp add: expo53_def nd Let_def bn_def bd_def)
  show "power_int 2 (expo53 q + 52) \<le> q" using lo by (simp add: e)
  show "q < power_int 2 (expo53 q + 53)" using up by (simp add: e add.commute)
qed

lemma rnd53_error:
  assumes "0 \<le> q"
  shows "\<bar>rnd53 q - q\<bar> \<le> q / 2 ^ 53"
proof (cases "q = 0")
  case True
  then show ?thesis by (simp add: rnd53_def)
next
  case False
  with assms have q: "0 < q" by simp
  define p where "p = (power_int 2 (expo53 q) :: rat)"
  have p0: "0 < p" by (simp add: p_def)
  have "p * 2 ^ 52 \<le> q"
    using expo53_bounds(1) [OF q] by (simp add: p_def power_int_add)
  then have small: "p / 2 \<le> q / 2 ^ 53" by simp
  have "rnd53 q - q = (of_int (rne (q / p)) - q / p) * p"
    using q p0 by (simp add: rnd53_def p_def [symmetric] field_simps)
  then have "\<bar>rnd53 q - q\<bar> = \<bar>of_int (rne (q / p)) - q / p\<bar> * p"
    using p0 by (simp add: abs_mult)
  also have "\<dots> \<le> 1/2 * p" using rne_error [of "q / p"] p0 by (intro mult_right_mono) auto
  finally show ?thesis using small by simp
qed

lemma rnd53_exact:
  assumes "n < 2 ^ 53"
  shows "rnd53 (of_nat n) = of_nat n"
proof (cases "n = 0")
  case True
  then show ?thesis by (simp add: rnd53_def)
next
  case False
  then have q: "(0::rat) < of_nat n" by simp
  have "expo53 (of_nat n) \<le> 0"
  proof (rule ccontr)
    assume "\<not> expo53 (of_nat n) \<le> 0"
    then have "power_int 2 53 \<le> (power_int 2 (expo53 (of_nat n) + 52) :: rat)"
      by (intro power_int_increasing) auto
    also have "\<dots> \<le> of_nat n" by (rule expo53_bounds(1) [OF q])
    finally have "(2 ^ 53 :: rat) \<le> of_nat n" by simp
    then have "2 ^ 53 \<le> n" by (metis of_nat_le_iff of_nat_numeral of_nat_power)
    with assms show False by simp
  qed
  then obtain k where k: "expo53 (of_nat n) = - int k" by (metis nonpos_int_cases)
  have "(of_nat n :: rat) / power_int 2 (- int k) = of_int (int n * 2 ^ k)"
    by (simp add: power_int_minus field_simps)
  then have "rnd53 (of_nat n) = of_int (int n * 2 ^ k) * power_int 2 (- int k)"
    using q by (simp only: rnd53_def k rne_of_int) simp
  then show ?thesis by (simp add: power_int_minus field_simps)
qed

lemma d_of_u64_exact: "unat w < 2 ^ 53 \<Longrightarrow> d_of_u64 w = of_nat (unat w)"
  unfolding d_of_u64_def by (rule rnd53_exact)

lemma rne_div_1000:
  assumes "n < 2 ^ 52"
  shows "rne (d_div (of_nat n) 1000 * 1000) = int n"
proof (rule rne_near)
  have n: "(of_nat n :: rat) < 2 ^ 52" using assms by (metis of_nat_less_iff of_nat_numeral of_nat_power)
  have "\<bar>d_div (of_nat n) 1000 - of_nat n / 1000\<bar> \<le> of_nat n / 1000 / 2 ^ 53"
    using rnd53_error [of "of_nat n / 1000"] by (simp add: d_div_def)
  then have "\<bar>d_div (of_nat n) 1000 * 1000 - of_nat n\<bar> \<le> of_nat n / 2 ^ 53"
    by (simp add: abs_le_iff field_simps)
  also have "\<dots> < 1/2" using n by simp
  finally show "\<bar>d_div (of_nat n) 1000 * 1000 - of_int (int n)\<bar> < 1/2" by simp
qed

lemma fmt_us_exact_aux:
  assumes "unat w < 2 ^ 52"
  shows "rne (d_div (d_of_u64 w) 1000 * 1000) = int (unat w)"
proof -
  have "d_of_u64 w = of_nat (unat w)" using assms by (intro d_of_u64_exact) simp
  then show ?thesis using rne_div_1000 [OF assms] by (simp only:)
qed

lemma fmt_us_milli: "unat w < 2 ^ 52 \<Longrightarrow> fmt_us w = fmt_milli (unat w)"
  by (simp only: fmt_us_def fmt_f3_def fmt_us_exact_aux nat_int)

text \<open>C35: \<open>printf("%.3f", n / 1000.0)\<close> of a number of nanoseconds below 2^52 (52 days) prints
  exactly \<open>n div 1000\<close>, a dot and the three digits of \<open>n mod 1000\<close>: converting to double,
  dividing and rounding to three decimals lose nothing.\<close>

theorem fmt_us_exact:
  assumes "unat w < 2 ^ 52"
  shows "fmt_us w = fmt_nat (unat w div 1000) @ ''.'' @ pad3 (unat w mod 1000)"
  by (simp only: fmt_us_milli [OF assms] fmt_milli_def)

theorem fmt_us_exact_witness: "fmt_us 1234567 = ''1234.567''"
  using fmt_us_exact [of 1234567]
  by (simp add: fmt_simps pad3_def)

end
