(* ===== verification/CpuFreq.thy ===== *)
theory CpuFreq
  imports KeyWalk Loader MapInstances CDouble
begin

section \<open>cpu_freq_stat: frequency changes by core\<close>

text \<open>
  \<open>my_tools/cpu/cpu_freq_stat.bpf.c\<close> keeps, in an array map indexed by core, the sum, number,
  minimum, maximum and last value of the frequencies of the trace events;
  \<open>my_tools/cpu/cpu_freq_stat.c\<close> prints the last value in MHz.
  Shown: the contents of the map after any sequence of events (the minimum stays 0, because an
  element of an array map is never absent), and the exact text of the output.
\<close>

record freq_info =
  total_freq :: u64
  freq_count :: u64
  min_freq :: u64
  max_freq :: u64
  cur_freq :: u64

record cpu_frequency_args =
  freq_state :: u32
  cpu_id :: u32

record 'a cpu_freq_maps =
  cpu_freq_map :: 'a

definition MAX_CPUS :: nat where
  "MAX_CPUS = 256"

definition handle_cpu_frequency ::
  "('a, u32, freq_info) map_ops \<Rightarrow> cpu_frequency_args \<Rightarrow> 'a cpu_freq_maps \<Rightarrow> int \<times> 'a cpu_freq_maps" where
  "handle_cpu_frequency ops ctx s =
     (let cpu = cpu_id ctx;
          freq = (ucast (freq_state ctx) :: u64)
      in if unat cpu \<ge> MAX_CPUS then (0, s)
      else case lookup_elem ops (cpu_freq_map s) cpu of
        None \<Rightarrow>
          let new_info = \<lparr>total_freq = freq, freq_count = 1, min_freq = freq, max_freq = freq, cur_freq = freq\<rparr>
          in (0, s\<lparr>cpu_freq_map := snd (update_elem ops (cpu_freq_map s) cpu new_info BPF_ANY)\<rparr>)
      | Some info \<Rightarrow>
          let info1 = info\<lparr>cur_freq := freq\<rparr>;
              info2 = info1\<lparr>total_freq := total_freq info1 + freq\<rparr>;
              info3 = info2\<lparr>freq_count := freq_count info2 + 1\<rparr>;
              info4 = (if freq < min_freq info3 then info3\<lparr>min_freq := freq\<rparr> else info3);
              info5 = (if freq > max_freq info4 then info4\<lparr>max_freq := freq\<rparr> else info4)
          in (0, s\<lparr>cpu_freq_map := store_elem ops (cpu_freq_map s) cpu info5\<rparr>))"

definition cpu_freq_event ::
  "('a, u32, freq_info) map_ops \<Rightarrow> cpu_frequency_args \<Rightarrow> 'a cpu_freq_maps \<Rightarrow> 'a cpu_freq_maps" where
  "cpu_freq_event ops e s = snd (handle_cpu_frequency ops e s)"

definition cpu_freq_body ::
  "('a, u32, freq_info) map_ops \<Rightarrow> u32 \<Rightarrow> 'a cpu_freq_maps \<Rightarrow> effect list \<times> 'a cpu_freq_maps" where
  "cpu_freq_body ops cpu s =
     (case lookup_elem ops (cpu_freq_map s) cpu of
        Some info \<Rightarrow>
          (if cur_freq info > 0
           then [out_kv (''cpu_'' @ fmt_u cpu @ ''_freq_mhz'') (fmt_us (cur_freq info))] else [], s)
      | None \<Rightarrow> ([], s))"

definition cpu_freq_tick ::
  "('a, u32, freq_info) map_ops \<Rightarrow> ('a cpu_freq_maps, effect) tick" where
  "cpu_freq_tick ops s =
     (let (out, s') = visit (cpu_freq_body ops) (map of_nat [0..<MAX_CPUS]) s in Some (out @ [Flush], s'))"

definition cpu_freq_main ::
  "('a, u32, freq_info) map_ops \<Rightarrow> cpu_frequency_args env \<Rightarrow> 'a cpu_freq_maps \<Rightarrow>
     (status \<times> effect list \<times> 'a cpu_freq_maps) option" where
  "cpu_freq_main ops env s =
     (if \<not> skel_opened env
      then Some (Exited 1, [err_line ''Failed to open and load BPF skeleton''], s)
      else if attach_err env \<noteq> 0
      then Some (Exited (attach_err env), [err_line ''Failed to attach BPF programs'', Destroy], s)
      else monitor [err_line ''CPU Frequency Monitor - Ctrl+C to stop''] [SIGINT, SIGTERM]
             (loop_sleep_first 1 [SIGINT, SIGTERM] (cpu_freq_event ops) (cpu_freq_tick ops)) env s)"

subsection \<open>The tool over an array map\<close>

definition zero_info :: freq_info where
  "zero_info = \<lparr>total_freq = 0, freq_count = 0, min_freq = 0, max_freq = 0, cur_freq = 0\<rparr>"

text \<open>The frequencies of core \<open>c\<close> in a sequence of events.\<close>

definition freqs_of :: "cpu_frequency_args list \<Rightarrow> u32 \<Rightarrow> u64 list" where
  "freqs_of es c = map (\<lambda>e. ucast (freq_state e)) (filter (\<lambda>e. cpu_id e = c) es)"

definition freq_summary :: "freq_info \<Rightarrow> u64 list \<Rightarrow> freq_info" where
  "freq_summary i fs =
     \<lparr>total_freq = total_freq i + sum_list fs, freq_count = freq_count i + of_nat (length fs),
      min_freq = min_freq i, max_freq = fold max fs (max_freq i),
      cur_freq = (if fs = [] then cur_freq i else last fs)\<rparr>"

definition freq_line :: "u32 \<Rightarrow> freq_info option \<Rightarrow> effect list" where
  "freq_line c i =
     (case i of Some info \<Rightarrow>
        if cur_freq info > 0 then [out_kv (''cpu_'' @ fmt_u c @ ''_freq_mhz'') (fmt_us (cur_freq info))] else []
      | None \<Rightarrow> [])"

lemma tick_lines:
  "cpu_freq_tick ops s =
     Some (concat (map (\<lambda>c. freq_line c (lookup_elem ops (cpu_freq_map s) c)) (map of_nat [0..<MAX_CPUS])) @ [Flush], s)"
proof -
  have "visit (cpu_freq_body ops) ks s =
      (concat (map (\<lambda>c. freq_line c (lookup_elem ops (cpu_freq_map s) c)) ks), s)" for ks
    by (induction ks) (simp_all add: cpu_freq_body_def freq_line_def split: option.split)
  then show ?thesis by (simp add: cpu_freq_tick_def)
qed

locale cpu_freq = bpf_array ops keys cap
  for ops :: "('a, u32, freq_info) map_ops" and keys :: "'a \<Rightarrow> u32 list" and cap
begin

lemma event_lookup:
  assumes "cap (cpu_freq_map s) = MAX_CPUS" and "unat c < MAX_CPUS"
    and "lookup_elem ops (cpu_freq_map s) c = Some i" and "min_freq i = 0"
  shows "lookup_elem ops (cpu_freq_map (cpu_freq_event ops e s)) c = Some (freq_summary i (freqs_of [e] c))"
    and "cap (cpu_freq_map (cpu_freq_event ops e s)) = MAX_CPUS"
proof -
  show "cap (cpu_freq_map (cpu_freq_event ops e s)) = MAX_CPUS"
    using assms(1) by (simp add: cpu_freq_event_def handle_cpu_frequency_def Let_def cap_store cap_update
        split: option.split)
  show "lookup_elem ops (cpu_freq_map (cpu_freq_event ops e s)) c = Some (freq_summary i (freqs_of [e] c))"
  proof (cases "cpu_id e = c")
    case True
    then show ?thesis using assms keys_lookup_Some [OF assms(3)]
      by (auto simp: cpu_freq_event_def handle_cpu_frequency_def Let_def freq_summary_def freqs_of_def lookup_store max_def)
  next
    case False
    then have same: "freq_summary i (freqs_of [e] c) = i" by (simp add: freq_summary_def freqs_of_def)
    show ?thesis
    proof (cases "unat (cpu_id e) < MAX_CPUS")
      case True
      then obtain j where "lookup_elem ops (cpu_freq_map s) (cpu_id e) = Some j" using array_lookup assms(1) by metis
      then show ?thesis using False assms(3) True keys_lookup_Some
        by (simp add: same cpu_freq_event_def handle_cpu_frequency_def Let_def lookup_store)
    next
      case False
      then show ?thesis using assms(3) by (simp add: same cpu_freq_event_def handle_cpu_frequency_def)
    qed
  qed
qed

lemma run_lookup:
  assumes "cap (cpu_freq_map s) = MAX_CPUS" and "unat c < MAX_CPUS"
    and "lookup_elem ops (cpu_freq_map s) c = Some i" and "min_freq i = 0"
  shows "lookup_elem ops (cpu_freq_map (fold (cpu_freq_event ops) es s)) c = Some (freq_summary i (freqs_of es c))"
  using assms
proof (induction es arbitrary: s i)
  case (Cons e es)
  note ev = event_lookup [OF Cons.prems]
  have "min_freq (freq_summary i (freqs_of [e] c)) = 0" using Cons.prems(4) by (simp add: freq_summary_def)
  from Cons.IH [OF ev(2) Cons.prems(2) ev(1) this] show ?case
    by (auto simp: freq_summary_def freqs_of_def add.assoc)
qed (simp add: freq_summary_def freqs_of_def)

end

interpretation cf_array: cpu_freq array_ops arr_keys arr_cap
  by unfold_locales

lemma freqs_of_bound: "f \<in> set (freqs_of es c) \<Longrightarrow> unat f < 2 ^ 32"
proof -
  assume "f \<in> set (freqs_of es c)"
  then obtain e :: cpu_frequency_args where "f = ucast (freq_state e)" by (auto simp: freqs_of_def)
  then show ?thesis using unat_u32_less [of "freq_state e"] by (simp add: unsigned_ucast_eq take_bit_nat_eq_self)
qed

subsection \<open>Properties\<close>

text \<open>Starting from the zeroed array map, after any sequence of frequency events the entry of a
  core below \<open>MAX_CPUS\<close> holds the sum, the number, the maximum and the last of its frequencies, but
  its minimum is 0 whatever the events were: the branch that would initialise it is never taken,
  because a lookup in an array map does not fail.\<close>

theorem cpu_freq_summary:
  assumes "bpf_array ops keys cap" and "cap (cpu_freq_map s) = MAX_CPUS" and "unat c < MAX_CPUS"
    and "lookup_elem ops (cpu_freq_map s) c = Some zero_info"
  shows "lookup_elem ops (cpu_freq_map (fold (cpu_freq_event ops) es s)) c =
    Some \<lparr>total_freq = sum_list (freqs_of es c), freq_count = of_nat (length (freqs_of es c)),
          min_freq = 0, max_freq = fold max (freqs_of es c) 0,
          cur_freq = (if freqs_of es c = [] then 0 else last (freqs_of es c))\<rparr>"
  using cpu_freq.run_lookup [OF cpu_freq.intro [OF assms(1)] assms(2-4)]
  by (simp add: freq_summary_def zero_info_def)

definition freq_demo :: "cpu_frequency_args list" where
  "freq_demo = [\<lparr>freq_state = 2400000, cpu_id = 3\<rparr>, \<lparr>freq_state = 800000, cpu_id = 3\<rparr>]"

definition freq_init :: "freq_info list cpu_freq_maps" where
  "freq_init = \<lparr>cpu_freq_map = replicate MAX_CPUS zero_info\<rparr>"

theorem cpu_freq_summary_witness:
  "lookup_elem array_ops (cpu_freq_map (fold (cpu_freq_event array_ops)
       freq_demo
       freq_init)) 3 =
    Some \<lparr>total_freq = 3200000, freq_count = 2, min_freq = 0, max_freq = 2400000, cur_freq = 800000\<rparr>"
  by (subst cpu_freq_summary [OF ar.bpf_array_axioms])
    (simp_all add: freq_init_def freq_demo_def MAX_CPUS_def freqs_of_def max_def)

text \<open>From the zeroed map, an iteration of cpu_freq_stat prints, for each core from 0 to 255 that
  has had an event with a non-zero last frequency, that frequency: the kHz value divided by 1000
  with exactly three decimals, so no digit is lost in the conversion to double.\<close>

theorem cpu_freq_prints_last:
  assumes "bpf_array ops keys cap" and "cap (cpu_freq_map s) = MAX_CPUS"
    and "\<And>c. unat c < MAX_CPUS \<Longrightarrow> lookup_elem ops (cpu_freq_map s) c = Some zero_info"
  shows "\<exists>s'. cpu_freq_tick ops (fold (cpu_freq_event ops) es s) =
    Some (concat (map (\<lambda>c. let fs = freqs_of es c in
        if fs \<noteq> [] \<and> last fs > 0
        then [out_kv (''cpu_'' @ fmt_u c @ ''_freq_mhz'') (fmt_milli (unat (last fs)))] else [])
      (map of_nat [0..<MAX_CPUS])) @ [Flush], s')"
proof -
  let ?s1 = "fold (cpu_freq_event ops) es s"
  have line: "freq_line c (lookup_elem ops (cpu_freq_map ?s1) c) = (let fs = freqs_of es c in
        if fs \<noteq> [] \<and> last fs > 0
        then [out_kv (''cpu_'' @ fmt_u c @ ''_freq_mhz'') (fmt_milli (unat (last fs)))] else [])"
    if "c \<in> set (map of_nat [0..<MAX_CPUS])" for c
  proof -
    have "unat c < MAX_CPUS" using that index_words(1) [of MAX_CPUS] by (simp add: MAX_CPUS_def)
    note look = cpu_freq.run_lookup [OF cpu_freq.intro [OF assms(1)] assms(2) this assms(3) [OF this], of es]
    have "freqs_of es c \<noteq> [] \<Longrightarrow> unat (last (freqs_of es c)) < 2 ^ 52"
      using freqs_of_bound [of "last (freqs_of es c)" es c] by simp
    then show ?thesis by (simp add: look freq_line_def freq_summary_def zero_info_def fmt_us_milli Let_def)
  qed
  show ?thesis unfolding tick_lines by (simp only: map_cong [OF refl line]) blast
qed

theorem cpu_freq_prints_last_witness:
  "\<exists>s'. cpu_freq_tick array_ops (fold (cpu_freq_event array_ops)
       freq_demo
       freq_init) =
    Some (concat (map (\<lambda>c. let fs = freqs_of freq_demo c in
        if fs \<noteq> [] \<and> last fs > 0
        then [out_kv (''cpu_'' @ fmt_u c @ ''_freq_mhz'') (fmt_milli (unat (last fs)))] else [])
      (map of_nat [0..<MAX_CPUS])) @ [Flush], s')"
proof -
  have cap: "arr_cap (cpu_freq_map freq_init) = MAX_CPUS" by (simp add: freq_init_def MAX_CPUS_def)
  have zero: "lookup_elem array_ops (cpu_freq_map freq_init) c = Some zero_info" if "unat c < MAX_CPUS" for c
    using that by (simp add: freq_init_def)
  show ?thesis by (rule cpu_freq_prints_last [OF ar.bpf_array_axioms cap zero])
qed

end
