(* ===== verification/Latency.thy ===== *)
theory Latency
  imports BpfMap
begin

section \<open>Measuring time between two events\<close>

text \<open>
  Five tools measure latencies the same way: one BPF program stores a time stamp under a key,
  another one finds it, adds the difference to a total (and 1 to a count) and removes the
  time stamp. The specification reads a sequence of such events: \<open>spans\<close> lists the durations of
  the matched pairs, oldest first; a finish with no start is ignored, a second start replaces
  the first. \<open>latency\<close> states what the handlers do to one accumulator and gives its value after
  any sequence of events: the sum of the weights of the spans.
\<close>

datatype 'k lat = Start 'k u64 | Finish 'k u64 | Other

fun spans :: "('k \<Rightarrow> bool) \<Rightarrow> ('k \<rightharpoonup> u64) \<Rightarrow> 'k lat list \<Rightarrow> u64 list" where
  "spans rel opn [] = []"
| "spans rel opn (Start k t # es) = spans rel (opn(k \<mapsto> t)) es"
| "spans rel opn (Finish k t # es) =
     (case opn k of
        None \<Rightarrow> spans rel opn es
      | Some t0 \<Rightarrow> (if rel k then [t - t0] else []) @ spans rel (opn(k := None)) es)"
| "spans rel opn (Other # es) = spans rel opn es"

definition open_step :: "'k lat \<Rightarrow> ('k \<rightharpoonup> u64) \<Rightarrow> ('k \<rightharpoonup> u64)" where
  "open_step a opn =
     (case a of Start k t \<Rightarrow> opn(k \<mapsto> t) | Finish k t \<Rightarrow> opn(k := None) | Other \<Rightarrow> opn)"

definition acc_step :: "('k \<Rightarrow> bool) \<Rightarrow> (u64 \<Rightarrow> u64) \<Rightarrow> 'k lat \<Rightarrow> ('k \<rightharpoonup> u64) \<Rightarrow> u64" where
  "acc_step rel w a opn =
     (case a of
        Finish k t \<Rightarrow> (case opn k of Some t0 \<Rightarrow> if rel k then w (t - t0) else 0 | None \<Rightarrow> 0)
      | _ \<Rightarrow> 0)"

lemma open_step_simps [simp]:
  "open_step (Start k t) opn = opn(k \<mapsto> t)"
  "open_step (Finish k t) opn = opn(k := None)"
  "open_step Other opn = opn"
  by (simp_all add: open_step_def)

lemma acc_step_simps [simp]:
  "acc_step rel w (Start k t) opn = 0"
  "acc_step rel w Other opn = 0"
  "opn k = None \<Longrightarrow> acc_step rel w (Finish k t) opn = 0"
  "opn k = Some t0 \<Longrightarrow> acc_step rel w (Finish k t) opn = (if rel k then w (t - t0) else 0)"
  by (simp_all add: acc_step_def)

lemma spans_step:
  "sum_list (map w (spans rel opn (a # es))) =
     acc_step rel w a opn + sum_list (map w (spans rel (open_step a opn) es))"
  by (cases a) (auto simp: fun_upd_idem split: option.split)

lemma spans_append:
  "spans rel opn (xs @ ys) = spans rel opn xs @ spans rel (fold open_step xs opn) ys"
proof (induction xs arbitrary: opn)
  case (Cons a xs)
  show ?case using Cons.IH [of "open_step a opn"]
    by (cases a) (auto simp: fun_upd_idem simp del: fun_upd_apply split: option.split)
qed simp

lemma spans_finish: "spans (\<lambda>k. k = p) opn es \<noteq> [] \<Longrightarrow> \<exists>t. Finish p t \<in> set es"
  by (induction "\<lambda>k. k = p" opn es rule: spans.induct) (auto split: option.splits if_splits)

text \<open>The handlers of a tool, where one kernel event may stop one task and start another.\<close>

locale latency_steps =
  fixes ev :: "'e \<Rightarrow> 's \<Rightarrow> 's"
    and classify :: "'e \<Rightarrow> 'k lat list"
    and opened :: "'s \<Rightarrow> 'k \<rightharpoonup> u64"
    and acc :: "'s \<Rightarrow> u64"
    and rel :: "'k \<Rightarrow> bool"
    and w :: "u64 \<Rightarrow> u64"
    and ok :: "'e \<Rightarrow> bool"
    and inv :: "'s \<Rightarrow> bool"
  assumes steps_inv: "inv s \<Longrightarrow> ok e \<Longrightarrow> inv (ev e s)"
    and steps_open: "inv s \<Longrightarrow> ok e \<Longrightarrow> opened (ev e s) = fold open_step (classify e) (opened s)"
    and steps_acc: "inv s \<Longrightarrow> ok e \<Longrightarrow>
      acc (ev e s) = acc s + sum_list (map w (spans rel (opened s) (classify e)))"
begin

lemma run_steps:
  "inv s \<Longrightarrow> list_all ok es \<Longrightarrow>
     acc (fold ev es s) = acc s + sum_list (map w (spans rel (opened s) (concat (map classify es))))"
proof (induction es arbitrary: s)
  case (Cons e es)
  then have "acc (fold ev es (ev e s)) =
      acc (ev e s) + sum_list (map w (spans rel (opened (ev e s)) (concat (map classify es))))"
    using steps_inv by simp
  then show ?case using Cons.prems by (simp add: steps_open steps_acc spans_append add.assoc)
qed simp

end

text \<open>The handlers of a tool with one start or finish per event.\<close>

locale latency =
  fixes ev :: "'e \<Rightarrow> 's \<Rightarrow> 's"
    and classify :: "'e \<Rightarrow> 'k lat"
    and opened :: "'s \<Rightarrow> 'k \<rightharpoonup> u64"
    and acc :: "'s \<Rightarrow> u64"
    and rel :: "'k \<Rightarrow> bool"
    and w :: "u64 \<Rightarrow> u64"
    and ok :: "'e \<Rightarrow> bool"
    and inv :: "'s \<Rightarrow> bool"
  assumes lat_inv: "inv s \<Longrightarrow> ok e \<Longrightarrow> inv (ev e s)"
    and lat_open: "inv s \<Longrightarrow> ok e \<Longrightarrow> opened (ev e s) = open_step (classify e) (opened s)"
    and lat_acc: "inv s \<Longrightarrow> ok e \<Longrightarrow> acc (ev e s) = acc s + acc_step rel w (classify e) (opened s)"
begin

sublocale steps: latency_steps ev "\<lambda>e. [classify e]" opened acc rel w ok inv
  by unfold_locales
    (simp_all add: lat_inv lat_open lat_acc spans_step [where es = "[]"] del: spans.simps(2-))

lemma run_inv: "inv s \<Longrightarrow> list_all ok es \<Longrightarrow> inv (fold ev es s)"
  by (induction es arbitrary: s) (simp_all add: lat_inv)

lemma run_open: "inv s \<Longrightarrow> list_all ok es \<Longrightarrow> opened (fold ev es s) = fold open_step (map classify es) (opened s)"
  by (induction es arbitrary: s) (simp_all add: lat_inv lat_open)

lemma run_spans:
  "inv s \<Longrightarrow> list_all ok es \<Longrightarrow>
     acc (fold ev es s) = acc s + sum_list (map w (spans rel (opened s) (map classify es)))"
  using steps.run_steps [of s es] by (simp add: concat_singletons)

end

text \<open>From a start with nothing open: the durations of a whole sequence of events, and those that end in \<open>es\<close>
  when \<open>hs\<close> came before, whether they began in \<open>hs\<close> or in \<open>es\<close>.\<close>

definition durations :: "('k \<Rightarrow> bool) \<Rightarrow> ('e \<Rightarrow> 'k lat) \<Rightarrow> 'e list \<Rightarrow> u64 list" where
  "durations rel f es = spans rel Map.empty (map f es)"

definition still_open :: "('e \<Rightarrow> 'k lat) \<Rightarrow> 'e list \<Rightarrow> 'k \<rightharpoonup> u64" where
  "still_open f hs = fold open_step (map f hs) Map.empty"

definition ended_in :: "('k \<Rightarrow> bool) \<Rightarrow> ('e \<Rightarrow> 'k lat) \<Rightarrow> 'e list \<Rightarrow> 'e list \<Rightarrow> u64 list" where
  "ended_in rel f hs es = spans rel (still_open f hs) (map f es)"

lemma durations_append: "durations rel f (hs @ es) = durations rel f hs @ ended_in rel f hs es"
  by (simp add: durations_def ended_in_def still_open_def spans_append)

lemma ended_in_finish:
  assumes "ended_in (\<lambda>k. k = p) f hs es \<noteq> []"
  shows "\<exists>e \<in> set es. \<exists>t. f e = Finish p t"
proof -
  obtain t where "Finish p t \<in> set (map f es)" using spans_finish [OF assms [unfolded ended_in_def]] by blast
  then obtain e where "e \<in> set es" "f e = Finish p t" by auto
  then show ?thesis by blast
qed

lemma durations_Nil [simp]: "durations rel f [] = []"
  by (simp add: durations_def)

lemma still_open_simps: "still_open f [] = Map.empty"
  "still_open f (hs @ es) = fold open_step (map f es) (still_open f hs)"
  by (simp_all add: still_open_def)

text \<open>The spans of all keys are the spans of each key taken together.\<close>

lemma spans_sum_partition:
  fixes w :: "u64 \<Rightarrow> u64"
  assumes "finite K" and "\<forall>k t. Finish k t \<in> set es \<longrightarrow> k \<in> K"
  shows "(\<Sum>p\<in>K. sum_list (map w (spans (\<lambda>k. k = p) opn es))) =
    sum_list (map w (spans (\<lambda>_. True) opn es))"
  using assms
proof (induction "\<lambda>_::'a. True" opn es rule: spans.induct)
  case (3 opn k t es)
  have k: "k \<in> K" and rest: "\<forall>k t. Finish k t \<in> set es \<longrightarrow> k \<in> K"
    using "3.prems"(2) by (meson list.set_intros)+
  show ?case
  proof (cases "opn k")
    case None
    then show ?thesis using 3(1) [OF None "3.prems"(1) rest] by simp
  next
    case (Some t0)
    have "(\<Sum>p\<in>K. sum_list (map w (spans (\<lambda>k. k = p) opn (Finish k t # es)))) =
        (\<Sum>p\<in>K. (if k = p then w (t - t0) else 0) + sum_list (map w (spans (\<lambda>k. k = p) (opn(k := None)) es)))"
      by (rule sum.cong) (auto simp: Some)
    also have "\<dots> = w (t - t0) + (\<Sum>p\<in>K. sum_list (map w (spans (\<lambda>k. k = p) (opn(k := None)) es)))"
      using k "3.prems"(1) by (simp add: sum.distrib)
    finally show ?thesis using 3(2) [OF Some "3.prems"(1) rest] by (simp add: Some)
  qed
qed simp_all

end
