(* ===== verification/CpuRunDelay.thy ===== *)
theory CpuRunDelay
  imports Latency KeyWalk Loader MapInstances
begin

section \<open>cpu_run_delay: scheduler latency by task\<close>

text \<open>
  \<open>my_tools/cpu/cpu_run_delay.bpf.c\<close> stores the time a task is woken up and, when it is switched
  in, adds the elapsed time to \<open>run_delay\<close> and 1 to \<open>wakeup_count\<close>;
  \<open>my_tools/cpu/cpu_run_delay.c\<close> prints the average of the last second in microseconds.
  Shown: the printed value is the mean of the waiting times of the wakeups that were followed by a
  switch since the last iteration.
\<close>

record 'm run_delay_maps =
  wakeup_ts :: 'm
  run_delay :: 'm
  wakeup_count :: 'm
  prev_delay :: "u64 list"
  prev_count :: "u64 list"

definition MAX_PIDS :: nat where
  "MAX_PIDS = 65536"

text \<open>The handlers take the \<open>pid\<close> or \<open>next_pid\<close> field of the trace event and the helper context.\<close>

definition handle_sched_wakeup ::
  "('m, u32, u64) map_ops \<Rightarrow> u32 \<Rightarrow> helpers \<Rightarrow> 'm run_delay_maps \<Rightarrow> int \<times> 'm run_delay_maps" where
  "handle_sched_wakeup ops ctx_pid h s =
     (let pid = ctx_pid; ts = ktime_ns h in
      (0, s\<lparr>wakeup_ts := snd (update_elem ops (wakeup_ts s) pid ts BPF_ANY)\<rparr>))"

definition handle_sched_wakeup_new ::
  "('m, u32, u64) map_ops \<Rightarrow> u32 \<Rightarrow> helpers \<Rightarrow> 'm run_delay_maps \<Rightarrow> int \<times> 'm run_delay_maps" where
  "handle_sched_wakeup_new ops ctx_pid h s =
     (let pid = ctx_pid; ts = ktime_ns h in
      (0, s\<lparr>wakeup_ts := snd (update_elem ops (wakeup_ts s) pid ts BPF_ANY)\<rparr>))"

definition handle_sched_switch ::
  "('m, u32, u64) map_ops \<Rightarrow> u32 \<Rightarrow> helpers \<Rightarrow> 'm run_delay_maps \<Rightarrow> int \<times> 'm run_delay_maps" where
  "handle_sched_switch ops ctx_next_pid h s =
     (let next_pid = ctx_next_pid in
      case lookup_elem ops (wakeup_ts s) next_pid of
        None \<Rightarrow> (0, s)
      | Some wakeup \<Rightarrow>
          let now = ktime_ns h;
              delay = now - wakeup;
              s1 = s\<lparr>run_delay := add_or_insert ops (run_delay s) next_pid delay BPF_ANY\<rparr>;
              s2 = s1\<lparr>wakeup_count := add_or_insert ops (wakeup_count s1) next_pid 1 BPF_ANY\<rparr>
          in (0, s2\<lparr>wakeup_ts := snd (delete_elem ops (wakeup_ts s2) next_pid)\<rparr>))"

datatype sched_event =
    Sched_wakeup u32 helpers
  | Sched_wakeup_new u32 helpers
  | Sched_switch u32 helpers

definition run_delay_event ::
  "('m, u32, u64) map_ops \<Rightarrow> sched_event \<Rightarrow> 'm run_delay_maps \<Rightarrow> 'm run_delay_maps" where
  "run_delay_event ops e s =
     (case e of
        Sched_wakeup p h \<Rightarrow> snd (handle_sched_wakeup ops p h s)
      | Sched_wakeup_new p h \<Rightarrow> snd (handle_sched_wakeup_new ops p h s)
      | Sched_switch p h \<Rightarrow> snd (handle_sched_switch ops p h s))"

definition run_delay_body ::
  "('m, u32, u64) map_ops \<Rightarrow> u32 \<Rightarrow> 'm run_delay_maps \<Rightarrow> effect list \<times> 'm run_delay_maps" where
  "run_delay_body ops pid s =
     (let total_count = (case lookup_elem ops (wakeup_count s) pid of Some c \<Rightarrow> c | None \<Rightarrow> 0) in
      case lookup_elem ops (run_delay s) pid of
        None \<Rightarrow> ([], s)
      | Some total_ns \<Rightarrow>
          if unat pid < MAX_PIDS then
            let delta_delay = sat_diff total_ns (prev_delay s ! unat pid);
                delta_count = sat_diff total_count (prev_count s ! unat pid);
                out = (if delta_count > 0
                       then let avg_delay_us = (delta_delay div delta_count) div 1000
                            in [out_kv (''runq_delay_pid_'' @ fmt_u pid) (fmt_u avg_delay_us)]
                       else [])
            in (out, s\<lparr>prev_delay := (prev_delay s)[unat pid := total_ns],
                       prev_count := (prev_count s)[unat pid := total_count]\<rparr>)
          else ([], s))"

definition run_delay_tick ::
  "('m, u32, u64) map_ops \<Rightarrow> ('m run_delay_maps, effect) tick" where
  "run_delay_tick ops s =
     Option.bind (key_loop (\<lambda>s. next_key ops (run_delay s)) (run_delay_body ops) (Some 0) s)
       (\<lambda>(out, s'). Some (out @ [Flush], s'))"

definition run_delay_main ::
  "('m, u32, u64) map_ops \<Rightarrow> sched_event env \<Rightarrow> 'm run_delay_maps \<Rightarrow>
     (status \<times> effect list \<times> 'm run_delay_maps) option" where
  "run_delay_main ops env s =
     (if \<not> skel_opened env
      then Some (Exited 1, [err_line ''Failed to open and load BPF skeleton''], s)
      else if attach_err env \<noteq> 0
      then Some (Exited (attach_err env), [err_line ''Failed to attach BPF programs'', Destroy], s)
      else monitor [err_line ''CPU Run Queue Delay Monitor - Ctrl+C to stop''] [SIGINT, SIGTERM]
             (loop_sleep_first 1 [SIGINT, SIGTERM] (run_delay_event ops) (run_delay_tick ops)) env s)"

subsection \<open>The tool over a lawful map\<close>

fun sched_span :: "sched_event \<Rightarrow> u32 lat" where
  "sched_span (Sched_wakeup p h) = Start p (ktime_ns h)"
| "sched_span (Sched_wakeup_new p h) = Start p (ktime_ns h)"
| "sched_span (Sched_switch p h) = Finish p (ktime_ns h)"

fun sched_pid :: "sched_event \<Rightarrow> u32" where
  "sched_pid (Sched_wakeup p h) = p"
| "sched_pid (Sched_wakeup_new p h) = p"
| "sched_pid (Sched_switch p h) = p"

text \<open>The waiting times of task \<open>p\<close> in a sequence of events.\<close>

definition waits ::
  "('m, u32, u64) map_ops \<Rightarrow> 'm run_delay_maps \<Rightarrow> sched_event list \<Rightarrow> u32 \<Rightarrow> u64 list" where
  "waits ops s es p = spans (\<lambda>k. k = p) (lookup_elem ops (wakeup_ts s)) (map sched_span es)"

type_synonym delay_info = "(u64 option \<times> u64) \<times> (u64 \<times> u64)"

definition delay_view ::
  "('m, u32, u64) map_ops \<Rightarrow> 'm run_delay_maps \<Rightarrow> u32 \<Rightarrow> delay_info" where
  "delay_view ops s k =
     ((lookup_elem ops (run_delay s) k, count_at ops (\<lambda>v. v) (wakeup_count s) k),
      (if unat k < MAX_PIDS then (prev_delay s ! unat k, prev_count s ! unat k) else (0, 0)))"

definition delay_report :: "u32 \<Rightarrow> delay_info \<Rightarrow> effect list" where
  "delay_report k x = (case x of ((tot, c), (pd, pc)) \<Rightarrow>
     if unat k < MAX_PIDS \<and> sat_diff c pc > 0
     then [out_kv (''runq_delay_pid_'' @ fmt_u k)
             (fmt_u ((sat_diff (the tot) pd div sat_diff c pc) div 1000))]
     else [])"

definition delay_post :: "u32 \<Rightarrow> delay_info \<Rightarrow> delay_info" where
  "delay_post k x = (case x of ((tot, c), prev) \<Rightarrow>
     ((tot, c), if unat k < MAX_PIDS then (the tot, c) else prev))"

definition delay_arrays :: "'m run_delay_maps \<Rightarrow> bool" where
  "delay_arrays s \<longleftrightarrow> length (prev_delay s) = MAX_PIDS \<and> length (prev_count s) = MAX_PIDS"

text \<open>The arrays agree with the maps, as they do at the start and after an iteration.\<close>

definition delay_synced :: "('m, u32, u64) map_ops \<Rightarrow> u32 set \<Rightarrow> 'm run_delay_maps \<Rightarrow> bool" where
  "delay_synced ops K s \<longleftrightarrow> delay_arrays s \<and>
     (\<forall>k \<in> K. unat k < MAX_PIDS \<and>
        prev_delay s ! unat k = count_at ops (\<lambda>v. v) (run_delay s) k \<and>
        prev_count s ! unat k = count_at ops (\<lambda>v. v) (wakeup_count s) k)"

text \<open>No counter wraps during the events.\<close>

definition no_wrap :: "('m, u32, u64) map_ops \<Rightarrow> u32 set \<Rightarrow> 'm run_delay_maps \<Rightarrow> sched_event list \<Rightarrow> bool" where
  "no_wrap ops K s es \<longleftrightarrow> (\<forall>p \<in> K.
     unat (count_at ops (\<lambda>v. v) (run_delay s) p) + unat (sum_list (waits ops s es p)) < 2 ^ 64 \<and>
     unat (count_at ops (\<lambda>v. v) (wakeup_count s) p) + length (waits ops s es p) < 2 ^ 64)"

text \<open>The line for a task: the mean of its waiting times, none if there was none.\<close>

definition mean_line :: "('m, u32, u64) map_ops \<Rightarrow> 'm run_delay_maps \<Rightarrow> sched_event list \<Rightarrow> u32 \<Rightarrow> effect list" where
  "mean_line ops s es p =
     (if waits ops s es p = [] then []
      else [out_kv (''runq_delay_pid_'' @ fmt_u p)
              (fmt_u (sum_list (waits ops s es p) div of_nat (length (waits ops s es p)) div 1000))])"

locale run_delay_tool = bpf_hash ops keys cap
  for ops :: "('m, u32, u64) map_ops" and keys :: "'m \<Rightarrow> u32 list" and cap
begin

lemma body_cases:
  assumes "k \<in> set (keys (run_delay s))"
  obtains v where "lookup_elem ops (run_delay s) k = Some v"
    "run_delay_body ops k s = (delay_report k (delay_view ops s k),
       if unat k < MAX_PIDS
       then s\<lparr>prev_delay := (prev_delay s)[unat k := v],
              prev_count := (prev_count s)[unat k := count_at ops (\<lambda>v. v) (wakeup_count s) k]\<rparr>
       else s)"
proof -
  obtain v where v: "lookup_elem ops (run_delay s) k = Some v" using assms keys_lookup by blast
  then show ?thesis
    by (intro that [of v]) (simp_all add: run_delay_body_def delay_report_def delay_view_def Let_def count_at_def)
qed

sublocale walk: local_walk ops keys cap run_delay "run_delay_body ops" delay_arrays
    "delay_view ops" delay_report delay_post
proof (unfold_locales, goal_cases)
  case (1 s k)
  from 1(2) show ?case by (rule body_cases) simp
next
  case (2 s k)
  from 2(2) show ?case by (rule body_cases) (use 2(1) in \<open>simp add: delay_arrays_def\<close>)
next
  case (3 s k)
  from 3(2) show ?case by (rule body_cases) simp
next
  case (4 s k)
  from 4(2) obtain v where v: "lookup_elem ops (run_delay s) k = Some v"
    "snd (run_delay_body ops k s) = (if unat k < MAX_PIDS
       then s\<lparr>prev_delay := (prev_delay s)[unat k := v],
              prev_count := (prev_count s)[unat k := count_at ops (\<lambda>v. v) (wakeup_count s) k]\<rparr>
       else s)"
    by (rule body_cases) simp
  have "delay_view ops (snd (run_delay_body ops k s)) j =
      ((delay_view ops s)(k := delay_post k (delay_view ops s k))) j" for j
    using 4(1) by (cases "j = k")
      (simp_all add: v delay_view_def delay_post_def delay_arrays_def nth_update_word)
  then show ?case by (rule ext)
qed

definition holds :: "u32 set \<Rightarrow> 'm run_delay_maps \<Rightarrow> bool" where
  "holds K s \<longleftrightarrow> fits keys cap K (wakeup_ts s) \<and> fits keys cap K (run_delay s) \<and>
     fits keys cap K (wakeup_count s) \<and> set (keys (run_delay s)) = set (keys (wakeup_count s))"

lemmas event_defs = run_delay_event_def handle_sched_wakeup_def handle_sched_wakeup_new_def
  handle_sched_switch_def Let_def add_or_insert_modify

lemma holds_event: "holds K s \<Longrightarrow> sched_pid e \<in> K \<Longrightarrow> holds K (run_delay_event ops e s)"
  by (cases e) (auto simp: holds_def event_defs fits_update fits_delete fits_modify
      keys_modify_fits split: option.split)

lemma open_event:
  "holds K s \<Longrightarrow> sched_pid e \<in> K \<Longrightarrow>
     lookup_elem ops (wakeup_ts (run_delay_event ops e s)) =
       open_step (sched_span e) (lookup_elem ops (wakeup_ts s))"
  by (cases e) (auto simp: holds_def event_defs lookup_update_fits lookup_delete_any fun_upd_idem
      split: option.split)

sublocale tot: latency "run_delay_event ops" sched_span
    "\<lambda>s. lookup_elem ops (wakeup_ts s)" "\<lambda>s. count_at ops (\<lambda>v. v) (run_delay s) p"
    "\<lambda>k. k = p" "\<lambda>d. d" "\<lambda>e. sched_pid e \<in> K" "holds K"
  for p K
proof (unfold_locales, goal_cases)
  case (3 s e)
  then show ?case
    by (cases e) (auto simp: holds_def event_defs count_add_fits split: option.split)
qed (simp_all add: holds_event open_event)

sublocale num: latency "run_delay_event ops" sched_span
    "\<lambda>s. lookup_elem ops (wakeup_ts s)" "\<lambda>s. count_at ops (\<lambda>v. v) (wakeup_count s) p"
    "\<lambda>k. k = p" "\<lambda>d. 1" "\<lambda>e. sched_pid e \<in> K" "holds K"
  for p K
proof (unfold_locales, goal_cases)
  case (3 s e)
  then show ?case
    by (cases e) (auto simp: holds_def event_defs count_add_fits split: option.split)
qed (simp_all add: holds_event open_event)

lemma arrays_run:
  "prev_delay (fold (run_delay_event ops) es s) = prev_delay s"
  "prev_count (fold (run_delay_event ops) es s) = prev_count s"
proof -
  have "prev_delay (run_delay_event ops e s) = prev_delay s \<and>
      prev_count (run_delay_event ops e s) = prev_count s" for e s
    by (cases e) (simp_all add: event_defs split: option.split)
  then show "prev_delay (fold (run_delay_event ops) es s) = prev_delay s"
    "prev_count (fold (run_delay_event ops) es s) = prev_count s"
    by (induction es arbitrary: s) simp_all
qed

lemma holds_run: "holds K s \<Longrightarrow> \<forall>e \<in> set es. sched_pid e \<in> K \<Longrightarrow> holds K (fold (run_delay_event ops) es s)"
  by (induction es arbitrary: s) (simp_all add: holds_event)

lemma run_totals:
  assumes "holds K s" and "\<forall>e \<in> set es. sched_pid e \<in> K"
  shows "count_at ops (\<lambda>v. v) (run_delay (fold (run_delay_event ops) es s)) p =
      count_at ops (\<lambda>v. v) (run_delay s) p + sum_list (waits ops s es p)"
    and "count_at ops (\<lambda>v. v) (wakeup_count (fold (run_delay_event ops) es s)) p =
      count_at ops (\<lambda>v. v) (wakeup_count s) p + of_nat (length (waits ops s es p))"
  using tot.run_spans [OF assms(1), of es p] num.run_spans [OF assms(1), of es p] assms(2)
  by (simp_all add: waits_def list_all_iff sum_weight_one)

lemma deltas:
  assumes "holds K s" and "delay_synced ops K s" and "\<forall>e \<in> set es. sched_pid e \<in> K"
    and "no_wrap ops K s es" and "k \<in> K"
  defines "s1 \<equiv> fold (run_delay_event ops) es s"
  shows "sat_diff (count_at ops (\<lambda>v. v) (run_delay s1) k) (prev_delay s1 ! unat k) = sum_list (waits ops s es k)"
    and "sat_diff (count_at ops (\<lambda>v. v) (wakeup_count s1) k) (prev_count s1 ! unat k) = of_nat (length (waits ops s es k))"
    and "length (waits ops s es k) < 2 ^ 64"
proof -
  let ?c = "count_at ops (\<lambda>v. v) (wakeup_count s) k" and ?n = "length (waits ops s es k)"
  have nw: "unat (count_at ops (\<lambda>v. v) (run_delay s) k) + unat (sum_list (waits ops s es k)) < 2 ^ 64"
    "unat ?c + ?n < 2 ^ 64" using assms(4,5) by (auto simp: no_wrap_def)
  then show n: "?n < 2 ^ 64" by simp
  then have "unat (of_nat ?n :: u64) = ?n" by (simp add: unat_of_nat take_bit_nat_eq_self)
  with nw(2) have "unat ?c + unat (of_nat ?n :: u64) < 2 ^ 64" by simp
  then show "sat_diff (count_at ops (\<lambda>v. v) (wakeup_count s1) k) (prev_count s1 ! unat k) = of_nat ?n"
    using assms(2,5) by (simp add: s1_def run_totals [OF assms(1,3)] arrays_run delay_synced_def sat_diff_add)
  show "sat_diff (count_at ops (\<lambda>v. v) (run_delay s1) k) (prev_delay s1 ! unat k) = sum_list (waits ops s es k)"
    using nw(1) assms(2,5)
    by (simp add: s1_def run_totals [OF assms(1,3)] arrays_run delay_synced_def sat_diff_add)
qed

lemma report_mean:
  assumes "holds K s" and "delay_synced ops K s" and "\<forall>e \<in> set es. sched_pid e \<in> K"
    and "no_wrap ops K s es" and "k \<in> K" and "k \<in> set (keys (run_delay (fold (run_delay_event ops) es s)))"
  shows "delay_report k (delay_view ops (fold (run_delay_event ops) es s) k) = mean_line ops s es k"
proof -
  let ?s1 = "fold (run_delay_event ops) es s" and ?ws = "waits ops s es k"
  obtain v where v: "lookup_elem ops (run_delay ?s1) k = Some v" using assms(6) keys_lookup by blast
  note d = deltas [OF assms(1-5)]
  have "(of_nat (length ?ws) :: u64) > 0 \<longleftrightarrow> ?ws \<noteq> []"
    using d(3) by (simp add: word_less_nat_alt unat_of_nat take_bit_nat_eq_self)
  moreover have "unat k < MAX_PIDS" using assms(2,5) by (simp add: delay_synced_def)
  moreover have "sat_diff v (prev_delay ?s1 ! unat k) = sum_list ?ws" using d(1) by (simp add: count_at_def v)
  ultimately show ?thesis
    by (simp add: delay_report_def delay_view_def mean_line_def v d(2))
qed

lemma key_present:
  assumes "holds K s" and "\<forall>e \<in> set es. sched_pid e \<in> K" and "no_wrap ops K s es" and "p \<in> K"
    and "p \<notin> set (keys (run_delay (fold (run_delay_event ops) es s)))"
  shows "waits ops s es p = [] \<and> count_at ops (\<lambda>v. v) (run_delay s) p = 0 \<and>
    count_at ops (\<lambda>v. v) (wakeup_count s) p = 0"
proof -
  let ?s1 = "fold (run_delay_event ops) es s" and ?n = "length (waits ops s es p)"
  have "p \<notin> set (keys (wakeup_count ?s1))" using holds_run [OF assms(1,2)] assms(5) by (simp add: holds_def)
  then have z: "count_at ops (\<lambda>v. v) (run_delay ?s1) p = 0" "count_at ops (\<lambda>v. v) (wakeup_count ?s1) p = 0"
    using assms(5) by (simp_all add: count_at_def keys_lookup)
  have nw: "unat (count_at ops (\<lambda>v. v) (run_delay s) p) + unat (sum_list (waits ops s es p)) < 2 ^ 64"
    "unat (count_at ops (\<lambda>v. v) (wakeup_count s) p) + ?n < 2 ^ 64"
    using assms(3,4) by (auto simp: no_wrap_def)
  then have u: "unat (of_nat ?n :: u64) = ?n" by (simp add: unat_of_nat take_bit_nat_eq_self)
  have "unat (count_at ops (\<lambda>v. v) (wakeup_count s) p) + ?n = 0"
    using unat_add_no_wrap [of "count_at ops (\<lambda>v. v) (wakeup_count s) p" "of_nat ?n"] nw(2) u z(2)
    by (simp add: run_totals [OF assms(1,2)])
  moreover have "unat (count_at ops (\<lambda>v. v) (run_delay s) p) = 0"
    using unat_add_no_wrap [OF nw(1)] z(1) by (simp add: run_totals [OF assms(1,2)])
  ultimately show ?thesis by (simp add: unat_eq_0)
qed

lemma tick_means:
  assumes "holds K s" and "delay_synced ops K s" and "0 \<notin> K"
    and "\<forall>e \<in> set es. sched_pid e \<in> K" and "no_wrap ops K s es"
  shows "\<exists>pids s'. run_delay_tick ops (fold (run_delay_event ops) es s) =
      Some (concat (map (mean_line ops s es) pids) @ [Flush], s')
    \<and> distinct pids \<and> set pids \<subseteq> K \<and> {p \<in> K. waits ops s es p \<noteq> []} \<subseteq> set pids
    \<and> delay_synced ops K s'"
proof -
  let ?s1 = "fold (run_delay_event ops) es s"
  let ?ks = "keys (run_delay ?s1)" and ?t = "count_at ops (\<lambda>v. v)"
  have sub: "set ?ks \<subseteq> K" using holds_run [OF assms(1,4)] by (simp add: holds_def fits_def)
  then have "keys_from ?ks (Some 0) = ?ks" using assms(3) by (intro keys_from_absent) auto
  then obtain s' where s': "run_delay_tick ops ?s1 =
      Some (concat (map (\<lambda>k. delay_report k (delay_view ops ?s1 k)) ?ks) @ [Flush], s')"
    "delay_view ops s' = (\<lambda>k. if k \<in> set ?ks then delay_post k (delay_view ops ?s1 k) else delay_view ops ?s1 k)"
    "delay_arrays s'"
    using walk.loop_local [of ?s1 "Some 0"] assms(2)
    by (auto simp: run_delay_tick_def arrays_run delay_synced_def delay_arrays_def)
  have out: "map (\<lambda>k. delay_report k (delay_view ops ?s1 k)) ?ks = map (mean_line ops s es) ?ks"
    using sub by (intro map_cong) (auto simp: report_mean [OF assms(1,2,4,5)])
  have "p \<in> set ?ks" if "p \<in> K" "waits ops s es p \<noteq> []" for p
    by (rule ccontr) (use key_present [OF assms(1,4,5) that(1)] that(2) in simp)
  moreover have "delay_synced ops K s'"
    unfolding delay_synced_def
  proof (intro conjI ballI)
    fix k assume k: "k \<in> K"
    then show lt: "unat k < MAX_PIDS" using assms(2) by (simp add: delay_synced_def)
    have v: "delay_view ops s' k = (if k \<in> set ?ks then delay_post k (delay_view ops ?s1 k) else delay_view ops ?s1 k)"
      by (simp add: s'(2))
    have "k \<notin> set ?ks \<Longrightarrow> prev_delay ?s1 ! unat k = 0 \<and> prev_count ?s1 ! unat k = 0 \<and> ?t (wakeup_count ?s1) k = 0"
      using key_present [OF assms(1,4,5) k] k assms(2)
      by (simp add: arrays_run delay_synced_def run_totals [OF assms(1,4)])
    with v lt show "prev_delay s' ! unat k = ?t (run_delay s') k" "prev_count s' ! unat k = ?t (wakeup_count s') k"
      by (auto simp: delay_view_def delay_post_def count_at_def [of ops _ "run_delay _"] keys_lookup
          split: if_splits option.splits)
  qed (rule s'(3))
  ultimately show ?thesis
    using s'(1) sub keys_distinct [of "run_delay ?s1"] unfolding out
    by (intro exI [of _ ?ks] exI [of _ s']) auto
qed

end

interpretation rd_hash: run_delay_tool "hash_ops reorder" hm_keys hcap
  by unfold_locales

subsection \<open>Properties\<close>

text \<open>For tasks with ids between 1 and \<open>MAX_PIDS - 1\<close> that fit the maps, as long as no counter
  wraps, an iteration of cpu_run_delay returns and prints for every task that was woken up and then
  switched in since the last iteration, and for no other, the mean of its waiting times in whole
  microseconds; the remembered values then agree with the maps again.\<close>

theorem run_delay_prints_means:
  assumes "bpf_hash ops keys cap"
    and "fits keys cap K (wakeup_ts s)" and "fits keys cap K (run_delay s)"
    and "fits keys cap K (wakeup_count s)" and "set (keys (run_delay s)) = set (keys (wakeup_count s))"
    and "delay_synced ops K s" and "0 \<notin> K" and "\<forall>e \<in> set es. sched_pid e \<in> K"
    and "no_wrap ops K s es"
  shows "\<exists>pids s'. run_delay_tick ops (fold (run_delay_event ops) es s) =
      Some (concat (map (mean_line ops s es) pids) @ [Flush], s')
    \<and> distinct pids \<and> set pids \<subseteq> K \<and> {p \<in> K. waits ops s es p \<noteq> []} \<subseteq> set pids
    \<and> delay_synced ops K s'"
  using run_delay_tool.tick_means [OF run_delay_tool.intro [OF assms(1)] _ assms(6-9)] assms(2-5)
  by (simp add: run_delay_tool.holds_def [OF run_delay_tool.intro [OF assms(1)]])

definition sched_demo :: "sched_event list" where
  "sched_demo =
     [Sched_wakeup 8 (task_ctx 1 ''init'' 1000 0), Sched_switch 8 (task_ctx 1 ''init'' 4000 0),
      Sched_wakeup_new 8 (task_ctx 1 ''init'' 5000 0), Sched_switch 8 (task_ctx 1 ''init'' 10000 0),
      Sched_switch 9 (task_ctx 1 ''init'' 11000 0)]"

definition sched_start :: "(u32, u64) hmap run_delay_maps" where
  "sched_start = \<lparr>wakeup_ts = empty_hash 10240, run_delay = empty_hash 10240, wakeup_count = empty_hash 10240,
     prev_delay = replicate MAX_PIDS 0, prev_count = replicate MAX_PIDS 0\<rparr>"

theorem run_delay_prints_means_witness:
  "(\<exists>pids s'. run_delay_tick (hash_ops False) (fold (run_delay_event (hash_ops False)) sched_demo sched_start) =
      Some (concat (map (mean_line (hash_ops False) sched_start sched_demo) pids) @ [Flush], s')
    \<and> distinct pids \<and> set pids \<subseteq> {8, 9}
    \<and> {p \<in> {8, 9}. waits (hash_ops False) sched_start sched_demo p \<noteq> []} \<subseteq> set pids
    \<and> delay_synced (hash_ops False) {8, 9} s')
   \<and> mean_line (hash_ops False) sched_start sched_demo 8 = [Stdout (''runq_delay_pid_8: 4'' @ nl)]"
proof
  have look: "lookup_elem (hash_ops False) (empty_hash n) = (\<lambda>k. None)" for n
    by (simp add: fun_eq_iff hash_ops_def hm_lookup_def)
  have w: "waits (hash_ops False) sched_start sched_demo 8 = [3000, 5000]"
    "waits (hash_ops False) sched_start sched_demo 9 = []"
    by (simp_all add: waits_def sched_start_def sched_demo_def look)
  then show "mean_line (hash_ops False) sched_start sched_demo 8 = [Stdout (''runq_delay_pid_8: 4'' @ nl)]"
    by (simp add: mean_line_def out_kv_def kv_line_def fmt_u_def fmt_simps)
  show "\<exists>pids s'. run_delay_tick (hash_ops False) (fold (run_delay_event (hash_ops False)) sched_demo sched_start) =
      Some (concat (map (mean_line (hash_ops False) sched_start sched_demo) pids) @ [Flush], s')
    \<and> distinct pids \<and> set pids \<subseteq> {8, 9}
    \<and> {p \<in> {8, 9}. waits (hash_ops False) sched_start sched_demo p \<noteq> []} \<subseteq> set pids
    \<and> delay_synced (hash_ops False) {8, 9} s'"
    by (rule run_delay_prints_means [OF hm.bpf_hash_axioms])
      (simp_all add: no_wrap_def w, simp_all add: sched_start_def sched_demo_def MAX_PIDS_def
        delay_synced_def delay_arrays_def fits_def count_at_def look)
qed

end
