(* ===== verification/CpuUsage.thy ===== *)
theory CpuUsage
  imports Latency KeyWalk Loader MapInstances
begin

section \<open>cpu_usage: time on CPU by task and by core\<close>

text \<open>
  \<open>my_tools/cpu/cpu_usage.bpf.c\<close>: on every context switch the time since the outgoing task was
  switched in is added to the task (\<open>cpu_time\<close>) and to the core (\<open>cpu_busy\<close>), and the incoming
  task gets a start time; the idle task, id 0, is ignored. \<open>my_tools/cpu/cpu_usage.c\<close> prints
  increments in microseconds and milliseconds.
  Shown: the time of a task is the sum of its intervals on CPU; time is neither lost nor invented
  between the two maps; what one iteration prints; a printed value is never 0.
\<close>

record ('m, 'a) cpu_usage_maps =
  cpu_start :: 'm
  cpu_time :: 'm
  cpu_busy :: 'a
  prev_cpu_time :: "u64 list"
  prev_cpu_busy :: "u64 list"

definition MAX_PIDS :: nat where
  "MAX_PIDS = 65536"

definition MAX_CPUS :: nat where
  "MAX_CPUS = 256"

text \<open>The handler takes the \<open>prev_pid\<close> and \<open>next_pid\<close> fields of the trace event.\<close>

definition handle_sched_switch ::
  "('m, u32, u64) map_ops \<Rightarrow> ('a, u32, u64) map_ops \<Rightarrow> u32 \<Rightarrow> u32 \<Rightarrow> helpers \<Rightarrow>
     ('m, 'a) cpu_usage_maps \<Rightarrow> int \<times> ('m, 'a) cpu_usage_maps" where
  "handle_sched_switch ops aops prev_pid next_pid h s =
     (let now = ktime_ns h;
          cpu = smp_cpu h;
          s1 = (if prev_pid > 0 then
                  let s' = (case lookup_elem ops (cpu_start s) prev_pid of
                      None \<Rightarrow> s
                    | Some start \<Rightarrow>
                        let delta = now - start in
                        s\<lparr>cpu_time := add_or_insert ops (cpu_time s) prev_pid delta BPF_ANY,
                          cpu_busy := add_if_present aops (cpu_busy s) cpu delta\<rparr>)
                  in s'\<lparr>cpu_start := snd (delete_elem ops (cpu_start s') prev_pid)\<rparr>
                else s);
          s2 = (if next_pid > 0
                then s1\<lparr>cpu_start := snd (update_elem ops (cpu_start s1) next_pid now BPF_ANY)\<rparr>
                else s1)
      in (0, s2))"

record switch_event =
  sw_prev :: u32
  sw_next :: u32
  sw_ctx :: helpers

definition cpu_usage_event ::
  "('m, u32, u64) map_ops \<Rightarrow> ('a, u32, u64) map_ops \<Rightarrow> switch_event \<Rightarrow>
     ('m, 'a) cpu_usage_maps \<Rightarrow> ('m, 'a) cpu_usage_maps" where
  "cpu_usage_event ops aops e s = snd (handle_sched_switch ops aops (sw_prev e) (sw_next e) (sw_ctx e) s)"

definition cpu_time_body ::
  "('m, u32, u64) map_ops \<Rightarrow> u32 \<Rightarrow> ('m, 'a) cpu_usage_maps \<Rightarrow> effect list \<times> ('m, 'a) cpu_usage_maps" where
  "cpu_time_body ops pid s =
     (case lookup_elem ops (cpu_time s) pid of
        None \<Rightarrow> ([], s)
      | Some total_ns \<Rightarrow>
          if unat pid < MAX_PIDS then
            let prev = prev_cpu_time s ! unat pid;
                delta = (if total_ns > prev then (total_ns - prev) div 1000 else 0)
            in (if delta > 0 then [out_kv (''cpu_time_pid_'' @ fmt_u pid) (fmt_u delta)] else [],
                s\<lparr>prev_cpu_time := (prev_cpu_time s)[unat pid := total_ns]\<rparr>)
          else ([], s))"

text \<open>The body of the loop over the cores, where \<open>cpu\<close> is the loop index as a key.\<close>

definition cpu_busy_body ::
  "('a, u32, u64) map_ops \<Rightarrow> u32 \<Rightarrow> ('m, 'a) cpu_usage_maps \<Rightarrow> effect list \<times> ('m, 'a) cpu_usage_maps" where
  "cpu_busy_body aops cpu s =
     (case lookup_elem aops (cpu_busy s) cpu of
        None \<Rightarrow> ([], s)
      | Some busy_ns \<Rightarrow>
          let prev = prev_cpu_busy s ! unat cpu;
              delta = (if busy_ns > prev then (busy_ns - prev) div 1000000 else 0)
          in (if delta > 0 then [out_kv (''cpu_'' @ fmt_u cpu @ ''_busy_ms'') (fmt_u delta)] else [],
              s\<lparr>prev_cpu_busy := (prev_cpu_busy s)[unat cpu := busy_ns]\<rparr>))"

definition cpu_usage_tick ::
  "('m, u32, u64) map_ops \<Rightarrow> ('a, u32, u64) map_ops \<Rightarrow> (('m, 'a) cpu_usage_maps, effect) tick" where
  "cpu_usage_tick ops aops s =
     Option.bind (key_loop (\<lambda>s. next_key ops (cpu_time s)) (cpu_time_body ops) (Some 0) s)
       (\<lambda>(out, s1).
         let (out', s2) = visit (cpu_busy_body aops) (map of_nat [0..<MAX_CPUS]) s1
         in Some (out @ out' @ [Flush], s2))"

definition cpu_usage_main ::
  "('m, u32, u64) map_ops \<Rightarrow> ('a, u32, u64) map_ops \<Rightarrow> switch_event env \<Rightarrow> ('m, 'a) cpu_usage_maps \<Rightarrow>
     (status \<times> effect list \<times> ('m, 'a) cpu_usage_maps) option" where
  "cpu_usage_main ops aops env s =
     (if \<not> skel_opened env
      then Some (Exited 1, [err_line ''Failed to open and load BPF skeleton''], s)
      else if attach_err env \<noteq> 0
      then Some (Exited (attach_err env), [err_line ''Failed to attach BPF programs'', Destroy], s)
      else monitor [err_line ''CPU Usage Monitor - Ctrl+C to stop''] [SIGINT, SIGTERM]
             (loop_sleep_first 1 [SIGINT, SIGTERM] (cpu_usage_event ops aops) (cpu_usage_tick ops aops)) env s)"

subsection \<open>The tool over lawful maps\<close>

text \<open>What a switch means for the intervals on CPU.\<close>

definition switch_lat :: "switch_event \<Rightarrow> u32 lat list" where
  "switch_lat e =
     (if sw_prev e > 0 then [Finish (sw_prev e) (ktime_ns (sw_ctx e))] else []) @
     (if sw_next e > 0 then [Start (sw_next e) (ktime_ns (sw_ctx e))] else [])"

definition on_cpu ::
  "('m, u32, u64) map_ops \<Rightarrow> ('m, 'a) cpu_usage_maps \<Rightarrow> switch_event list \<Rightarrow> u32 \<Rightarrow> u64 list" where
  "on_cpu ops s es p =
     spans (\<lambda>k. k = p) (lookup_elem ops (cpu_start s)) (concat (map switch_lat es))"

text \<open>A report of an increment in a unit of \<open>n\<close> nanoseconds, the form of both loops.\<close>

definition incr_report :: "string \<Rightarrow> u64 \<Rightarrow> u64 \<Rightarrow> u64 \<Rightarrow> effect list" where
  "incr_report name n cur prev =
     (if sat_diff cur prev div n > 0 then [out_kv name (fmt_u (sat_diff cur prev div n))] else [])"

lemma sat_diff_div: "(if cur > prev then (cur - prev) div n else 0) = sat_diff cur prev div n"
  by (simp add: sat_diff_def)

definition busy_view ::
  "('a, u32, u64) map_ops \<Rightarrow> ('m, 'a) cpu_usage_maps \<Rightarrow> u32 \<Rightarrow> u64 option \<times> u64" where
  "busy_view aops s k = (lookup_elem aops (cpu_busy s) k, prev_cpu_busy s ! unat k)"

definition time_view ::
  "('m, u32, u64) map_ops \<Rightarrow> ('m, 'a) cpu_usage_maps \<Rightarrow> u32 \<Rightarrow> u64 option \<times> u64" where
  "time_view ops s k =
     (lookup_elem ops (cpu_time s) k, if unat k < MAX_PIDS then prev_cpu_time s ! unat k else 0)"

definition time_report :: "u32 \<Rightarrow> u64 option \<times> u64 \<Rightarrow> effect list" where
  "time_report k x =
     (if unat k < MAX_PIDS then incr_report (''cpu_time_pid_'' @ fmt_u k) 1000 (the (fst x)) (snd x) else [])"

definition time_post :: "u32 \<Rightarrow> u64 option \<times> u64 \<Rightarrow> u64 option \<times> u64" where
  "time_post k x = (fst x, if unat k < MAX_PIDS then the (fst x) else snd x)"

definition busy_report :: "u32 \<Rightarrow> u64 option \<times> u64 \<Rightarrow> effect list" where
  "busy_report k x = incr_report (''cpu_'' @ fmt_u k @ ''_busy_ms'') 1000000 (the (fst x)) (snd x)"

definition busy_post :: "u32 \<Rightarrow> u64 option \<times> u64 \<Rightarrow> u64 option \<times> u64" where
  "busy_post k x = (fst x, the (fst x))"

text \<open>A switch between tasks of \<open>K\<close> (or the idle task) on one of the cores the map has room for.\<close>

definition switch_ok :: "u32 set \<Rightarrow> switch_event \<Rightarrow> bool" where
  "switch_ok K e \<longleftrightarrow> sw_prev e \<in> insert 0 K \<and> sw_next e \<in> insert 0 K \<and>
     unat (smp_cpu (sw_ctx e)) < MAX_CPUS"

locale cpu_usage =
  h: bpf_hash ops keys cap + a: counter_array aops akeys acap
  for ops :: "('m, u32, u64) map_ops" and keys :: "'m \<Rightarrow> u32 list" and cap
    and aops :: "('a, u32, u64) map_ops" and akeys :: "'a \<Rightarrow> u32 list" and acap
begin

sublocale times: local_walk ops keys cap cpu_time "cpu_time_body ops"
    "\<lambda>s. length (prev_cpu_time s) = MAX_PIDS" "time_view ops" time_report time_post
proof (unfold_locales, goal_cases)
  case (3 s k)
  then obtain v where "lookup_elem ops (cpu_time s) k = Some v" using h.keys_lookup by blast
  then show ?case by (simp add: cpu_time_body_def time_view_def time_report_def incr_report_def sat_diff_div Let_def)
next
  case (4 s k)
  then obtain v where v: "lookup_elem ops (cpu_time s) k = Some v" using h.keys_lookup by blast
  have "time_view ops (snd (cpu_time_body ops k s)) j = ((time_view ops s)(k := time_post k (time_view ops s k))) j"
    for j using 4(1)
    by (auto simp: cpu_time_body_def time_view_def time_post_def Let_def v nth_update_word)
  then show ?case by (rule ext)
qed (auto simp: cpu_time_body_def Let_def split: option.split)

sublocale busy: local_walk aops akeys acap cpu_busy "cpu_busy_body aops"
    "\<lambda>s. length (prev_cpu_busy s) = MAX_CPUS \<and> acap (cpu_busy s) = MAX_CPUS" "busy_view aops" busy_report busy_post
proof (unfold_locales, goal_cases)
  case (3 s k)
  then obtain v where "lookup_elem aops (cpu_busy s) k = Some v" using a.keys_lookup by blast
  then show ?case by (simp add: cpu_busy_body_def busy_view_def busy_report_def incr_report_def sat_diff_div Let_def)
next
  case (4 s k)
  then obtain v where v: "lookup_elem aops (cpu_busy s) k = Some v" using a.keys_lookup by blast
  have lt: "unat k < MAX_CPUS" using 4 by (simp add: a.array_keys)
  have "busy_view aops (snd (cpu_busy_body aops k s)) j = ((busy_view aops s)(k := busy_post k (busy_view aops s k))) j"
    for j using 4(1) lt
    by (auto simp: cpu_busy_body_def busy_view_def busy_post_def Let_def v nth_update_word)
  then show ?case by (rule ext)
qed (auto simp: cpu_busy_body_def Let_def split: option.split)

definition holds :: "u32 set \<Rightarrow> ('m, 'a) cpu_usage_maps \<Rightarrow> bool" where
  "holds K s \<longleftrightarrow> fits keys cap K (cpu_start s) \<and> fits keys cap K (cpu_time s) \<and>
     acap (cpu_busy s) = MAX_CPUS"

lemmas event_defs = cpu_usage_event_def handle_sched_switch_def Let_def add_or_insert_modify

lemma holds_event: "holds K s \<Longrightarrow> switch_ok K e \<Longrightarrow> holds K (cpu_usage_event ops aops e s)"
  by (auto simp: holds_def switch_ok_def event_defs h.fits_update h.fits_delete h.fits_modify a.cap_add_if
      split: option.split)

lemma open_event:
  assumes "holds K s" and "switch_ok K e"
  shows "lookup_elem ops (cpu_start (cpu_usage_event ops aops e s)) =
    fold open_step (switch_lat e) (lookup_elem ops (cpu_start s))"
  using assms
  by (auto simp: holds_def switch_ok_def event_defs switch_lat_def h.lookup_update_fits [where K = K] h.lookup_delete_any
      h.fits_delete split: option.split)

text \<open>The accounted interval of a switch, if there is one.\<close>

definition slice :: "('m, 'a) cpu_usage_maps \<Rightarrow> switch_event \<Rightarrow> u64" where
  "slice s e = sum_list (spans (\<lambda>_. True) (lookup_elem ops (cpu_start s)) (switch_lat e))"

lemma count_time:
  assumes "holds K s" and "switch_ok K e"
  shows "count_at ops (\<lambda>v. v) (cpu_time (cpu_usage_event ops aops e s)) =
    (count_at ops (\<lambda>v. v) (cpu_time s))(sw_prev e := count_at ops (\<lambda>v. v) (cpu_time s) (sw_prev e) + slice s e)"
  using assms by (auto simp: holds_def switch_ok_def event_defs switch_lat_def slice_def h.count_add_fits
      split: option.split)

lemma count_busy:
  assumes "holds K s" and "switch_ok K e"
  defines "c \<equiv> smp_cpu (sw_ctx e)"
  shows "count_at aops (\<lambda>v. v) (cpu_busy (cpu_usage_event ops aops e s)) =
    (count_at aops (\<lambda>v. v) (cpu_busy s))(c := count_at aops (\<lambda>v. v) (cpu_busy s) c + slice s e)"
  using assms by (auto simp: holds_def switch_ok_def event_defs switch_lat_def slice_def a.count_add_if
      split: option.split)

sublocale lat: latency_steps "cpu_usage_event ops aops" switch_lat
    "\<lambda>s. lookup_elem ops (cpu_start s)" "\<lambda>s. count_at ops (\<lambda>v. v) (cpu_time s) p"
    "\<lambda>k. k = p" "\<lambda>d. d" "switch_ok K" "holds K" for p K
proof (unfold_locales, goal_cases)
  case (3 s e)
  then show ?case
    by (auto simp: count_time switch_lat_def slice_def split: option.split)
qed (simp_all add: holds_event open_event)

lemma holds_run: "holds K s \<Longrightarrow> \<forall>e \<in> set es. switch_ok K e \<Longrightarrow> holds K (fold (cpu_usage_event ops aops) es s)"
  by (induction es arbitrary: s) (simp_all add: holds_event)

lemma run_time:
  assumes "holds K s" and "\<forall>e \<in> set es. switch_ok K e"
  shows "count_at ops (\<lambda>v. v) (cpu_time (fold (cpu_usage_event ops aops) es s)) p =
    count_at ops (\<lambda>v. v) (cpu_time s) p + sum_list (on_cpu ops s es p)"
  using lat.run_steps [OF assms(1), of es p] assms(2) by (simp add: on_cpu_def list_all_iff)

lemma sum_fun_upd_add:
  fixes f :: "u32 \<Rightarrow> u64"
  assumes "finite A" and "k \<in> A"
  shows "(\<Sum>x\<in>A. (f(k := f k + d)) x) = (\<Sum>x\<in>A. f x) + d"
proof -
  have "(\<Sum>x\<in>A. (f(k := f k + d)) x) = (\<Sum>x\<in>A. f x + (if x = k then d else 0))"
    by (rule sum.cong) auto
  then show ?thesis using assms by (simp add: sum.distrib)
qed

lemma run_conserves:
  assumes "holds K s" and "\<forall>e \<in> set es. switch_ok K e"
    and "(\<Sum>p\<in>K. count_at ops (\<lambda>v. v) (cpu_time s) p) =
      (\<Sum>c\<in>{c. unat c < MAX_CPUS}. count_at aops (\<lambda>v. v) (cpu_busy s) c)"
  shows "(\<Sum>p\<in>K. count_at ops (\<lambda>v. v) (cpu_time (fold (cpu_usage_event ops aops) es s)) p) =
      (\<Sum>c\<in>{c. unat c < MAX_CPUS}. count_at aops (\<lambda>v. v) (cpu_busy (fold (cpu_usage_event ops aops) es s)) c)"
  using assms
proof (induction es arbitrary: s)
  case (Cons e es)
  then have f: "switch_ok K e" by simp
  let ?s1 = "cpu_usage_event ops aops e s" and ?C = "{c :: u32. unat c < MAX_CPUS}"
  have fin: "finite K" "finite ?C" using Cons.prems(1) by (simp_all add: holds_def fits_def)
  have busy: "(\<Sum>c\<in>?C. count_at aops (\<lambda>v. v) (cpu_busy ?s1) c) =
      (\<Sum>c\<in>?C. count_at aops (\<lambda>v. v) (cpu_busy s) c) + slice s e"
    unfolding count_busy [OF Cons.prems(1) f] using f fin by (intro sum_fun_upd_add) (auto simp: switch_ok_def)
  have "(\<Sum>p\<in>K. count_at ops (\<lambda>v. v) (cpu_time ?s1) p) =
      (\<Sum>p\<in>K. count_at ops (\<lambda>v. v) (cpu_time s) p) + slice s e"
  proof (cases "sw_prev e \<in> K")
    case True
    then show ?thesis unfolding count_time [OF Cons.prems(1) f] using fin by (intro sum_fun_upd_add)
  next
    case False
    with f have "slice s e = 0" by (auto simp: switch_ok_def slice_def switch_lat_def)
    then show ?thesis unfolding count_time [OF Cons.prems(1) f] by simp
  qed
  with busy Cons.IH [OF holds_event [OF Cons.prems(1) f]] Cons.prems(2,3) show ?case by simp
qed simp

lemma arrays_run:
  "prev_cpu_time (fold (cpu_usage_event ops aops) es s) = prev_cpu_time s"
  "prev_cpu_busy (fold (cpu_usage_event ops aops) es s) = prev_cpu_busy s"
proof -
  have "prev_cpu_time (cpu_usage_event ops aops e s) = prev_cpu_time s \<and>
      prev_cpu_busy (cpu_usage_event ops aops e s) = prev_cpu_busy s" for e s
    by (auto simp: event_defs split: option.split)
  then show "prev_cpu_time (fold (cpu_usage_event ops aops) es s) = prev_cpu_time s"
    "prev_cpu_busy (fold (cpu_usage_event ops aops) es s) = prev_cpu_busy s"
    by (induction es arbitrary: s) simp_all
qed

text \<open>The walk over the tasks leaves the cores alone.\<close>

lemma time_body_busy:
  "cpu_busy (snd (cpu_time_body ops k s)) = cpu_busy s \<and>
   prev_cpu_busy (snd (cpu_time_body ops k s)) = prev_cpu_busy s"
  by (simp add: cpu_time_body_def Let_def split: option.split)

lemma max_cpus: "MAX_CPUS \<le> 2 ^ 32"
  by (simp add: MAX_CPUS_def)

lemmas cores = index_words [OF max_cpus]

lemma tick_spec:
  assumes "length (prev_cpu_time s) = MAX_PIDS" and "length (prev_cpu_busy s) = MAX_CPUS"
    and "acap (cpu_busy s) = MAX_CPUS" and "0 \<notin> set (keys (cpu_time s))"
  shows "\<exists>s'. cpu_usage_tick ops aops s = Some
      (concat (map (\<lambda>k. time_report k (time_view ops s k)) (keys (cpu_time s))) @
       concat (map (\<lambda>c. busy_report c (busy_view aops s c)) (map of_nat [0..<MAX_CPUS])) @ [Flush], s')"
proof -
  let ?P = "\<lambda>x. cpu_busy x = cpu_busy s \<and> prev_cpu_busy x = prev_cpu_busy s"
  have all: "keys_from (keys (cpu_time s)) (Some 0) = keys (cpu_time s)"
    by (rule keys_from_absent [OF assms(4)])
  obtain s1 where s1: "key_loop (\<lambda>s. next_key ops (cpu_time s)) (cpu_time_body ops) (Some 0) s =
      Some (concat (map (\<lambda>k. time_report k (time_view ops s k)) (keys (cpu_time s))), s1)"
    using times.loop_local [OF assms(1), of "Some 0"] all by auto
  have "?P s1"
    by (rule key_loop_invariant [OF s1, where P = ?P]) (simp_all add: time_body_busy)
  then have v: "busy_view aops s1 = busy_view aops s" by (simp add: fun_eq_iff busy_view_def)
  have "set (map of_nat [0..<MAX_CPUS]) \<subseteq> set (akeys (cpu_busy s1))"
    unfolding cores(1) using \<open>?P s1\<close> assms(3) by (auto simp: a.array_keys)
  then have "fst (visit (cpu_busy_body aops) (map of_nat [0..<MAX_CPUS]) s1) =
      concat (map (\<lambda>c. busy_report c (busy_view aops s c)) (map of_nat [0..<MAX_CPUS]))"
    using busy.visit_local [OF _ cores(2), of s1] \<open>?P s1\<close> assms(2,3) v by simp
  then show ?thesis unfolding cpu_usage_tick_def by (simp add: s1 case_prod_unfold)
qed

lemma round_spec:
  assumes "holds K s" and "\<forall>e \<in> set es. switch_ok K e"
    and "\<forall>p \<in> K. 0 < p \<and> unat p < MAX_PIDS \<and>
      prev_cpu_time s ! unat p = count_at ops (\<lambda>v. v) (cpu_time s) p \<and>
      unat (prev_cpu_time s ! unat p) + unat (sum_list (on_cpu ops s es p)) < 2 ^ 64"
    and "length (prev_cpu_time s) = MAX_PIDS" and "length (prev_cpu_busy s) = MAX_CPUS"
  shows "\<exists>pids s'. cpu_usage_tick ops aops (fold (cpu_usage_event ops aops) es s) = Some
      (concat (map (\<lambda>p. let us = sum_list (on_cpu ops s es p) div 1000 in
          if us > 0 then [out_kv (''cpu_time_pid_'' @ fmt_u p) (fmt_u us)] else []) pids) @
       concat (map (\<lambda>c. let ms = sat_diff (count_at aops (\<lambda>v. v) (cpu_busy (fold (cpu_usage_event ops aops) es s)) c)
            (prev_cpu_busy s ! unat c) div 1000000 in
          if ms > 0 then [out_kv (''cpu_'' @ fmt_u c @ ''_busy_ms'') (fmt_u ms)] else []) (map of_nat [0..<MAX_CPUS])) @
       [Flush], s')
    \<and> distinct pids \<and> set pids \<subseteq> K \<and> {p \<in> K. sum_list (on_cpu ops s es p) \<noteq> 0} \<subseteq> set pids"
proof -
  let ?s1 = "fold (cpu_usage_event ops aops) es s" and ?t = "count_at ops (\<lambda>v. v)"
  let ?ks = "keys (cpu_time ?s1)"
  have h1: "holds K ?s1" by (rule holds_run [OF assms(1,2)])
  then have sub: "set ?ks \<subseteq> K" by (simp add: holds_def fits_def)
  then have z: "0 \<notin> set ?ks" using assms(3) by fastforce
  have cap1: "acap (cpu_busy ?s1) = MAX_CPUS" using h1 by (simp add: holds_def)
  have diff: "sat_diff (?t (cpu_time ?s1) p) (prev_cpu_time s ! unat p) = sum_list (on_cpu ops s es p)"
    if "p \<in> K" for p
  proof -
    have "prev_cpu_time s ! unat p = ?t (cpu_time s) p"
      "unat (prev_cpu_time s ! unat p) + unat (sum_list (on_cpu ops s es p)) < 2 ^ 64"
      using assms(3) that by blast+
    then show ?thesis unfolding run_time [OF assms(1,2)] using sat_diff_add by metis
  qed
  have time: "time_report p (time_view ops ?s1 p) = (let us = sum_list (on_cpu ops s es p) div 1000 in
          if us > 0 then [out_kv (''cpu_time_pid_'' @ fmt_u p) (fmt_u us)] else [])" if "p \<in> set ?ks" for p
  proof -
    obtain v where v: "lookup_elem ops (cpu_time ?s1) p = Some v" using \<open>p \<in> set ?ks\<close> h.keys_lookup by blast
    then have "v = ?t (cpu_time ?s1) p" by (simp add: count_at_def)
    moreover have "p \<in> K" using sub that by blast
    ultimately show ?thesis
      using assms(3) diff [OF \<open>p \<in> K\<close>]
      by (simp add: time_report_def time_view_def incr_report_def v arrays_run Let_def)
  qed
  have busy: "busy_report c (busy_view aops ?s1 c) =
      (let ms = sat_diff (count_at aops (\<lambda>v. v) (cpu_busy ?s1) c) (prev_cpu_busy s ! unat c) div 1000000 in
          if ms > 0 then [out_kv (''cpu_'' @ fmt_u c @ ''_busy_ms'') (fmt_u ms)] else [])"
    if "c \<in> set (map of_nat [0..<MAX_CPUS])" for c
  proof -
    have "unat c < MAX_CPUS" using that unfolding cores(1) by simp
    then obtain v where v: "lookup_elem aops (cpu_busy ?s1) c = Some v" using a.array_lookup cap1 by metis
    then have "v = count_at aops (\<lambda>v. v) (cpu_busy ?s1) c" by (simp add: count_at_def)
    then show ?thesis by (simp add: busy_report_def busy_view_def incr_report_def v arrays_run Let_def)
  qed
  have "p \<in> set ?ks" if "p \<in> K" "sum_list (on_cpu ops s es p) \<noteq> 0" for p
  proof (rule ccontr)
    assume "p \<notin> set ?ks"
    then have "?t (cpu_time ?s1) p = 0" by (simp add: count_at_def h.keys_lookup)
    then show False using diff [OF that(1)] that(2) by (simp add: sat_diff_def)
  qed
  moreover obtain s' where "cpu_usage_tick ops aops ?s1 = Some
      (concat (map (\<lambda>k. time_report k (time_view ops ?s1 k)) ?ks) @
       concat (map (\<lambda>c. busy_report c (busy_view aops ?s1 c)) (map of_nat [0..<MAX_CPUS])) @ [Flush], s')"
    using tick_spec [of ?s1] assms(4,5) cap1 z by (auto simp: arrays_run)
  ultimately show ?thesis
    using sub h.keys_distinct [of "cpu_time ?s1"]
    by (intro exI [of _ ?ks] exI [of _ s']) (simp only: map_cong [OF refl time] map_cong [OF refl busy], auto)
qed

end

interpretation cu_maps: cpu_usage "hash_ops reorder" hm_keys hcap array_ops arr_keys arr_cap
  by unfold_locales

subsection \<open>Properties\<close>

text \<open>C3: cpu_usage accounts every interval on CPU to exactly one task and one core: over any sequence
  of switches between tasks that fit the maps, on cores below \<open>MAX_CPUS\<close>, the sum of the task times
  stays equal to the sum of the core times (modulo 2^64).\<close>

theorem cpu_usage_conserves:
  assumes "bpf_hash ops keys cap" and "bpf_array aops akeys acap"
    and "fits keys cap K (cpu_start s)" and "fits keys cap K (cpu_time s)"
    and "acap (cpu_busy s) = MAX_CPUS" and "\<forall>e \<in> set es. switch_ok K e"
    and "(\<Sum>p\<in>K. count_at ops (\<lambda>v. v) (cpu_time s) p) =
      (\<Sum>c\<in>{c. unat c < MAX_CPUS}. count_at aops (\<lambda>v. v) (cpu_busy s) c)"
  shows "(\<Sum>p\<in>K. count_at ops (\<lambda>v. v) (cpu_time (fold (cpu_usage_event ops aops) es s)) p) =
      (\<Sum>c\<in>{c. unat c < MAX_CPUS}. count_at aops (\<lambda>v. v) (cpu_busy (fold (cpu_usage_event ops aops) es s)) c)"
proof -
  note tool = cpu_usage.intro [OF assms(1) counter_array.intro [OF assms(2)]]
  show ?thesis
    by (rule cpu_usage.run_conserves [OF tool _ _ assms(7)])
      (use assms(3-6) in \<open>simp_all add: cpu_usage.holds_def [OF tool] \<close>)
qed

definition switch_demo :: "switch_event list" where
  "switch_demo =
     [\<lparr>sw_prev = 0, sw_next = 7, sw_ctx = task_ctx 0 ''swapper'' 1000 1\<rparr>,
      \<lparr>sw_prev = 7, sw_next = 8, sw_ctx = task_ctx 7 ''gcc'' 5000 1\<rparr>,
      \<lparr>sw_prev = 8, sw_next = 0, sw_ctx = task_ctx 8 ''ld'' 5500 1\<rparr>]"

definition usage_init :: "((u32, u64) hmap, u64 list) cpu_usage_maps" where
  "usage_init = \<lparr>cpu_start = empty_hash 10240, cpu_time = empty_hash 10240, cpu_busy = replicate MAX_CPUS 0,
     prev_cpu_time = replicate MAX_PIDS 0, prev_cpu_busy = replicate MAX_CPUS 0\<rparr>"

theorem cpu_usage_conserves_witness:
  "(\<Sum>p\<in>{7, 8}. count_at (hash_ops False) (\<lambda>v. v)
      (cpu_time (fold (cpu_usage_event (hash_ops False) array_ops) switch_demo usage_init)) p) =
   (\<Sum>c\<in>{c. unat c < MAX_CPUS}. count_at array_ops (\<lambda>v. v)
      (cpu_busy (fold (cpu_usage_event (hash_ops False) array_ops) switch_demo usage_init)) c)"
  by (rule cpu_usage_conserves [OF hm.bpf_hash_axioms ar.bpf_array_axioms])
    (simp_all add: usage_init_def switch_demo_def switch_ok_def fits_def count_at_def MAX_CPUS_def)

text \<open>An iteration of cpu_usage returns and prints for every task that was on CPU for at least a
  microsecond since the last iteration, and for no other, the sum of its intervals on CPU in
  whole microseconds, then for every core whose busy counter grew by at least a millisecond the
  growth in whole milliseconds, provided no total wraps. The hypotheses are those of a tool
  whose remembered values agree with the map, as at the start.\<close>

theorem cpu_usage_round:
  assumes "bpf_hash ops keys cap" and "bpf_array aops akeys acap"
    and "fits keys cap K (cpu_start s)" and "fits keys cap K (cpu_time s)"
    and "acap (cpu_busy s) = MAX_CPUS" and "\<forall>e \<in> set es. switch_ok K e"
    and "\<forall>p \<in> K. 0 < p \<and> unat p < MAX_PIDS \<and>
      prev_cpu_time s ! unat p = count_at ops (\<lambda>v. v) (cpu_time s) p \<and>
      unat (prev_cpu_time s ! unat p) + unat (sum_list (on_cpu ops s es p)) < 2 ^ 64"
    and "length (prev_cpu_time s) = MAX_PIDS" and "length (prev_cpu_busy s) = MAX_CPUS"
  shows "\<exists>pids s'. cpu_usage_tick ops aops (fold (cpu_usage_event ops aops) es s) = Some
      (concat (map (\<lambda>p. let us = sum_list (on_cpu ops s es p) div 1000 in
          if us > 0 then [out_kv (''cpu_time_pid_'' @ fmt_u p) (fmt_u us)] else []) pids) @
       concat (map (\<lambda>c. let ms = sat_diff (count_at aops (\<lambda>v. v) (cpu_busy (fold (cpu_usage_event ops aops) es s)) c)
            (prev_cpu_busy s ! unat c) div 1000000 in
          if ms > 0 then [out_kv (''cpu_'' @ fmt_u c @ ''_busy_ms'') (fmt_u ms)] else []) (map of_nat [0..<MAX_CPUS])) @
       [Flush], s')
    \<and> distinct pids \<and> set pids \<subseteq> K \<and> {p \<in> K. sum_list (on_cpu ops s es p) \<noteq> 0} \<subseteq> set pids"
proof -
  note tool = cpu_usage.intro [OF assms(1) counter_array.intro [OF assms(2)]]
  show ?thesis
    by (rule cpu_usage.round_spec [OF tool _ assms(6-9)])
      (use assms(3-5) in \<open>simp add: cpu_usage.holds_def [OF tool]\<close>)
qed

theorem cpu_usage_round_witness:
  "\<exists>pids s'. cpu_usage_tick (hash_ops False) array_ops (fold (cpu_usage_event (hash_ops False) array_ops) switch_demo usage_init) = Some
      (concat (map (\<lambda>p. let us = sum_list (on_cpu (hash_ops False) usage_init switch_demo p) div 1000 in
          if us > 0 then [out_kv (''cpu_time_pid_'' @ fmt_u p) (fmt_u us)] else []) pids) @
       concat (map (\<lambda>c. let ms = sat_diff (count_at array_ops (\<lambda>v. v) (cpu_busy (fold (cpu_usage_event (hash_ops False) array_ops) switch_demo usage_init)) c)
            (prev_cpu_busy usage_init ! unat c) div 1000000 in
          if ms > 0 then [out_kv (''cpu_'' @ fmt_u c @ ''_busy_ms'') (fmt_u ms)] else []) (map of_nat [0..<MAX_CPUS])) @
       [Flush], s')
    \<and> distinct pids \<and> set pids \<subseteq> {7, 8} \<and> {p \<in> {7, 8}. sum_list (on_cpu (hash_ops False) usage_init switch_demo p) \<noteq> 0} \<subseteq> set pids"
proof -
  have w: "on_cpu (hash_ops False) usage_init switch_demo 7 = [4000]"
    "on_cpu (hash_ops False) usage_init switch_demo 8 = [500]"
    by (simp_all add: on_cpu_def usage_init_def switch_demo_def switch_lat_def)
  show ?thesis
    by (rule cpu_usage_round [OF hm.bpf_hash_axioms ar.bpf_array_axioms])
      (simp_all add: w, simp_all add: usage_init_def switch_demo_def switch_ok_def fits_def count_at_def
        MAX_CPUS_def MAX_PIDS_def)
qed

end
