(* ===== verification/Counting.thy ===== *)
theory Counting
  imports KeyWalk
begin

section \<open>Counting kernel events in a hash map\<close>

text \<open>
  Most tools count: a BPF program looks its key up, adds to a counter of the entry if there is one
  and creates an entry otherwise. \<open>event_counter\<close> states that contract for one map of a tool:
  \<open>hit e\<close> is the key event \<open>e\<close> counts for (if any), \<open>amount e\<close> what it adds to the counter \<open>cnt\<close>
  of the entry. The locale gives the value of every counter after any sequence of events: it
  is exact while the keys fit the map, and never too large otherwise.
\<close>

text \<open>The keys that occur in a sequence of events, and the events that count for one key.\<close>

definition keys_hit :: "('e \<Rightarrow> 'k option) \<Rightarrow> 'e list \<Rightarrow> 'k set" where
  "keys_hit hit es = {k. \<exists>e \<in> set es. hit e = Some k}"

definition hits :: "('e \<Rightarrow> 'k option) \<Rightarrow> 'e list \<Rightarrow> 'k \<Rightarrow> 'e list" where
  "hits hit es k = filter (\<lambda>e. hit e = Some k) es"

lemma keys_hit_simps [simp]:
  "keys_hit hit [] = {}" "keys_hit hit (e # es) = set_option (hit e) \<union> keys_hit hit es"
  by (auto simp: keys_hit_def)

lemma finite_keys_hit [simp]: "finite (keys_hit hit es)"
  by (induction es) auto

lemma hits_simps [simp]:
  "hits hit [] k = []" "hits hit (e # es) k = (if hit e = Some k then e # hits hit es k else hits hit es k)"
  by (auto simp: hits_def)

lemma hits_empty_iff: "hits hit es k = [] \<longleftrightarrow> k \<notin> keys_hit hit es"
  by (auto simp: hits_def keys_hit_def filter_empty_conv)

lemma keys_hit_Some [simp]: "keys_hit (\<lambda>e. Some (f e)) es = f ` set es"
  by (auto simp: keys_hit_def)

lemma hits_Some: "hits (\<lambda>e. Some (f e)) es k = filter (\<lambda>e. f e = k) es"
  by (simp add: hits_def)

text \<open>A key that was hit has a positive count, if the events can be counted at all.\<close>

lemma count_hits_pos:
  assumes "length es < 2 ^ 64" and "k \<in> keys_hit hit es"
  shows "(of_nat (length (hits hit es k)) :: u64) > 0"
proof -
  have "length (hits hit es k) < 2 ^ 64"
    unfolding hits_def by (rule le_less_trans [OF length_filter_le assms(1)])
  moreover have "length (hits hit es k) \<noteq> 0" using assms(2) by (simp add: hits_empty_iff)
  ultimately show ?thesis by (simp add: word_less_nat_alt unat_of_nat take_bit_nat_eq_self)
qed

text \<open>The entry of a key after a sequence of events that hit it: created by the first, modified by the
  others.\<close>

definition run_value :: "('e \<Rightarrow> 'v \<Rightarrow> 'v) \<Rightarrow> ('e \<Rightarrow> 'v) \<Rightarrow> 'e list \<Rightarrow> 'v" where
  "run_value upd ini hs = fold upd (tl hs) (ini (hd hs))"

text \<open>The contract in terms of what a lookup returns: an event that hits a key modifies its entry, or
  creates one if the map has room; otherwise nothing changes.\<close>

locale counter_spec = bpf_hash ops keys cap
  for ops :: "('m, 'k, 'v) map_ops" and keys cap +
  fixes getm :: "'s \<Rightarrow> 'm"
    and ev :: "'e \<Rightarrow> 's \<Rightarrow> 's"
    and hit :: "'e \<Rightarrow> 'k option"
    and amount :: "'e \<Rightarrow> u64"
    and upd :: "'e \<Rightarrow> 'v \<Rightarrow> 'v"
    and ini :: "'e \<Rightarrow> 'v"
    and cnt :: "'v \<Rightarrow> u64"
  assumes spec_miss: "hit e = None \<Longrightarrow> lookup_elem ops (getm (ev e s)) = lookup_elem ops (getm s)"
    and spec_room: "hit e = Some k \<Longrightarrow> k \<in> set (keys (getm s)) \<or> length (keys (getm s)) < cap (getm s) \<Longrightarrow>
      lookup_elem ops (getm (ev e s)) = (lookup_elem ops (getm s))
        (k \<mapsto> (case lookup_elem ops (getm s) k of Some v \<Rightarrow> upd e v | None \<Rightarrow> ini e))"
    and spec_full: "hit e = Some k \<Longrightarrow> k \<notin> set (keys (getm s)) \<Longrightarrow> \<not> length (keys (getm s)) < cap (getm s) \<Longrightarrow>
      lookup_elem ops (getm (ev e s)) = lookup_elem ops (getm s)"
    and cap_ev: "cap (getm (ev e s)) = cap (getm s)"
    and cnt_upd: "cnt (upd e v) = cnt v + amount e"
    and cnt_ini: "cnt (ini e) = amount e"
begin

lemma cap_run: "cap (getm (fold ev es s)) = cap (getm s)"
  by (induction es arbitrary: s) (simp_all add: cap_ev)

lemma count_ev:
  assumes "\<And>k. hit e = Some k \<Longrightarrow> k \<in> set (keys (getm s)) \<or> length (keys (getm s)) < cap (getm s)"
  shows "count_at ops cnt (getm (ev e s)) k =
      count_at ops cnt (getm s) k + (if hit e = Some k then amount e else 0)"
    and "set (keys (getm (ev e s))) = set (keys (getm s)) \<union> set_option (hit e)"
proof -
  show "count_at ops cnt (getm (ev e s)) k =
      count_at ops cnt (getm s) k + (if hit e = Some k then amount e else 0)"
    using assms
    by (cases "hit e") (auto simp: count_at_def spec_miss spec_room cnt_upd cnt_ini split: option.split)
  show "set (keys (getm (ev e s))) = set (keys (getm s)) \<union> set_option (hit e)"
    using assms unfolding dom_lookup [symmetric]
    by (cases "hit e") (auto simp: spec_miss spec_room dom_lookup)
qed

lemma run_counts:
  assumes "card (set (keys (getm s)) \<union> keys_hit hit es) \<le> cap (getm s)"
  shows "count_at ops cnt (getm (fold ev es s)) k =
      count_at ops cnt (getm s) k + sum_list (map amount (hits hit es k))
    \<and> set (keys (getm (fold ev es s))) = set (keys (getm s)) \<union> keys_hit hit es"
  using assms
proof (induction es arbitrary: s)
  case Nil
  then show ?case by simp
next
  case (Cons e es)
  have fits: "k' \<in> set (keys (getm s)) \<or> length (keys (getm s)) < cap (getm s)"
    if "hit e = Some k'" for k'
  proof (rule disjCI)
    assume "\<not> length (keys (getm s)) < cap (getm s)"
    then have full: "card (set (keys (getm s))) = cap (getm s)"
      using keys_cap [of "getm s"] by (simp add: distinct_card keys_distinct)
    then have "card (set (keys (getm s)) \<union> keys_hit hit (e # es)) \<le> card (set (keys (getm s)))"
      using Cons.prems by simp
    then have "set (keys (getm s)) = set (keys (getm s)) \<union> keys_hit hit (e # es)"
      by (intro card_seteq) auto
    then show "k' \<in> set (keys (getm s))" using that by auto
  qed
  note step = count_ev [of e s, OF fits]
  have "card (set (keys (getm (ev e s))) \<union> keys_hit hit es) \<le> cap (getm (ev e s))"
    using Cons.prems by (simp add: step(2) cap_ev Un_assoc)
  from Cons.IH [OF this] show ?case
    by (auto simp: step add.assoc)
qed

text \<open>The whole entry, not only its counter.\<close>

lemma run_lookup:
  assumes "card (set (keys (getm s)) \<union> keys_hit hit es) \<le> cap (getm s)"
  shows "lookup_elem ops (getm (fold ev es s)) k =
    (case lookup_elem ops (getm s) k of
       Some v \<Rightarrow> Some (fold upd (hits hit es k) v)
     | None \<Rightarrow> if hits hit es k = [] then None else Some (run_value upd ini (hits hit es k)))"
  using assms
proof (induction es arbitrary: s)
  case (Cons e es)
  let ?s = "ev e s"
  have room: "k' \<in> set (keys (getm s)) \<or> length (keys (getm s)) < cap (getm s)" if "hit e = Some k'" for k'
  proof -
    have "fits keys cap (set (keys (getm s)) \<union> keys_hit hit (e # es)) (getm s)"
      using Cons.prems by (auto simp: fits_def)
    then show ?thesis by (rule fits_room) (simp add: that)
  qed
  have "set (keys (getm ?s)) = set (keys (getm s)) \<union> set_option (hit e)" using count_ev(2) [OF room] .
  then have "card (set (keys (getm ?s)) \<union> keys_hit hit es) \<le> cap (getm ?s)"
    using Cons.prems by (simp add: cap_ev Un_assoc)
  note IH = Cons.IH [OF this]
  show ?case
  proof (cases "hit e")
    case None
    then show ?thesis using IH spec_miss [OF None, of s] by (simp split: option.split)
  next
    case (Some j)
    then show ?thesis using IH spec_room [OF Some room [OF Some]]
      by (auto simp: run_value_def split: option.split)
  qed
qed (simp split: option.split)

text \<open>With no bound on the number of keys an event may be lost, but none is invented.\<close>

lemma count_ev_upper:
  "\<exists>b. count_at ops cnt (getm (ev e s)) k =
     count_at ops cnt (getm s) k + (if b \<and> hit e = Some k then amount e else 0)"
proof (cases "\<exists>k. hit e = Some k \<and> k \<notin> set (keys (getm s)) \<and> \<not> length (keys (getm s)) < cap (getm s)")
  case True
  then have "lookup_elem ops (getm (ev e s)) = lookup_elem ops (getm s)" using spec_full by blast
  then show ?thesis by (intro exI [of _ False]) (simp add: count_at_def)
next
  case False
  then show ?thesis using count_ev(1) by (intro exI [of _ True]) simp
qed

text \<open>A counter of events, read as a number, stays or grows by one.\<close>

lemma count_ev_nat:
  assumes "amount e = 1" and "unat (count_at ops cnt (getm s) k) + 1 < 2 ^ 64"
  shows "unat (count_at ops cnt (getm (ev e s)) k) = unat (count_at ops cnt (getm s) k) \<or>
    hit e = Some k \<and> unat (count_at ops cnt (getm (ev e s)) k) = Suc (unat (count_at ops cnt (getm s) k))"
proof -
  obtain b where b: "count_at ops cnt (getm (ev e s)) k =
      count_at ops cnt (getm s) k + (if b \<and> hit e = Some k then amount e else 0)"
    using count_ev_upper by blast
  show ?thesis using assms(2) unfolding b assms(1) by (auto simp: unat_add_no_wrap)
qed

lemma run_counts_upper:
  assumes "\<And>e. amount e = 1"
  shows "\<exists>j \<le> length (hits hit es k).
    count_at ops cnt (getm (fold ev es s)) k = count_at ops cnt (getm s) k + of_nat j"
proof (induction es arbitrary: s)
  case Nil
  then show ?case by simp
next
  case (Cons e es)
  obtain j where j: "j \<le> length (hits hit es k)"
    "count_at ops cnt (getm (fold ev es (ev e s))) k = count_at ops cnt (getm (ev e s)) k + of_nat j"
    using Cons.IH by blast
  obtain b where b: "count_at ops cnt (getm (ev e s)) k =
     count_at ops cnt (getm s) k + (if b \<and> hit e = Some k then amount e else 0)"
    using count_ev_upper by blast
  show ?case
  proof (cases "b \<and> hit e = Some k")
    case True
    then show ?thesis using j b assms by (intro exI [of _ "Suc j"]) (simp add: add.assoc)
  next
    case False
    then show ?thesis using j b by (intro exI [of _ j]) auto
  qed
qed

lemma sum_amount_one:
  "(\<And>e. amount e = 1) \<Longrightarrow> sum_list (map amount (hits hit es k)) = of_nat (length (hits hit es k))"
  by (induction es) (auto simp: add.commute)

text \<open>From an empty map: each key that was hit is present with the sum of its amounts.\<close>

lemma lookup_run:
  assumes "keys (getm s) = []" and "card (keys_hit hit es) \<le> cap (getm s)"
  shows "set (keys (getm (fold ev es s))) = keys_hit hit es"
    and "k \<in> keys_hit hit es \<Longrightarrow> \<exists>v. lookup_elem ops (getm (fold ev es s)) k = Some v \<and>
      cnt v = sum_list (map amount (hits hit es k))"
proof -
  have none: "lookup_elem ops (getm s) k = None" for k using assms(1) keys_lookup [of k "getm s"] by simp
  note run = run_counts [of s es, unfolded assms(1), simplified, OF assms(2)]
  show ks: "set (keys (getm (fold ev es s))) = keys_hit hit es" using run by simp
  assume "k \<in> keys_hit hit es"
  then obtain v where "lookup_elem ops (getm (fold ev es s)) k = Some v"
    using ks keys_lookup by blast
  then show "\<exists>v. lookup_elem ops (getm (fold ev es s)) k = Some v \<and>
      cnt v = sum_list (map amount (hits hit es k))"
    using run [of k] none by (simp add: count_at_def)
qed

end

text \<open>The usual implementation, one call of the counting idiom.\<close>

locale event_counter = bpf_hash ops keys cap
  for ops :: "('m, 'k, 'v) map_ops" and keys cap +
  fixes getm :: "'s \<Rightarrow> 'm"
    and ev :: "'e \<Rightarrow> 's \<Rightarrow> 's"
    and hit :: "'e \<Rightarrow> 'k option"
    and amount :: "'e \<Rightarrow> u64"
    and upd :: "'e \<Rightarrow> 'v \<Rightarrow> 'v"
    and ini :: "'e \<Rightarrow> 'v"
    and cnt :: "'v \<Rightarrow> u64"
    and fl :: update_flag
  assumes ev_hit: "hit e = Some k \<Longrightarrow> getm (ev e s) = modify_or_insert ops (getm s) k (upd e) (ini e) fl"
    and ev_miss: "hit e = None \<Longrightarrow> getm (ev e s) = getm s"
    and ev_cnt_upd: "cnt (upd e v) = cnt v + amount e"
    and ev_cnt_ini: "cnt (ini e) = amount e"
    and flag_creates: "fl \<noteq> BPF_EXIST"
begin

sublocale counter_spec ops keys cap getm ev hit amount upd ini cnt
proof (unfold_locales, goal_cases)
  case (2 e k s)
  then show ?case using lookup_modify_hash [OF flag_creates 2(2)] by (simp add: ev_hit)
next
  case (3 e k s)
  then show ?case by (simp add: ev_hit modify_full)
next
  case (4 e s)
  show ?case by (cases "hit e") (simp_all add: ev_hit ev_miss cap_modify)
qed (simp_all add: ev_miss ev_cnt_upd ev_cnt_ini)

end

subsection \<open>Counting, then draining\<close>

text \<open>The contract of a tool that counts in kernel space and prints and deletes in user space: one
  iteration reports, for every key that occurred, an entry whose counter is the sum of the
  amounts since the previous iteration, and leaves the map empty.\<close>

locale counted_drain =
  counter_spec ops keys cap getm ev hit amount upd ini cnt +
  drain_report ops keys cap getm body report
  for ops :: "('m, 'k, 'v) map_ops" and keys cap
    and getm :: "'s \<Rightarrow> 'm" and ev :: "'e \<Rightarrow> 's \<Rightarrow> 's" and hit amount upd ini cnt
    and body :: "'k \<Rightarrow> 's \<Rightarrow> 'o list \<times> 's" and report
begin

text \<open>The loop that drains one map of a tool, from a state \<open>s2\<close> that has the map after the events
  (other maps may have been drained in between).\<close>

lemma drain_after:
  assumes "getm s2 = getm (fold ev es s)"
    and "keys (getm s) = []" and "card (keys_hit hit es) \<le> cap (getm s)"
    and "cur = None \<or> (\<exists>c. cur = Some c \<and> c \<notin> keys_hit hit es)"
  obtains ks s' where "key_loop (\<lambda>s. next_key ops (getm s)) body cur s2 =
      Some (concat (map (\<lambda>k. report k (run_value upd ini (hits hit es k))) ks), s')"
    and "distinct ks" and "set ks = keys_hit hit es"
    and "keys (getm s') = []" and "cap (getm s') = cap (getm s)"
proof -
  let ?m = "getm (fold ev es s)" and ?v = "visit body (keys (getm s2)) s2"
  have ks: "set (keys ?m) = keys_hit hit es" by (rule lookup_run(1) [OF assms(2,3)])
  have none: "lookup_elem ops (getm s) k = None" for k using assms(2) keys_lookup [of k "getm s"] by simp
  have val: "the (lookup_elem ops ?m k) = run_value upd ini (hits hit es k)" if "k \<in> keys_hit hit es" for k
    using run_lookup [of s es k] assms(2,3) that by (simp add: none hits_empty_iff)
  have loop: "key_loop (\<lambda>s. next_key ops (getm s)) body cur s2 = Some ?v"
    using assms(1,4) ks by (intro drain_all) auto
  have "fst ?v = concat (map (\<lambda>k. report k (the (lookup_elem ops ?m k))) (keys ?m))"
    using visit_drain_out [OF keys_distinct subset_refl, of s2] by (simp add: assms(1))
  also have "map (\<lambda>k. report k (the (lookup_elem ops ?m k))) (keys ?m) =
      map (\<lambda>k. report k (run_value upd ini (hits hit es k))) (keys ?m)"
    using ks val by (intro map_cong) auto
  finally have out: "key_loop (\<lambda>s. next_key ops (getm s)) body cur s2 =
      Some (concat (map (\<lambda>k. report k (run_value upd ini (hits hit es k))) (keys ?m)), snd ?v)"
    using loop by (metis prod.collapse)
  have cap: "cap (getm (snd ?v)) = cap (getm s)"
    using cap_visit [of "keys (getm s2)" s2] assms(1) by (simp add: cap_run)
  have "keys (getm (snd ?v)) = []" by (rule visit_drained) simp
  from that [OF out keys_distinct ks this cap] show thesis .
qed

end

end
