(* ===== verification/IrqStat.thy ===== *)
theory IrqStat
  imports Counting Loader MapInstances
begin

section \<open>irq_stat: execve() calls by command name, the five most frequent\<close>

text \<open>
  \<open>my_tools/cpu/irq_stat.bpf.c\<close> counts \<open>sys_enter_execve\<close> by command name (it inserts a zero entry,
  looks it up again and increments it); \<open>my_tools/cpu/irq_stat.c\<close> moves the entries into an array of
  512 elements, deletes them from the map, sorts the array by decreasing count and prints the
  first five and the sum of the rest.
  Shown: the array is never written out of bounds when no program runs during the walk; the
  printed entries are the largest ones; the printed counts add up to the number of events.
\<close>

record my_irq_info =
  irq_count :: u64

record entry =
  entry_name :: "char list"
  entry_count :: u64

text \<open>The map, and the array \<open>data\<close> of which \<open>total_entries\<close> elements are in use; \<open>out_of_bounds\<close> is set by
  a write past its end.\<close>

record 'm irq_stat_maps =
  irq_stats :: 'm
  irq_data :: "entry list"
  out_of_bounds :: bool

definition handle_execve ::
  "('m, comm, my_irq_info) map_ops \<Rightarrow> helpers \<Rightarrow> 'm irq_stat_maps \<Rightarrow> int \<times> 'm irq_stat_maps" where
  "handle_execve ops h s =
     (let comm = cur_comm h;
          zero = \<lparr>irq_count = 0\<rparr>
      in case lookup_elem ops (irq_stats s) comm of
        Some info \<Rightarrow>
          (0, s\<lparr>irq_stats := store_elem ops (irq_stats s) comm (info\<lparr>irq_count := irq_count info + 1\<rparr>)\<rparr>)
      | None \<Rightarrow>
          let s1 = s\<lparr>irq_stats := snd (update_elem ops (irq_stats s) comm zero BPF_ANY)\<rparr>
          in case lookup_elem ops (irq_stats s1) comm of
               None \<Rightarrow> (0, s1)
             | Some info \<Rightarrow>
                 (0, s1\<lparr>irq_stats := store_elem ops (irq_stats s1) comm
                         (info\<lparr>irq_count := irq_count info + 1\<rparr>)\<rparr>))"

definition irq_stat_event ::
  "('m, comm, my_irq_info) map_ops \<Rightarrow> helpers \<Rightarrow> 'm irq_stat_maps \<Rightarrow> 'm irq_stat_maps" where
  "irq_stat_event ops h s = snd (handle_execve ops h s)"

text \<open>The comparison function given to \<open>qsort\<close>.\<close>

definition compare_entries :: "entry \<Rightarrow> entry \<Rightarrow> int" where
  "compare_entries l r =
     (if entry_count l < entry_count r then 1 else if entry_count l > entry_count r then -1 else 0)"

definition DATA_LEN :: nat where
  "DATA_LEN = 512"

text \<open>\<open>strncpy(dst, src, 16)\<close>: the bytes before the first NUL, padded with NULs to 16.\<close>

definition strncpy16 :: "char list \<Rightarrow> char list" where
  "strncpy16 src = take 16 (c_str src @ replicate 16 (CHR 0x00))"

definition irq_stat_body ::
  "('m, comm, my_irq_info) map_ops \<Rightarrow> comm \<Rightarrow> 'm irq_stat_maps \<Rightarrow> effect list \<times> 'm irq_stat_maps" where
  "irq_stat_body ops nkey s =
     (case lookup_elem ops (irq_stats s) nkey of
        None \<Rightarrow> ([], s)
      | Some info \<Rightarrow>
          let e = \<lparr>entry_name = strncpy16 nkey, entry_count = irq_count info\<rparr>;
              s1 = (if length (irq_data s) < DATA_LEN then s\<lparr>irq_data := irq_data s @ [e]\<rparr>
                    else s\<lparr>out_of_bounds := True\<rparr>)
          in ([], s1\<lparr>irq_stats := snd (delete_elem ops (irq_stats s1) nkey)\<rparr>))"

definition json_line :: "string \<Rightarrow> u64 \<Rightarrow> effect" where
  "json_line name n = Stdout (''{'' @ [CHR 0x22] @ name @ [CHR 0x22] @ '': '' @ fmt_u n @ ''}'' @ nl)"

definition show_limit :: nat where
  "show_limit = 5"

text \<open>The printing loop, with its index and the sum of what is not shown.\<close>

fun print_entries :: "nat \<Rightarrow> u64 \<Rightarrow> entry list \<Rightarrow> effect list \<times> u64" where
  "print_entries i others [] = ([], others)"
| "print_entries i others (e # es) =
     (if i < show_limit
      then let (out, n) = print_entries (Suc i) others es
           in (json_line (c_str (entry_name e)) (entry_count e) # out, n)
      else print_entries (Suc i) (others + entry_count e) es)"

text \<open>One iteration; \<open>srt\<close> is \<open>qsort(data, total_entries, ..., compare_entries)\<close>.\<close>

definition irq_stat_tick ::
  "(entry list \<Rightarrow> entry list) \<Rightarrow> ('m, comm, my_irq_info) map_ops \<Rightarrow> ('m irq_stat_maps, effect) tick" where
  "irq_stat_tick srt ops s =
     Option.bind (key_loop (\<lambda>s. next_key ops (irq_stats s)) (irq_stat_body ops) None (s\<lparr>irq_data := []\<rparr>))
       (\<lambda>(_, s1).
         let s2 = s1\<lparr>irq_data := srt (irq_data s1)\<rparr>;
             (out, others_count) = print_entries 0 0 (irq_data s2)
         in Some (out @ (if others_count > 0 then [json_line ''others'' others_count] else []) @ [Flush], s2))"

definition irq_stat_main ::
  "(entry list \<Rightarrow> entry list) \<Rightarrow> ('m, comm, my_irq_info) map_ops \<Rightarrow> helpers env \<Rightarrow> 'm irq_stat_maps \<Rightarrow>
     (status \<times> effect list \<times> 'm irq_stat_maps) option" where
  "irq_stat_main srt ops env s =
     (if \<not> skel_opened env then Some (Exited 1, [], s)
      else if attach_err env \<noteq> 0
      then Some (Exited (attach_err env),
             [err_line (''Failed to attach BPF program: '' @ fmt_d (attach_err env)), Destroy], s)
      else monitor [] [SIGINT, SIGTERM]
             (loop_sleep_first 1 [SIGINT, SIGTERM] (irq_stat_event ops) (irq_stat_tick srt ops)) env s)"

subsection \<open>Sorting with a comparison function\<close>

text \<open>What C promises of \<open>qsort\<close>: a permutation in which no element compares greater than a later one;
  the order of elements that compare equal is not specified.\<close>

locale qsort_spec =
  fixes srt :: "'x list \<Rightarrow> 'x list"
    and cmp :: "'x \<Rightarrow> 'x \<Rightarrow> int"
  assumes qsort_perm: "mset (srt xs) = mset xs"
    and qsort_sorted: "sorted_wrt (\<lambda>a b. cmp a b \<le> 0) (srt xs)"

definition insertion_sort :: "entry list \<Rightarrow> entry list" where
  "insertion_sort xs = sort_key (\<lambda>e. - int (unat (entry_count e))) xs"

lemma compare_entries_le: "compare_entries l r \<le> 0 \<longleftrightarrow> entry_count r \<le> entry_count l"
  by (auto simp: compare_entries_def not_less)

interpretation qs: qsort_spec insertion_sort compare_entries
proof
  fix xs
  show "mset (insertion_sort xs) = mset xs" by (simp add: insertion_sort_def)
  have "sorted (map (\<lambda>e. - int (unat (entry_count e))) (insertion_sort xs))"
    by (simp add: insertion_sort_def)
  then show "sorted_wrt (\<lambda>a b. compare_entries a b \<le> 0) (insertion_sort xs)"
    unfolding sorted_map by (rule sorted_wrt_mono_rel [rotated]) (simp add: compare_entries_le word_le_def)
qed

subsection \<open>The tool over a lawful map\<close>

lemma print_entries_spec:
  "print_entries i others es =
     (map (\<lambda>e. json_line (c_str (entry_name e)) (entry_count e)) (take (show_limit - i) es),
      others + sum_list (map entry_count (drop (show_limit - i) es)))"
proof (induction i others es rule: print_entries.induct)
  case (2 i others e es)
  show ?case
  proof (cases "i < show_limit")
    case True
    then obtain n where "show_limit - i = Suc n" "show_limit - Suc i = n" by (metis Suc_diff_Suc)
    then show ?thesis using 2(1) [OF True] True by simp
  next
    case False
    then show ?thesis using 2(2) [OF False] by (simp add: add.assoc)
  qed
qed simp

definition entry_of :: "comm \<Rightarrow> my_irq_info \<Rightarrow> entry" where
  "entry_of k i = \<lparr>entry_name = strncpy16 k, entry_count = irq_count i\<rparr>"

definition entry_total :: "helpers list \<Rightarrow> comm \<Rightarrow> entry" where
  "entry_total hs k =
     \<lparr>entry_name = strncpy16 k, entry_count = of_nat (length (filter (\<lambda>h. cur_comm h = k) hs))\<rparr>"

locale irq_stat = bpf_hash ops keys cap
  for ops :: "('m, comm, my_irq_info) map_ops" and keys :: "'m \<Rightarrow> comm list" and cap
begin

sublocale rep: drain_report ops keys cap irq_stats "irq_stat_body ops" "\<lambda>k i. []"
  by unfold_locales (simp_all add: irq_stat_body_def Let_def)

sublocale ctr: counter_spec ops keys cap irq_stats "irq_stat_event ops"
    "\<lambda>h. Some (cur_comm h)" "\<lambda>h. 1" "\<lambda>h i. i\<lparr>irq_count := irq_count i + 1\<rparr>" "\<lambda>h. \<lparr>irq_count = 1\<rparr>" irq_count
proof (unfold_locales, goal_cases)
  case (2 e k s)
  show ?case
  proof (cases "lookup_elem ops (irq_stats s) k")
    case None
    then have "lookup_elem ops (snd (update_elem ops (irq_stats s) k \<lparr>irq_count = 0\<rparr> BPF_ANY)) =
        (lookup_elem ops (irq_stats s))(k \<mapsto> \<lparr>irq_count = 0\<rparr>)"
      using 2(2) by (intro lookup_update_room) auto
    then show ?thesis using 2(1) None
      by (simp add: irq_stat_event_def handle_execve_def Let_def lookup_store keys_lookup)
  next
    case (Some i)
    then show ?thesis using 2(1)
      by (simp add: irq_stat_event_def handle_execve_def Let_def lookup_store keys_lookup)
  qed
next
  case (3 e k s)
  then show ?case by (simp add: irq_stat_event_def handle_execve_def Let_def update_full keys_lookup)
next
  case (4 e s)
  show ?case by (simp add: irq_stat_event_def handle_execve_def Let_def cap_store cap_update split: option.split)
qed simp_all

lemma cap_events: "cap (irq_stats (fold (irq_stat_event ops) hs s)) = cap (irq_stats s)"
  by (rule ctr.cap_run)

lemma visit_data:
  "distinct ks \<Longrightarrow> set ks \<subseteq> set (keys (irq_stats s)) \<Longrightarrow> length (irq_data s) + length ks \<le> DATA_LEN \<Longrightarrow>
     irq_data (snd (visit (irq_stat_body ops) ks s)) =
       irq_data s @ map (\<lambda>k. entry_of k (the (lookup_elem ops (irq_stats s) k))) ks \<and>
     out_of_bounds (snd (visit (irq_stat_body ops) ks s)) = out_of_bounds s"
proof (induction ks arbitrary: s)
  case (Cons k ks)
  have mem: "k \<in> set (keys (irq_stats s))" using Cons.prems by simp
  then obtain i where i: "lookup_elem ops (irq_stats s) k = Some i" using keys_lookup by blast
  let ?s1 = "snd (irq_stat_body ops k s)"
  have s1: "irq_data ?s1 = irq_data s @ [entry_of k i]" "out_of_bounds ?s1 = out_of_bounds s"
    using Cons.prems(3) by (simp_all add: irq_stat_body_def i Let_def entry_of_def)
  have "set ks \<subseteq> set (keys (irq_stats ?s1))"
    using Cons.prems keys_distinct [of "irq_stats s"] by (auto simp: rep.drain_keys [OF mem])
  note IH = Cons.IH [OF _ this]
  have "map (\<lambda>j. entry_of j (the (lookup_elem ops (irq_stats ?s1) j))) ks =
      map (\<lambda>j. entry_of j (the (lookup_elem ops (irq_stats s) j))) ks"
    using Cons.prems by (intro map_cong) (auto simp: rep.drain_lookup [OF mem])
  then show ?case using IH Cons.prems s1 by (simp add: i)
qed simp

lemma tick_spec:
  assumes "cap (irq_stats s) \<le> DATA_LEN"
  defines "es \<equiv> map (\<lambda>k. entry_of k (the (lookup_elem ops (irq_stats s) k))) (keys (irq_stats s))"
  shows "\<exists>s'. irq_stat_tick srt ops s = Some
      (map (\<lambda>e. json_line (c_str (entry_name e)) (entry_count e)) (take show_limit (srt es)) @
       (let others = sum_list (map entry_count (drop show_limit (srt es))) in
        if others > 0 then [json_line ''others'' others] else []) @ [Flush], s')
    \<and> keys (irq_stats s') = [] \<and> cap (irq_stats s') = cap (irq_stats s) \<and> out_of_bounds s' = out_of_bounds s"
proof -
  let ?s = "s\<lparr>irq_data := []\<rparr>" and ?ks = "keys (irq_stats s)"
  let ?v = "visit (irq_stat_body ops) ?ks ?s"
  have loop: "key_loop (\<lambda>s. next_key ops (irq_stats s)) (irq_stat_body ops) None ?s = Some ?v"
    using rep.drain_all [of None ?s] by simp
  have "irq_data (snd ?v) = es \<and> out_of_bounds (snd ?v) = out_of_bounds s"
    using visit_data [of ?ks ?s] keys_distinct [of "irq_stats s"] keys_cap [of "irq_stats s"] assms(1)
    by (simp add: es_def)
  moreover have "keys (irq_stats (snd ?v)) = []" by (rule rep.visit_drained) simp
  moreover have "cap (irq_stats (snd ?v)) = cap (irq_stats s)" using rep.cap_visit [of ?ks ?s] by simp
  ultimately show ?thesis
    by (simp add: irq_stat_tick_def loop case_prod_unfold Let_def print_entries_spec)
qed

text \<open>The entries after a sequence of events, and their sum.\<close>

lemma round_entries:
  assumes "keys (irq_stats s) = []" and "card (cur_comm ` set hs) \<le> cap (irq_stats s)"
  defines "s1 \<equiv> fold (irq_stat_event ops) hs s"
  defines "es \<equiv> map (\<lambda>k. entry_of k (the (lookup_elem ops (irq_stats s1) k))) (keys (irq_stats s1))"
  shows "mset es = image_mset (entry_total hs) (mset_set (cur_comm ` set hs))"
    and "sum_list (map entry_count es) = of_nat (length hs)"
proof -
  let ?hit = "\<lambda>h. Some (cur_comm h)"
  have kh: "keys_hit ?hit hs = cur_comm ` set hs" by (auto simp: keys_hit_def)
  note run = ctr.lookup_run [OF assms(1), of hs, unfolded kh, OF assms(2), folded s1_def]
  have ent: "entry_of k (the (lookup_elem ops (irq_stats s1) k)) = entry_total hs k"
    if "k \<in> cur_comm ` set hs" for k
  proof -
    obtain i where "lookup_elem ops (irq_stats s1) k = Some i"
      "irq_count i = sum_list (map (\<lambda>h. 1) (hits ?hit hs k))" using run(2) \<open>k \<in> cur_comm ` set hs\<close> by blast
    then show ?thesis by (simp add: entry_of_def entry_total_def sum_weight_one hits_def)
  qed
  have ks: "mset (keys (irq_stats s1)) = mset_set (cur_comm ` set hs)"
    using keys_distinct [of "irq_stats s1"] run(1) by (metis mset_set_set)
  have "es = map (entry_total hs) (keys (irq_stats s1))"
    unfolding es_def using run(1) ent by (intro map_cong) auto
  then show perm: "mset es = image_mset (entry_total hs) (mset_set (cur_comm ` set hs))"
    by (simp add: ks)
  have "sum_list (map entry_count es) = sum_mset (image_mset entry_count (mset es))"
    by (metis mset_map sum_mset_sum_list)
  also have "\<dots> = (\<Sum>k\<in>cur_comm ` set hs. of_nat (length (filter (\<lambda>h. cur_comm h = k) hs)))"
    unfolding perm by (simp add: image_mset.compositionality comp_def entry_total_def sum_unfold_sum_mset)
  also have "\<dots> = of_nat (\<Sum>k\<in>cur_comm ` set hs. length (filter (\<lambda>h. cur_comm h = k) hs))" by simp
  also have "(\<Sum>k\<in>cur_comm ` set hs. length (filter (\<lambda>h. cur_comm h = k) hs)) = length hs"
    by (rule sum_filter_lengths)
  finally show "sum_list (map entry_count es) = of_nat (length hs)" .
qed

end

text \<open>With the promise of \<open>qsort\<close>.\<close>

locale sorted_irq_stat = irq_stat ops keys cap + qsort_spec srt compare_entries
  for ops :: "('m, comm, my_irq_info) map_ops" and keys cap and srt :: "entry list \<Rightarrow> entry list"
begin

lemma round_exact:
  assumes "keys (irq_stats s) = []" and "cap (irq_stats s) = DATA_LEN" and "card (cur_comm ` set hs) \<le> DATA_LEN"
  shows "\<exists>ents s'. irq_stat_tick srt ops (fold (irq_stat_event ops) hs s) = Some
      (map (\<lambda>e. json_line (c_str (entry_name e)) (entry_count e)) (take 5 ents) @
       (let others = sum_list (map entry_count (drop 5 ents)) in
        if others > 0 then [json_line ''others'' others] else []) @ [Flush], s')
    \<and> mset ents = image_mset (entry_total hs) (mset_set (cur_comm ` set hs))
    \<and> sorted_wrt (\<lambda>a b. entry_count a \<ge> entry_count b) ents
    \<and> sum_list (map entry_count (take 5 ents)) + sum_list (map entry_count (drop 5 ents)) = of_nat (length hs)
    \<and> keys (irq_stats s') = [] \<and> out_of_bounds s' = out_of_bounds (fold (irq_stat_event ops) hs s)
    \<and> cap (irq_stats s') = DATA_LEN"
proof -
  let ?s1 = "fold (irq_stat_event ops) hs s"
  let ?es = "map (\<lambda>k. entry_of k (the (lookup_elem ops (irq_stats ?s1) k))) (keys (irq_stats ?s1))"
  have room: "card (cur_comm ` set hs) \<le> cap (irq_stats s)" using assms(2,3) by simp
  note ents = round_entries [OF assms(1) room]
  have "cap (irq_stats ?s1) = DATA_LEN" using cap_events assms(2) by simp
  then obtain s' where s': "irq_stat_tick srt ops ?s1 = Some
      (map (\<lambda>e. json_line (c_str (entry_name e)) (entry_count e)) (take 5 (srt ?es)) @
       (let others = sum_list (map entry_count (drop 5 (srt ?es))) in
        if others > 0 then [json_line ''others'' others] else []) @ [Flush], s')"
    "keys (irq_stats s') = []" "out_of_bounds s' = out_of_bounds ?s1" "cap (irq_stats s') = DATA_LEN"
    using tick_spec [of ?s1 srt] unfolding show_limit_def by auto
  have "sorted_wrt (\<lambda>a b. entry_count a \<ge> entry_count b) (srt ?es)"
    using qsort_sorted [of ?es] by (simp add: compare_entries_le)
  moreover have "sum_list (map entry_count (take 5 (srt ?es))) + sum_list (map entry_count (drop 5 (srt ?es))) =
      sum_list (map entry_count (srt ?es))"
    by (simp flip: sum_list_append map_append)
  moreover have "sum_list (map entry_count (srt ?es)) = sum_list (map entry_count ?es)"
    unfolding sum_mset_sum_list [symmetric] mset_map qsort_perm ..
  ultimately show ?thesis using s' qsort_perm [of ?es] ents by (intro exI [of _ "srt ?es"] exI [of _ s']) simp
qed

end

interpretation irq_hash: irq_stat "hash_ops reorder" hm_keys hcap
  by unfold_locales

interpretation irq_sorted: sorted_irq_stat "hash_ops reorder" hm_keys hcap insertion_sort
  by unfold_locales

subsection \<open>Properties\<close>

text \<open>After any sequence of \<open>execve()\<close> calls with at most 512 different command names, from an
  empty map, an iteration of irq_stat returns, prints the five entries with the largest counts in
  decreasing order and the sum of the others, whatever order \<open>qsort\<close> gives to ties; the entries
  are exactly the command names that occurred with their numbers of calls, all the counts add up
  to the number of calls, the map is left empty, and the array is not written out of bounds.\<close>

theorem irq_stat_round:
  assumes "bpf_hash ops keys cap" and "qsort_spec srt compare_entries"
    and "keys (irq_stats s) = []" and "cap (irq_stats s) = DATA_LEN" and "card (cur_comm ` set hs) \<le> DATA_LEN"
  shows "\<exists>ents s'. irq_stat_tick srt ops (fold (irq_stat_event ops) hs s) = Some
      (map (\<lambda>e. json_line (c_str (entry_name e)) (entry_count e)) (take 5 ents) @
       (let others = sum_list (map entry_count (drop 5 ents)) in
        if others > 0 then [json_line ''others'' others] else []) @ [Flush], s')
    \<and> mset ents = image_mset (entry_total hs) (mset_set (cur_comm ` set hs))
    \<and> sorted_wrt (\<lambda>a b. entry_count a \<ge> entry_count b) ents
    \<and> sum_list (map entry_count (take 5 ents)) + sum_list (map entry_count (drop 5 ents)) = of_nat (length hs)
    \<and> keys (irq_stats s') = [] \<and> out_of_bounds s' = out_of_bounds (fold (irq_stat_event ops) hs s)"
  using sorted_irq_stat.round_exact [OF sorted_irq_stat.intro [OF irq_stat.intro [OF assms(1)] assms(2)] assms(3-5)]
  by blast

definition exec_demo :: "helpers list" where
  "exec_demo = [task_ctx 1 ''bash'' 1 0, task_ctx 2 ''make'' 2 0, task_ctx 1 ''bash'' 3 0]"

definition irq_init :: "(comm, my_irq_info) hmap irq_stat_maps" where
  "irq_init = \<lparr>irq_stats = empty_hash DATA_LEN, irq_data = [], out_of_bounds = False\<rparr>"

theorem irq_stat_round_witness:
  "\<exists>ents s'. irq_stat_tick insertion_sort (hash_ops False) (fold (irq_stat_event (hash_ops False)) exec_demo irq_init) = Some
      (map (\<lambda>e. json_line (c_str (entry_name e)) (entry_count e)) (take 5 ents) @
       (let others = sum_list (map entry_count (drop 5 ents)) in
        if others > 0 then [json_line ''others'' others] else []) @ [Flush], s')
    \<and> mset ents = image_mset (entry_total exec_demo) (mset_set (cur_comm ` set exec_demo))
    \<and> sorted_wrt (\<lambda>a b. entry_count a \<ge> entry_count b) ents
    \<and> sum_list (map entry_count (take 5 ents)) + sum_list (map entry_count (drop 5 ents)) = of_nat (length exec_demo)
    \<and> hm_keys (irq_stats s') = []
    \<and> out_of_bounds s' = out_of_bounds (fold (irq_stat_event (hash_ops False)) exec_demo irq_init)"
proof (rule irq_stat_round [OF hm.bpf_hash_axioms qs.qsort_spec_axioms])
  have "card (cur_comm ` set exec_demo) \<le> card (set exec_demo)" by (rule card_image_le) simp
  also have "\<dots> \<le> length exec_demo" by (rule card_length)
  finally show "card (cur_comm ` set exec_demo) \<le> DATA_LEN" by (simp add: exec_demo_def DATA_LEN_def)
qed (simp_all add: irq_init_def)

end
