(* ===== verification/DiskDelay.thy ===== *)
theory DiskDelay
  imports Latency KeyWalk Loader MapInstances CDouble
begin

section \<open>disk_read_delay and disk_write_delay: time in the VFS and in the block layer\<close>

text \<open>
  \<open>my_tools/disk/disk_read_delay.bpf.c\<close>, \<open>disk_read_delay.c\<close>, \<open>disk_write_delay.bpf.c\<close> and
  \<open>disk_write_delay.c\<close>. Each tool times \<open>vfs_read\<close> (\<open>vfs_write\<close>) by thread and block requests by
  request pointer, and adds the durations and numbers up in a hash map with four keys; the
  loader prints the increments, with a difference that saturates at 0.
  Shown: what one iteration prints is the total duration and number of the calls and requests that
  completed since the last one; the kernel sides of the two tools compute the same; a failed
  lookup or a counter that went back gives 0, never a wrapped difference.
\<close>

text \<open>\<open>struct stats_snapshot\<close>, with the field names of the write tool.\<close>

record stats_snapshot =
  total_vfs :: u64
  count_vfs :: u64
  total_blk :: u64
  count_blk :: u64

record ('m, 'n) disk_delay_maps =
  ts_start_pid :: 'm
  ts_start_req :: 'm
  disk_stats :: 'n
  prev_snapshot :: stats_snapshot

definition update_stat ::
  "('n, u32, u64) map_ops \<Rightarrow> u32 \<Rightarrow> u64 \<Rightarrow> ('m, 'n) disk_delay_maps \<Rightarrow> ('m, 'n) disk_delay_maps" where
  "update_stat sops key delta s = s\<lparr>disk_stats := add_or_insert sops (disk_stats s) key delta BPF_ANY\<rparr>"

subsection \<open>The BPF programs of disk_read_delay\<close>

definition handle_vfs_read ::
  "('m, u64, u64) map_ops \<Rightarrow> helpers \<Rightarrow> ('m, 'n) disk_delay_maps \<Rightarrow> int \<times> ('m, 'n) disk_delay_maps" where
  "handle_vfs_read ops h s =
     (let tid = cur_pid_tgid h; ts = ktime_ns h in
      (0, s\<lparr>ts_start_pid := snd (update_elem ops (ts_start_pid s) tid ts BPF_ANY)\<rparr>))"

definition handle_vfs_read_ret ::
  "('m, u64, u64) map_ops \<Rightarrow> ('n, u32, u64) map_ops \<Rightarrow> helpers \<Rightarrow>
     ('m, 'n) disk_delay_maps \<Rightarrow> int \<times> ('m, 'n) disk_delay_maps" where
  "handle_vfs_read_ret ops sops h s =
     (let tid = cur_pid_tgid h in
      case lookup_elem ops (ts_start_pid s) tid of
        None \<Rightarrow> (0, s)
      | Some start \<Rightarrow>
          let s1 = update_stat sops 0 (ktime_ns h - start) s;
              s2 = update_stat sops 1 1 s1
          in (0, s2\<lparr>ts_start_pid := snd (delete_elem ops (ts_start_pid s2) tid)\<rparr>))"

text \<open>\<open>rq\<close> is \<open>PT_REGS_PARM1(ctx)\<close>, the request pointer.\<close>

definition handle_blk_mq_start_request ::
  "('m, u64, u64) map_ops \<Rightarrow> u64 \<Rightarrow> helpers \<Rightarrow> ('m, 'n) disk_delay_maps \<Rightarrow> int \<times> ('m, 'n) disk_delay_maps" where
  "handle_blk_mq_start_request ops rq h s =
     (let ts = ktime_ns h in
      (0, s\<lparr>ts_start_req := snd (update_elem ops (ts_start_req s) rq ts BPF_ANY)\<rparr>))"

definition handle_blk_update_request ::
  "('m, u64, u64) map_ops \<Rightarrow> ('n, u32, u64) map_ops \<Rightarrow> u64 \<Rightarrow> helpers \<Rightarrow>
     ('m, 'n) disk_delay_maps \<Rightarrow> int \<times> ('m, 'n) disk_delay_maps" where
  "handle_blk_update_request ops sops rq h s =
     (case lookup_elem ops (ts_start_req s) rq of
        None \<Rightarrow> (0, s)
      | Some start \<Rightarrow>
          let s1 = update_stat sops 2 (ktime_ns h - start) s;
              s2 = update_stat sops 3 1 s1
          in (0, s2\<lparr>ts_start_req := snd (delete_elem ops (ts_start_req s2) rq)\<rparr>))"

datatype disk_event =
    Vfs_enter helpers
  | Vfs_return helpers
  | Rq_start u64 helpers
  | Rq_update u64 helpers

definition disk_read_event ::
  "('m, u64, u64) map_ops \<Rightarrow> ('n, u32, u64) map_ops \<Rightarrow> disk_event \<Rightarrow>
     ('m, 'n) disk_delay_maps \<Rightarrow> ('m, 'n) disk_delay_maps" where
  "disk_read_event ops sops e s =
     (case e of
        Vfs_enter h \<Rightarrow> snd (handle_vfs_read ops h s)
      | Vfs_return h \<Rightarrow> snd (handle_vfs_read_ret ops sops h s)
      | Rq_start rq h \<Rightarrow> snd (handle_blk_mq_start_request ops rq h s)
      | Rq_update rq h \<Rightarrow> snd (handle_blk_update_request ops sops rq h s))"

subsection \<open>The BPF programs of disk_write_delay\<close>

definition handle_vfs_write ::
  "('m, u64, u64) map_ops \<Rightarrow> helpers \<Rightarrow> ('m, 'n) disk_delay_maps \<Rightarrow> int \<times> ('m, 'n) disk_delay_maps" where
  "handle_vfs_write ops h s =
     (let tid = cur_pid_tgid h; ts = ktime_ns h in
      (0, s\<lparr>ts_start_pid := snd (update_elem ops (ts_start_pid s) tid ts BPF_ANY)\<rparr>))"

definition handle_vfs_write_ret ::
  "('m, u64, u64) map_ops \<Rightarrow> ('n, u32, u64) map_ops \<Rightarrow> helpers \<Rightarrow>
     ('m, 'n) disk_delay_maps \<Rightarrow> int \<times> ('m, 'n) disk_delay_maps" where
  "handle_vfs_write_ret ops sops h s =
     (let tid = cur_pid_tgid h in
      case lookup_elem ops (ts_start_pid s) tid of
        None \<Rightarrow> (0, s)
      | Some start \<Rightarrow>
          let delta = ktime_ns h - start;
              total_key = 0;
              count_key = 1;
              s1 = update_stat sops total_key delta s;
              s2 = update_stat sops count_key 1 s1
          in (0, s2\<lparr>ts_start_pid := snd (delete_elem ops (ts_start_pid s2) tid)\<rparr>))"

definition write_blk_mq_start_request ::
  "('m, u64, u64) map_ops \<Rightarrow> u64 \<Rightarrow> helpers \<Rightarrow> ('m, 'n) disk_delay_maps \<Rightarrow> int \<times> ('m, 'n) disk_delay_maps" where
  "write_blk_mq_start_request ops rq h s =
     (let ts = ktime_ns h in
      (0, s\<lparr>ts_start_req := snd (update_elem ops (ts_start_req s) rq ts BPF_ANY)\<rparr>))"

definition write_blk_update_request ::
  "('m, u64, u64) map_ops \<Rightarrow> ('n, u32, u64) map_ops \<Rightarrow> u64 \<Rightarrow> helpers \<Rightarrow>
     ('m, 'n) disk_delay_maps \<Rightarrow> int \<times> ('m, 'n) disk_delay_maps" where
  "write_blk_update_request ops sops rq h s =
     (case lookup_elem ops (ts_start_req s) rq of
        None \<Rightarrow> (0, s)
      | Some start \<Rightarrow>
          let delta = ktime_ns h - start;
              total_key = 2;
              count_key = 3;
              s1 = update_stat sops total_key delta s;
              s2 = update_stat sops count_key 1 s1
          in (0, s2\<lparr>ts_start_req := snd (delete_elem ops (ts_start_req s2) rq)\<rparr>))"

definition disk_write_event ::
  "('m, u64, u64) map_ops \<Rightarrow> ('n, u32, u64) map_ops \<Rightarrow> disk_event \<Rightarrow>
     ('m, 'n) disk_delay_maps \<Rightarrow> ('m, 'n) disk_delay_maps" where
  "disk_write_event ops sops e s =
     (case e of
        Vfs_enter h \<Rightarrow> snd (handle_vfs_write ops h s)
      | Vfs_return h \<Rightarrow> snd (handle_vfs_write_ret ops sops h s)
      | Rq_start rq h \<Rightarrow> snd (write_blk_mq_start_request ops rq h s)
      | Rq_update rq h \<Rightarrow> snd (write_blk_update_request ops sops rq h s))"

subsection \<open>The loaders\<close>

text \<open>A failed lookup leaves the initial 0.\<close>

definition lookup_or_0 :: "('n, u32, u64) map_ops \<Rightarrow> 'n \<Rightarrow> u32 \<Rightarrow> u64" where
  "lookup_or_0 sops m k = (case lookup_elem sops m k of Some v \<Rightarrow> v | None \<Rightarrow> 0)"

definition read_key_error :: "('n, u32, u64) map_ops \<Rightarrow> 'n \<Rightarrow> nat \<Rightarrow> effect list" where
  "read_key_error sops m i =
     (let err = lookup_errno sops m (of_nat i) in
      if err \<noteq> 0 then [err_line (''failed to lookup stats key '' @ fmt_nat i @ '': '' @ fmt_d err)] else [])"

definition disk_read_tick ::
  "('n, u32, u64) map_ops \<Rightarrow> (('m, 'n) disk_delay_maps, effect) tick" where
  "disk_read_tick sops s =
     (let prev = prev_snapshot s;
          prev_vals = [total_vfs prev, count_vfs prev, total_blk prev, count_blk prev];
          errs = concat (map (\<lambda>i. read_key_error sops (disk_stats s) i) [0..<4]);
          cur = map (\<lambda>i. lookup_or_0 sops (disk_stats s) (of_nat i)) [0..<4];
          delta = map (\<lambda>i. if cur ! i > prev_vals ! i then cur ! i - prev_vals ! i else 0) [0..<4]
      in Some (errs @
           [Stdout (kv_line ''disk_read_vfs_total_us'' (fmt_us (delta ! 0)) @
                    kv_line ''disk_read_vfs_count'' (fmt_u (delta ! 1))),
            Stdout (kv_line ''disk_read_block_total_us'' (fmt_us (delta ! 2)) @
                    kv_line ''disk_read_block_count'' (fmt_u (delta ! 3))), Flush],
           s\<lparr>prev_snapshot := \<lparr>total_vfs = cur ! 0, count_vfs = cur ! 1, total_blk = cur ! 2, count_blk = cur ! 3\<rparr>\<rparr>))"

text \<open>\<open>links_ok\<close>: whether each of the four \<open>bpf_program__attach_kprobe\<close> calls returned a link.\<close>

definition disk_read_main ::
  "('m, u64, u64) map_ops \<Rightarrow> ('n, u32, u64) map_ops \<Rightarrow> bool list \<Rightarrow> disk_event env \<Rightarrow>
     ('m, 'n) disk_delay_maps \<Rightarrow> (status \<times> effect list \<times> ('m, 'n) disk_delay_maps) option" where
  "disk_read_main ops sops links_ok env s =
     (if \<not> skel_opened env then Some (Exited 1, [], s)
      else if \<not> (links_ok ! 0 \<and> links_ok ! 1 \<and> links_ok ! 2 \<and> links_ok ! 3)
      then Some (Exited 1, [err_line ''Failed to attach one or more kprobes'', Destroy], s)
      else monitor [] [SIGINT, SIGTERM]
             (loop_sleep_last 1 [SIGINT, SIGTERM] (disk_read_event ops sops) (disk_read_tick sops)) env s)"

definition key_failed :: "('n, u32, u64) map_ops \<Rightarrow> 'n \<Rightarrow> u32 \<Rightarrow> effect list" where
  "key_failed sops m k =
     (if lookup_elem sops m k = None then [err_line (''failed to lookup stats key '' @ fmt_u k)] else [])"

definition print_incremental_stats ::
  "('n, u32, u64) map_ops \<Rightarrow> ('m, 'n) disk_delay_maps \<Rightarrow> effect list \<times> ('m, 'n) disk_delay_maps" where
  "print_incremental_stats sops s =
     (let prev = prev_snapshot s;
          curr_total_write = lookup_or_0 sops (disk_stats s) 0;
          curr_count_write = lookup_or_0 sops (disk_stats s) 1;
          curr_total_flush = lookup_or_0 sops (disk_stats s) 2;
          curr_count_flush = lookup_or_0 sops (disk_stats s) 3;
          errs = key_failed sops (disk_stats s) 0 @ key_failed sops (disk_stats s) 1 @
                 key_failed sops (disk_stats s) 2 @ key_failed sops (disk_stats s) 3;
          diff_write_ns = (if curr_total_write > total_vfs prev then curr_total_write - total_vfs prev else 0);
          diff_write_cnt = (if curr_count_write > count_vfs prev then curr_count_write - count_vfs prev else 0);
          diff_flush_ns = (if curr_total_flush > total_blk prev then curr_total_flush - total_blk prev else 0);
          diff_flush_cnt = (if curr_count_flush > count_blk prev then curr_count_flush - count_blk prev else 0)
      in (errs @
          [out_kv ''disk_write_vfs_total_us'' (fmt_us diff_write_ns),
           out_kv ''disk_write_vfs_count'' (fmt_u diff_write_cnt),
           out_kv ''disk_write_block_total_us'' (fmt_us diff_flush_ns),
           out_kv ''disk_write_block_count'' (fmt_u diff_flush_cnt), Flush],
          s\<lparr>prev_snapshot := \<lparr>total_vfs = curr_total_write, count_vfs = curr_count_write,
                              total_blk = curr_total_flush, count_blk = curr_count_flush\<rparr>\<rparr>))"

definition disk_write_main ::
  "('m, u64, u64) map_ops \<Rightarrow> ('n, u32, u64) map_ops \<Rightarrow> bool list \<Rightarrow> disk_event env \<Rightarrow>
     ('m, 'n) disk_delay_maps \<Rightarrow> (status \<times> effect list \<times> ('m, 'n) disk_delay_maps) option" where
  "disk_write_main ops sops links_ok env s =
     (if \<not> skel_opened env
      then Some (Exited 1, [err_line ''Failed to open and load BPF skeleton''], s)
      else if \<not> (links_ok ! 0 \<and> links_ok ! 1 \<and> links_ok ! 2 \<and> links_ok ! 3)
      then Some (Exited 1, [err_line ''Failed to attach one or more kprobes'', Destroy], s)
      else monitor [err_line ''Monitoring disk latencies (ms)... Press Ctrl+C to stop.''] [SIGINT, SIGTERM]
             (loop_sleep_last 1 [SIGINT, SIGTERM] (disk_write_event ops sops)
                (\<lambda>s. Some (print_incremental_stats sops s))) env s)"

subsection \<open>The tools over lawful maps\<close>

fun vfs_lat :: "disk_event \<Rightarrow> u64 lat" where
  "vfs_lat (Vfs_enter h) = Start (cur_pid_tgid h) (ktime_ns h)"
| "vfs_lat (Vfs_return h) = Finish (cur_pid_tgid h) (ktime_ns h)"
| "vfs_lat _ = Other"

fun blk_lat :: "disk_event \<Rightarrow> u64 lat" where
  "blk_lat (Rq_start rq h) = Start rq (ktime_ns h)"
| "blk_lat (Rq_update rq h) = Finish rq (ktime_ns h)"
| "blk_lat _ = Other"

text \<open>The durations of the calls and of the requests that complete in a sequence of events.\<close>

definition vfs_times ::
  "('m, u64, u64) map_ops \<Rightarrow> ('m, 'n) disk_delay_maps \<Rightarrow> disk_event list \<Rightarrow> u64 list" where
  "vfs_times ops s es = spans (\<lambda>_. True) (lookup_elem ops (ts_start_pid s)) (map vfs_lat es)"

definition blk_times ::
  "('m, u64, u64) map_ops \<Rightarrow> ('m, 'n) disk_delay_maps \<Rightarrow> disk_event list \<Rightarrow> u64 list" where
  "blk_times ops s es = spans (\<lambda>_. True) (lookup_elem ops (ts_start_req s)) (map blk_lat es)"

text \<open>The threads and requests of an event.\<close>

fun disk_ok :: "u64 set \<Rightarrow> u64 set \<Rightarrow> disk_event \<Rightarrow> bool" where
  "disk_ok T R (Vfs_enter h) \<longleftrightarrow> cur_pid_tgid h \<in> T"
| "disk_ok T R (Vfs_return h) \<longleftrightarrow> cur_pid_tgid h \<in> T"
| "disk_ok T R (Rq_start rq h) \<longleftrightarrow> rq \<in> R"
| "disk_ok T R (Rq_update rq h) \<longleftrightarrow> rq \<in> R"

definition disk_synced :: "('n, u32, u64) map_ops \<Rightarrow> ('m, 'n) disk_delay_maps \<Rightarrow> bool" where
  "disk_synced sops s \<longleftrightarrow> prev_snapshot s =
     \<lparr>total_vfs = lookup_or_0 sops (disk_stats s) 0, count_vfs = lookup_or_0 sops (disk_stats s) 1,
      total_blk = lookup_or_0 sops (disk_stats s) 2, count_blk = lookup_or_0 sops (disk_stats s) 3\<rparr>"

definition disk_no_wrap :: "stats_snapshot \<Rightarrow> u64 list \<Rightarrow> u64 list \<Rightarrow> bool" where
  "disk_no_wrap p V B \<longleftrightarrow>
     unat (total_vfs p) + unat (sum_list V) < 2 ^ 64 \<and> unat (count_vfs p) + length V < 2 ^ 64 \<and>
     unat (total_blk p) + unat (sum_list B) < 2 ^ 64 \<and> unat (count_blk p) + length B < 2 ^ 64"

lemma lookup_or_0_count: "lookup_or_0 sops m k = count_at sops (\<lambda>v. v) m k"
  by (simp add: lookup_or_0_def count_at_def)

lemma disk_events_equal: "disk_write_event ops sops e s = disk_read_event ops sops e s"
  by (simp add: disk_write_event_def disk_read_event_def handle_vfs_write_def handle_vfs_read_def
      handle_vfs_write_ret_def handle_vfs_read_ret_def write_blk_mq_start_request_def
      handle_blk_mq_start_request_def write_blk_update_request_def handle_blk_update_request_def Let_def
      split: disk_event.split option.split)

lemma sat_diff_add_nat:
  assumes "unat c + n < 2 ^ 64"
  shows "sat_diff (c + of_nat n) c = of_nat n"
proof -
  have "unat (of_nat n :: u64) = n" using assms by (simp add: unat_of_nat take_bit_nat_eq_self)
  then show ?thesis using assms by (intro sat_diff_add) simp
qed

locale disk_delay =
  h: bpf_hash ops keys cap + st: bpf_hash sops skeys scap
  for ops :: "('m, u64, u64) map_ops" and keys :: "'m \<Rightarrow> u64 list" and cap
    and sops :: "('n, u32, u64) map_ops" and skeys :: "'n \<Rightarrow> u32 list" and scap
begin

definition holds :: "u64 set \<Rightarrow> u64 set \<Rightarrow> ('m, 'n) disk_delay_maps \<Rightarrow> bool" where
  "holds T R s \<longleftrightarrow> fits keys cap T (ts_start_pid s) \<and> fits keys cap R (ts_start_req s) \<and>
     fits skeys scap {0, 1, 2, 3} (disk_stats s)"

lemmas event_defs = disk_read_event_def handle_vfs_read_def handle_vfs_read_ret_def
  handle_blk_mq_start_request_def handle_blk_update_request_def update_stat_def Let_def add_or_insert_modify

lemma holds_event: "holds T R s \<Longrightarrow> disk_ok T R e \<Longrightarrow> holds T R (disk_read_event ops sops e s)"
  by (cases e) (auto simp: holds_def event_defs h.fits_update h.fits_delete st.fits_modify split: option.split)

lemma open_event:
  assumes "holds T R s" and "disk_ok T R e"
  shows "lookup_elem ops (ts_start_pid (disk_read_event ops sops e s)) =
      open_step (vfs_lat e) (lookup_elem ops (ts_start_pid s))"
    and "lookup_elem ops (ts_start_req (disk_read_event ops sops e s)) =
      open_step (blk_lat e) (lookup_elem ops (ts_start_req s))"
  using assms
  by (cases e; auto simp: holds_def event_defs h.lookup_update_fits h.lookup_delete_any fun_upd_idem
      split: option.split)+

lemma count_stat:
  assumes "fits skeys scap {0, 1, 2, 3} m" and "k \<in> {0, 1, 2, 3}"
  shows "count_at sops (\<lambda>v. v) (modify_or_insert sops m k (\<lambda>v. v + d) d BPF_ANY) =
    (count_at sops (\<lambda>v. v) m)(k := count_at sops (\<lambda>v. v) m k + d)"
  by (rule st.count_add_fits [OF assms]) simp_all

lemma count_event:
  assumes "holds T R s" and "disk_ok T R e"
  defines "c \<equiv> count_at sops (\<lambda>v. v) (disk_stats s)"
    and "c' \<equiv> count_at sops (\<lambda>v. v) (disk_stats (disk_read_event ops sops e s))"
    and "o1 \<equiv> lookup_elem ops (ts_start_pid s)" and "o2 \<equiv> lookup_elem ops (ts_start_req s)"
  shows "c' 0 = c 0 + acc_step (\<lambda>_. True) (\<lambda>d. d) (vfs_lat e) o1"
    and "c' 1 = c 1 + acc_step (\<lambda>_. True) (\<lambda>_. 1) (vfs_lat e) o1"
    and "c' 2 = c 2 + acc_step (\<lambda>_. True) (\<lambda>d. d) (blk_lat e) o2"
    and "c' 3 = c 3 + acc_step (\<lambda>_. True) (\<lambda>_. 1) (blk_lat e) o2"
proof -
  have f: "fits skeys scap {0, 1, 2, 3} (disk_stats s)" using assms(1) by (simp add: holds_def)
  have f': "fits skeys scap {0, 1, 2, 3} (modify_or_insert sops (disk_stats s) k g v BPF_ANY)"
    if "k \<in> {0, 1, 2, 3}" for k g v using st.fits_modify [OF f that] .
  note up = count_stat [OF f] count_stat [OF f']
  show "c' 0 = c 0 + acc_step (\<lambda>_. True) (\<lambda>d. d) (vfs_lat e) o1"
    "c' 1 = c 1 + acc_step (\<lambda>_. True) (\<lambda>_. 1) (vfs_lat e) o1"
    "c' 2 = c 2 + acc_step (\<lambda>_. True) (\<lambda>d. d) (blk_lat e) o2"
    "c' 3 = c 3 + acc_step (\<lambda>_. True) (\<lambda>_. 1) (blk_lat e) o2"
    unfolding c_def c'_def o1_def o2_def
    by (cases e; simp add: event_defs up split: option.split)+
qed

sublocale vtot: latency "disk_read_event ops sops" vfs_lat "\<lambda>s. lookup_elem ops (ts_start_pid s)"
    "\<lambda>s. count_at sops (\<lambda>v. v) (disk_stats s) 0" "\<lambda>_. True" "\<lambda>d. d" "disk_ok T R" "holds T R" for T R
  by unfold_locales (simp_all add: holds_event open_event count_event)

sublocale vnum: latency "disk_read_event ops sops" vfs_lat "\<lambda>s. lookup_elem ops (ts_start_pid s)"
    "\<lambda>s. count_at sops (\<lambda>v. v) (disk_stats s) 1" "\<lambda>_. True" "\<lambda>d. 1" "disk_ok T R" "holds T R" for T R
  by unfold_locales (simp_all add: holds_event open_event count_event)

sublocale btot: latency "disk_read_event ops sops" blk_lat "\<lambda>s. lookup_elem ops (ts_start_req s)"
    "\<lambda>s. count_at sops (\<lambda>v. v) (disk_stats s) 2" "\<lambda>_. True" "\<lambda>d. d" "disk_ok T R" "holds T R" for T R
  by unfold_locales (simp_all add: holds_event open_event count_event)

sublocale bnum: latency "disk_read_event ops sops" blk_lat "\<lambda>s. lookup_elem ops (ts_start_req s)"
    "\<lambda>s. count_at sops (\<lambda>v. v) (disk_stats s) 3" "\<lambda>_. True" "\<lambda>d. 1" "disk_ok T R" "holds T R" for T R
  by unfold_locales (simp_all add: holds_event open_event count_event)

lemma run_totals:
  assumes "holds T R s" and "\<forall>e \<in> set es. disk_ok T R e"
  defines "c \<equiv> lookup_or_0 sops (disk_stats s)"
    and "c' \<equiv> lookup_or_0 sops (disk_stats (fold (disk_read_event ops sops) es s))"
  shows "c' 0 = c 0 + sum_list (vfs_times ops s es)" and "c' 1 = c 1 + of_nat (length (vfs_times ops s es))"
    and "c' 2 = c 2 + sum_list (blk_times ops s es)" and "c' 3 = c 3 + of_nat (length (blk_times ops s es))"
  using vtot.run_spans [OF assms(1), of es] vnum.run_spans [OF assms(1), of es]
    btot.run_spans [OF assms(1), of es] bnum.run_spans [OF assms(1), of es] assms(2)
  by (simp_all add: c_def c'_def lookup_or_0_count vfs_times_def blk_times_def list_all_iff sum_weight_one)

lemma snapshot_run: "prev_snapshot (fold (disk_read_event ops sops) es s) = prev_snapshot s"
proof -
  have "prev_snapshot (disk_read_event ops sops e s) = prev_snapshot s" for e s
    by (cases e) (simp_all add: event_defs split: option.split)
  then show ?thesis by (induction es arbitrary: s) simp_all
qed

text \<open>The four differences of an iteration.\<close>

lemma deltas:
  assumes "holds T R s" and "\<forall>e \<in> set es. disk_ok T R e" and "disk_synced sops s"
    and "disk_no_wrap (prev_snapshot s) (vfs_times ops s es) (blk_times ops s es)"
  defines "c' \<equiv> lookup_or_0 sops (disk_stats (fold (disk_read_event ops sops) es s))"
  shows "sat_diff (c' 0) (total_vfs (prev_snapshot s)) = sum_list (vfs_times ops s es)"
    and "sat_diff (c' 1) (count_vfs (prev_snapshot s)) = of_nat (length (vfs_times ops s es))"
    and "sat_diff (c' 2) (total_blk (prev_snapshot s)) = sum_list (blk_times ops s es)"
    and "sat_diff (c' 3) (count_blk (prev_snapshot s)) = of_nat (length (blk_times ops s es))"
  using assms(4) unfolding c'_def run_totals [OF assms(1,2)] assms(3) [unfolded disk_synced_def]
  by (simp_all add: disk_no_wrap_def sat_diff_add sat_diff_add_nat)

end

interpretation dd_maps: disk_delay "hash_ops r" hm_keys hcap "hash_ops r'" hm_keys hcap
  by unfold_locales

lemma read_tick_out:
  "\<exists>errs. disk_read_tick sops s = Some (errs @
     [Stdout (kv_line ''disk_read_vfs_total_us'' (fmt_us (sat_diff (lookup_or_0 sops (disk_stats s) 0) (total_vfs (prev_snapshot s)))) @
              kv_line ''disk_read_vfs_count'' (fmt_u (sat_diff (lookup_or_0 sops (disk_stats s) 1) (count_vfs (prev_snapshot s))))),
      Stdout (kv_line ''disk_read_block_total_us'' (fmt_us (sat_diff (lookup_or_0 sops (disk_stats s) 2) (total_blk (prev_snapshot s)))) @
              kv_line ''disk_read_block_count'' (fmt_u (sat_diff (lookup_or_0 sops (disk_stats s) 3) (count_blk (prev_snapshot s))))),
      Flush],
     s\<lparr>prev_snapshot := \<lparr>total_vfs = lookup_or_0 sops (disk_stats s) 0, count_vfs = lookup_or_0 sops (disk_stats s) 1,
        total_blk = lookup_or_0 sops (disk_stats s) 2, count_blk = lookup_or_0 sops (disk_stats s) 3\<rparr>\<rparr>)
   \<and> (\<forall>x \<in> set errs. \<exists>m. x = Stderr m)"
proof -
  have u: "[0..<4] = [0, 1, 2, 3 :: nat]" by (simp add: upt_rec)
  let ?errs = "concat (map (\<lambda>i. read_key_error sops (disk_stats s) i) [0..<4])"
  have "\<forall>x \<in> set ?errs. \<exists>m. x = Stderr m" by (auto simp: read_key_error_def Let_def err_line_def)
  then show ?thesis
    unfolding disk_read_tick_def Let_def
    by (intro exI [of _ ?errs] conjI, simp add: sat_diff_def u) assumption
qed

lemma write_tick_out:
  "\<exists>errs. print_incremental_stats sops s = (errs @
     [out_kv ''disk_write_vfs_total_us'' (fmt_us (sat_diff (lookup_or_0 sops (disk_stats s) 0) (total_vfs (prev_snapshot s)))),
      out_kv ''disk_write_vfs_count'' (fmt_u (sat_diff (lookup_or_0 sops (disk_stats s) 1) (count_vfs (prev_snapshot s)))),
      out_kv ''disk_write_block_total_us'' (fmt_us (sat_diff (lookup_or_0 sops (disk_stats s) 2) (total_blk (prev_snapshot s)))),
      out_kv ''disk_write_block_count'' (fmt_u (sat_diff (lookup_or_0 sops (disk_stats s) 3) (count_blk (prev_snapshot s)))), Flush],
     s\<lparr>prev_snapshot := \<lparr>total_vfs = lookup_or_0 sops (disk_stats s) 0, count_vfs = lookup_or_0 sops (disk_stats s) 1,
        total_blk = lookup_or_0 sops (disk_stats s) 2, count_blk = lookup_or_0 sops (disk_stats s) 3\<rparr>\<rparr>)
   \<and> (\<forall>x \<in> set errs. \<exists>m. x = Stderr m)"
  unfolding print_incremental_stats_def Let_def
  by (rule exI [of _ "key_failed sops (disk_stats s) 0 @ key_failed sops (disk_stats s) 1 @
        key_failed sops (disk_stats s) 2 @ key_failed sops (disk_stats s) 3"])
    (auto simp: sat_diff_def key_failed_def err_line_def)

subsection \<open>Properties\<close>

text \<open>For threads and requests that fit the maps, from a snapshot that agrees with the map and as
  long as no counter wraps, an iteration of disk_read_delay prints on standard output the total
  duration and the number of the \<open>vfs_read\<close> calls, and of the block requests, that
  completed since the last iteration (anything else goes to standard error), and the snapshot
  agrees again.\<close>

theorem disk_read_round:
  assumes "bpf_hash ops keys cap" and "bpf_hash sops skeys scap"
    and "fits keys cap T (ts_start_pid s)" and "fits keys cap R (ts_start_req s)"
    and "fits skeys scap {0, 1, 2, 3} (disk_stats s)" and "\<forall>e \<in> set es. disk_ok T R e"
    and "disk_synced sops s" and "V = vfs_times ops s es" and "B = blk_times ops s es"
    and "disk_no_wrap (prev_snapshot s) V B"
  shows "\<exists>errs s'. disk_read_tick sops (fold (disk_read_event ops sops) es s) = Some (errs @
     [Stdout (kv_line ''disk_read_vfs_total_us'' (fmt_us (sum_list V)) @
              kv_line ''disk_read_vfs_count'' (fmt_u (of_nat (length V) :: u64))),
      Stdout (kv_line ''disk_read_block_total_us'' (fmt_us (sum_list B)) @
              kv_line ''disk_read_block_count'' (fmt_u (of_nat (length B) :: u64))), Flush], s')
   \<and> (\<forall>x \<in> set errs. \<exists>m. x = Stderr m) \<and> disk_synced sops s'"
proof -
  note tool = disk_delay.intro [OF assms(1,2)]
  have hold: "disk_delay.holds keys cap skeys scap T R s"
    using assms(3-5) by (simp add: disk_delay.holds_def [OF tool])
  note d = disk_delay.deltas [OF tool hold assms(6,7) assms(10) [unfolded assms(8,9)]]
  show ?thesis
    using read_tick_out [of sops "fold (disk_read_event ops sops) es s"]
    unfolding disk_delay.snapshot_run [OF tool] d assms(8,9) by (auto simp: disk_synced_def)
qed

definition disk_demo :: "disk_event list" where
  "disk_demo = [Vfs_enter (task_ctx 3 ''cat'' 1000 0), Rq_start 7 (task_ctx 3 ''cat'' 2000 0),
     Rq_update 7 (task_ctx 0 ''swapper'' 6000 0), Vfs_return (task_ctx 3 ''cat'' 9000 0)]"

definition disk_init :: "((u64, u64) hmap, (u32, u64) hmap) disk_delay_maps" where
  "disk_init = \<lparr>ts_start_pid = empty_hash 10240, ts_start_req = empty_hash 10240, disk_stats = empty_hash 4,
     prev_snapshot = \<lparr>total_vfs = 0, count_vfs = 0, total_blk = 0, count_blk = 0\<rparr>\<rparr>"

theorem disk_read_round_witness:
  "\<exists>errs s'. disk_read_tick (hash_ops False) (fold (disk_read_event (hash_ops False) (hash_ops False)) disk_demo disk_init) = Some (errs @
     [Stdout (kv_line ''disk_read_vfs_total_us'' (fmt_us (sum_list [8000])) @
              kv_line ''disk_read_vfs_count'' (fmt_u (of_nat (length [8000 :: u64]) :: u64))),
      Stdout (kv_line ''disk_read_block_total_us'' (fmt_us (sum_list [4000])) @
              kv_line ''disk_read_block_count'' (fmt_u (of_nat (length [4000 :: u64]) :: u64))), Flush], s')
   \<and> (\<forall>x \<in> set errs. \<exists>m. x = Stderr m) \<and> disk_synced (hash_ops False) s'"
  by (rule disk_read_round [OF hm.bpf_hash_axioms hm.bpf_hash_axioms, where T = "{mk_pid_tgid 3 3}" and R = "{7}"])
    (simp_all add: disk_init_def disk_demo_def fits_def disk_synced_def lookup_or_0_def vfs_times_def
      blk_times_def disk_no_wrap_def card_insert_if)

text \<open>The same for disk_write_delay, whose BPF programs are written differently but compute the
  same maps.\<close>

theorem disk_write_round:
  assumes "bpf_hash ops keys cap" and "bpf_hash sops skeys scap"
    and "fits keys cap T (ts_start_pid s)" and "fits keys cap R (ts_start_req s)"
    and "fits skeys scap {0, 1, 2, 3} (disk_stats s)" and "\<forall>e \<in> set es. disk_ok T R e"
    and "disk_synced sops s" and "V = vfs_times ops s es" and "B = blk_times ops s es"
    and "disk_no_wrap (prev_snapshot s) V B"
  shows "\<exists>errs s'. print_incremental_stats sops (fold (disk_write_event ops sops) es s) = (errs @
     [out_kv ''disk_write_vfs_total_us'' (fmt_us (sum_list V)),
      out_kv ''disk_write_vfs_count'' (fmt_u (of_nat (length V) :: u64)),
      out_kv ''disk_write_block_total_us'' (fmt_us (sum_list B)),
      out_kv ''disk_write_block_count'' (fmt_u (of_nat (length B) :: u64)), Flush], s')
   \<and> (\<forall>x \<in> set errs. \<exists>m. x = Stderr m) \<and> disk_synced sops s'"
proof -
  note tool = disk_delay.intro [OF assms(1,2)]
  have hold: "disk_delay.holds keys cap skeys scap T R s"
    using assms(3-5) by (simp add: disk_delay.holds_def [OF tool])
  have ev: "disk_write_event ops sops = disk_read_event ops sops" by (intro ext) (rule disk_events_equal)
  note d = disk_delay.deltas [OF tool hold assms(6,7) assms(10) [unfolded assms(8,9)]]
  show ?thesis
    using write_tick_out [of sops "fold (disk_read_event ops sops) es s"]
    unfolding ev disk_delay.snapshot_run [OF tool] d assms(8,9) by (auto simp: disk_synced_def)
qed

theorem disk_write_round_witness:
  "\<exists>errs s'. print_incremental_stats (hash_ops False) (fold (disk_write_event (hash_ops False) (hash_ops False)) disk_demo disk_init) = (errs @
     [out_kv ''disk_write_vfs_total_us'' (fmt_us (sum_list [8000])),
      out_kv ''disk_write_vfs_count'' (fmt_u (of_nat (length [8000 :: u64]) :: u64)),
      out_kv ''disk_write_block_total_us'' (fmt_us (sum_list [4000])),
      out_kv ''disk_write_block_count'' (fmt_u (of_nat (length [4000 :: u64]) :: u64)), Flush], s')
   \<and> (\<forall>x \<in> set errs. \<exists>m. x = Stderr m) \<and> disk_synced (hash_ops False) s'"
  by (rule disk_write_round [OF hm.bpf_hash_axioms hm.bpf_hash_axioms, where T = "{mk_pid_tgid 3 3}" and R = "{7}"])
    (simp_all add: disk_init_def disk_demo_def fits_def disk_synced_def lookup_or_0_def vfs_times_def
      blk_times_def disk_no_wrap_def card_insert_if)

end
