(* ===== verification/DiskIoSched.thy ===== *)
theory DiskIoSched
  imports Latency KeyWalk Loader MapInstances CDouble
begin

section \<open>disk_io_sched: block I/O completion latency\<close>

text \<open>
  \<open>my_tools/disk/disk_io_sched.bpf.c\<close> and \<open>my_tools/disk/disk_io_sched.c\<close>. A request is timed from
  issue to completion under the key \<open>(pid << 32) | cpu\<close>; durations above ten seconds are dropped.
  Total, number and maximum go to an array map, total and number by process to hash maps. The
  loader prints the differences of total and number and their quotient.
  Shown: the key is injective; the three statistics are those of the accepted durations, so the
  maximum never exceeds ten seconds; what one iteration prints, with no assumption on
  wrap-around because the loader subtracts modulo 2^64.
\<close>

record ('m, 'n, 'a) io_sched_maps =
  rq_issue_ts :: 'm
  io_latency_stats :: 'a
  pid_io_latency :: 'n
  pid_io_count :: 'n
  prev_delay :: u64
  prev_count :: u64

definition rq_key :: "helpers \<Rightarrow> u64" where
  "rq_key h = push_bit 32 (ucast (cur_pid h)) OR ucast (smp_cpu h)"

definition handle_rq_issue ::
  "('m, u64, u64) map_ops \<Rightarrow> helpers \<Rightarrow> ('m, 'n, 'a) io_sched_maps \<Rightarrow> int \<times> ('m, 'n, 'a) io_sched_maps" where
  "handle_rq_issue ops h s =
     (let key = rq_key h; ts = ktime_ns h in
      (0, s\<lparr>rq_issue_ts := snd (update_elem ops (rq_issue_ts s) key ts BPF_ANY)\<rparr>))"

definition TEN_SECONDS :: u64 where
  "TEN_SECONDS = 10 * 1000 * 1000 * 1000"

text \<open>\<open>if (val) { if (delta > *val) *val = delta; } else update(...)\<close>\<close>

definition store_max :: "('a, u32, u64) map_ops \<Rightarrow> 'a \<Rightarrow> u32 \<Rightarrow> u64 \<Rightarrow> 'a" where
  "store_max aops m k delta =
     (case lookup_elem aops m k of
        Some v \<Rightarrow> if delta > v then store_elem aops m k delta else m
      | None \<Rightarrow> snd (update_elem aops m k delta BPF_ANY))"

definition handle_rq_complete ::
  "('m, u64, u64) map_ops \<Rightarrow> ('n, u32, u64) map_ops \<Rightarrow> ('a, u32, u64) map_ops \<Rightarrow> helpers \<Rightarrow>
     ('m, 'n, 'a) io_sched_maps \<Rightarrow> int \<times> ('m, 'n, 'a) io_sched_maps" where
  "handle_rq_complete ops pops aops h s =
     (let pid = cur_pid h; key = rq_key h in
      case lookup_elem ops (rq_issue_ts s) key of
        None \<Rightarrow> (0, s)
      | Some start \<Rightarrow>
          let now = ktime_ns h;
              delta = now - start
          in if delta > TEN_SECONDS
             then (0, s\<lparr>rq_issue_ts := snd (delete_elem ops (rq_issue_ts s) key)\<rparr>)
             else
               let idx_delay = 0; idx_count = 1; idx_max = 2;
                   s1 = s\<lparr>io_latency_stats := add_or_insert aops (io_latency_stats s) idx_delay delta BPF_ANY\<rparr>;
                   s2 = s1\<lparr>io_latency_stats := add_or_insert aops (io_latency_stats s1) idx_count 1 BPF_ANY\<rparr>;
                   s3 = s2\<lparr>io_latency_stats := store_max aops (io_latency_stats s2) idx_max delta\<rparr>;
                   s4 = s3\<lparr>pid_io_latency := add_or_insert pops (pid_io_latency s3) pid delta BPF_ANY\<rparr>;
                   s5 = s4\<lparr>pid_io_count := add_or_insert pops (pid_io_count s4) pid 1 BPF_ANY\<rparr>
               in (0, s5\<lparr>rq_issue_ts := snd (delete_elem ops (rq_issue_ts s5) key)\<rparr>))"

datatype rq_event = Rq_issue helpers | Rq_complete helpers

definition io_sched_event ::
  "('m, u64, u64) map_ops \<Rightarrow> ('n, u32, u64) map_ops \<Rightarrow> ('a, u32, u64) map_ops \<Rightarrow> rq_event \<Rightarrow>
     ('m, 'n, 'a) io_sched_maps \<Rightarrow> ('m, 'n, 'a) io_sched_maps" where
  "io_sched_event ops pops aops e s =
     (case e of
        Rq_issue h \<Rightarrow> snd (handle_rq_issue ops h s)
      | Rq_complete h \<Rightarrow> snd (handle_rq_complete ops pops aops h s))"

definition io_sched_tick ::
  "('a, u32, u64) map_ops \<Rightarrow> (('m, 'n, 'a) io_sched_maps, effect) tick" where
  "io_sched_tick aops s =
     (let cur_delay = (case lookup_elem aops (io_latency_stats s) 0 of Some v \<Rightarrow> v | None \<Rightarrow> 0);
          cur_count = (case lookup_elem aops (io_latency_stats s) 1 of Some v \<Rightarrow> v | None \<Rightarrow> 0);
          d_delay = cur_delay - prev_delay s;
          d_count = cur_count - prev_count s
      in Some ([out_kv ''disk_io_total_us'' (fmt_us d_delay), out_kv ''disk_io_count'' (fmt_u d_count)] @
               (if d_count > 0 then [out_kv ''disk_io_avg_us'' (fmt_avg 1000 d_delay d_count)] else []) @ [Flush],
               s\<lparr>prev_delay := cur_delay, prev_count := cur_count\<rparr>))"

definition io_sched_main ::
  "('m, u64, u64) map_ops \<Rightarrow> ('n, u32, u64) map_ops \<Rightarrow> ('a, u32, u64) map_ops \<Rightarrow> rq_event env \<Rightarrow>
     ('m, 'n, 'a) io_sched_maps \<Rightarrow> (status \<times> effect list \<times> ('m, 'n, 'a) io_sched_maps) option" where
  "io_sched_main ops pops aops env s =
     (if \<not> skel_opened env
      then Some (Exited 1, [err_line ''Failed to open and load BPF skeleton''], s)
      else if attach_err env \<noteq> 0
      then Some (Exited (attach_err env), [err_line ''Failed to attach BPF programs'', Destroy], s)
      else monitor [err_line ''Disk I/O Scheduler Latency Monitor - Ctrl+C to stop''] [SIGINT, SIGTERM]
             (loop_sleep_first 1 [SIGINT, SIGTERM] (io_sched_event ops pops aops) (io_sched_tick aops)) env
             (s\<lparr>prev_delay := 0, prev_count := 0\<rparr>))"

subsection \<open>The tool over lawful maps\<close>

fun rq_lat :: "rq_event \<Rightarrow> u64 lat" where
  "rq_lat (Rq_issue h) = Start (rq_key h) (ktime_ns h)"
| "rq_lat (Rq_complete h) = Finish (rq_key h) (ktime_ns h)"

text \<open>The durations that are counted.\<close>

definition io_times ::
  "('m, u64, u64) map_ops \<Rightarrow> ('m, 'n, 'a) io_sched_maps \<Rightarrow> rq_event list \<Rightarrow> u64 list" where
  "io_times ops s es =
     filter (\<lambda>d. d \<le> TEN_SECONDS) (spans (\<lambda>_. True) (lookup_elem ops (rq_issue_ts s)) (map rq_lat es))"

fun rq_ctx :: "rq_event \<Rightarrow> helpers" where
  "rq_ctx (Rq_issue h) = h"
| "rq_ctx (Rq_complete h) = h"

lemma rq_key_inj: "rq_key h = rq_key h' \<longleftrightarrow> cur_pid h = cur_pid h' \<and> smp_cpu h = smp_cpu h'"
proof -
  have k: "rq_key h = mk_pid_tgid (cur_pid h) (smp_cpu h)" for h by (simp add: rq_key_def mk_pid_tgid_def)
  show ?thesis unfolding k by (metis tgid_of_mk tid_of_mk)
qed

lemma sum_filter_weight:
  "sum_list (map (\<lambda>d. if d > c then 0 else w d) xs) = sum_list (map w (filter (\<lambda>d. d \<le> (c :: u64)) xs))"
  for w :: "u64 \<Rightarrow> u64"
  by (induction xs) (auto simp: not_less)

locale io_sched =
  h: bpf_hash ops keys cap + p: bpf_hash pops pkeys pcap + a: bpf_array aops akeys acap
  for ops :: "('m, u64, u64) map_ops" and keys :: "'m \<Rightarrow> u64 list" and cap
    and pops :: "('n, u32, u64) map_ops" and pkeys :: "'n \<Rightarrow> u32 list" and pcap
    and aops :: "('a, u32, u64) map_ops" and akeys :: "'a \<Rightarrow> u32 list" and acap
begin

definition holds :: "u64 set \<Rightarrow> ('m, 'n, 'a) io_sched_maps \<Rightarrow> bool" where
  "holds K s \<longleftrightarrow> fits keys cap K (rq_issue_ts s) \<and> acap (io_latency_stats s) = 8"

abbreviation stat :: "('m, 'n, 'a) io_sched_maps \<Rightarrow> u32 \<Rightarrow> u64" where
  "stat s \<equiv> count_at aops (\<lambda>v. v) (io_latency_stats s)"

lemmas event_defs = io_sched_event_def handle_rq_issue_def handle_rq_complete_def Let_def add_or_insert_modify

lemma cap_store_max: "acap (store_max aops m k d) = acap m"
  by (simp add: store_max_def a.cap_store a.cap_update split: option.split)

lemma count_add:
  "unat k < acap m \<Longrightarrow> count_at aops (\<lambda>v. v) (modify_or_insert aops m k (\<lambda>v. v + d) d BPF_ANY) =
     (count_at aops (\<lambda>v. v) m)(k := count_at aops (\<lambda>v. v) m k + d)"
  by (rule a.count_modify_present) (simp_all add: a.array_keys)

lemma count_max:
  assumes "unat k < acap m"
  shows "count_at aops (\<lambda>v. v) (store_max aops m k d) =
     (count_at aops (\<lambda>v. v) m)(k := max (count_at aops (\<lambda>v. v) m k) d)"
proof -
  obtain v where v: "lookup_elem aops m k = Some v" using a.array_lookup [OF assms] by blast
  have "k \<in> set (akeys m)" using assms by (simp add: a.array_keys)
  then show ?thesis by (auto simp: store_max_def v count_at_def fun_eq_iff a.lookup_store max_def)
qed

lemma holds_event:
  "holds K s \<Longrightarrow> rq_key (rq_ctx e) \<in> K \<Longrightarrow> holds K (io_sched_event ops pops aops e s)"
  by (cases e) (auto simp: holds_def event_defs h.fits_update h.fits_delete a.cap_modify cap_store_max
      split: option.split)

lemma open_event:
  "holds K s \<Longrightarrow> rq_key (rq_ctx e) \<in> K \<Longrightarrow>
     lookup_elem ops (rq_issue_ts (io_sched_event ops pops aops e s)) =
       open_step (rq_lat e) (lookup_elem ops (rq_issue_ts s))"
  by (cases e) (auto simp: holds_def event_defs h.lookup_update_fits h.lookup_delete_any fun_upd_idem
      split: option.split)

lemma stat_event:
  assumes "holds K s" and "rq_key (rq_ctx e) \<in> K"
  defines "o1 \<equiv> lookup_elem ops (rq_issue_ts s)" and "s' \<equiv> io_sched_event ops pops aops e s"
  shows "stat s' 0 = stat s 0 + acc_step (\<lambda>_. True) (\<lambda>d. if d > TEN_SECONDS then 0 else d) (rq_lat e) o1"
    and "stat s' 1 = stat s 1 + acc_step (\<lambda>_. True) (\<lambda>d. if d > TEN_SECONDS then 0 else 1) (rq_lat e) o1"
    and "stat s' 2 = fold max (filter (\<lambda>d. d \<le> TEN_SECONDS) (spans (\<lambda>_. True) o1 [rq_lat e])) (stat s 2)"
  using assms(1) unfolding o1_def s'_def
  by (cases e; auto simp: holds_def event_defs count_add count_max a.cap_modify cap_store_max max.commute not_less
      split: option.split)+

sublocale tot: latency "io_sched_event ops pops aops" rq_lat "\<lambda>s. lookup_elem ops (rq_issue_ts s)"
    "\<lambda>s. count_at aops (\<lambda>v. v) (io_latency_stats s) 0" "\<lambda>_. True" "\<lambda>d. if d > TEN_SECONDS then 0 else d"
    "\<lambda>e. rq_key (rq_ctx e) \<in> K" "holds K" for K
  by unfold_locales (simp_all only: holds_event open_event stat_event)

sublocale num: latency "io_sched_event ops pops aops" rq_lat "\<lambda>s. lookup_elem ops (rq_issue_ts s)"
    "\<lambda>s. count_at aops (\<lambda>v. v) (io_latency_stats s) 1" "\<lambda>_. True" "\<lambda>d. if d > TEN_SECONDS then 0 else 1"
    "\<lambda>e. rq_key (rq_ctx e) \<in> K" "holds K" for K
  by unfold_locales (simp_all only: holds_event open_event stat_event)

lemma run_stats:
  assumes "holds K s" and "\<forall>e \<in> set es. rq_key (rq_ctx e) \<in> K"
  defines "s' \<equiv> fold (io_sched_event ops pops aops) es s"
  shows "stat s' 0 = stat s 0 + sum_list (io_times ops s es)"
    and "stat s' 1 = stat s 1 + of_nat (length (io_times ops s es))"
  using tot.run_spans [OF assms(1), of es] num.run_spans [OF assms(1), of es] assms(2)
    sum_filter_weight [of TEN_SECONDS "\<lambda>d. d"] sum_filter_weight [of TEN_SECONDS "\<lambda>d. 1"]
  by (simp_all add: s'_def io_times_def list_all_iff sum_weight_one)

lemma run_max:
  assumes "holds K s" and "\<forall>e \<in> set es. rq_key (rq_ctx e) \<in> K"
  shows "stat (fold (io_sched_event ops pops aops) es s) 2 = fold max (io_times ops s es) (stat s 2)"
  using assms
proof (induction es arbitrary: s)
  case (Cons e es)
  have k: "rq_key (rq_ctx e) \<in> K" using Cons.prems(2) by simp
  have "io_times ops s (e # es) =
      filter (\<lambda>d. d \<le> TEN_SECONDS) (spans (\<lambda>_. True) (lookup_elem ops (rq_issue_ts s)) [rq_lat e]) @
      io_times ops (io_sched_event ops pops aops e s) es"
    using spans_append [of "\<lambda>_. True" "lookup_elem ops (rq_issue_ts s)" "[rq_lat e]" "map rq_lat es"]
    by (simp only: io_times_def open_event [OF Cons.prems(1) k] append.simps fold_simps list.map filter_append)
  then show ?case
    using Cons.IH [OF holds_event [OF Cons.prems(1) k]] Cons.prems(2) stat_event(3) [OF Cons.prems(1) k]
    by simp
qed (simp add: io_times_def)

end

interpretation is_maps: io_sched "hash_ops r" hm_keys hcap "hash_ops r'" hm_keys hcap array_ops arr_keys arr_cap
  by unfold_locales

lemma io_sched_keeps_prev:
  "prev_delay (fold (io_sched_event ops pops aops) es s) = prev_delay s"
  "prev_count (fold (io_sched_event ops pops aops) es s) = prev_count s"
proof -
  have "prev_delay (io_sched_event ops pops aops e s) = prev_delay s \<and>
      prev_count (io_sched_event ops pops aops e s) = prev_count s" for e s
    by (cases e) (auto simp: io_sched_event_def handle_rq_issue_def handle_rq_complete_def Let_def split: option.split)
  then show "prev_delay (fold (io_sched_event ops pops aops) es s) = prev_delay s"
    "prev_count (fold (io_sched_event ops pops aops) es s) = prev_count s"
    by (induction es arbitrary: s) simp_all
qed

subsection \<open>Properties\<close>

text \<open>For requests whose keys fit the map, from remembered values that agree with the array, an
  iteration of disk_io_sched prints the total and the number of the durations of at most ten
  seconds that were measured since the last iteration, and their average when there was one (all
  modulo 2^64, so a wrap of a counter does no harm), and the remembered values agree again.\<close>

theorem io_sched_round:
  assumes "bpf_hash ops keys cap" and "bpf_hash pops pkeys pcap" and "bpf_array aops akeys acap"
    and "fits keys cap K (rq_issue_ts s)" and "acap (io_latency_stats s) = 8"
    and "\<forall>e \<in> set es. rq_key (rq_ctx e) \<in> K"
    and "prev_delay s = count_at aops (\<lambda>v. v) (io_latency_stats s) 0"
    and "prev_count s = count_at aops (\<lambda>v. v) (io_latency_stats s) 1"
    and "L = io_times ops s es" and "n = (of_nat (length L) :: u64)"
  shows "\<exists>s'. io_sched_tick aops (fold (io_sched_event ops pops aops) es s) = Some
      ([out_kv ''disk_io_total_us'' (fmt_us (sum_list L)), out_kv ''disk_io_count'' (fmt_u n)] @
       (if n > 0 then [out_kv ''disk_io_avg_us'' (fmt_avg 1000 (sum_list L) n)] else []) @ [Flush], s')
    \<and> prev_delay s' = count_at aops (\<lambda>v. v) (io_latency_stats s') 0
    \<and> prev_count s' = count_at aops (\<lambda>v. v) (io_latency_stats s') 1"
proof -
  note tool = io_sched.intro [OF assms(1-3)]
  have hold: "io_sched.holds keys cap acap K s" using assms(4,5) by (simp add: io_sched.holds_def [OF tool])
  note st = io_sched.run_stats [OF tool hold assms(6)]
  show ?thesis
    unfolding io_sched_tick_def Let_def count_at_def [of aops "\<lambda>v. v", symmetric] io_sched_keeps_prev st assms(7-10)
    by (simp add: st)
qed

definition rq_demo :: "rq_event list" where
  "rq_demo = [Rq_issue (task_ctx 2 ''kworker'' 1000 1), Rq_complete (task_ctx 2 ''kworker'' 51000 1),
     Rq_issue (task_ctx 2 ''kworker'' 60000 1), Rq_complete (task_ctx 2 ''kworker'' 20000060000 1)]"

definition sched_init :: "((u64, u64) hmap, (u32, u64) hmap, u64 list) io_sched_maps" where
  "sched_init = \<lparr>rq_issue_ts = empty_hash 10240, io_latency_stats = replicate 8 0,
     pid_io_latency = empty_hash 10240, pid_io_count = empty_hash 10240, prev_delay = 0, prev_count = 0\<rparr>"

lemma rq_key_demo: "rq_key (task_ctx 2 ''kworker'' t 1) = mk_pid_tgid 2 1"
  by (simp add: rq_key_def mk_pid_tgid_def)

theorem io_sched_round_witness:
  "\<exists>s'. io_sched_tick array_ops (fold (io_sched_event (hash_ops False) (hash_ops False) array_ops) rq_demo sched_init) = Some
      ([out_kv ''disk_io_total_us'' (fmt_us (sum_list [50000])), out_kv ''disk_io_count'' (fmt_u (1 :: u64))] @
       (if (1 :: u64) > 0 then [out_kv ''disk_io_avg_us'' (fmt_avg 1000 (sum_list [50000]) 1)] else []) @ [Flush], s')
    \<and> prev_delay s' = count_at array_ops (\<lambda>v. v) (io_latency_stats s') 0
    \<and> prev_count s' = count_at array_ops (\<lambda>v. v) (io_latency_stats s') 1"
  by (rule io_sched_round [OF hm.bpf_hash_axioms hm.bpf_hash_axioms ar.bpf_array_axioms, where K = "{mk_pid_tgid 2 1}"])
    (simp_all add: sched_init_def rq_demo_def rq_key_demo fits_def count_at_def io_times_def TEN_SECONDS_def)

text \<open>The maximum that disk_io_sched keeps is the maximum of the accepted durations: it is at least
  each of them, one of them or the value before, and never above ten seconds.\<close>

theorem io_sched_max_bounded:
  assumes "bpf_hash ops keys cap" and "bpf_hash pops pkeys pcap" and "bpf_array aops akeys acap"
    and "fits keys cap K (rq_issue_ts s)" and "acap (io_latency_stats s) = 8"
    and "\<forall>e \<in> set es. rq_key (rq_ctx e) \<in> K"
    and "count_at aops (\<lambda>v. v) (io_latency_stats s) 2 \<le> TEN_SECONDS"
    and "M = count_at aops (\<lambda>v. v) (io_latency_stats (fold (io_sched_event ops pops aops) es s)) 2"
  shows "M \<le> TEN_SECONDS \<and> (\<forall>d \<in> set (io_times ops s es). d \<le> M) \<and>
    M \<in> insert (count_at aops (\<lambda>v. v) (io_latency_stats s) 2) (set (io_times ops s es))"
proof -
  note tool = io_sched.intro [OF assms(1-3)]
  have hold: "io_sched.holds keys cap acap K s" using assms(4,5) by (simp add: io_sched.holds_def [OF tool])
  let ?m = "count_at aops (\<lambda>v. v) (io_latency_stats s) 2" and ?L = "io_times ops s es"
  have M: "M = Max (set (?m # ?L))"
    unfolding assms(8) io_sched.run_max [OF tool hold assms(6)] by (rule Max.set_eq_fold [symmetric])
  have "\<forall>d \<in> set (?m # ?L). d \<le> TEN_SECONDS" using assms(7) by (auto simp: io_times_def)
  then have "M \<le> TEN_SECONDS" unfolding M by (subst Max_le_iff) auto
  moreover have "\<forall>d \<in> set ?L. d \<le> M" unfolding M by simp
  moreover have "M \<in> set (?m # ?L)" unfolding M by (rule Max_in) simp_all
  ultimately show ?thesis by simp
qed

theorem io_sched_max_bounded_witness:
  "count_at array_ops (\<lambda>v. v) (io_latency_stats (fold (io_sched_event (hash_ops False) (hash_ops False) array_ops) rq_demo sched_init)) 2
     \<le> TEN_SECONDS"
  using io_sched_max_bounded [OF hm.bpf_hash_axioms hm.bpf_hash_axioms ar.bpf_array_axioms,
      of "{mk_pid_tgid 2 1}" sched_init rq_demo _ False False]
  by (simp add: sched_init_def rq_demo_def rq_key_demo fits_def count_at_def)

end
