(* ===== verification/DiskIoSize.thy ===== *)
theory DiskIoSize
  imports Counting Loader MapInstances CDouble
begin

section \<open>disk_io_size: sizes of block I/O requests\<close>

text \<open>
  \<open>my_tools/disk/disk_io_size.bpf.c\<close> adds the size of every issued request to read or write counters,
  to the overall ones (an array map) and to those of the process (a hash map of structures);
  \<open>my_tools/disk/disk_io_size.c\<close> prints the differences since the last iteration, averages, and
  the sizes by process, whose entries it deletes.
  Shown: everything one iteration prints, and that the overall counters are the sums of the read and
  write counters.
\<close>

record pid_io =
  read_bytes :: u64
  write_bytes :: u64
  read_count :: u64
  write_count :: u64

record ('m, 'a) io_size_maps =
  io_size_stats :: 'a
  pid_io_stats :: 'm
  prev_stats :: "u64 list"

text \<open>The fields of the trace event that the program reads: \<open>nr_sector\<close> and \<open>rwbs[0]\<close>.\<close>

record block_rq =
  nr_sector :: u32
  rwbs0 :: char
  rq_helpers :: helpers

definition rq_bytes :: "block_rq \<Rightarrow> u64" where
  "rq_bytes ctx = ucast (nr_sector ctx) * 512"

definition rq_is_write :: "block_rq \<Rightarrow> bool" where
  "rq_is_write ctx = (rwbs0 ctx = CHR ''W'')"

definition handle_block_rq_issue ::
  "('m, u32, pid_io) map_ops \<Rightarrow> ('a, u32, u64) map_ops \<Rightarrow> block_rq \<Rightarrow>
     ('m, 'a) io_size_maps \<Rightarrow> int \<times> ('m, 'a) io_size_maps" where
  "handle_block_rq_issue ops aops ctx s =
     (let bytes = rq_bytes ctx;
          is_write = rq_is_write ctx;
          st = io_size_stats s;
          st1 = (if is_write then add_if_present aops (add_if_present aops st 1 bytes) 3 1
                 else add_if_present aops (add_if_present aops st 0 bytes) 2 1);
          st2 = add_if_present aops st1 4 bytes;
          st3 = add_if_present aops st2 5 1;
          pid = cur_pid (rq_helpers ctx);
          pm = (case lookup_elem ops (pid_io_stats s) pid of
              None \<Rightarrow>
                let new_pio = \<lparr>read_bytes = 0, write_bytes = 0, read_count = 0, write_count = 0\<rparr>
                in snd (update_elem ops (pid_io_stats s) pid
                     (if is_write then new_pio\<lparr>write_bytes := bytes, write_count := 1\<rparr>
                      else new_pio\<lparr>read_bytes := bytes, read_count := 1\<rparr>) BPF_ANY)
            | Some pio \<Rightarrow>
                store_elem ops (pid_io_stats s) pid
                  (if is_write
                   then pio\<lparr>write_bytes := write_bytes pio + bytes, write_count := write_count pio + 1\<rparr>
                   else pio\<lparr>read_bytes := read_bytes pio + bytes, read_count := read_count pio + 1\<rparr>))
      in (0, s\<lparr>io_size_stats := st3, pid_io_stats := pm\<rparr>))"

definition io_size_event ::
  "('m, u32, pid_io) map_ops \<Rightarrow> ('a, u32, u64) map_ops \<Rightarrow> block_rq \<Rightarrow>
     ('m, 'a) io_size_maps \<Rightarrow> ('m, 'a) io_size_maps" where
  "io_size_event ops aops e s = snd (handle_block_rq_issue ops aops e s)"

definition io_size_body ::
  "('m, u32, pid_io) map_ops \<Rightarrow> u32 \<Rightarrow> ('m, 'a) io_size_maps \<Rightarrow> effect list \<times> ('m, 'a) io_size_maps" where
  "io_size_body ops pid s =
     (case lookup_elem ops (pid_io_stats s) pid of
        None \<Rightarrow> ([], s)
      | Some pio \<Rightarrow>
          (if read_count pio + write_count pio > 0
           then [out_kv (''disk_io_pid_'' @ fmt_u pid @ ''_read_bytes'') (fmt_u (read_bytes pio)),
                 out_kv (''disk_io_pid_'' @ fmt_u pid @ ''_write_bytes'') (fmt_u (write_bytes pio))]
           else [],
           s\<lparr>pid_io_stats := snd (delete_elem ops (pid_io_stats s) pid)\<rparr>))"

text \<open>The lines for the differences \<open>d\<close> of the six overall counters.\<close>

definition io_size_lines :: "u64 list \<Rightarrow> effect list" where
  "io_size_lines d =
     (let d_read_bytes = d ! 0; d_write_bytes = d ! 1; d_read_cnt = d ! 2; d_write_cnt = d ! 3;
          d_total_bytes = d ! 4; d_total_cnt = d ! 5
      in if d_total_cnt > 0 then
           [out_kv ''disk_read_bytes'' (fmt_u d_read_bytes),
            out_kv ''disk_write_bytes'' (fmt_u d_write_bytes),
            out_kv ''disk_read_count'' (fmt_u d_read_cnt),
            out_kv ''disk_write_count'' (fmt_u d_write_cnt),
            out_kv ''disk_total_bytes'' (fmt_u d_total_bytes),
            out_kv ''disk_total_count'' (fmt_u d_total_cnt)] @
           (if d_read_cnt > 0 then [out_kv ''disk_read_avg_kb'' (fmt_avg 1024 d_read_bytes d_read_cnt)] else []) @
           (if d_write_cnt > 0 then [out_kv ''disk_write_avg_kb'' (fmt_avg 1024 d_write_bytes d_write_cnt)] else []) @
           [out_kv ''disk_io_avg_kb'' (if d_total_cnt > 0 then fmt_avg 1024 d_total_bytes d_total_cnt else fmt_f3 0)]
         else [])"

definition io_size_tick ::
  "('m, u32, pid_io) map_ops \<Rightarrow> ('a, u32, u64) map_ops \<Rightarrow> (('m, 'a) io_size_maps, effect) tick" where
  "io_size_tick ops aops s =
     (let cur = map (\<lambda>i. case lookup_elem aops (io_size_stats s) (of_nat i) of Some v \<Rightarrow> v | None \<Rightarrow> 0) [0..<6];
          d = map (\<lambda>i. cur ! i - prev_stats s ! i) [0..<6]
      in Option.bind (key_loop (\<lambda>s. next_key ops (pid_io_stats s)) (io_size_body ops) (Some 0) s)
           (\<lambda>(out, s1). Some (io_size_lines d @ out @ [Flush], s1\<lparr>prev_stats := cur\<rparr>)))"

definition io_size_main ::
  "('m, u32, pid_io) map_ops \<Rightarrow> ('a, u32, u64) map_ops \<Rightarrow> block_rq env \<Rightarrow> ('m, 'a) io_size_maps \<Rightarrow>
     (status \<times> effect list \<times> ('m, 'a) io_size_maps) option" where
  "io_size_main ops aops env s =
     (if \<not> skel_opened env
      then Some (Exited 1, [err_line ''Failed to open and load BPF skeleton''], s)
      else if attach_err env \<noteq> 0
      then Some (Exited (attach_err env), [err_line ''Failed to attach BPF programs'', Destroy], s)
      else monitor [err_line ''Disk I/O Size Monitor - Ctrl+C to stop''] [SIGINT, SIGTERM]
             (loop_sleep_first 1 [SIGINT, SIGTERM] (io_size_event ops aops) (io_size_tick ops aops)) env
             (s\<lparr>prev_stats := replicate 6 0\<rparr>))"

subsection \<open>The tool over lawful maps\<close>

definition r_bytes :: "block_rq \<Rightarrow> u64" where
  "r_bytes e = (if rq_is_write e then 0 else rq_bytes e)"

definition w_bytes :: "block_rq \<Rightarrow> u64" where
  "w_bytes e = (if rq_is_write e then rq_bytes e else 0)"

definition r_cnt :: "block_rq \<Rightarrow> u64" where
  "r_cnt e = (if rq_is_write e then 0 else 1)"

definition w_cnt :: "block_rq \<Rightarrow> u64" where
  "w_cnt e = (if rq_is_write e then 1 else 0)"

definition rq_pid :: "block_rq \<Rightarrow> u32" where
  "rq_pid e = cur_pid (rq_helpers e)"

text \<open>What an event adds to each of the six counters.\<close>

definition size_amounts :: "(block_rq \<Rightarrow> u64) list" where
  "size_amounts = [r_bytes, w_bytes, r_cnt, w_cnt, rq_bytes, \<lambda>_. 1]"

lemma size_amounts_len: "length size_amounts = 6"
  by (simp add: size_amounts_def)

definition pio_upd :: "block_rq \<Rightarrow> pid_io \<Rightarrow> pid_io" where
  "pio_upd e pio = (if rq_is_write e
     then pio\<lparr>write_bytes := write_bytes pio + rq_bytes e, write_count := write_count pio + 1\<rparr>
     else pio\<lparr>read_bytes := read_bytes pio + rq_bytes e, read_count := read_count pio + 1\<rparr>)"

definition pio_ini :: "block_rq \<Rightarrow> pid_io" where
  "pio_ini e = pio_upd e \<lparr>read_bytes = 0, write_bytes = 0, read_count = 0, write_count = 0\<rparr>"

definition pio_report :: "u32 \<Rightarrow> pid_io \<Rightarrow> effect list" where
  "pio_report pid pio =
     (if read_count pio + write_count pio > 0
      then [out_kv (''disk_io_pid_'' @ fmt_u pid @ ''_read_bytes'') (fmt_u (read_bytes pio)),
            out_kv (''disk_io_pid_'' @ fmt_u pid @ ''_write_bytes'') (fmt_u (write_bytes pio))] else [])"

text \<open>The lines for process \<open>p\<close>.\<close>

definition pid_lines :: "block_rq list \<Rightarrow> u32 \<Rightarrow> effect list" where
  "pid_lines es p =
     [out_kv (''disk_io_pid_'' @ fmt_u p @ ''_read_bytes'') (fmt_u (sum_list (map r_bytes (filter (\<lambda>e. rq_pid e = p) es)))),
      out_kv (''disk_io_pid_'' @ fmt_u p @ ''_write_bytes'') (fmt_u (sum_list (map w_bytes (filter (\<lambda>e. rq_pid e = p) es))))]"

locale io_size =
  h: bpf_hash ops keys cap + a: counter_array aops akeys acap
  for ops :: "('m, u32, pid_io) map_ops" and keys :: "'m \<Rightarrow> u32 list" and cap
    and aops :: "('a, u32, u64) map_ops" and akeys :: "'a \<Rightarrow> u32 list" and acap
begin

lemma event_pids:
  "pid_io_stats (io_size_event ops aops e s) =
     modify_or_insert ops (pid_io_stats s) (rq_pid e) (pio_upd e) (pio_ini e) BPF_ANY"
  by (simp add: io_size_event_def handle_block_rq_issue_def Let_def modify_or_insert_def rq_pid_def
      pio_ini_def pio_upd_def split: option.split)

sublocale rc: event_counter ops keys cap pid_io_stats "io_size_event ops aops"
    "\<lambda>e. Some (rq_pid e)" "\<lambda>_. 1" pio_upd pio_ini "\<lambda>p. read_count p + write_count p" BPF_ANY
  by unfold_locales (simp_all add: event_pids, simp_all add: pio_ini_def pio_upd_def)

sublocale cd: counted_drain ops keys cap pid_io_stats "io_size_event ops aops"
    "\<lambda>e. Some (rq_pid e)" "\<lambda>_. 1" pio_upd pio_ini "\<lambda>p. read_count p + write_count p"
    "io_size_body ops" pio_report
  by unfold_locales (simp_all add: io_size_body_def pio_report_def)

lemma event_stat:
  assumes "acap (io_size_stats s) = 8" and "i < 6"
  shows "count_at aops (\<lambda>v. v) (io_size_stats (io_size_event ops aops e s)) (of_nat i) =
      count_at aops (\<lambda>v. v) (io_size_stats s) (of_nat i) + (size_amounts ! i) e"
    and "acap (io_size_stats (io_size_event ops aops e s)) = 8"
proof -
  have i: "i = 0 \<or> i = 1 \<or> i = 2 \<or> i = 3 \<or> i = 4 \<or> i = 5" using assms(2) by linarith
  show "count_at aops (\<lambda>v. v) (io_size_stats (io_size_event ops aops e s)) (of_nat i) =
      count_at aops (\<lambda>v. v) (io_size_stats s) (of_nat i) + (size_amounts ! i) e"
    using i assms(1)
    by (auto simp: io_size_event_def handle_block_rq_issue_def Let_def a.count_add_if a.cap_add_if
        size_amounts_def r_bytes_def w_bytes_def r_cnt_def w_cnt_def)
  show "acap (io_size_stats (io_size_event ops aops e s)) = 8"
    using assms(1) by (simp add: io_size_event_def handle_block_rq_issue_def Let_def a.cap_add_if)
qed

lemma run_stat:
  assumes "acap (io_size_stats s) = 8" and "i < 6"
  shows "count_at aops (\<lambda>v. v) (io_size_stats (fold (io_size_event ops aops) es s)) (of_nat i) =
      count_at aops (\<lambda>v. v) (io_size_stats s) (of_nat i) + sum_list (map (size_amounts ! i) es)"
  using assms(1)
proof (induction es arbitrary: s)
  case (Cons e es)
  then show ?case using event_stat [OF Cons.prems assms(2), of e] by (simp add: add.assoc)
qed simp

lemma events_keep_prev: "prev_stats (fold (io_size_event ops aops) es s) = prev_stats s"
proof -
  have "prev_stats (io_size_event ops aops e s) = prev_stats s" for e s
    by (simp add: io_size_event_def handle_block_rq_issue_def Let_def)
  then show ?thesis by (induction es arbitrary: s) simp_all
qed

text \<open>The entry of a process after the events, and its report.\<close>

lemma run_pio:
  "hs \<noteq> [] \<Longrightarrow> read_bytes (run_value pio_upd pio_ini hs) = sum_list (map r_bytes hs) \<and>
     write_bytes (run_value pio_upd pio_ini hs) = sum_list (map w_bytes hs) \<and>
     read_count (run_value pio_upd pio_ini hs) + write_count (run_value pio_upd pio_ini hs) = of_nat (length hs)"
proof -
  have "read_bytes (fold pio_upd es v) = read_bytes v + sum_list (map r_bytes es) \<and>
      write_bytes (fold pio_upd es v) = write_bytes v + sum_list (map w_bytes es) \<and>
      read_count (fold pio_upd es v) + write_count (fold pio_upd es v) =
        read_count v + write_count v + of_nat (length es)" for es v
    by (induction es arbitrary: v) (simp_all add: pio_upd_def r_bytes_def w_bytes_def)
  then show "hs \<noteq> [] \<Longrightarrow> ?thesis"
    by (cases hs) (simp_all add: run_value_def pio_ini_def, simp_all add: pio_upd_def r_bytes_def w_bytes_def)
qed

lemma pid_entry:
  assumes "length es < 2 ^ 64" and "p \<in> rq_pid ` set es"
  shows "pio_report p (run_value pio_upd pio_ini (hits (\<lambda>e. Some (rq_pid e)) es p)) = pid_lines es p"
proof -
  have hs: "hits (\<lambda>e. Some (rq_pid e)) es p = filter (\<lambda>e. rq_pid e = p) es" by (simp add: hits_def)
  let ?n = "length (filter (\<lambda>e. rq_pid e = p) es)"
  have "?n < 2 ^ 64" by (rule le_less_trans [OF length_filter_le assms(1)])
  moreover have "?n \<noteq> 0" using assms(2) by (auto simp: filter_empty_conv)
  ultimately have "(of_nat ?n :: u64) > 0" by (simp add: word_less_nat_alt unat_of_nat take_bit_nat_eq_self)
  moreover have "filter (\<lambda>e. rq_pid e = p) es \<noteq> []" using assms(2) by (auto simp: filter_empty_conv)
  ultimately show ?thesis using run_pio by (simp add: pio_report_def pid_lines_def hs)
qed

lemma body_stats: "io_size_stats (snd (io_size_body ops k s)) = io_size_stats s \<and>
    prev_stats (snd (io_size_body ops k s)) = prev_stats s"
  by (simp add: io_size_body_def split: option.split)

lemma tick_spec:
  assumes "keys (pid_io_stats s) = []" and "card (rq_pid ` set es) \<le> cap (pid_io_stats s)"
    and "0 \<notin> rq_pid ` set es" and "length es < 2 ^ 64" and "acap (io_size_stats s) = 8"
    and "prev_stats s = map (\<lambda>i. count_at aops (\<lambda>v. v) (io_size_stats s) (of_nat i)) [0..<6]"
  shows "\<exists>pids s'. io_size_tick ops aops (fold (io_size_event ops aops) es s) = Some
      (io_size_lines (map (\<lambda>amt. sum_list (map amt es)) size_amounts) @
       concat (map (pid_lines es) pids) @
       [Flush], s')
    \<and> distinct pids \<and> set pids = rq_pid ` set es \<and> keys (pid_io_stats s') = []
    \<and> prev_stats s' = map (\<lambda>i. count_at aops (\<lambda>v. v) (io_size_stats s') (of_nat i)) [0..<6]"
proof -
  let ?s1 = "fold (io_size_event ops aops) es s"
  let ?cur = "map (\<lambda>i. count_at aops (\<lambda>v. v) (io_size_stats ?s1) (of_nat i)) [0..<6]"
  have kh: "keys_hit (\<lambda>e. Some (rq_pid e)) es = rq_pid ` set es" by (auto simp: keys_hit_def)
  have start: "Some 0 = None \<or> (\<exists>c. Some 0 = Some c \<and> c \<notin> rq_pid ` set es)" using assms(3) by simp
  obtain pids s1 where loop: "key_loop (\<lambda>s. next_key ops (pid_io_stats s)) (io_size_body ops) (Some 0) ?s1 =
        Some (concat (map (\<lambda>k. pio_report k (run_value pio_upd pio_ini (hits (\<lambda>e. Some (rq_pid e)) es k))) pids), s1)"
    and pids: "distinct pids" "set pids = rq_pid ` set es" "keys (pid_io_stats s1) = []"
    by (rule cd.drain_after [OF refl assms(1), of es, unfolded kh, OF assms(2) start]) (rule that)
  have same: "io_size_stats s1 = io_size_stats ?s1" 
    by (rule key_loop_invariant [OF loop, where P = "\<lambda>x. io_size_stats x = io_size_stats ?s1"])
      (simp_all add: body_stats)
  have lines: "map (\<lambda>k. pio_report k (run_value pio_upd pio_ini (hits (\<lambda>e. Some (rq_pid e)) es k))) pids = map (pid_lines es) pids"
    using pids(2) by (intro map_cong) (auto simp: pid_entry [OF assms(4)])
  have diff: "map (\<lambda>i. ?cur ! i - prev_stats ?s1 ! i) [0..<6] = map (\<lambda>amt. sum_list (map amt es)) size_amounts"
  proof (rule nth_equalityI)
    fix i assume "i < length (map (\<lambda>i. ?cur ! i - prev_stats ?s1 ! i) [0..<6])"
    then have i: "i < 6" by (simp del: upt_rec_numeral)
    then show "map (\<lambda>i. ?cur ! i - prev_stats ?s1 ! i) [0..<6] ! i = map (\<lambda>amt. sum_list (map amt es)) size_amounts ! i"
      using run_stat [OF assms(5) i, of es] by (simp add: events_keep_prev assms(6) size_amounts_len del: upt_rec_numeral)
  qed (simp add: size_amounts_len del: upt_rec_numeral)
  have "io_size_tick ops aops ?s1 = Some (io_size_lines (map (\<lambda>amt. sum_list (map amt es)) size_amounts) @
      concat (map (pid_lines es) pids) @ [Flush], s1\<lparr>prev_stats := ?cur\<rparr>)"
    unfolding io_size_tick_def Let_def count_at_def [of aops "\<lambda>v. v", symmetric] loop lines diff by simp
  then show ?thesis using pids
    by (intro exI [of _ pids] exI [of _ "s1\<lparr>prev_stats := ?cur\<rparr>"]) (simp add: same del: upt_rec_numeral)
qed

end

interpretation sz_maps: io_size "hash_ops r" hm_keys hcap array_ops arr_keys arr_cap
  by unfold_locales

subsection \<open>Properties\<close>

text \<open>For requests of at most \<open>max_entries\<close> processes, none of them process 0, from an empty
  process map and remembered values that agree with the array, an iteration of disk_io_size
  prints the sums of the sizes and the numbers of the read, the write and all requests issued
  since the last iteration with their averages, nothing of these when there was no request,
  then for each process that issued one its read and its write bytes; the process map is
  emptied and the remembered values agree again.\<close>

theorem io_size_round:
  assumes "bpf_hash ops keys cap" and "bpf_array aops akeys acap"
    and "keys (pid_io_stats s) = []" and "card (rq_pid ` set es) \<le> cap (pid_io_stats s)"
    and "0 \<notin> rq_pid ` set es" and "length es < 2 ^ 64" and "acap (io_size_stats s) = 8"
    and "prev_stats s = map (\<lambda>i. count_at aops (\<lambda>v. v) (io_size_stats s) (of_nat i)) [0..<6]"
  shows "\<exists>pids s'. io_size_tick ops aops (fold (io_size_event ops aops) es s) = Some
      (io_size_lines (map (\<lambda>amt. sum_list (map amt es)) size_amounts) @
       concat (map (pid_lines es) pids) @
       [Flush], s')
    \<and> distinct pids \<and> set pids = rq_pid ` set es \<and> keys (pid_io_stats s') = []
    \<and> prev_stats s' = map (\<lambda>i. count_at aops (\<lambda>v. v) (io_size_stats s') (of_nat i)) [0..<6]"
  by (rule io_size.tick_spec [OF io_size.intro [OF assms(1) counter_array.intro [OF assms(2)]] assms(3-8)])

definition size_demo :: "block_rq list" where
  "size_demo = [\<lparr>nr_sector = 8, rwbs0 = CHR ''R'', rq_helpers = task_ctx 11 ''dd'' 1 0\<rparr>,
     \<lparr>nr_sector = 16, rwbs0 = CHR ''W'', rq_helpers = task_ctx 12 ''cp'' 2 0\<rparr>]"

definition size_init :: "((u32, pid_io) hmap, u64 list) io_size_maps" where
  "size_init = \<lparr>io_size_stats = replicate 8 0, pid_io_stats = empty_hash 10240, prev_stats = replicate 6 0\<rparr>"

theorem io_size_round_witness:
  "\<exists>pids s'. io_size_tick (hash_ops False) array_ops (fold (io_size_event (hash_ops False) array_ops) size_demo size_init) = Some
      (io_size_lines (map (\<lambda>amt. sum_list (map amt size_demo)) size_amounts) @
       concat (map (pid_lines size_demo) pids) @
       [Flush], s')
    \<and> distinct pids \<and> set pids = {11, 12} \<and> hm_keys (pid_io_stats s') = []
    \<and> prev_stats s' = map (\<lambda>i. count_at array_ops (\<lambda>v. v) (io_size_stats s') (of_nat i)) [0..<6]"
proof -
  have p: "rq_pid ` set size_demo = {11, 12}" by (auto simp: size_demo_def rq_pid_def)
  have prev: "prev_stats size_init = map (\<lambda>i. count_at array_ops (\<lambda>v. v) (io_size_stats size_init) (of_nat i)) [0..<6]"
    by (rule nth_equalityI) (simp_all add: size_init_def count_at_def)
  show ?thesis
    unfolding p [symmetric]
    by (rule io_size_round [OF hm.bpf_hash_axioms ar.bpf_array_axioms _ _ _ _ _ prev])
      (simp_all only: p, simp_all add: size_init_def size_demo_def)
qed

text \<open>The overall counters of disk_io_size are the sums of the read and write counters: from a map
  in which they are, after any sequence of requests they still are, and the size of a request
  never overflows.\<close>

theorem io_size_totals_split:
  assumes "bpf_hash ops keys cap" and "bpf_array aops akeys acap" and "acap (io_size_stats s) = 8"
    and "c = count_at aops (\<lambda>v. v) (io_size_stats s)" and "c 4 = c 0 + c 1" and "c 5 = c 2 + c 3"
    and "c' = count_at aops (\<lambda>v. v) (io_size_stats (fold (io_size_event ops aops) es s))"
  shows "c' 4 = c' 0 + c' 1 \<and> c' 5 = c' 2 + c' 3 \<and> unat (rq_bytes e) = unat (nr_sector e) * 512"
proof -
  note tool = io_size.intro [OF assms(1) counter_array.intro [OF assms(2)]]
  note run = io_size.run_stat [OF tool assms(3), of _ es]
  have "c' 0 = c 0 + sum_list (map r_bytes es)" "c' 1 = c 1 + sum_list (map w_bytes es)"
    "c' 2 = c 2 + sum_list (map r_cnt es)" "c' 3 = c 3 + sum_list (map w_cnt es)"
    "c' 4 = c 4 + sum_list (map rq_bytes es)" "c' 5 = c 5 + sum_list (map (\<lambda>_. 1) es)"
    using run [of 0] run [of 1] run [of 2] run [of 3] run [of 4] run [of 5]
    by (simp_all add: assms(4,7) size_amounts_def)
  moreover have "sum_list (map rq_bytes es) = sum_list (map r_bytes es) + sum_list (map w_bytes es)"
    by (induction es) (auto simp: r_bytes_def w_bytes_def)
  moreover have "sum_list (map (\<lambda>_. 1) es) = sum_list (map r_cnt es) + sum_list (map w_cnt es)"
    by (induction es) (auto simp: r_cnt_def w_cnt_def)
  moreover have "unat (rq_bytes e) = unat (nr_sector e) * 512"
    using unat_u32_less [of "nr_sector e"]
    by (simp add: rq_bytes_def unat_word_ariths unsigned_ucast_eq take_bit_nat_eq_self)
  ultimately show ?thesis using assms(5,6) by simp
qed

theorem io_size_totals_split_witness:
  "count_at array_ops (\<lambda>v. v) (io_size_stats (fold (io_size_event (hash_ops False) array_ops) size_demo size_init)) 4 =
   count_at array_ops (\<lambda>v. v) (io_size_stats (fold (io_size_event (hash_ops False) array_ops) size_demo size_init)) 0 +
   count_at array_ops (\<lambda>v. v) (io_size_stats (fold (io_size_event (hash_ops False) array_ops) size_demo size_init)) 1"
proof -
  have "arr_cap (io_size_stats size_init) = 8" by (simp add: size_init_def)
  from io_size_totals_split [OF hm.bpf_hash_axioms ar.bpf_array_axioms this refl _ _ refl] show ?thesis
    by (simp add: size_init_def count_at_def)
qed

end
