(* ===== verification/CommCount.thy ===== *)
theory CommCount
  imports Counting Loader MapInstances
begin

section \<open>Counters with the name of the process\<close>

text \<open>
  Five tools count events by process id in a map whose values hold a counter and the command name
  of the process (\<open>struct conn_info\<close>, \<open>struct oom_victim\<close>, \<open>struct pid_info\<close>, \<open>struct val_t\<close>, all
  with the same two fields), and by command name in a second map. This theory holds the two
  fragments of code they share and what a counter holds after a sequence of events: the number
  of events of the process and the name it had at the first one.
\<close>

record comm_info =
  ci_count :: u64
  ci_comm :: comm

text \<open>\<open>info = lookup(m, pid); if (info) __sync_fetch_and_add(&info->count, 1);
  else { new.count = 1; bpf_get_current_comm(&new.comm); update(m, pid, &new, flag); }\<close>\<close>

definition count_comm ::
  "('m, u32, comm_info) map_ops \<Rightarrow> 'm \<Rightarrow> helpers \<Rightarrow> update_flag \<Rightarrow> 'm" where
  "count_comm ops m h fl =
     (let pid = cur_pid h in
      case lookup_elem ops m pid of
        Some info \<Rightarrow> store_elem ops m pid (info\<lparr>ci_count := ci_count info + 1\<rparr>)
      | None \<Rightarrow> snd (update_elem ops m pid \<lparr>ci_count = 1, ci_comm = cur_comm h\<rparr> fl))"

text \<open>The same by command name, with a plain counter.\<close>

definition count_name :: "('m, comm, u64) map_ops \<Rightarrow> 'm \<Rightarrow> helpers \<Rightarrow> 'm" where
  "count_name ops m h = add_or_insert ops m (cur_comm h) 1 BPF_ANY"

text \<open>The specification: the number of events of a process (or with a name), and the name at the
  first of them, where \<open>ctx\<close> is the context of an event.\<close>

definition calls :: "('e \<Rightarrow> helpers) \<Rightarrow> 'e list \<Rightarrow> u32 \<Rightarrow> u64" where
  "calls ctx es p = of_nat (length (filter (\<lambda>e. cur_pid (ctx e) = p) es))"

definition first_name :: "('e \<Rightarrow> helpers) \<Rightarrow> 'e list \<Rightarrow> u32 \<Rightarrow> comm" where
  "first_name ctx es p = cur_comm (ctx (hd (filter (\<lambda>e. cur_pid (ctx e) = p) es)))"

definition name_calls :: "('e \<Rightarrow> helpers) \<Rightarrow> 'e list \<Rightarrow> comm \<Rightarrow> u64" where
  "name_calls ctx es c = of_nat (length (filter (\<lambda>e. cur_comm (ctx e) = c) es))"

definition comm_upd :: "'e \<Rightarrow> comm_info \<Rightarrow> comm_info" where
  "comm_upd e info = info\<lparr>ci_count := ci_count info + 1\<rparr>"

definition comm_ini :: "('e \<Rightarrow> helpers) \<Rightarrow> 'e \<Rightarrow> comm_info" where
  "comm_ini ctx e = \<lparr>ci_count = 1, ci_comm = cur_comm (ctx e)\<rparr>"

lemma count_comm_modify:
  "count_comm ops m (ctx e) fl = modify_or_insert ops m (cur_pid (ctx e)) (comm_upd e) (comm_ini ctx e) fl"
  by (simp add: count_comm_def modify_or_insert_def comm_upd_def comm_ini_def Let_def split: option.split)

lemma count_name_modify:
  "count_name ops m (ctx e) = modify_or_insert ops m (cur_comm (ctx e)) (\<lambda>v. v + 1) 1 BPF_ANY"
  by (simp add: count_name_def add_or_insert_modify)

lemma comm_count_laws:
  "ci_count (comm_upd e v) = ci_count v + 1" "ci_count (comm_ini ctx e) = 1"
  by (simp_all add: comm_upd_def comm_ini_def)

lemma run_comm:
  assumes "hs \<noteq> []"
  shows "run_value comm_upd (comm_ini ctx) hs = \<lparr>ci_count = of_nat (length hs), ci_comm = cur_comm (ctx (hd hs))\<rparr>"
proof -
  have "fold comm_upd es v = v\<lparr>ci_count := ci_count v + of_nat (length es)\<rparr>" for v and es :: "'a list"
    by (induction es arbitrary: v) (simp_all add: comm_upd_def add.assoc)
  then show ?thesis using assms by (cases hs) (simp_all add: run_value_def comm_ini_def)
qed

lemma run_comm_pid:
  assumes "p \<in> (\<lambda>e. cur_pid (ctx e)) ` set es"
  shows "run_value comm_upd (comm_ini ctx) (hits (\<lambda>e. Some (cur_pid (ctx e))) es p) =
    \<lparr>ci_count = calls ctx es p, ci_comm = first_name ctx es p\<rparr>"
proof -
  have "hits (\<lambda>e. Some (cur_pid (ctx e))) es p \<noteq> []" using assms by (simp add: hits_empty_iff)
  then show ?thesis by (simp add: run_comm hits_Some calls_def first_name_def)
qed

lemma run_count:
  assumes "hs \<noteq> []"
  shows "run_value (\<lambda>_ v. v + 1) (\<lambda>_. 1) hs = (of_nat (length hs) :: u64)"
proof -
  have "fold (\<lambda>_ v. v + 1) es v = v + (of_nat (length es) :: u64)" for v and es :: "'a list"
    by (induction es arbitrary: v) (simp_all add: add.assoc)
  then show ?thesis using assms by (cases hs) (simp_all add: run_value_def)
qed

lemma run_count_key:
  assumes "k \<in> keys_hit hit es"
  shows "run_value (\<lambda>_ v. v + 1) (\<lambda>_. 1) (hits hit es k) = (of_nat (length (hits hit es k)) :: u64)"
  using assms by (intro run_count) (simp add: hits_empty_iff)

lemma calls_pos: "length es < 2 ^ 64 \<Longrightarrow> p \<in> (\<lambda>e. cur_pid (ctx e)) ` set es \<Longrightarrow> calls ctx es p > 0"
  using count_hits_pos [of es p "\<lambda>e. Some (cur_pid (ctx e))"] by (simp add: calls_def hits_Some)

lemma name_calls_pos: "length es < 2 ^ 64 \<Longrightarrow> c \<in> (\<lambda>e. cur_comm (ctx e)) ` set es \<Longrightarrow> name_calls ctx es c > 0"
  using count_hits_pos [of es c "\<lambda>e. Some (cur_comm (ctx e))"] by (simp add: name_calls_def hits_Some)

text \<open>Every event is counted under exactly one process.\<close>

lemma calls_partition:
  assumes "distinct ps" and "set ps = (\<lambda>e. cur_pid (ctx e)) ` set es"
  shows "(\<Sum>p\<leftarrow>ps. calls ctx es p) = of_nat (length es)"
proof -
  have "(\<Sum>p\<in>S. length (filter (\<lambda>e. cur_pid (ctx e) = p) es)) = length es"
    if "finite S" "(\<lambda>e. cur_pid (ctx e)) ` set es \<subseteq> S" for S
    using that(2)
  proof (induction es)
    case (Cons e es)
    have "(\<Sum>p\<in>S. length (filter (\<lambda>e. cur_pid (ctx e) = p) (e # es))) =
        (\<Sum>p\<in>S. (if cur_pid (ctx e) = p then 1 else 0) + length (filter (\<lambda>e. cur_pid (ctx e) = p) es))"
      by (intro sum.cong) simp_all
    also have "\<dots> = 1 + length es" using Cons that(1) by (simp add: sum.distrib)
    finally show ?case by simp
  qed simp
  from this [of "set ps"] assms show ?thesis
    by (simp add: sum_list_distinct_conv_sum_set calls_def flip: of_nat_sum)
qed

subsection \<open>Reports of plain counters\<close>

text \<open>How often the events hit a key.\<close>

definition hit_count :: "('e \<Rightarrow> 'k option) \<Rightarrow> 'e list \<Rightarrow> 'k \<Rightarrow> u64" where
  "hit_count hit es k = of_nat (length (hits hit es k))"

definition count_report :: "string \<Rightarrow> u64 \<Rightarrow> effect list" where
  "count_report name cnt = (if cnt > 0 then [out_kv name (fmt_u cnt)] else [])"

lemma hit_reports:
  assumes "length es < 2 ^ 64" and "set ks = keys_hit hit es"
  shows "concat (map (\<lambda>k. count_report (name k) (run_value (\<lambda>_ v. v + 1) (\<lambda>_. 1) (hits hit es k))) ks) =
    map (\<lambda>k. out_kv (name k) (fmt_u (hit_count hit es k))) ks"
  using assms(2) count_hits_pos [OF assms(1), of _ hit]
  by (intro concat_singletons) (simp add: count_report_def run_count_key hit_count_def)

text \<open>Counters that add up amounts.\<close>

lemma run_sum:
  assumes "hs \<noteq> []"
  shows "run_value (\<lambda>e v. v + amt e) amt hs = (sum_list (map amt hs) :: u64)"
proof -
  have "fold (\<lambda>e v. v + amt e) es v = v + sum_list (map amt es)" for v es
    by (induction es arbitrary: v) (simp_all add: add.assoc)
  then show ?thesis using assms by (cases hs) (simp_all add: run_value_def)
qed

end
