(* ===== verification/FileOpen.thy ===== *)
theory FileOpen
  imports CommCount
begin

section \<open>file_open_stat: openat() calls and failures\<close>

text \<open>
  \<open>my_tools/file/file_open_stat.bpf.c\<close> counts \<open>openat()\<close> calls by process and by command name, and the
  calls that return a negative value by process; \<open>my_tools/file/file_open_stat.c\<close> prints and
  deletes the three maps one after the other.
  Shown: what an iteration prints for any interleaving of calls and returns.
\<close>

record ('m, 'n) file_open_maps =
  open_counter :: 'm
  open_comm_counter :: 'n
  open_fail_counter :: 'm

definition handle_openat_enter ::
  "('m, u32, u64) map_ops \<Rightarrow> ('n, comm, u64) map_ops \<Rightarrow> helpers \<Rightarrow>
     ('m, 'n) file_open_maps \<Rightarrow> int \<times> ('m, 'n) file_open_maps" where
  "handle_openat_enter ops nops h s =
     (let pid = cur_pid h;
          s1 = s\<lparr>open_counter := add_or_insert ops (open_counter s) pid 1 BPF_ANY\<rparr>;
          s2 = s1\<lparr>open_comm_counter := count_name nops (open_comm_counter s1) h\<rparr>
      in (0, s2))"

text \<open>\<open>ret\<close> is the return value of the system call.\<close>

definition handle_openat_exit ::
  "('m, u32, u64) map_ops \<Rightarrow> int \<Rightarrow> helpers \<Rightarrow> ('m, 'n) file_open_maps \<Rightarrow> int \<times> ('m, 'n) file_open_maps" where
  "handle_openat_exit ops ret h s =
     (if ret < 0 then
        let pid = cur_pid h in
        (0, s\<lparr>open_fail_counter := add_or_insert ops (open_fail_counter s) pid 1 BPF_ANY\<rparr>)
      else (0, s))"

datatype open_event = Openat_enter helpers | Openat_exit int helpers

definition file_open_event ::
  "('m, u32, u64) map_ops \<Rightarrow> ('n, comm, u64) map_ops \<Rightarrow> open_event \<Rightarrow>
     ('m, 'n) file_open_maps \<Rightarrow> ('m, 'n) file_open_maps" where
  "file_open_event ops nops e s =
     (case e of
        Openat_enter h \<Rightarrow> snd (handle_openat_enter ops nops h s)
      | Openat_exit ret h \<Rightarrow> snd (handle_openat_exit ops ret h s))"

definition open_body ::
  "('m, u32, u64) map_ops \<Rightarrow> u32 \<Rightarrow> ('m, 'n) file_open_maps \<Rightarrow> effect list \<times> ('m, 'n) file_open_maps" where
  "open_body ops pid s =
     (case lookup_elem ops (open_counter s) pid of
        None \<Rightarrow> ([], s)
      | Some cnt \<Rightarrow>
          (if cnt > 0 then [out_kv (''open_calls_pid_'' @ fmt_u pid) (fmt_u cnt)] else [],
           s\<lparr>open_counter := snd (delete_elem ops (open_counter s) pid)\<rparr>))"

definition open_fail_body ::
  "('m, u32, u64) map_ops \<Rightarrow> u32 \<Rightarrow> ('m, 'n) file_open_maps \<Rightarrow> effect list \<times> ('m, 'n) file_open_maps" where
  "open_fail_body ops pid s =
     (case lookup_elem ops (open_fail_counter s) pid of
        None \<Rightarrow> ([], s)
      | Some cnt \<Rightarrow>
          (if cnt > 0 then [out_kv (''open_fail_pid_'' @ fmt_u pid) (fmt_u cnt)] else [],
           s\<lparr>open_fail_counter := snd (delete_elem ops (open_fail_counter s) pid)\<rparr>))"

definition open_comm_body ::
  "('n, comm, u64) map_ops \<Rightarrow> comm \<Rightarrow> ('m, 'n) file_open_maps \<Rightarrow> effect list \<times> ('m, 'n) file_open_maps" where
  "open_comm_body nops next_comm s =
     (case lookup_elem nops (open_comm_counter s) next_comm of
        None \<Rightarrow> ([], s)
      | Some cnt \<Rightarrow>
          (if cnt > 0 then [out_kv (''open_comm_'' @ c_str next_comm) (fmt_u cnt)] else [],
           s\<lparr>open_comm_counter := snd (delete_elem nops (open_comm_counter s) next_comm)\<rparr>))"

definition file_open_tick ::
  "('m, u32, u64) map_ops \<Rightarrow> ('n, comm, u64) map_ops \<Rightarrow> (('m, 'n) file_open_maps, effect) tick" where
  "file_open_tick ops nops s =
     Option.bind (key_loop (\<lambda>s. next_key ops (open_counter s)) (open_body ops) (Some 0) s) (\<lambda>(out1, s1).
     Option.bind (key_loop (\<lambda>s. next_key ops (open_fail_counter s)) (open_fail_body ops) (Some 0) s1) (\<lambda>(out2, s2).
     Option.bind (key_loop (\<lambda>s. next_key nops (open_comm_counter s)) (open_comm_body nops) None s2) (\<lambda>(out3, s3).
       Some (out1 @ out2 @ out3 @ [Flush], s3))))"

definition file_open_main ::
  "('m, u32, u64) map_ops \<Rightarrow> ('n, comm, u64) map_ops \<Rightarrow> open_event env \<Rightarrow> ('m, 'n) file_open_maps \<Rightarrow>
     (status \<times> effect list \<times> ('m, 'n) file_open_maps) option" where
  "file_open_main ops nops env s =
     (if \<not> skel_opened env
      then Some (Exited 1, [err_line ''Failed to open and load BPF skeleton''], s)
      else if attach_err env \<noteq> 0
      then Some (Exited (attach_err env), [err_line ''Failed to attach BPF programs'', Destroy], s)
      else monitor [err_line ''File Open Statistics Monitor - Ctrl+C to stop''] [SIGINT, SIGTERM]
             (loop_sleep_first 1 [SIGINT, SIGTERM] (file_open_event ops nops) (file_open_tick ops nops)) env s)"

subsection \<open>The tool over lawful maps\<close>

fun opened_by :: "open_event \<Rightarrow> u32 option" where
  "opened_by (Openat_enter h) = Some (cur_pid h)"
| "opened_by (Openat_exit ret h) = None"

fun named_by :: "open_event \<Rightarrow> comm option" where
  "named_by (Openat_enter h) = Some (cur_comm h)"
| "named_by (Openat_exit ret h) = None"

fun failed_by :: "open_event \<Rightarrow> u32 option" where
  "failed_by (Openat_enter h) = None"
| "failed_by (Openat_exit ret h) = (if ret < 0 then Some (cur_pid h) else None)"

locale file_open =
  h: bpf_hash ops keys cap + n: bpf_hash nops nkeys ncap
  for ops :: "('m, u32, u64) map_ops" and keys :: "'m \<Rightarrow> u32 list" and cap
    and nops :: "('n, comm, u64) map_ops" and nkeys :: "'n \<Rightarrow> comm list" and ncap
begin

abbreviation ev where "ev \<equiv> file_open_event ops nops"

lemmas ev_defs = file_open_event_def handle_openat_enter_def handle_openat_exit_def Let_def
  add_or_insert_modify count_name_def

lemma ev_hits:
  "opened_by e = Some p \<Longrightarrow> open_counter (ev e s) = modify_or_insert ops (open_counter s) p (\<lambda>v. v + 1) 1 BPF_ANY"
  "opened_by e = None \<Longrightarrow> open_counter (ev e s) = open_counter s"
  "named_by e = Some c \<Longrightarrow> open_comm_counter (ev e s) = modify_or_insert nops (open_comm_counter s) c (\<lambda>v. v + 1) 1 BPF_ANY"
  "named_by e = None \<Longrightarrow> open_comm_counter (ev e s) = open_comm_counter s"
  "failed_by e = Some p \<Longrightarrow> open_fail_counter (ev e s) = modify_or_insert ops (open_fail_counter s) p (\<lambda>v. v + 1) 1 BPF_ANY"
  "failed_by e = None \<Longrightarrow> open_fail_counter (ev e s) = open_fail_counter s"
  by (cases e; simp add: ev_defs split: if_splits)+

sublocale oc: event_counter ops keys cap open_counter ev opened_by "\<lambda>_. 1" "\<lambda>_ v. v + 1" "\<lambda>_. 1" "\<lambda>v. v" BPF_ANY
  by unfold_locales (simp_all add: ev_hits)

sublocale fc: event_counter ops keys cap open_fail_counter ev failed_by "\<lambda>_. 1" "\<lambda>_ v. v + 1" "\<lambda>_. 1" "\<lambda>v. v" BPF_ANY
  by unfold_locales (simp_all add: ev_hits)

sublocale nc: event_counter nops nkeys ncap open_comm_counter ev named_by "\<lambda>_. 1" "\<lambda>_ v. v + 1" "\<lambda>_. 1" "\<lambda>v. v" BPF_ANY
  by unfold_locales (simp_all add: ev_hits)

sublocale od: counted_drain ops keys cap open_counter ev opened_by "\<lambda>_. 1" "\<lambda>_ v. v + 1" "\<lambda>_. 1" "\<lambda>v. v"
    "open_body ops" "\<lambda>p. count_report (''open_calls_pid_'' @ fmt_u p)"
  by unfold_locales (simp_all add: open_body_def count_report_def)

sublocale fd: counted_drain ops keys cap open_fail_counter ev failed_by "\<lambda>_. 1" "\<lambda>_ v. v + 1" "\<lambda>_. 1" "\<lambda>v. v"
    "open_fail_body ops" "\<lambda>p. count_report (''open_fail_pid_'' @ fmt_u p)"
  by unfold_locales (simp_all add: open_fail_body_def count_report_def)

sublocale nd: counted_drain nops nkeys ncap open_comm_counter ev named_by "\<lambda>_. 1" "\<lambda>_ v. v + 1" "\<lambda>_. 1" "\<lambda>v. v"
    "open_comm_body nops" "\<lambda>c. count_report (''open_comm_'' @ c_str c)"
  by unfold_locales (simp_all add: open_comm_body_def count_report_def)

lemma bodies_keep:
  "open_fail_counter (snd (open_body ops k s)) = open_fail_counter s"
  "open_comm_counter (snd (open_body ops k s)) = open_comm_counter s"
  "open_counter (snd (open_fail_body ops k s)) = open_counter s"
  "open_comm_counter (snd (open_fail_body ops k s)) = open_comm_counter s"
  "open_counter (snd (open_comm_body nops c s)) = open_counter s"
  "open_fail_counter (snd (open_comm_body nops c s)) = open_fail_counter s"
  by (simp_all add: open_body_def open_fail_body_def open_comm_body_def split: option.split)

lemma tick_spec:
  assumes "keys (open_counter s) = []" and "card (keys_hit opened_by es) \<le> cap (open_counter s)"
    and "keys (open_fail_counter s) = []" and "card (keys_hit failed_by es) \<le> cap (open_fail_counter s)"
    and "nkeys (open_comm_counter s) = []" and "card (keys_hit named_by es) \<le> ncap (open_comm_counter s)"
    and "0 \<notin> keys_hit opened_by es" and "0 \<notin> keys_hit failed_by es" and "length es < 2 ^ 64"
  shows "\<exists>pids fails comms s'. file_open_tick ops nops (fold ev es s) = Some
      (map (\<lambda>p. out_kv (''open_calls_pid_'' @ fmt_u p) (fmt_u (hit_count opened_by es p))) pids @
       map (\<lambda>p. out_kv (''open_fail_pid_'' @ fmt_u p) (fmt_u (hit_count failed_by es p))) fails @
       map (\<lambda>c. out_kv (''open_comm_'' @ c_str c) (fmt_u (hit_count named_by es c))) comms @ [Flush], s')
    \<and> distinct pids \<and> set pids = keys_hit opened_by es \<and> distinct fails \<and> set fails = keys_hit failed_by es
    \<and> distinct comms \<and> set comms = keys_hit named_by es
    \<and> keys (open_counter s') = [] \<and> keys (open_fail_counter s') = [] \<and> nkeys (open_comm_counter s') = []"
proof -
  let ?s = "fold ev es s" and ?rv = "run_value (\<lambda>_ v. v + 1) (\<lambda>_. 1 :: u64)"
  have st1: "Some 0 = None \<or> (\<exists>c. Some 0 = Some c \<and> c \<notin> keys_hit opened_by es)" using assms(7) by simp
  have st2: "Some 0 = None \<or> (\<exists>c. Some 0 = Some c \<and> c \<notin> keys_hit failed_by es)" using assms(8) by simp
  obtain pids s1 where l1: "key_loop (\<lambda>s. next_key ops (open_counter s)) (open_body ops) (Some 0) ?s =
      Some (concat (map (\<lambda>k. count_report (''open_calls_pid_'' @ fmt_u k) (?rv (hits opened_by es k))) pids), s1)"
    and p1: "distinct pids" "set pids = keys_hit opened_by es" "keys (open_counter s1) = []"
    by (rule od.drain_after [OF refl assms(1,2) st1])
  have k1: "open_fail_counter s1 = open_fail_counter ?s \<and> open_comm_counter s1 = open_comm_counter ?s"
    by (rule key_loop_invariant [OF l1, where P = "\<lambda>x. open_fail_counter x = open_fail_counter ?s \<and>
          open_comm_counter x = open_comm_counter ?s"]) (simp_all add: bodies_keep)
  obtain fails s2 where l2: "key_loop (\<lambda>s. next_key ops (open_fail_counter s)) (open_fail_body ops) (Some 0) s1 =
      Some (concat (map (\<lambda>k. count_report (''open_fail_pid_'' @ fmt_u k) (?rv (hits failed_by es k))) fails), s2)"
    and p2: "distinct fails" "set fails = keys_hit failed_by es" "keys (open_fail_counter s2) = []"
    by (rule fd.drain_after [OF conjunct1 [OF k1] assms(3,4) st2])
  have k2: "open_counter s2 = open_counter s1 \<and> open_comm_counter s2 = open_comm_counter ?s"
    by (rule key_loop_invariant [OF l2, where P = "\<lambda>x. open_counter x = open_counter s1 \<and>
          open_comm_counter x = open_comm_counter ?s"]) (simp_all add: bodies_keep k1)
  obtain comms s3 where l3: "key_loop (\<lambda>s. next_key nops (open_comm_counter s)) (open_comm_body nops) None s2 =
      Some (concat (map (\<lambda>k. count_report (''open_comm_'' @ c_str k) (?rv (hits named_by es k))) comms), s3)"
    and p3: "distinct comms" "set comms = keys_hit named_by es" "nkeys (open_comm_counter s3) = []"
    by (rule nd.drain_after [OF conjunct2 [OF k2] assms(5,6) disjI1 [OF refl]])
  have k3: "open_counter s3 = open_counter s2 \<and> open_fail_counter s3 = open_fail_counter s2"
    by (rule key_loop_invariant [OF l3, where P = "\<lambda>x. open_counter x = open_counter s2 \<and>
          open_fail_counter x = open_fail_counter s2"]) (simp_all add: bodies_keep)
  show ?thesis
    unfolding file_open_tick_def l1
    by (intro exI [of _ pids] exI [of _ fails] exI [of _ comms] exI [of _ s3])
      (simp add: l2 l3 hit_reports [OF assms(9)] p1 p2 p3 k2 k3)
qed

end

interpretation fo_hash: file_open "hash_ops r" hm_keys hcap "hash_ops r'" hm_keys hcap
  by unfold_locales

subsection \<open>Properties\<close>

text \<open>After any interleaving of calls and returns of \<open>openat()\<close> whose processes (none of them
  process 0) and names fit the maps, from empty maps, an iteration of file_open_stat prints for
  every process that called it the number of its calls, for every process one of whose calls
  returned a negative value the number of those, and for every command name the number of calls;
  all three maps are left empty.\<close>

theorem file_open_round:
  assumes "bpf_hash ops keys cap" and "bpf_hash nops nkeys ncap"
    and "keys (open_counter s) = []" and "card (keys_hit opened_by es) \<le> cap (open_counter s)"
    and "keys (open_fail_counter s) = []" and "card (keys_hit failed_by es) \<le> cap (open_fail_counter s)"
    and "nkeys (open_comm_counter s) = []" and "card (keys_hit named_by es) \<le> ncap (open_comm_counter s)"
    and "0 \<notin> keys_hit opened_by es" and "0 \<notin> keys_hit failed_by es" and "length es < 2 ^ 64"
  shows "\<exists>pids fails comms s'. file_open_tick ops nops (fold (file_open_event ops nops) es s) = Some
      (map (\<lambda>p. out_kv (''open_calls_pid_'' @ fmt_u p) (fmt_u (hit_count opened_by es p))) pids @
       map (\<lambda>p. out_kv (''open_fail_pid_'' @ fmt_u p) (fmt_u (hit_count failed_by es p))) fails @
       map (\<lambda>c. out_kv (''open_comm_'' @ c_str c) (fmt_u (hit_count named_by es c))) comms @ [Flush], s')
    \<and> distinct pids \<and> set pids = keys_hit opened_by es \<and> distinct fails \<and> set fails = keys_hit failed_by es
    \<and> distinct comms \<and> set comms = keys_hit named_by es
    \<and> keys (open_counter s') = [] \<and> keys (open_fail_counter s') = [] \<and> nkeys (open_comm_counter s') = []"
  by (rule file_open.tick_spec [OF file_open.intro [OF assms(1,2)] assms(3-11)])

definition open_demo :: "open_event list" where
  "open_demo = [Openat_enter (task_ctx 41 ''cat'' 1 0), Openat_exit 3 (task_ctx 41 ''cat'' 2 0),
     Openat_enter (task_ctx 42 ''ls'' 3 0), Openat_exit (-2) (task_ctx 42 ''ls'' 4 0)]"

definition open_init :: "((u32, u64) hmap, (comm, u64) hmap) file_open_maps" where
  "open_init = \<lparr>open_counter = empty_hash 10240, open_comm_counter = empty_hash 10240, open_fail_counter = empty_hash 10240\<rparr>"

theorem file_open_round_witness:
  "\<exists>pids fails comms s'. file_open_tick (hash_ops False) (hash_ops False)
       (fold (file_open_event (hash_ops False) (hash_ops False)) open_demo open_init) = Some
      (map (\<lambda>p. out_kv (''open_calls_pid_'' @ fmt_u p) (fmt_u (hit_count opened_by open_demo p))) pids @
       map (\<lambda>p. out_kv (''open_fail_pid_'' @ fmt_u p) (fmt_u (hit_count failed_by open_demo p))) fails @
       map (\<lambda>c. out_kv (''open_comm_'' @ c_str c) (fmt_u (hit_count named_by open_demo c))) comms @ [Flush], s')
    \<and> distinct pids \<and> set pids = keys_hit opened_by open_demo \<and> distinct fails \<and> set fails = keys_hit failed_by open_demo
    \<and> distinct comms \<and> set comms = keys_hit named_by open_demo
    \<and> hm_keys (open_counter s') = [] \<and> hm_keys (open_fail_counter s') = [] \<and> hm_keys (open_comm_counter s') = []"
  by (rule file_open_round [OF hm.bpf_hash_axioms hm.bpf_hash_axioms])
    (simp_all add: open_init_def open_demo_def card_insert_if)

end
