(* ===== verification/FsyncStat.thy ===== *)
theory FsyncStat
  imports Latency KeyWalk Loader MapInstances CDouble
begin

section \<open>file_fsync_stat: fsync latency\<close>

text \<open>
  \<open>my_tools/file/file_fsync_stat.bpf.c\<close> and \<open>my_tools/file/file_fsync_stat.c\<close>. The BPF programs
  measure the time in \<open>vfs_fsync_range\<close>, in total (an array map) and by process (two hash maps); the
  loader prints the increments of the totals and the cumulative time of every process.
  Shown: what one iteration prints in terms of the matched entry and exit events, and that the total
  is the sum of the times of the processes.
\<close>

record ('m, 'a) fsync_maps =
  fsync_start :: 'm
  fsync_stats :: 'a
  pid_fsync_latency :: 'm
  pid_fsync_count :: 'm
  prev_latency :: u64
  prev_count :: u64

definition record_fsync_entry ::
  "('m, u32, u64) map_ops \<Rightarrow> helpers \<Rightarrow> ('m, 'a) fsync_maps \<Rightarrow> ('m, 'a) fsync_maps" where
  "record_fsync_entry ops h s =
     (let pid = cur_pid h; ts = ktime_ns h in
      s\<lparr>fsync_start := snd (update_elem ops (fsync_start s) pid ts BPF_ANY)\<rparr>)"

definition record_fsync_exit ::
  "('m, u32, u64) map_ops \<Rightarrow> ('a, u32, u64) map_ops \<Rightarrow> u32 \<Rightarrow> helpers \<Rightarrow>
     ('m, 'a) fsync_maps \<Rightarrow> ('m, 'a) fsync_maps" where
  "record_fsync_exit ops aops idx h s =
     (let pid = cur_pid h in
      case lookup_elem ops (fsync_start s) pid of
        None \<Rightarrow> s
      | Some start \<Rightarrow>
          let delta = ktime_ns h - start;
              s1 = s\<lparr>fsync_stats := add_or_insert aops (fsync_stats s) idx delta BPF_ANY\<rparr>;
              cnt_idx = idx + 1;
              s2 = s1\<lparr>fsync_stats := add_or_insert aops (fsync_stats s1) cnt_idx 1 BPF_ANY\<rparr>;
              s3 = s2\<lparr>pid_fsync_latency := add_or_insert ops (pid_fsync_latency s2) pid delta BPF_ANY\<rparr>;
              s4 = s3\<lparr>pid_fsync_count := add_or_insert ops (pid_fsync_count s3) pid 1 BPF_ANY\<rparr>
          in s4\<lparr>fsync_start := snd (delete_elem ops (fsync_start s4) pid)\<rparr>)"

definition handle_fsync_entry ::
  "('m, u32, u64) map_ops \<Rightarrow> helpers \<Rightarrow> ('m, 'a) fsync_maps \<Rightarrow> int \<times> ('m, 'a) fsync_maps" where
  "handle_fsync_entry ops h s = (0, record_fsync_entry ops h s)"

definition handle_fsync_exit ::
  "('m, u32, u64) map_ops \<Rightarrow> ('a, u32, u64) map_ops \<Rightarrow> helpers \<Rightarrow>
     ('m, 'a) fsync_maps \<Rightarrow> int \<times> ('m, 'a) fsync_maps" where
  "handle_fsync_exit ops aops h s = (0, record_fsync_exit ops aops 0 h s)"

datatype fsync_probe = Fsync_entry helpers | Fsync_exit helpers

definition fsync_event ::
  "('m, u32, u64) map_ops \<Rightarrow> ('a, u32, u64) map_ops \<Rightarrow> fsync_probe \<Rightarrow>
     ('m, 'a) fsync_maps \<Rightarrow> ('m, 'a) fsync_maps" where
  "fsync_event ops aops e s =
     (case e of
        Fsync_entry h \<Rightarrow> snd (handle_fsync_entry ops h s)
      | Fsync_exit h \<Rightarrow> snd (handle_fsync_exit ops aops h s))"

definition fsync_body ::
  "('m, u32, u64) map_ops \<Rightarrow> u32 \<Rightarrow> ('m, 'a) fsync_maps \<Rightarrow> effect list \<times> ('m, 'a) fsync_maps" where
  "fsync_body ops pid s =
     (case lookup_elem ops (pid_fsync_latency s) pid of
        Some lat_ns \<Rightarrow> ([out_kv (''fsync_pid_'' @ fmt_u pid @ ''_total_us'') (fmt_us lat_ns)], s)
      | None \<Rightarrow> ([], s))"

definition fsync_tick ::
  "('m, u32, u64) map_ops \<Rightarrow> ('a, u32, u64) map_ops \<Rightarrow> (('m, 'a) fsync_maps, effect) tick" where
  "fsync_tick ops aops s =
     (let cur_latency = (case lookup_elem aops (fsync_stats s) 0 of Some v \<Rightarrow> v | None \<Rightarrow> 0);
          cur_count = (case lookup_elem aops (fsync_stats s) 1 of Some v \<Rightarrow> v | None \<Rightarrow> 0);
          d_latency = sat_diff cur_latency (prev_latency s);
          d_count = sat_diff cur_count (prev_count s);
          out = [out_kv ''fsync_total_us'' (fmt_us d_latency), out_kv ''fsync_count'' (fmt_u d_count)] @
                (if d_count > 0 then [out_kv ''fsync_avg_us'' (fmt_avg 1000 d_latency d_count)] else []);
          s1 = s\<lparr>prev_latency := cur_latency, prev_count := cur_count\<rparr>
      in Option.bind (key_loop (\<lambda>s. next_key ops (pid_fsync_latency s)) (fsync_body ops) (Some 0) s1)
           (\<lambda>(out', s2). Some (out @ out' @ [Flush], s2)))"

definition fsync_main ::
  "('m, u32, u64) map_ops \<Rightarrow> ('a, u32, u64) map_ops \<Rightarrow> fsync_probe env \<Rightarrow> ('m, 'a) fsync_maps \<Rightarrow>
     (status \<times> effect list \<times> ('m, 'a) fsync_maps) option" where
  "fsync_main ops aops env s =
     (if \<not> skel_opened env
      then Some (Exited 1, [err_line ''Failed to open and load BPF skeleton''], s)
      else if attach_err env \<noteq> 0
      then Some (Exited (attach_err env), [err_line ''Failed to attach BPF programs'', Destroy], s)
      else monitor [err_line ''fsync Latency Monitor - Ctrl+C to stop''] [SIGINT, SIGTERM]
             (loop_sleep_first 1 [SIGINT, SIGTERM] (fsync_event ops aops) (fsync_tick ops aops)) env
             (s\<lparr>prev_latency := 0, prev_count := 0\<rparr>))"

subsection \<open>The tool over lawful maps\<close>

fun fsync_span :: "fsync_probe \<Rightarrow> u32 lat" where
  "fsync_span (Fsync_entry h) = Start (cur_pid h) (ktime_ns h)"
| "fsync_span (Fsync_exit h) = Finish (cur_pid h) (ktime_ns h)"

fun fsync_pid :: "fsync_probe \<Rightarrow> u32" where
  "fsync_pid (Fsync_entry h) = cur_pid h"
| "fsync_pid (Fsync_exit h) = cur_pid h"

text \<open>The durations of all calls, and of those of one process.\<close>

definition fsync_times ::
  "('m, u32, u64) map_ops \<Rightarrow> ('m, 'a) fsync_maps \<Rightarrow> fsync_probe list \<Rightarrow> (u32 \<Rightarrow> bool) \<Rightarrow> u64 list" where
  "fsync_times ops s es rel = spans rel (lookup_elem ops (fsync_start s)) (map fsync_span es)"

definition fsync_report :: "u32 \<Rightarrow> u64 \<Rightarrow> effect list" where
  "fsync_report p v = [out_kv (''fsync_pid_'' @ fmt_u p @ ''_total_us'') (fmt_us v)]"

locale fsync_tool =
  h: bpf_hash ops keys cap + a: bpf_array aops akeys acap
  for ops :: "('m, u32, u64) map_ops" and keys :: "'m \<Rightarrow> u32 list" and cap
    and aops :: "('a, u32, u64) map_ops" and akeys :: "'a \<Rightarrow> u32 list" and acap
begin

sublocale rep: read_report ops keys cap pid_fsync_latency "fsync_body ops" fsync_report
  by unfold_locales (simp add: fsync_body_def fsync_report_def)

definition holds :: "u32 set \<Rightarrow> ('m, 'a) fsync_maps \<Rightarrow> bool" where
  "holds K s \<longleftrightarrow> fits keys cap K (fsync_start s) \<and> fits keys cap K (pid_fsync_latency s) \<and>
     fits keys cap K (pid_fsync_count s) \<and> acap (fsync_stats s) = 8"

lemmas event_defs = fsync_event_def handle_fsync_entry_def handle_fsync_exit_def
  record_fsync_entry_def record_fsync_exit_def Let_def add_or_insert_modify

lemma holds_event: "holds K s \<Longrightarrow> fsync_pid e \<in> K \<Longrightarrow> holds K (fsync_event ops aops e s)"
  by (cases e) (auto simp: holds_def event_defs h.fits_update h.fits_delete h.fits_modify a.cap_modify
      split: option.split)

lemma open_event:
  "holds K s \<Longrightarrow> fsync_pid e \<in> K \<Longrightarrow>
     lookup_elem ops (fsync_start (fsync_event ops aops e s)) =
       open_step (fsync_span e) (lookup_elem ops (fsync_start s))"
  by (cases e) (auto simp: holds_def event_defs h.lookup_update_fits h.lookup_delete_any fun_upd_idem
      split: option.split)

lemma array_keys8: "acap m = 8 \<Longrightarrow> 0 \<in> set (akeys m)" "acap m = 8 \<Longrightarrow> 1 \<in> set (akeys m)"
  by (simp_all add: a.array_keys)

lemma array_keys8_modify: "k \<in> set (akeys m) \<Longrightarrow> k \<in> set (akeys (modify_or_insert aops m j f v fl))"
  by (simp add: a.array_keys a.cap_modify)

lemma count_stats:
  assumes "holds K s" and "fsync_pid e \<in> K"
  shows "count_at aops (\<lambda>v. v) (fsync_stats (fsync_event ops aops e s)) 0 =
      count_at aops (\<lambda>v. v) (fsync_stats s) 0 +
        acc_step (\<lambda>_. True) (\<lambda>d. d) (fsync_span e) (lookup_elem ops (fsync_start s))"
    and "count_at aops (\<lambda>v. v) (fsync_stats (fsync_event ops aops e s)) 1 =
      count_at aops (\<lambda>v. v) (fsync_stats s) 1 +
        acc_step (\<lambda>_. True) (\<lambda>_. 1) (fsync_span e) (lookup_elem ops (fsync_start s))"
  using assms
  by (cases e; auto simp: holds_def event_defs a.count_modify_present array_keys8 array_keys8_modify
      split: option.split)+

sublocale tot: latency "fsync_event ops aops" fsync_span
    "\<lambda>s. lookup_elem ops (fsync_start s)" "\<lambda>s. count_at aops (\<lambda>v. v) (fsync_stats s) 0"
    "\<lambda>_. True" "\<lambda>d. d" "\<lambda>e. fsync_pid e \<in> K" "holds K" for K
  by unfold_locales (simp_all add: holds_event open_event count_stats)

sublocale num: latency "fsync_event ops aops" fsync_span
    "\<lambda>s. lookup_elem ops (fsync_start s)" "\<lambda>s. count_at aops (\<lambda>v. v) (fsync_stats s) 1"
    "\<lambda>_. True" "\<lambda>d. 1" "\<lambda>e. fsync_pid e \<in> K" "holds K" for K
  by unfold_locales (simp_all add: holds_event open_event count_stats)

sublocale per: latency "fsync_event ops aops" fsync_span
    "\<lambda>s. lookup_elem ops (fsync_start s)" "\<lambda>s. count_at ops (\<lambda>v. v) (pid_fsync_latency s) p"
    "\<lambda>k. k = p" "\<lambda>d. d" "\<lambda>e. fsync_pid e \<in> K" "holds K" for p K
proof (unfold_locales, goal_cases)
  case (3 s e)
  then show ?case
    by (cases e) (auto simp: holds_def event_defs h.count_add_fits split: option.split)
qed (simp_all add: holds_event open_event)

lemma run_holds:
  "holds K s \<Longrightarrow> \<forall>e \<in> set es. fsync_pid e \<in> K \<Longrightarrow> holds K (fold (fsync_event ops aops) es s)"
  by (induction es arbitrary: s) (simp_all add: holds_event)

lemma run_prev:
  "prev_latency (fold (fsync_event ops aops) es s) = prev_latency s"
  "prev_count (fold (fsync_event ops aops) es s) = prev_count s"
proof -
  have "prev_latency (fsync_event ops aops e s) = prev_latency s \<and>
      prev_count (fsync_event ops aops e s) = prev_count s" for e s
    by (cases e) (simp_all add: event_defs split: option.split)
  then show "prev_latency (fold (fsync_event ops aops) es s) = prev_latency s"
    "prev_count (fold (fsync_event ops aops) es s) = prev_count s"
    by (induction es arbitrary: s) simp_all
qed

lemma run_totals:
  assumes "holds K s" and "\<forall>e \<in> set es. fsync_pid e \<in> K"
  defines "s1 \<equiv> fold (fsync_event ops aops) es s"
  shows "count_at aops (\<lambda>v. v) (fsync_stats s1) 0 =
      count_at aops (\<lambda>v. v) (fsync_stats s) 0 + sum_list (fsync_times ops s es (\<lambda>_. True))"
    and "count_at aops (\<lambda>v. v) (fsync_stats s1) 1 =
      count_at aops (\<lambda>v. v) (fsync_stats s) 1 + of_nat (length (fsync_times ops s es (\<lambda>_. True)))"
    and "count_at ops (\<lambda>v. v) (pid_fsync_latency s1) p =
      count_at ops (\<lambda>v. v) (pid_fsync_latency s) p + sum_list (fsync_times ops s es (\<lambda>k. k = p))"
  using tot.run_spans [OF assms(1), of es] num.run_spans [OF assms(1), of es]
    per.run_spans [OF assms(1), of es p] assms(2)
  by (simp_all add: s1_def fsync_times_def list_all_iff sum_weight_one)

lemma run_conserves:
  assumes "holds K s" and "\<forall>e \<in> set es. fsync_pid e \<in> K"
    and "count_at aops (\<lambda>v. v) (fsync_stats s) 0 = (\<Sum>p\<in>K. count_at ops (\<lambda>v. v) (pid_fsync_latency s) p)"
  shows "count_at aops (\<lambda>v. v) (fsync_stats (fold (fsync_event ops aops) es s)) 0 =
    (\<Sum>p\<in>K. count_at ops (\<lambda>v. v) (pid_fsync_latency (fold (fsync_event ops aops) es s)) p)"
proof -
  have "k \<in> K" if "Finish k t \<in> set (map fsync_span es)" for k t
  proof -
    from that obtain e where "fsync_pid e \<in> K" "fsync_span e = Finish k t" using assms(2) by auto
    then show ?thesis by (cases e rule: fsync_span.cases) simp_all
  qed
  moreover have "finite K" using assms(1) by (simp add: holds_def fits_def)
  ultimately have "(\<Sum>p\<in>K. sum_list (fsync_times ops s es (\<lambda>k. k = p))) = sum_list (fsync_times ops s es (\<lambda>_. True))"
    using spans_sum_partition [of K "map fsync_span es" "\<lambda>d. d" "lookup_elem ops (fsync_start s)"]
    unfolding fsync_times_def by simp
  then show ?thesis by (simp add: run_totals [OF assms(1,2)] assms(3) sum.distrib)
qed

lemma tick_spec:
  assumes "holds K s" and "0 \<notin> K" and "\<forall>e \<in> set es. fsync_pid e \<in> K"
    and "prev_latency s = count_at aops (\<lambda>v. v) (fsync_stats s) 0"
    and "prev_count s = count_at aops (\<lambda>v. v) (fsync_stats s) 1"
  defines "L \<equiv> fsync_times ops s es (\<lambda>_. True)"
  assumes "unat (prev_latency s) + unat (sum_list L) < 2 ^ 64" and "unat (prev_count s) + length L < 2 ^ 64"
  shows "\<exists>pids s'. fsync_tick ops aops (fold (fsync_event ops aops) es s) = Some
      ([out_kv ''fsync_total_us'' (fmt_us (sum_list L)),
        out_kv ''fsync_count'' (fmt_u (of_nat (length L) :: u64))] @
       (if L = [] then [] else [out_kv ''fsync_avg_us'' (fmt_avg 1000 (sum_list L) (of_nat (length L)))]) @
       map (\<lambda>p. out_kv (''fsync_pid_'' @ fmt_u p @ ''_total_us'')
              (fmt_us (count_at ops (\<lambda>v. v) (pid_fsync_latency s) p +
                       sum_list (fsync_times ops s es (\<lambda>k. k = p))))) pids @ [Flush], s')
    \<and> pids = keys (pid_fsync_latency s')
    \<and> prev_latency s' = count_at aops (\<lambda>v. v) (fsync_stats s') 0
    \<and> prev_count s' = count_at aops (\<lambda>v. v) (fsync_stats s') 1"
proof -
  let ?s1 = "fold (fsync_event ops aops) es s"
  let ?s2 = "?s1\<lparr>prev_latency := count_at aops (\<lambda>v. v) (fsync_stats ?s1) 0,
    prev_count := count_at aops (\<lambda>v. v) (fsync_stats ?s1) 1\<rparr>"
  let ?ks = "keys (pid_fsync_latency ?s1)"
  have sub: "set ?ks \<subseteq> K" using run_holds [OF assms(1,3)] by (simp add: holds_def fits_def)
  then have "keys_from ?ks (Some 0) = ?ks" using assms(2) by (intro keys_from_absent) auto
  then have loop: "key_loop (\<lambda>s. next_key ops (pid_fsync_latency s)) (fsync_body ops) (Some 0) ?s2 =
      Some (concat (map (\<lambda>k. fsync_report k (the (lookup_elem ops (pid_fsync_latency ?s1) k))) ?ks), ?s2)"
    using rep.loop_reports [of "Some 0" ?s2] by simp
  have "the (lookup_elem ops (pid_fsync_latency ?s1) k) = count_at ops (\<lambda>v. v) (pid_fsync_latency ?s1) k"
    if "k \<in> set ?ks" for k using that by (auto simp: count_at_def h.keys_lookup)
  then have lines: "concat (map (\<lambda>k. fsync_report k (the (lookup_elem ops (pid_fsync_latency ?s1) k))) ?ks) =
      map (\<lambda>p. out_kv (''fsync_pid_'' @ fmt_u p @ ''_total_us'')
        (fmt_us (count_at ops (\<lambda>v. v) (pid_fsync_latency s) p + sum_list (fsync_times ops s es (\<lambda>k. k = p))))) ?ks"
    by (intro concat_singletons) (simp add: fsync_report_def run_totals(3) [OF assms(1,3)])
  have n: "unat (of_nat (length L) :: u64) = length L"
    using assms(8) by (simp add: unat_of_nat take_bit_nat_eq_self)
  have d1: "sat_diff (count_at aops (\<lambda>v. v) (fsync_stats ?s1) 0) (prev_latency s) = sum_list L"
    unfolding run_totals(1) [OF assms(1,3)] L_def [symmetric] assms(4) [symmetric]
    by (rule sat_diff_add [OF assms(7)])
  have d2: "sat_diff (count_at aops (\<lambda>v. v) (fsync_stats ?s1) 1) (prev_count s) = of_nat (length L)"
    unfolding run_totals(2) [OF assms(1,3)] L_def [symmetric] assms(5) [symmetric]
    using assms(8) n by (intro sat_diff_add) simp
  have "(of_nat (length L) :: u64) > 0 \<longleftrightarrow> L \<noteq> []" using n by (simp add: word_less_nat_alt)
  then have "fsync_tick ops aops ?s1 = Some
      ([out_kv ''fsync_total_us'' (fmt_us (sum_list L)), out_kv ''fsync_count'' (fmt_u (of_nat (length L) :: u64))] @
       (if L = [] then [] else [out_kv ''fsync_avg_us'' (fmt_avg 1000 (sum_list L) (of_nat (length L)))]) @
       concat (map (\<lambda>k. fsync_report k (the (lookup_elem ops (pid_fsync_latency ?s1) k))) ?ks) @ [Flush], ?s2)"
    using loop d1 d2 unfolding fsync_tick_def count_at_def [symmetric] Let_def by (simp add: run_prev)
  then show ?thesis unfolding lines by (intro exI [of _ ?ks] exI [of _ ?s2]) simp
qed

end

interpretation fs_maps: fsync_tool "hash_ops reorder" hm_keys hcap array_ops arr_keys arr_cap
  by unfold_locales

subsection \<open>Properties\<close>

text \<open>For processes other than 0 that fit the maps, from remembered totals that agree with the map
  and as long as no counter wraps, an iteration of file_fsync_stat returns and prints the total
  time and the number of the fsync calls that ended since the last iteration (matched by
  process), their average when there was one, and then for each process of the map its
  cumulative time; the remembered totals agree again.\<close>

theorem fsync_round:
  assumes "bpf_hash ops keys cap" and "bpf_array aops akeys acap"
    and "fits keys cap K (fsync_start s)" and "fits keys cap K (pid_fsync_latency s)"
    and "fits keys cap K (pid_fsync_count s)" and "acap (fsync_stats s) = 8"
    and "0 \<notin> K" and "\<forall>e \<in> set es. fsync_pid e \<in> K"
    and "prev_latency s = count_at aops (\<lambda>v. v) (fsync_stats s) 0"
    and "prev_count s = count_at aops (\<lambda>v. v) (fsync_stats s) 1"
    and "L = fsync_times ops s es (\<lambda>_. True)"
    and "unat (prev_latency s) + unat (sum_list L) < 2 ^ 64" and "unat (prev_count s) + length L < 2 ^ 64"
  shows "\<exists>pids s'. fsync_tick ops aops (fold (fsync_event ops aops) es s) = Some
      ([out_kv ''fsync_total_us'' (fmt_us (sum_list L)),
        out_kv ''fsync_count'' (fmt_u (of_nat (length L) :: u64))] @
       (if L = [] then [] else [out_kv ''fsync_avg_us'' (fmt_avg 1000 (sum_list L) (of_nat (length L)))]) @
       map (\<lambda>p. out_kv (''fsync_pid_'' @ fmt_u p @ ''_total_us'')
              (fmt_us (count_at ops (\<lambda>v. v) (pid_fsync_latency s) p +
                       sum_list (fsync_times ops s es (\<lambda>k. k = p))))) pids @ [Flush], s')
    \<and> pids = keys (pid_fsync_latency s')
    \<and> prev_latency s' = count_at aops (\<lambda>v. v) (fsync_stats s') 0
    \<and> prev_count s' = count_at aops (\<lambda>v. v) (fsync_stats s') 1"
proof -
  note tool = fsync_tool.intro [OF assms(1,2)]
  have "fsync_tool.holds keys cap acap K s"
    using assms(3-6) by (simp add: fsync_tool.holds_def [OF tool])
  from fsync_tool.tick_spec [OF tool this assms(7-10)] assms(12,13) show ?thesis
    unfolding assms(11) by blast
qed

definition fsync_demo :: "fsync_probe list" where
  "fsync_demo = [Fsync_entry (task_ctx 4 ''pg'' 1000 0), Fsync_entry (task_ctx 6 ''vi'' 1500 1),
     Fsync_exit (task_ctx 4 ''pg'' 3500 0), Fsync_exit (task_ctx 9 ''sh'' 3600 0)]"

definition fsync_init :: "((u32, u64) hmap, u64 list) fsync_maps" where
  "fsync_init = \<lparr>fsync_start = empty_hash 10240, fsync_stats = replicate 8 0,
     pid_fsync_latency = empty_hash 10240, pid_fsync_count = empty_hash 10240,
     prev_latency = 0, prev_count = 0\<rparr>"

theorem fsync_round_witness:
  "\<exists>pids s'. fsync_tick (hash_ops False) array_ops (fold (fsync_event (hash_ops False) array_ops) fsync_demo fsync_init) = Some
      ([out_kv ''fsync_total_us'' (fmt_us (sum_list [2500])),
        out_kv ''fsync_count'' (fmt_u (of_nat (length [2500 :: u64]) :: u64))] @
       (if [2500 :: u64] = [] then []
        else [out_kv ''fsync_avg_us'' (fmt_avg 1000 (sum_list [2500]) (of_nat (length [2500 :: u64])))]) @
       map (\<lambda>p. out_kv (''fsync_pid_'' @ fmt_u p @ ''_total_us'')
              (fmt_us (count_at (hash_ops False) (\<lambda>v. v) (pid_fsync_latency fsync_init) p +
                       sum_list (fsync_times (hash_ops False) fsync_init fsync_demo (\<lambda>k. k = p))))) pids @ [Flush], s')
    \<and> pids = hm_keys (pid_fsync_latency s')
    \<and> prev_latency s' = count_at array_ops (\<lambda>v. v) (fsync_stats s') 0
    \<and> prev_count s' = count_at array_ops (\<lambda>v. v) (fsync_stats s') 1"
  by (rule fsync_round [OF hm.bpf_hash_axioms ar.bpf_array_axioms, where K = "{4, 6, 9}"])
    (simp_all add: fsync_init_def fsync_demo_def fsync_times_def fits_def count_at_def)

text \<open>The total of file_fsync_stat is the sum of the times of the processes: if it is before a
  sequence of events of processes that fit the maps, it is after it (modulo 2^64).\<close>

theorem fsync_total_is_sum:
  assumes "bpf_hash ops keys cap" and "bpf_array aops akeys acap"
    and "fits keys cap K (fsync_start s)" and "fits keys cap K (pid_fsync_latency s)"
    and "fits keys cap K (pid_fsync_count s)" and "acap (fsync_stats s) = 8"
    and "\<forall>e \<in> set es. fsync_pid e \<in> K"
    and "count_at aops (\<lambda>v. v) (fsync_stats s) 0 = (\<Sum>p\<in>K. count_at ops (\<lambda>v. v) (pid_fsync_latency s) p)"
  shows "count_at aops (\<lambda>v. v) (fsync_stats (fold (fsync_event ops aops) es s)) 0 =
    (\<Sum>p\<in>K. count_at ops (\<lambda>v. v) (pid_fsync_latency (fold (fsync_event ops aops) es s)) p)"
proof -
  note tool = fsync_tool.intro [OF assms(1,2)]
  have "fsync_tool.holds keys cap acap K s"
    using assms(3-6) by (simp add: fsync_tool.holds_def [OF tool])
  from fsync_tool.run_conserves [OF tool this assms(7,8)] show ?thesis .
qed

theorem fsync_total_is_sum_witness:
  "count_at array_ops (\<lambda>v. v) (fsync_stats (fold (fsync_event (hash_ops False) array_ops) fsync_demo fsync_init)) 0 =
    (\<Sum>p\<in>{4, 6, 9}. count_at (hash_ops False) (\<lambda>v. v)
       (pid_fsync_latency (fold (fsync_event (hash_ops False) array_ops) fsync_demo fsync_init)) p)"
  by (rule fsync_total_is_sum [OF hm.bpf_hash_axioms ar.bpf_array_axioms])
    (simp_all add: fsync_init_def fsync_demo_def fits_def count_at_def)

end
