(* ===== verification/ReadStat.thy ===== *)
theory ReadStat
  imports Counting Loader MapInstances
begin

section \<open>read_stat: read() calls by process\<close>

text \<open>
  \<open>my_tools/file/read_stat.bpf.c\<close> counts \<open>sys_enter_read\<close> by process id in
  \<open>file_read_counter\<close>; \<open>my_tools/file/read_stat.c\<close> collects the keys into an array, prints
  \<open>PID_<pid>: <count>\<close> for each and deletes it. Shown: what one iteration prints and leaves for
  any map contents, that it prints the exact number of calls of each process since the last
  iteration when process id 0 is not in the map, and the life cycle of the loader.
\<close>

record 'm read_stat_maps =
  file_read_counter :: 'm

definition handle_enter_read ::
  "('m, u32, u64) map_ops \<Rightarrow> helpers \<Rightarrow> 'm read_stat_maps \<Rightarrow> int \<times> 'm read_stat_maps" where
  "handle_enter_read ops h s =
     (let pid = cur_pid h in
      (0, s\<lparr>file_read_counter := add_or_insert ops (file_read_counter s) pid 1 BPF_ANY\<rparr>))"

definition MAX_ENTRIES :: nat where
  "MAX_ENTRIES = 10240"

text \<open>The first loop of an iteration: \<open>pids[count++] = next_pid\<close> until there is no next key or the
  array is full.\<close>

function collect_pids :: "('m, u32, u64) map_ops \<Rightarrow> 'm \<Rightarrow> u32 \<Rightarrow> nat \<Rightarrow> u32 list" where
  "collect_pids ops m pid n =
     (case next_key ops m (Some pid) of
        None \<Rightarrow> []
      | Some next_pid \<Rightarrow>
          if n \<ge> MAX_ENTRIES then []
          else next_pid # collect_pids ops m next_pid (Suc n))"
  by pat_completeness auto
termination
  by (relation "measure (\<lambda>(ops, m, pid, n). MAX_ENTRIES - n)") auto

declare collect_pids.simps [simp del]

text \<open>The body of the second loop.\<close>

definition read_stat_body ::
  "('m, u32, u64) map_ops \<Rightarrow> u32 \<Rightarrow> 'm read_stat_maps \<Rightarrow> effect list \<times> 'm read_stat_maps" where
  "read_stat_body ops pid s =
     (case lookup_elem ops (file_read_counter s) pid of
        Some value \<Rightarrow>
          ([out_kv (''PID_'' @ fmt_u pid) (fmt_u value)],
           s\<lparr>file_read_counter := snd (delete_elem ops (file_read_counter s) pid)\<rparr>)
      | None \<Rightarrow> ([], s))"

definition read_stat_tick ::
  "('m, u32, u64) map_ops \<Rightarrow> ('m read_stat_maps, effect) tick" where
  "read_stat_tick ops s =
     (let pids = collect_pids ops (file_read_counter s) 0 0;
          (out, s') = visit (read_stat_body ops) pids s
      in Some (out @ [Flush], s'))"

definition read_stat_event ::
  "('m, u32, u64) map_ops \<Rightarrow> helpers \<Rightarrow> 'm read_stat_maps \<Rightarrow> 'm read_stat_maps" where
  "read_stat_event ops h s = snd (handle_enter_read ops h s)"

text \<open>\<open>main\<close>; \<open>malloc_ok\<close> is whether the array of process ids could be allocated. No handler is
  installed and the loop is \<open>while (1)\<close>.\<close>

definition read_stat_main ::
  "('m, u32, u64) map_ops \<Rightarrow> bool \<Rightarrow> helpers env \<Rightarrow> 'm read_stat_maps \<Rightarrow>
     (status \<times> effect list \<times> 'm read_stat_maps) option" where
  "read_stat_main ops malloc_ok env s =
     (if \<not> skel_opened env
      then Some (Exited 1, [err_line ''Failed to open BPF skeleton''], s)
      else if load_err env \<noteq> 0
      then Some (Exited (load_err env), [err_line ''Failed to load BPF program'', Destroy], s)
      else if attach_err env \<noteq> 0
      then Some (Exited (attach_err env), [err_line ''Failed to attach BPF program'', Destroy], s)
      else if \<not> malloc_ok
      then Some (Exited (-12), [err_line ''Failed to allocate memory'', Destroy], s)
      else monitor [err_line ''Monitoring read syscalls, press Ctrl+C to stop.''] []
             (loop_sleep_first 1 [] (read_stat_event ops) (read_stat_tick ops)) env s)"

subsection \<open>The tool over a lawful map\<close>

definition read_stat_report :: "u32 \<Rightarrow> u64 \<Rightarrow> effect list" where
  "read_stat_report pid v = [out_kv (''PID_'' @ fmt_u pid) (fmt_u v)]"

locale read_stat = bpf_hash ops keys cap
  for ops :: "('m, u32, u64) map_ops" and keys :: "'m \<Rightarrow> u32 list" and cap
begin

sublocale rep: drain_report ops keys cap file_read_counter "read_stat_body ops" read_stat_report
  by unfold_locales (simp_all add: read_stat_body_def read_stat_report_def)

sublocale ctr: event_counter ops keys cap file_read_counter "read_stat_event ops"
    "\<lambda>h. Some (cur_pid h)" "\<lambda>h. 1" "\<lambda>h v. v + 1" "\<lambda>h. 1" "\<lambda>v. v" BPF_ANY
  by unfold_locales
    (auto simp: read_stat_event_def handle_enter_read_def Let_def add_or_insert_modify)

lemma collect_keys_from:
  "length (keys_from (keys m) (Some pid)) + n \<le> MAX_ENTRIES \<Longrightarrow>
     collect_pids ops m pid n = keys_from (keys m) (Some pid)"
proof (induction "keys_from (keys m) (Some pid)" arbitrary: pid n)
  case Nil
  then have "next_key ops m (Some pid) = None" by (simp add: next_key_order flip: Nil.hyps)
  then show ?case by (simp add: collect_pids.simps flip: Nil.hyps)
next
  case (Cons k ks)
  have rest: "ks = keys_from (keys m) (Some k)"
    using keys_from_step [OF keys_distinct Cons.hyps(2) [symmetric]] by simp
  have nxt: "next_key ops m (Some pid) = Some k" by (simp add: next_key_order flip: Cons.hyps(2))
  have "length (k # ks) + n \<le> MAX_ENTRIES" using Cons.prems by (simp flip: Cons.hyps(2))
  then have "\<not> MAX_ENTRIES \<le> n" "length (keys_from (keys m) (Some k)) + Suc n \<le> MAX_ENTRIES"
    by (simp_all flip: rest)
  with Cons.hyps(1) [OF rest] show ?case
    unfolding Cons.hyps(2) [symmetric] by (subst collect_pids.simps) (simp add: nxt flip: rest)
qed

lemma tick_spec:
  assumes "cap (file_read_counter s) \<le> MAX_ENTRIES"
  defines "ks \<equiv> keys_from (keys (file_read_counter s)) (Some 0)"
  shows "\<exists>s'. read_stat_tick ops s =
      Some (concat (map (\<lambda>k. read_stat_report k (the (lookup_elem ops (file_read_counter s) k))) ks)
              @ [Flush], s')
    \<and> lookup_elem ops (file_read_counter s') = lookup_elem ops (file_read_counter s) |` (- set ks)
    \<and> cap (file_read_counter s') = cap (file_read_counter s)"
proof -
  let ?m = "file_read_counter s"
  obtain pre where pre: "keys ?m = pre @ ks" using keys_from_suffix ks_def by metis
  have sub: "set ks \<subseteq> set (keys ?m)" and dist: "distinct ks"
    using keys_distinct [of ?m] by (auto simp: pre)
  have "mset ks \<subseteq># mset (keys ?m)" by (simp add: pre)
  then have c: "cap (file_read_counter (snd (visit (read_stat_body ops) ks s))) = cap ?m"
    by (rule rep.cap_visit)
  have "length ks + 0 \<le> MAX_ENTRIES" using keys_cap [of ?m] assms(1) by (simp add: pre)
  then have "collect_pids ops ?m 0 0 = ks" using collect_keys_from [of ?m 0 0] ks_def by simp
  then show ?thesis
    using rep.visit_drain_out [OF dist sub] rep.visit_lookup [OF dist sub] c
    by (simp add: read_stat_tick_def case_prod_unfold)
qed

lemma round_exact:
  assumes "keys (file_read_counter s) = []" and "cap (file_read_counter s) = MAX_ENTRIES"
    and "card (cur_pid ` set es) \<le> MAX_ENTRIES" and "0 \<notin> cur_pid ` set es"
  shows "\<exists>pids s'. read_stat_tick ops (fold (read_stat_event ops) es s) =
      Some (map (\<lambda>p. out_kv (''PID_'' @ fmt_u p)
                   (fmt_u (of_nat (length (filter (\<lambda>h. cur_pid h = p) es)) :: u64))) pids @ [Flush], s')
    \<and> distinct pids \<and> set pids = cur_pid ` set es \<and> keys (file_read_counter s') = []"
proof -
  let ?s1 = "fold (read_stat_event ops) es s" and ?hit = "\<lambda>h. Some (cur_pid h)"
  let ?m = "file_read_counter ?s1"
  let ?n = "\<lambda>p. of_nat (length (filter (\<lambda>h. cur_pid h = p) es)) :: u64"
  have kh: "keys_hit ?hit es = cur_pid ` set es" by (auto simp: keys_hit_def)
  have run: "set (keys ?m) = cur_pid ` set es"
    "p \<in> cur_pid ` set es \<Longrightarrow> lookup_elem ops ?m p = Some (?n p)" for p
    using ctr.lookup_run [OF assms(1), of es] ctr.sum_amount_one [of es p] assms(2,3)
    by (auto simp: kh hits_def)
  have from0: "keys_from (keys ?m) (Some 0) = keys ?m"
    using run(1) assms(4) by (simp add: keys_from_absent)
  obtain s' where s': "read_stat_tick ops ?s1 =
      Some (concat (map (\<lambda>k. read_stat_report k (the (lookup_elem ops ?m k))) (keys ?m)) @ [Flush], s')"
    "lookup_elem ops (file_read_counter s') = lookup_elem ops ?m |` (- set (keys ?m))"
    using tick_spec [of ?s1] assms(2) from0 ctr.cap_run [of es s] by auto
  have "concat (map (\<lambda>k. read_stat_report k (the (lookup_elem ops ?m k))) (keys ?m)) =
      map (\<lambda>p. out_kv (''PID_'' @ fmt_u p) (fmt_u (?n p))) (keys ?m)"
    by (rule concat_singletons) (simp add: run read_stat_report_def)
  moreover have "keys (file_read_counter s') = []"
    by (simp add: keys_Nil_iff s'(2) restrict_map_def keys_lookup)
  ultimately show ?thesis using s'(1) run(1) keys_distinct [of ?m] by auto
qed

end

interpretation rs_hash: read_stat "hash_ops reorder" hm_keys hcap
  by unfold_locales

subsection \<open>Properties\<close>

text \<open>After any sequence of \<open>read()\<close> calls of at most \<open>max_entries\<close> processes, none of them
  process 0, from an empty map, one iteration of the loader prints for each of these processes
  exactly one line with the number of its calls (modulo 2^64), and empties the map.\<close>

theorem read_stat_round_exact:
  assumes "bpf_hash ops keys cap"
    and "keys (file_read_counter s) = []" and "cap (file_read_counter s) = MAX_ENTRIES"
    and "card (cur_pid ` set es) \<le> MAX_ENTRIES" and "0 \<notin> cur_pid ` set es"
  shows "\<exists>pids s'. read_stat_tick ops (fold (read_stat_event ops) es s) =
      Some (map (\<lambda>p. out_kv (''PID_'' @ fmt_u p)
                   (fmt_u (of_nat (length (filter (\<lambda>h. cur_pid h = p) es)) :: u64))) pids @ [Flush], s')
    \<and> distinct pids \<and> set pids = cur_pid ` set es \<and> keys (file_read_counter s') = []"
  using read_stat.round_exact [OF read_stat.intro [OF assms(1)]] assms(2-5) by blast

definition read_demo :: "helpers list" where
  "read_demo = [task_ctx 7 ''cat'' 10 0, task_ctx 9 ''dd'' 20 1, task_ctx 7 ''cat'' 30 0]"

theorem read_stat_round_exact_witness:
  "\<exists>pids s'. read_stat_tick (hash_ops False)
        (fold (read_stat_event (hash_ops False)) read_demo \<lparr>file_read_counter = empty_hash MAX_ENTRIES\<rparr>) =
      Some (map (\<lambda>p. out_kv (''PID_'' @ fmt_u p)
                   (fmt_u (of_nat (length (filter (\<lambda>h. cur_pid h = p) read_demo)) :: u64))) pids @ [Flush], s')
    \<and> distinct pids \<and> set pids = {7, 9} \<and> hm_keys (file_read_counter s') = []"
proof -
  have pids: "cur_pid ` set read_demo = {7, 9}" by (auto simp: read_demo_def)
  show ?thesis
    using read_stat_round_exact
      [OF hm.bpf_hash_axioms, of "\<lparr>file_read_counter = empty_hash MAX_ENTRIES\<rparr>" read_demo False]
    by (simp add: pids MAX_ENTRIES_def)
qed

end
