(* ===== verification/WriteStat.thy ===== *)
theory WriteStat
  imports Counting Loader MapInstances
begin

section \<open>write_stat: write() calls by process\<close>

text \<open>
  \<open>my_tools/file/write_stat.bpf.c\<close> and \<open>my_tools/file/write_stat.c\<close>. The kernel side counts as
  \<open>read_stat\<close> does; the loader prints every counter once a second and never deletes or resets one.
  Shown: one iteration prints the entries after key 0 and changes nothing, so what it prints are
  totals since the tool was started, not increments.
\<close>

record 'm write_stat_maps =
  file_write_counter :: 'm

definition handle_enter_write ::
  "('m, u32, u64) map_ops \<Rightarrow> helpers \<Rightarrow> 'm write_stat_maps \<Rightarrow> int \<times> 'm write_stat_maps" where
  "handle_enter_write ops h s =
     (let pid = cur_pid h; init = 1 in
      case lookup_elem ops (file_write_counter s) pid of
        None \<Rightarrow> (0, s\<lparr>file_write_counter :=
                       snd (update_elem ops (file_write_counter s) pid init BPF_ANY)\<rparr>)
      | Some val \<Rightarrow> (0, s\<lparr>file_write_counter :=
                       store_elem ops (file_write_counter s) pid (val + 1)\<rparr>))"

definition write_stat_event ::
  "('m, u32, u64) map_ops \<Rightarrow> helpers \<Rightarrow> 'm write_stat_maps \<Rightarrow> 'm write_stat_maps" where
  "write_stat_event ops h s = snd (handle_enter_write ops h s)"

definition write_stat_body ::
  "('m, u32, u64) map_ops \<Rightarrow> u32 \<Rightarrow> 'm write_stat_maps \<Rightarrow> effect list \<times> 'm write_stat_maps" where
  "write_stat_body ops pid s =
     (case lookup_elem ops (file_write_counter s) pid of
        Some value \<Rightarrow> ([out_kv (''write_calls_pid_'' @ fmt_u pid) (fmt_u value)], s)
      | None \<Rightarrow> ([], s))"

definition write_stat_tick ::
  "('m, u32, u64) map_ops \<Rightarrow> ('m write_stat_maps, effect) tick" where
  "write_stat_tick ops =
     key_loop (\<lambda>s. next_key ops (file_write_counter s)) (write_stat_body ops) (Some 0)"

definition write_stat_main ::
  "('m, u32, u64) map_ops \<Rightarrow> helpers env \<Rightarrow> 'm write_stat_maps \<Rightarrow>
     (status \<times> effect list \<times> 'm write_stat_maps) option" where
  "write_stat_main ops env s =
     (if \<not> skel_opened env
      then Some (Exited 1, [err_line ''Failed to open BPF skeleton''], s)
      else if load_err env \<noteq> 0
      then Some (Exited (load_err env), [err_line ''Failed to load BPF program'', Destroy], s)
      else if attach_err env \<noteq> 0
      then Some (Exited (attach_err env), [err_line ''Failed to attach BPF program'', Destroy], s)
      else monitor [err_line ''Monitoring write syscalls by PID, press Ctrl+C to stop.''] []
             (loop_sleep_last 1 [] (write_stat_event ops) (write_stat_tick ops)) env s)"

subsection \<open>The tool over a lawful map\<close>

definition write_stat_report :: "u32 \<Rightarrow> u64 \<Rightarrow> effect list" where
  "write_stat_report pid v = [out_kv (''write_calls_pid_'' @ fmt_u pid) (fmt_u v)]"

locale write_stat = bpf_hash ops keys cap
  for ops :: "('m, u32, u64) map_ops" and keys :: "'m \<Rightarrow> u32 list" and cap
begin

sublocale rep: read_report ops keys cap file_write_counter "write_stat_body ops" write_stat_report
  by unfold_locales (simp add: write_stat_body_def write_stat_report_def)

sublocale ctr: event_counter ops keys cap file_write_counter "write_stat_event ops"
    "\<lambda>h. Some (cur_pid h)" "\<lambda>h. 1" "\<lambda>h v. v + 1" "\<lambda>h. 1" "\<lambda>v. v" BPF_ANY
  by unfold_locales
    (auto simp: write_stat_event_def handle_enter_write_def Let_def modify_or_insert_def
      split: option.splits)

lemma tick_spec:
  "write_stat_tick ops s =
     Some (map (\<lambda>k. out_kv (''write_calls_pid_'' @ fmt_u k)
                     (fmt_u (the (lookup_elem ops (file_write_counter s) k))))
            (keys_from (keys (file_write_counter s)) (Some 0)), s)"
  unfolding write_stat_tick_def rep.loop_reports by (simp add: write_stat_report_def concat_map_singleton)

lemma totals:
  assumes "keys (file_write_counter s) = []"
    and "card (cur_pid ` set es) \<le> cap (file_write_counter s)" and "0 \<notin> cur_pid ` set es"
  shows "\<exists>pids. write_stat_tick ops (fold (write_stat_event ops) es s) =
      Some (map (\<lambda>p. out_kv (''write_calls_pid_'' @ fmt_u p)
                   (fmt_u (of_nat (length (filter (\<lambda>h. cur_pid h = p) es)) :: u64))) pids,
            fold (write_stat_event ops) es s)
    \<and> distinct pids \<and> set pids = cur_pid ` set es"
proof -
  let ?m = "file_write_counter (fold (write_stat_event ops) es s)"
  let ?n = "\<lambda>p. of_nat (length (filter (\<lambda>h. cur_pid h = p) es)) :: u64"
  have kh: "keys_hit (\<lambda>h. Some (cur_pid h)) es = cur_pid ` set es" by (auto simp: keys_hit_def)
  have run: "set (keys ?m) = cur_pid ` set es"
    "p \<in> cur_pid ` set es \<Longrightarrow> lookup_elem ops ?m p = Some (?n p)" for p
    using ctr.lookup_run [OF assms(1), of es] ctr.sum_amount_one [of es p] assms(2)
    by (auto simp: kh hits_def)
  have "keys_from (keys ?m) (Some 0) = keys ?m" using run(1) assms(3) by (simp add: keys_from_absent)
  then show ?thesis
    using run keys_distinct [of ?m] by (intro exI [of _ "keys ?m"]) (simp add: tick_spec)
qed

end

interpretation ws_hash: write_stat "hash_ops reorder" hm_keys hcap
  by unfold_locales

subsection \<open>Properties\<close>

text \<open>Write_stat prints running totals: after the calls \<open>es1\<close>, an iteration, and the calls
  \<open>es2\<close>, the next iteration prints for each process the number of its calls in \<open>es1 @ es2\<close>. An
  iteration changes no counter.\<close>

theorem write_stat_prints_totals:
  assumes "bpf_hash ops keys cap"
    and "keys (file_write_counter s) = []"
    and "card (cur_pid ` set (es1 @ es2)) \<le> cap (file_write_counter s)"
    and "0 \<notin> cur_pid ` set (es1 @ es2)"
  shows "\<exists>out1 s1 pids. write_stat_tick ops (fold (write_stat_event ops) es1 s) = Some (out1, s1)
    \<and> write_stat_tick ops (fold (write_stat_event ops) es2 s1) =
        Some (map (\<lambda>p. out_kv (''write_calls_pid_'' @ fmt_u p)
                (fmt_u (of_nat (length (filter (\<lambda>h. cur_pid h = p) (es1 @ es2))) :: u64))) pids,
              fold (write_stat_event ops) es2 s1)
    \<and> distinct pids \<and> set pids = cur_pid ` set (es1 @ es2)"
proof -
  have ws: "write_stat ops keys cap" using assms(1) by (rule write_stat.intro)
  show ?thesis
    using write_stat.totals [OF ws assms(2-4)]
      write_stat.tick_spec [OF ws, of "fold (write_stat_event ops) es1 s"] by auto
qed

theorem write_stat_prints_totals_witness:
  "\<exists>out1 s1 pids. write_stat_tick (hash_ops False) (fold (write_stat_event (hash_ops False))
        [task_ctx 5 ''vi'' 1 0] \<lparr>file_write_counter = empty_hash 10240\<rparr>) = Some (out1, s1)
    \<and> write_stat_tick (hash_ops False) (fold (write_stat_event (hash_ops False)) [task_ctx 5 ''vi'' 2 0] s1) =
        Some (map (\<lambda>p. out_kv (''write_calls_pid_'' @ fmt_u p)
                (fmt_u (of_nat (length (filter (\<lambda>h. cur_pid h = p)
                    ([task_ctx 5 ''vi'' 1 0] @ [task_ctx 5 ''vi'' 2 0]))) :: u64))) pids,
              fold (write_stat_event (hash_ops False)) [task_ctx 5 ''vi'' 2 0] s1)
    \<and> distinct pids \<and> set pids = {5}"
proof -
  have pids: "cur_pid ` set ([task_ctx 5 ''vi'' 1 0] @ [task_ctx 5 ''vi'' 2 0]) = {5}" by simp
  show ?thesis
    using write_stat_prints_totals [OF hm.bpf_hash_axioms,
        of "\<lparr>file_write_counter = empty_hash 10240\<rparr>" "[task_ctx 5 ''vi'' 1 0]" "[task_ctx 5 ''vi'' 2 0]" False]
    unfolding pids by simp
qed

end
