(* ===== verification/MemOom.thy ===== *)
theory MemOom
  imports CommCount
begin

section \<open>mem_oom_stat: activity of the OOM killer\<close>

text \<open>
  \<open>my_tools/memo/mem_oom_stat.bpf.c\<close> counts the calls of \<open>oom_kill_process\<close>, in total and by the
  process in whose context the OOM killer runs; \<open>my_tools/memo/mem_oom_stat.c\<close> prints the increment
  of the total and prints and deletes the entries by process. The map and the output lines are
  named after the victim, but the process counted is the current one (a comment in the program
  says so): no argument of the probed function reaches the model's handler, as none is read.
  Shown: what an iteration prints, and that the lines by process add up to the total printed.
\<close>

record ('m, 'a) mem_oom_maps =
  oom_victim_map :: 'm
  oom_stats :: 'a
  prev_oom_count :: u64

definition handle_oom_kill_process ::
  "('m, u32, comm_info) map_ops \<Rightarrow> ('a, u32, u64) map_ops \<Rightarrow> helpers \<Rightarrow>
     ('m, 'a) mem_oom_maps \<Rightarrow> int \<times> ('m, 'a) mem_oom_maps" where
  "handle_oom_kill_process ops aops h s =
     (let idx_count = 0;
          s1 = s\<lparr>oom_stats := add_or_insert aops (oom_stats s) idx_count 1 BPF_ANY\<rparr>;
          s2 = s1\<lparr>oom_victim_map := count_comm ops (oom_victim_map s1) h BPF_ANY\<rparr>
      in (0, s2))"

definition mem_oom_event ::
  "('m, u32, comm_info) map_ops \<Rightarrow> ('a, u32, u64) map_ops \<Rightarrow> helpers \<Rightarrow>
     ('m, 'a) mem_oom_maps \<Rightarrow> ('m, 'a) mem_oom_maps" where
  "mem_oom_event ops aops h s = snd (handle_oom_kill_process ops aops h s)"

text \<open>The total: nothing happens when the lookup fails.\<close>

definition oom_total ::
  "('a, u32, u64) map_ops \<Rightarrow> ('m, 'a) mem_oom_maps \<Rightarrow> effect list \<times> ('m, 'a) mem_oom_maps" where
  "oom_total aops s =
     (case lookup_elem aops (oom_stats s) 0 of
        None \<Rightarrow> ([], s)
      | Some cur_oom_count \<Rightarrow>
          let delta = cur_oom_count - prev_oom_count s in
          (if delta > 0 then [out_kv ''oom_kill_events'' (fmt_u delta)] else [],
           s\<lparr>prev_oom_count := cur_oom_count\<rparr>))"

definition oom_victim_body ::
  "('m, u32, comm_info) map_ops \<Rightarrow> u32 \<Rightarrow> ('m, 'a) mem_oom_maps \<Rightarrow> effect list \<times> ('m, 'a) mem_oom_maps" where
  "oom_victim_body ops pid s =
     (case lookup_elem ops (oom_victim_map s) pid of
        None \<Rightarrow> ([], s)
      | Some v \<Rightarrow>
          (if ci_count v > 0
           then [out_kv (''oom_victim_pid_'' @ fmt_u pid @ ''_'' @ c_str (ci_comm v)) (fmt_u (ci_count v))]
           else [],
           s\<lparr>oom_victim_map := snd (delete_elem ops (oom_victim_map s) pid)\<rparr>))"

definition mem_oom_tick ::
  "('m, u32, comm_info) map_ops \<Rightarrow> ('a, u32, u64) map_ops \<Rightarrow> (('m, 'a) mem_oom_maps, effect) tick" where
  "mem_oom_tick ops aops s =
     (let (out0, s0) = oom_total aops s in
      Option.bind (key_loop (\<lambda>s. next_key ops (oom_victim_map s)) (oom_victim_body ops) (Some 0) s0) (\<lambda>(out1, s1).
        Some (out0 @ out1 @ [Flush], s1)))"

definition mem_oom_main ::
  "('m, u32, comm_info) map_ops \<Rightarrow> ('a, u32, u64) map_ops \<Rightarrow> helpers env \<Rightarrow> ('m, 'a) mem_oom_maps \<Rightarrow>
     (status \<times> effect list \<times> ('m, 'a) mem_oom_maps) option" where
  "mem_oom_main ops aops env s =
     (if \<not> skel_opened env
      then Some (Exited 1, [err_line ''Failed to open and load BPF skeleton''], s)
      else if attach_err env \<noteq> 0
      then Some (Exited (attach_err env), [err_line ''Failed to attach BPF programs'', Destroy], s)
      else monitor [err_line ''OOM Kill Monitor started (waiting for events), Ctrl+C to stop''] [SIGINT, SIGTERM]
             (loop_sleep_first 1 [SIGINT, SIGTERM] (mem_oom_event ops aops) (mem_oom_tick ops aops))
             env (s\<lparr>prev_oom_count := 0\<rparr>))"

subsection \<open>The tool over lawful maps\<close>

definition oom_victim_report :: "u32 \<Rightarrow> comm_info \<Rightarrow> effect list" where
  "oom_victim_report pid v =
     (if ci_count v > 0
      then [out_kv (''oom_victim_pid_'' @ fmt_u pid @ ''_'' @ c_str (ci_comm v)) (fmt_u (ci_count v))] else [])"

locale mem_oom =
  h: bpf_hash ops keys cap + a: counter_array aops akeys acap
  for ops :: "('m, u32, comm_info) map_ops" and keys :: "'m \<Rightarrow> u32 list" and cap
    and aops :: "('a, u32, u64) map_ops" and akeys :: "'a \<Rightarrow> u32 list" and acap
begin

abbreviation ev where "ev \<equiv> mem_oom_event ops aops"

lemma event_maps:
  "oom_victim_map (ev e s) = count_comm ops (oom_victim_map s) e BPF_ANY"
  "oom_stats (ev e s) = modify_or_insert aops (oom_stats s) 0 (\<lambda>v. v + 1) 1 BPF_ANY"
  "prev_oom_count (ev e s) = prev_oom_count s"
  by (simp_all add: mem_oom_event_def handle_oom_kill_process_def Let_def add_or_insert_modify)

sublocale vc: event_counter ops keys cap oom_victim_map ev
    "\<lambda>e. Some (cur_pid e)" "\<lambda>_. 1" comm_upd "comm_ini (\<lambda>h. h)" ci_count BPF_ANY
  by unfold_locales (simp_all add: event_maps count_comm_modify [where ctx = "\<lambda>h. h"] comm_count_laws)

sublocale vd: counted_drain ops keys cap oom_victim_map ev
    "\<lambda>e. Some (cur_pid e)" "\<lambda>_. 1" comm_upd "comm_ini (\<lambda>h. h)" ci_count "oom_victim_body ops" oom_victim_report
  by unfold_locales (simp_all add: oom_victim_body_def oom_victim_report_def)

lemma run_stats:
  assumes "acap (oom_stats s) = 4"
  shows "acap (oom_stats (fold ev es s)) = 4 \<and>
    count_at aops (\<lambda>v. v) (oom_stats (fold ev es s)) 0 = count_at aops (\<lambda>v. v) (oom_stats s) 0 + of_nat (length es) \<and>
    prev_oom_count (fold ev es s) = prev_oom_count s"
  using assms
proof (induction es arbitrary: s)
  case (Cons e es)
  have "0 \<in> set (akeys (oom_stats s))" using Cons.prems by (simp add: a.array_keys)
  then have "count_at aops (\<lambda>v. v) (oom_stats (ev e s)) 0 = count_at aops (\<lambda>v. v) (oom_stats s) 0 + 1"
    by (simp add: event_maps a.count_modify_present)
  moreover have "acap (oom_stats (ev e s)) = 4" using Cons.prems by (simp add: event_maps a.cap_modify)
  ultimately show ?case using Cons.IH [of "ev e s"] by (simp add: event_maps add.assoc)
qed simp

lemma total_spec:
  assumes "acap (oom_stats s) = 4" and "prev_oom_count s = count_at aops (\<lambda>v. v) (oom_stats s) 0"
    and "length es < 2 ^ 64"
  shows "\<exists>t. oom_total aops (fold ev es s) =
    (if es = [] then [] else [out_kv ''oom_kill_events'' (fmt_u (of_nat (length es) :: u64))],
     (fold ev es s)\<lparr>prev_oom_count := t\<rparr>) \<and> t = count_at aops (\<lambda>v. v) (oom_stats (fold ev es s)) 0"
proof -
  note run = run_stats [OF assms(1), of es]
  obtain v where v: "lookup_elem aops (oom_stats (fold ev es s)) 0 = Some v"
    using a.array_lookup [of 0 "oom_stats (fold ev es s)"] run by auto
  then have "v = count_at aops (\<lambda>v. v) (oom_stats (fold ev es s)) 0" by (simp add: count_at_def)
  moreover have "(of_nat (length es) :: u64) > 0 \<longleftrightarrow> es \<noteq> []"
    using assms(3) by (simp add: word_less_nat_alt unat_of_nat take_bit_nat_eq_self)
  ultimately show ?thesis using run assms(2) by (auto simp: oom_total_def v Let_def)
qed

text \<open>The state between iterations: no entries, and the remembered total is the counter's.\<close>

definition settled :: "('m, 'a) mem_oom_maps \<Rightarrow> bool" where
  "settled s = (keys (oom_victim_map s) = [] \<and> acap (oom_stats s) = 4 \<and>
     prev_oom_count s = count_at aops (\<lambda>v. v) (oom_stats s) 0)"

lemma tick_spec:
  assumes "settled s" and "card (cur_pid ` set es) \<le> cap (oom_victim_map s)" and "0 \<notin> cur_pid ` set es"
    and "length es < 2 ^ 64"
  shows "\<exists>pids s'. mem_oom_tick ops aops (fold ev es s) = Some
      ((if es = [] then [] else [out_kv ''oom_kill_events'' (fmt_u (of_nat (length es) :: u64))]) @
       map (\<lambda>p. out_kv (''oom_victim_pid_'' @ fmt_u p @ ''_'' @ c_str (first_name (\<lambda>h. h) es p)) (fmt_u (calls (\<lambda>h. h) es p))) pids @
       [Flush], s')
    \<and> distinct pids \<and> set pids = cur_pid ` set es \<and> settled s' \<and> (\<Sum>p\<leftarrow>pids. calls (\<lambda>h. h) es p) = of_nat (length es)"
proof -
  let ?s = "fold ev es s" and ?hp = "\<lambda>e. Some (cur_pid e)"
  note st = assms(1) [unfolded settled_def]
  obtain t where tot: "oom_total aops ?s =
      (if es = [] then [] else [out_kv ''oom_kill_events'' (fmt_u (of_nat (length es) :: u64))], ?s\<lparr>prev_oom_count := t\<rparr>)"
    and t: "t = count_at aops (\<lambda>v. v) (oom_stats ?s) 0"
    using total_spec [OF _ _ assms(4)] st by blast
  have startp: "Some 0 = None \<or> (\<exists>c. Some 0 = Some c \<and> c \<notin> keys_hit ?hp es)" using assms(3) by simp
  have mp: "oom_victim_map (?s\<lparr>prev_oom_count := t\<rparr>) = oom_victim_map ?s" by simp
  obtain pids s1 where lp: "key_loop (\<lambda>s. next_key ops (oom_victim_map s)) (oom_victim_body ops) (Some 0) (?s\<lparr>prev_oom_count := t\<rparr>) =
      Some (concat (map (\<lambda>k. oom_victim_report k (run_value comm_upd (comm_ini (\<lambda>h. h)) (hits ?hp es k))) pids), s1)"
    and pids: "distinct pids" "set pids = keys_hit ?hp es" "keys (oom_victim_map s1) = []"
    by (rule vd.drain_after [OF mp conjunct1 [OF st] _ startp, simplified keys_hit_Some, OF assms(2)]) (rule that, simp_all)
  have "oom_stats s1 = oom_stats ?s \<and> prev_oom_count s1 = t"
    by (rule key_loop_invariant [OF lp, where P = "\<lambda>x. oom_stats x = oom_stats ?s \<and> prev_oom_count x = t"])
      (simp_all add: oom_victim_body_def split: option.split)
  then have settled: "settled s1" using pids(3) t run_stats [of s es] st by (simp add: settled_def)
  have lines: "concat (map (\<lambda>k. oom_victim_report k (run_value comm_upd (comm_ini (\<lambda>h. h)) (hits ?hp es k))) pids) =
      map (\<lambda>p. out_kv (''oom_victim_pid_'' @ fmt_u p @ ''_'' @ c_str (first_name (\<lambda>h. h) es p)) (fmt_u (calls (\<lambda>h. h) es p))) pids"
    using pids(2) calls_pos [OF assms(4), of _ "\<lambda>h. h"]
    by (intro concat_singletons) (simp add: run_comm_pid oom_victim_report_def)
  have "mem_oom_tick ops aops ?s = Some
      ((if es = [] then [] else [out_kv ''oom_kill_events'' (fmt_u (of_nat (length es) :: u64))]) @
       map (\<lambda>p. out_kv (''oom_victim_pid_'' @ fmt_u p @ ''_'' @ c_str (first_name (\<lambda>h. h) es p)) (fmt_u (calls (\<lambda>h. h) es p))) pids @
       [Flush], s1)"
    by (simp only: mem_oom_tick_def tot lp lines Let_def split_conv bind.bind_lunit)
  then show ?thesis using pids settled calls_partition [of pids "\<lambda>h. h" es] by auto
qed

end

interpretation oom_hash: mem_oom "hash_ops r" hm_keys hcap array_ops arr_keys arr_cap
  by unfold_locales

subsection \<open>Properties\<close>

text \<open>Between two iterations the OOM killer runs any number of times (fewer than \<open>2 ^ 64\<close>) in the
  contexts of at most \<open>max_entries\<close> processes, none of them process 0. If the victim map was empty
  and the remembered total current, the iteration prints the number of runs (nothing if there was
  none) and one line for each process with its share; the shares add up to the number printed first,
  and the map is empty and the remembered total current again.\<close>

theorem mem_oom_round:
  assumes "bpf_hash ops keys cap" and "bpf_array aops akeys acap"
    and "keys (oom_victim_map s) = []" and "acap (oom_stats s) = 4"
    and "prev_oom_count s = count_at aops (\<lambda>v. v) (oom_stats s) 0"
    and "card (cur_pid ` set es) \<le> cap (oom_victim_map s)" and "0 \<notin> cur_pid ` set es" and "length es < 2 ^ 64"
  shows "\<exists>pids s'. mem_oom_tick ops aops (fold (mem_oom_event ops aops) es s) = Some
      ((if es = [] then [] else [out_kv ''oom_kill_events'' (fmt_u (of_nat (length es) :: u64))]) @
       map (\<lambda>p. out_kv (''oom_victim_pid_'' @ fmt_u p @ ''_'' @ c_str (first_name (\<lambda>h. h) es p)) (fmt_u (calls (\<lambda>h. h) es p))) pids @
       [Flush], s')
    \<and> distinct pids \<and> set pids = cur_pid ` set es
    \<and> (\<Sum>p\<leftarrow>pids. calls (\<lambda>h. h) es p) = of_nat (length es)
    \<and> keys (oom_victim_map s') = [] \<and> prev_oom_count s' = count_at aops (\<lambda>v. v) (oom_stats s') 0"
proof -
  have mo: "mem_oom ops keys cap aops akeys acap"
    by (intro mem_oom.intro counter_array.intro assms(1,2))
  note settled = mem_oom.settled_def [OF mo]
  show ?thesis using mem_oom.tick_spec [OF mo _ assms(6-8)] assms(3-5) unfolding settled by blast
qed

definition oom_init :: "((u32, comm_info) hmap, u64 list) mem_oom_maps" where
  "oom_init = \<lparr>oom_victim_map = empty_hash 10240, oom_stats = replicate 4 0, prev_oom_count = 0\<rparr>"

theorem mem_oom_round_witness:
  "\<exists>pids s'. mem_oom_tick (hash_ops False) array_ops
       (fold (mem_oom_event (hash_ops False) array_ops) [task_ctx 31 ''java'' 1 0, task_ctx 31 ''java'' 5 0] oom_init) = Some
      ((if [task_ctx 31 ''java'' 1 0, task_ctx 31 ''java'' 5 0] = [] then []
        else [out_kv ''oom_kill_events'' (fmt_u (of_nat (length [task_ctx 31 ''java'' 1 0, task_ctx 31 ''java'' 5 0]) :: u64))]) @
       map (\<lambda>p. out_kv (''oom_victim_pid_'' @ fmt_u p @ ''_'' @
                  c_str (first_name (\<lambda>h. h) [task_ctx 31 ''java'' 1 0, task_ctx 31 ''java'' 5 0] p))
              (fmt_u (calls (\<lambda>h. h) [task_ctx 31 ''java'' 1 0, task_ctx 31 ''java'' 5 0] p))) pids @ [Flush], s')
    \<and> distinct pids \<and> set pids = cur_pid ` set [task_ctx 31 ''java'' 1 0, task_ctx 31 ''java'' 5 0]
    \<and> (\<Sum>p\<leftarrow>pids. calls (\<lambda>h. h) [task_ctx 31 ''java'' 1 0, task_ctx 31 ''java'' 5 0] p) =
        of_nat (length [task_ctx 31 ''java'' 1 0, task_ctx 31 ''java'' 5 0])
    \<and> hm_keys (oom_victim_map s') = [] \<and> prev_oom_count s' = count_at array_ops (\<lambda>v. v) (oom_stats s') 0"
  by (rule mem_oom_round [OF hm.bpf_hash_axioms ar.bpf_array_axioms]) (simp_all add: oom_init_def count_at_def)

end
