(* ===== verification/PageFault.thy ===== *)
theory PageFault
  imports CommCount
begin

section \<open>page_fault_stat: page faults by process\<close>

text \<open>
  \<open>my_tools/memo/page_fault_stat.bpf.c\<close> counts user and kernel page faults by process (with the
  name of the process, inserted with \<open>BPF_NOEXIST\<close>) and by command name;
  \<open>my_tools/memo/page_fault_stat.c\<close> walks the first map from NULL and fetches the next key before it
  deletes the current one.
  Shown: the walk visits every key exactly once, key 0 included, and what it prints; the walk of
  this loader is the only one of the repository that does not miss process 0.
\<close>

record ('m, 'n) page_fault_maps =
  counter :: 'm
  counter_exporter :: 'n

definition count_page_fault ::
  "('m, u32, comm_info) map_ops \<Rightarrow> ('n, comm, u64) map_ops \<Rightarrow> helpers \<Rightarrow>
     ('m, 'n) page_fault_maps \<Rightarrow> ('m, 'n) page_fault_maps" where
  "count_page_fault ops nops h s =
     (let s1 = s\<lparr>counter := count_comm ops (counter s) h BPF_NOEXIST\<rparr>
      in s1\<lparr>counter_exporter := count_name nops (counter_exporter s1) h\<rparr>)"

definition handle_page_fault_user ::
  "('m, u32, comm_info) map_ops \<Rightarrow> ('n, comm, u64) map_ops \<Rightarrow> helpers \<Rightarrow>
     ('m, 'n) page_fault_maps \<Rightarrow> int \<times> ('m, 'n) page_fault_maps" where
  "handle_page_fault_user ops nops h s = (0, count_page_fault ops nops h s)"

definition handle_page_fault_kernel ::
  "('m, u32, comm_info) map_ops \<Rightarrow> ('n, comm, u64) map_ops \<Rightarrow> helpers \<Rightarrow>
     ('m, 'n) page_fault_maps \<Rightarrow> int \<times> ('m, 'n) page_fault_maps" where
  "handle_page_fault_kernel ops nops h s = (0, count_page_fault ops nops h s)"

datatype fault_event = Page_fault_user helpers | Page_fault_kernel helpers

definition page_fault_event ::
  "('m, u32, comm_info) map_ops \<Rightarrow> ('n, comm, u64) map_ops \<Rightarrow> fault_event \<Rightarrow>
     ('m, 'n) page_fault_maps \<Rightarrow> ('m, 'n) page_fault_maps" where
  "page_fault_event ops nops e s =
     (case e of
        Page_fault_user h \<Rightarrow> snd (handle_page_fault_user ops nops h s)
      | Page_fault_kernel h \<Rightarrow> snd (handle_page_fault_kernel ops nops h s))"

definition page_fault_body ::
  "('m, u32, comm_info) map_ops \<Rightarrow> u32 \<Rightarrow> ('m, 'n) page_fault_maps \<Rightarrow> effect list \<times> ('m, 'n) page_fault_maps" where
  "page_fault_body ops key s =
     (case lookup_elem ops (counter s) key of
        None \<Rightarrow> ([], s)
      | Some val \<Rightarrow>
          (if ci_count val > 0
           then [out_kv (c_str (ci_comm val) @ ''_'' @ fmt_u key) (fmt_u (ci_count val))] else [],
           s\<lparr>counter := snd (delete_elem ops (counter s) key)\<rparr>))"

text \<open>\<open>while (res == 0) { next_res = get_next_key(key, &next_key); body; res = next_res; key = next_key; }\<close>,
  where \<open>None\<close> stands for \<open>res != 0\<close>.\<close>

partial_function (option) prefetch_loop ::
  "('s \<Rightarrow> 'k option \<Rightarrow> 'k option) \<Rightarrow> ('k \<Rightarrow> 's \<Rightarrow> 'o list \<times> 's) \<Rightarrow> 'k option \<Rightarrow> 's \<Rightarrow> ('o list \<times> 's) option" where
  "prefetch_loop nxt body res s =
     (case res of
        None \<Rightarrow> Some ([], s)
      | Some key \<Rightarrow>
          Option.bind (prefetch_loop nxt body (nxt s (Some key)) (snd (body key s)))
            (\<lambda>(out, s'). Some (fst (body key s) @ out, s')))"

definition page_fault_tick ::
  "('m, u32, comm_info) map_ops \<Rightarrow> (('m, 'n) page_fault_maps, effect) tick" where
  "page_fault_tick ops s =
     Option.bind (prefetch_loop (\<lambda>s. next_key ops (counter s)) (page_fault_body ops)
                    (next_key ops (counter s) None) s)
       (\<lambda>(out, s'). Some (out @ [Flush], s'))"

definition page_fault_main ::
  "('m, u32, comm_info) map_ops \<Rightarrow> ('n, comm, u64) map_ops \<Rightarrow> fault_event env \<Rightarrow> ('m, 'n) page_fault_maps \<Rightarrow>
     (status \<times> effect list \<times> ('m, 'n) page_fault_maps) option" where
  "page_fault_main ops nops env s =
     (if \<not> skel_opened env then Some (Exited 1, [], s)
      else if attach_err env \<noteq> 0 then Some (Exited (attach_err env), [Destroy], s)
      else monitor [] [SIGINT, SIGTERM]
             (loop_sleep_last 1 [SIGINT, SIGTERM] (page_fault_event ops nops) (page_fault_tick ops)) env s)"

subsection \<open>The prefetching walk\<close>

context drain_report
begin

lemma prefetch_visits:
  "keys (getm s) = ks \<Longrightarrow>
     prefetch_loop (\<lambda>s. next_key ops (getm s)) body (first_key ks) s = Some (visit body ks s)"
proof (induction ks arbitrary: s)
  case Nil
  then show ?case by (simp add: prefetch_loop.simps)
next
  case (Cons k ks)
  have mem: "k \<in> set (keys (getm s))" using Cons.prems by simp
  have "keys (getm (snd (body k s))) = ks" using drain_keys [OF mem] Cons.prems by simp
  note IH = Cons.IH [OF this]
  have "next_key ops (getm s) (Some k) = first_key ks"
    using Cons.prems keys_from_split [of k "[]" ks] by (simp add: next_key_order)
  then show ?case using IH by (subst prefetch_loop.simps) (simp add: case_prod_unfold)
qed

end

subsection \<open>The tool over lawful maps\<close>

fun fault_ctx :: "fault_event \<Rightarrow> helpers" where
  "fault_ctx (Page_fault_user h) = h"
| "fault_ctx (Page_fault_kernel h) = h"

definition fault_report :: "u32 \<Rightarrow> comm_info \<Rightarrow> effect list" where
  "fault_report key val =
     (if ci_count val > 0 then [out_kv (c_str (ci_comm val) @ ''_'' @ fmt_u key) (fmt_u (ci_count val))] else [])"

locale page_fault =
  h: bpf_hash ops keys cap + n: bpf_hash nops nkeys ncap
  for ops :: "('m, u32, comm_info) map_ops" and keys :: "'m \<Rightarrow> u32 list" and cap
    and nops :: "('n, comm, u64) map_ops" and nkeys :: "'n \<Rightarrow> comm list" and ncap
begin

lemma event_maps:
  "counter (page_fault_event ops nops e s) = count_comm ops (counter s) (fault_ctx e) BPF_NOEXIST"
  "counter_exporter (page_fault_event ops nops e s) = count_name nops (counter_exporter s) (fault_ctx e)"
  by (cases e; simp add: page_fault_event_def handle_page_fault_user_def handle_page_fault_kernel_def
      count_page_fault_def Let_def)+

sublocale ctr: event_counter ops keys cap counter "page_fault_event ops nops"
    "\<lambda>e. Some (cur_pid (fault_ctx e))" "\<lambda>_. 1" comm_upd "comm_ini fault_ctx" ci_count BPF_NOEXIST
  by unfold_locales (simp_all add: event_maps count_comm_modify comm_count_laws)

sublocale rep: drain_report ops keys cap counter "page_fault_body ops" fault_report
  by unfold_locales (simp_all add: page_fault_body_def fault_report_def)

sublocale ex: event_counter nops nkeys ncap counter_exporter "page_fault_event ops nops"
    "\<lambda>e. Some (cur_comm (fault_ctx e))" "\<lambda>_. 1" "\<lambda>_ v. v + 1" "\<lambda>_. 1" "\<lambda>v. v" BPF_ANY
  by unfold_locales (simp_all add: event_maps count_name_modify)

lemma tick_spec:
  assumes "keys (counter s) = []" and "card ((\<lambda>e. cur_pid (fault_ctx e)) ` set es) \<le> cap (counter s)"
    and "length es < 2 ^ 64"
  shows "\<exists>pids s'. page_fault_tick ops (fold (page_fault_event ops nops) es s) =
      Some (map (\<lambda>p. out_kv (c_str (first_name fault_ctx es p) @ ''_'' @ fmt_u p) (fmt_u (calls fault_ctx es p))) pids @ [Flush], s')
    \<and> distinct pids \<and> set pids = (\<lambda>e. cur_pid (fault_ctx e)) ` set es \<and> keys (counter s') = []"
proof -
  let ?s = "fold (page_fault_event ops nops) es s" and ?hit = "\<lambda>e. Some (cur_pid (fault_ctx e))"
  let ?ks = "keys (counter ?s)"
  have card: "card (keys_hit ?hit es) \<le> cap (counter s)" using assms(2) by simp
  have ks: "set ?ks = (\<lambda>e. cur_pid (fault_ctx e)) ` set es" using ctr.lookup_run(1) [OF assms(1) card] by simp
  have none: "lookup_elem ops (counter s) k = None" for k using assms(1) h.keys_lookup [of k "counter s"] by simp
  have look: "lookup_elem ops (counter ?s) p = Some \<lparr>ci_count = calls fault_ctx es p, ci_comm = first_name fault_ctx es p\<rparr>"
    if "p \<in> set ?ks" for p
  proof -
    have p: "p \<in> (\<lambda>e. cur_pid (fault_ctx e)) ` set es" using that ks by simp
    then have "hits ?hit es p \<noteq> []" by (simp add: hits_empty_iff)
    then show ?thesis using ctr.run_lookup [of s es p] card by (simp add: none assms(1) run_comm_pid [OF p])
  qed
  have "fst (visit (page_fault_body ops) ?ks ?s) =
      concat (map (\<lambda>k. fault_report k (the (lookup_elem ops (counter ?s) k))) ?ks)"
    by (rule rep.visit_drain_out [OF h.keys_distinct subset_refl])
  also have "\<dots> = map (\<lambda>p. out_kv (c_str (first_name fault_ctx es p) @ ''_'' @ fmt_u p) (fmt_u (calls fault_ctx es p))) ?ks"
    using calls_pos [OF assms(3), of _ fault_ctx] ks by (intro concat_singletons) (simp add: look fault_report_def)
  finally have out: "visit (page_fault_body ops) ?ks ?s =
      (map (\<lambda>p. out_kv (c_str (first_name fault_ctx es p) @ ''_'' @ fmt_u p) (fmt_u (calls fault_ctx es p))) ?ks,
       snd (visit (page_fault_body ops) ?ks ?s))"
    by (metis prod.collapse)
  have "next_key ops (counter ?s) None = first_key ?ks" by (simp add: h.next_key_order)
  then have "page_fault_tick ops ?s =
      Some (map (\<lambda>p. out_kv (c_str (first_name fault_ctx es p) @ ''_'' @ fmt_u p) (fmt_u (calls fault_ctx es p))) ?ks @ [Flush],
        snd (visit (page_fault_body ops) ?ks ?s))"
    unfolding page_fault_tick_def using rep.prefetch_visits [OF refl, of ?s] by (subst (asm) out) simp
  moreover have "keys (counter (snd (visit (page_fault_body ops) ?ks ?s))) = []" by (rule rep.visit_drained) simp
  ultimately show ?thesis using ks h.keys_distinct [of "counter ?s"] by blast
qed

end

interpretation pf_hash: page_fault "hash_ops r" hm_keys hcap "hash_ops r'" hm_keys hcap
  by unfold_locales

subsection \<open>Properties\<close>

text \<open>After any sequence of user and kernel page faults of at most \<open>max_entries\<close> processes, process
  0 included, from an empty map, an iteration of page_fault_stat returns and prints for each of
  these processes exactly one line with the name it had at its first fault and the number of its
  faults, and empties the map.\<close>

theorem page_fault_round:
  assumes "bpf_hash ops keys cap" and "bpf_hash nops nkeys ncap"
    and "keys (counter s) = []" and "card ((\<lambda>e. cur_pid (fault_ctx e)) ` set es) \<le> cap (counter s)"
    and "length es < 2 ^ 64"
  shows "\<exists>pids s'. page_fault_tick ops (fold (page_fault_event ops nops) es s) =
      Some (map (\<lambda>p. out_kv (c_str (first_name fault_ctx es p) @ ''_'' @ fmt_u p) (fmt_u (calls fault_ctx es p))) pids @ [Flush], s')
    \<and> distinct pids \<and> set pids = (\<lambda>e. cur_pid (fault_ctx e)) ` set es \<and> keys (counter s') = []"
  by (rule page_fault.tick_spec [OF page_fault.intro [OF assms(1,2)] assms(3-5)])

definition fault_demo :: "fault_event list" where
  "fault_demo = [Page_fault_user (task_ctx 61 ''vim'' 1 0), Page_fault_kernel (task_ctx 0 ''swapper/1'' 2 1),
     Page_fault_kernel (task_ctx 61 ''vim'' 3 0)]"

definition fault_init :: "((u32, comm_info) hmap, (comm, u64) hmap) page_fault_maps" where
  "fault_init = \<lparr>counter = empty_hash 10240, counter_exporter = empty_hash 10240\<rparr>"

theorem page_fault_round_witness:
  "\<exists>pids s'. page_fault_tick (hash_ops False) (fold (page_fault_event (hash_ops False) (hash_ops False)) fault_demo fault_init) =
      Some (map (\<lambda>p. out_kv (c_str (first_name fault_ctx fault_demo p) @ ''_'' @ fmt_u p) (fmt_u (calls fault_ctx fault_demo p))) pids @ [Flush], s')
    \<and> distinct pids \<and> set pids = {61, 0} \<and> hm_keys (counter s') = []"
proof -
  have p: "(\<lambda>e. cur_pid (fault_ctx e)) ` set fault_demo = {61, 0}" by (auto simp: fault_demo_def)
  show ?thesis
    unfolding p [symmetric]
    by (rule page_fault_round [OF hm.bpf_hash_axioms hm.bpf_hash_axioms])
      (simp_all only: p, simp_all add: fault_init_def fault_demo_def card_insert_if)
qed

end
