(* ===== verification/PageSwap.thy ===== *)
theory PageSwap
  imports Latency KeyWalk Loader MapInstances
begin

section \<open>page_swap_stat: time in direct reclaim by process\<close>

text \<open>
  \<open>my_tools/memo/page_swap_stat.bpf.c\<close> stores the time a process enters direct reclaim in
  \<open>start_ts\<close> and adds the elapsed time to \<open>total_delay\<close> when it leaves;
  \<open>my_tools/memo/page_swap_stat.c\<close> prints, for every process whose total grew since the last
  iteration, the increment in microseconds. It remembers the last totals in an array indexed by
  process id.
  Shown: the printed increments are the time between matched begin and end events since the last
  iteration, for process ids below \<open>MAX_PIDS\<close>; above, the whole total is printed again in every
  iteration.
\<close>

record 'm page_swap_maps =
  start_ts :: 'm
  total_delay :: 'm
  prev_values :: "u64 list"

definition MAX_PIDS :: nat where
  "MAX_PIDS = 65535"

definition handle_begin ::
  "('m, u32, u64) map_ops \<Rightarrow> helpers \<Rightarrow> 'm page_swap_maps \<Rightarrow> int \<times> 'm page_swap_maps" where
  "handle_begin ops h s =
     (let pid = cur_pid h; ts = ktime_ns h in
      (0, s\<lparr>start_ts := snd (update_elem ops (start_ts s) pid ts BPF_ANY)\<rparr>))"

definition handle_end ::
  "('m, u32, u64) map_ops \<Rightarrow> helpers \<Rightarrow> 'm page_swap_maps \<Rightarrow> int \<times> 'm page_swap_maps" where
  "handle_end ops h s =
     (let pid = cur_pid h in
      case lookup_elem ops (start_ts s) pid of
        None \<Rightarrow> (0, s)
      | Some start \<Rightarrow>
          let end_ts = ktime_ns h;
              delta = end_ts - start;
              s1 = s\<lparr>total_delay :=
                (case lookup_elem ops (total_delay s) pid of
                   None \<Rightarrow> snd (update_elem ops (total_delay s) pid delta BPF_ANY)
                 | Some tot \<Rightarrow> store_elem ops (total_delay s) pid (tot + delta))\<rparr>
          in (0, s1\<lparr>start_ts := snd (delete_elem ops (start_ts s1) pid)\<rparr>))"

datatype reclaim_event = Reclaim_begin helpers | Reclaim_end helpers

definition page_swap_event ::
  "('m, u32, u64) map_ops \<Rightarrow> reclaim_event \<Rightarrow> 'm page_swap_maps \<Rightarrow> 'm page_swap_maps" where
  "page_swap_event ops e s =
     (case e of
        Reclaim_begin h \<Rightarrow> snd (handle_begin ops h s)
      | Reclaim_end h \<Rightarrow> snd (handle_end ops h s))"

definition page_swap_body ::
  "('m, u32, u64) map_ops \<Rightarrow> u32 \<Rightarrow> 'm page_swap_maps \<Rightarrow> effect list \<times> 'm page_swap_maps" where
  "page_swap_body ops pid s =
     (case lookup_elem ops (total_delay s) pid of
        None \<Rightarrow> ([], s)
      | Some current_total_ns \<Rightarrow>
          let last = (if unat pid < MAX_PIDS then prev_values s ! unat pid else 0);
              out = (if current_total_ns > last
                     then let incremental_us = (current_total_ns - last) div 1000
                          in [out_kv (''dr_pid_'' @ fmt_u pid) (fmt_u incremental_us), Flush]
                     else [])
          in (out, if unat pid < MAX_PIDS
                   then s\<lparr>prev_values := (prev_values s)[unat pid := current_total_ns]\<rparr>
                   else s))"

definition page_swap_tick ::
  "('m, u32, u64) map_ops \<Rightarrow> ('m page_swap_maps, effect) tick" where
  "page_swap_tick ops =
     key_loop (\<lambda>s. next_key ops (total_delay s)) (page_swap_body ops) (Some 0)"

definition page_swap_main ::
  "('m, u32, u64) map_ops \<Rightarrow> reclaim_event env \<Rightarrow> 'm page_swap_maps \<Rightarrow>
     (status \<times> effect list \<times> 'm page_swap_maps) option" where
  "page_swap_main ops env s =
     (if \<not> skel_opened env
      then Some (Exited 1, [err_line ''Failed to open BPF skeleton''], s)
      else if load_err env \<noteq> 0
      then Some (Exited (load_err env), [err_line ''Failed to load BPF program'', Destroy], s)
      else if attach_err env \<noteq> 0
      then Some (Exited (attach_err env), [err_line ''Failed to attach BPF program'', Destroy], s)
      else monitor
             [err_line ''Monitoring direct page reclaim delay by PID, press Ctrl+C to stop.''] []
             (loop_sleep_last 1 [] (page_swap_event ops) (page_swap_tick ops)) env s)"

subsection \<open>The tool over a lawful map\<close>

fun reclaim_span :: "reclaim_event \<Rightarrow> u32 lat" where
  "reclaim_span (Reclaim_begin h) = Start (cur_pid h) (ktime_ns h)"
| "reclaim_span (Reclaim_end h) = Finish (cur_pid h) (ktime_ns h)"

fun reclaim_pid :: "reclaim_event \<Rightarrow> u32" where
  "reclaim_pid (Reclaim_begin h) = cur_pid h"
| "reclaim_pid (Reclaim_end h) = cur_pid h"

text \<open>What the loader knows of a process: its total, and the total it last saw.\<close>

definition swap_view ::
  "('m, u32, u64) map_ops \<Rightarrow> 'm page_swap_maps \<Rightarrow> u32 \<Rightarrow> u64 option \<times> u64" where
  "swap_view ops s k =
     (lookup_elem ops (total_delay s) k, if unat k < MAX_PIDS then prev_values s ! unat k else 0)"

definition swap_report :: "u32 \<Rightarrow> u64 option \<times> u64 \<Rightarrow> effect list" where
  "swap_report k x =
     (if the (fst x) > snd x
      then [out_kv (''dr_pid_'' @ fmt_u k) (fmt_u ((the (fst x) - snd x) div 1000)), Flush]
      else [])"

definition swap_post :: "u32 \<Rightarrow> u64 option \<times> u64 \<Rightarrow> u64 option \<times> u64" where
  "swap_post k x = (fst x, if unat k < MAX_PIDS then the (fst x) else snd x)"

text \<open>The array agrees with the totals, as it does at the start and after an iteration.\<close>

definition swap_synced :: "('m, u32, u64) map_ops \<Rightarrow> u32 set \<Rightarrow> 'm page_swap_maps \<Rightarrow> bool" where
  "swap_synced ops K s \<longleftrightarrow> length (prev_values s) = MAX_PIDS \<and>
     (\<forall>k \<in> K. unat k < MAX_PIDS \<and> prev_values s ! unat k = count_at ops (\<lambda>v. v) (total_delay s) k)"

text \<open>The reclaim time of process \<open>p\<close> in a sequence of events.\<close>

definition reclaim_time ::
  "('m, u32, u64) map_ops \<Rightarrow> 'm page_swap_maps \<Rightarrow> reclaim_event list \<Rightarrow> u32 \<Rightarrow> u64" where
  "reclaim_time ops s es p =
     sum_list (spans (\<lambda>k. k = p) (lookup_elem ops (start_ts s)) (map reclaim_span es))"

locale page_swap = bpf_hash ops keys cap
  for ops :: "('m, u32, u64) map_ops" and keys :: "'m \<Rightarrow> u32 list" and cap
begin

sublocale walk: local_walk ops keys cap total_delay "page_swap_body ops"
    "\<lambda>s. length (prev_values s) = MAX_PIDS" "swap_view ops" swap_report swap_post
proof (unfold_locales, goal_cases)
  case (4 s k)
  then obtain v where v: "lookup_elem ops (total_delay s) k = Some v" using keys_lookup by blast
  have "swap_view ops (snd (page_swap_body ops k s)) j = ((swap_view ops s)(k := swap_post k (swap_view ops s k))) j"
    for j
    using 4(1) by (cases "j = k")
      (auto simp: page_swap_body_def swap_view_def swap_post_def Let_def v nth_update_word)
  then show ?case by (rule ext)
next
  case (3 s k)
  then obtain v where "lookup_elem ops (total_delay s) k = Some v" using keys_lookup by blast
  then show ?case by (simp add: page_swap_body_def swap_view_def swap_report_def Let_def)
qed (simp_all add: page_swap_body_def Let_def split: option.split)

definition holds :: "u32 set \<Rightarrow> 'm page_swap_maps \<Rightarrow> bool" where
  "holds K s \<longleftrightarrow> fits keys cap K (start_ts s) \<and> fits keys cap K (total_delay s)"

sublocale lat: latency "page_swap_event ops" reclaim_span
    "\<lambda>s. lookup_elem ops (start_ts s)" "\<lambda>s. count_at ops (\<lambda>v. v) (total_delay s) p"
    "\<lambda>k. k = p" "\<lambda>d. d" "\<lambda>e. reclaim_pid e \<in> K" "holds K"
  for p K
proof (unfold_locales, goal_cases)
  case (1 s e)
  then show ?case
    by (cases e) (auto simp: holds_def page_swap_event_def handle_begin_def handle_end_def Let_def
        fits_update fits_delete fits_modify modify_or_insert_def [symmetric] split: option.split)
next
  case (2 s e)
  then show ?case
    by (cases e) (auto simp: holds_def page_swap_event_def handle_begin_def handle_end_def Let_def
        lookup_update_fits lookup_delete_any fun_upd_idem split: option.split)
next
  case (3 s e)
  then show ?case
    by (cases e) (auto simp: holds_def page_swap_event_def handle_begin_def handle_end_def Let_def
        count_add_fits modify_or_insert_def [symmetric] split: option.split)
qed

lemma prev_values_run: "prev_values (fold (page_swap_event ops) es s) = prev_values s"
proof (induction es arbitrary: s)
  case (Cons e es)
  have "prev_values (page_swap_event ops e s) = prev_values s"
    by (cases e) (simp_all add: page_swap_event_def handle_begin_def handle_end_def Let_def
        split: option.split)
  with Cons show ?case by simp
qed simp

lemma holds_run: "holds K s \<Longrightarrow> \<forall>e \<in> set es. reclaim_pid e \<in> K \<Longrightarrow> holds K (fold (page_swap_event ops) es s)"
  by (induction es arbitrary: s) (simp_all add: lat.lat_inv)

lemma run_total:
  assumes "holds K s" and "\<forall>e \<in> set es. reclaim_pid e \<in> K"
  shows "count_at ops (\<lambda>v. v) (total_delay (fold (page_swap_event ops) es s)) p =
    count_at ops (\<lambda>v. v) (total_delay s) p + reclaim_time ops s es p"
  using lat.run_spans [OF assms(1), of es p] assms(2)
  by (simp add: reclaim_time_def list_all_iff)

text \<open>What the walk sees of a process of \<open>K\<close> after the events.\<close>

lemma report_increment:
  assumes "holds K s" and "swap_synced ops K s" and "\<forall>e \<in> set es. reclaim_pid e \<in> K" and "k \<in> K"
    and "unat (count_at ops (\<lambda>v. v) (total_delay s) k) + unat (reclaim_time ops s es k) < 2 ^ 64"
    and "k \<in> set (keys (total_delay (fold (page_swap_event ops) es s)))"
  shows "swap_report k (swap_view ops (fold (page_swap_event ops) es s) k) =
    (if reclaim_time ops s es k > 0
     then [out_kv (''dr_pid_'' @ fmt_u k) (fmt_u (reclaim_time ops s es k div 1000)), Flush] else [])"
proof -
  let ?s1 = "fold (page_swap_event ops) es s" and ?t0 = "count_at ops (\<lambda>v. v) (total_delay s) k"
  let ?d = "reclaim_time ops s es k"
  obtain v where v: "lookup_elem ops (total_delay ?s1) k = Some v" using assms(6) keys_lookup by blast
  have t: "v = ?t0 + ?d" using run_total [OF assms(1,3), of k] by (simp add: count_at_def v)
  have "unat (?t0 + ?d) = unat ?t0 + unat ?d" by (rule unat_add_no_wrap [OF assms(5)])
  then have "?t0 + ?d > ?t0 \<longleftrightarrow> ?d > 0" by (simp add: word_less_nat_alt)
  moreover have "snd (swap_view ops ?s1 k) = ?t0"
    using assms(2,4) by (simp add: swap_view_def swap_synced_def prev_values_run)
  ultimately show ?thesis by (simp add: swap_report_def swap_view_def v t)
qed

lemma tick_increments:
  assumes "holds K s" and "swap_synced ops K s" and "0 \<notin> K"
    and "\<forall>e \<in> set es. reclaim_pid e \<in> K"
    and "\<forall>p \<in> K. unat (count_at ops (\<lambda>v. v) (total_delay s) p) + unat (reclaim_time ops s es p) < 2 ^ 64"
  shows "\<exists>pids s'. page_swap_tick ops (fold (page_swap_event ops) es s) =
      Some (concat (map (\<lambda>p. if reclaim_time ops s es p > 0
        then [out_kv (''dr_pid_'' @ fmt_u p) (fmt_u (reclaim_time ops s es p div 1000)), Flush]
        else []) pids), s')
    \<and> distinct pids \<and> set pids \<subseteq> K \<and> {p \<in> K. reclaim_time ops s es p > 0} \<subseteq> set pids
    \<and> swap_synced ops K s'"
proof -
  let ?s1 = "fold (page_swap_event ops) es s" and ?t = "count_at ops (\<lambda>v. v)"
  let ?ks = "keys (total_delay ?s1)"
  have h1: "holds K ?s1" by (rule holds_run [OF assms(1,4)])
  then have sub: "set ?ks \<subseteq> K" by (simp add: holds_def fits_def)
  then have "keys_from ?ks (Some 0) = ?ks" using assms(3) by (intro keys_from_absent) auto
  then obtain s' where s': "page_swap_tick ops ?s1 =
      Some (concat (map (\<lambda>k. swap_report k (swap_view ops ?s1 k)) ?ks), s')"
    "swap_view ops s' = (\<lambda>k. if k \<in> set ?ks then swap_post k (swap_view ops ?s1 k) else swap_view ops ?s1 k)"
    "length (prev_values s') = MAX_PIDS"
    using walk.loop_local [of ?s1 "Some 0"] assms(2)
    by (auto simp: page_swap_tick_def prev_values_run swap_synced_def)
  have out: "map (\<lambda>k. swap_report k (swap_view ops ?s1 k)) ?ks =
      map (\<lambda>p. if reclaim_time ops s es p > 0
        then [out_kv (''dr_pid_'' @ fmt_u p) (fmt_u (reclaim_time ops s es p div 1000)), Flush]
        else []) ?ks"
    using sub assms(5) by (intro map_cong) (auto simp: report_increment [OF assms(1,2,4)])
  have sum: "?t (total_delay ?s1) p = ?t (total_delay s) p + reclaim_time ops s es p" for p
    by (rule run_total [OF assms(1,4)])
  have absent: "?t (total_delay s) p = 0 \<and> reclaim_time ops s es p = 0" if "p \<in> K" "p \<notin> set ?ks" for p
  proof -
    have "?t (total_delay ?s1) p = 0" using that(2) by (simp add: count_at_def keys_lookup)
    moreover have "unat (?t (total_delay s) p + reclaim_time ops s es p) =
        unat (?t (total_delay s) p) + unat (reclaim_time ops s es p)"
      using assms(5) that(1) by (intro unat_add_no_wrap) simp
    ultimately show ?thesis by (simp add: sum unat_eq_0)
  qed
  have "p \<in> set ?ks" if "p \<in> K" "reclaim_time ops s es p > 0" for p
    by (rule ccontr) (use absent [OF that(1)] that(2) in simp)
  moreover have "swap_synced ops K s'"
    unfolding swap_synced_def
  proof (intro conjI ballI)
    fix k assume k: "k \<in> K"
    then show lt: "unat k < MAX_PIDS" using assms(2) by (simp add: swap_synced_def)
    have "swap_view ops s' k = (if k \<in> set ?ks then swap_post k (swap_view ops ?s1 k) else swap_view ops ?s1 k)"
      by (simp add: s'(2))
    then show "prev_values s' ! unat k = ?t (total_delay s') k"
      using lt k absent [OF k] assms(2)
      by (auto simp: swap_view_def swap_post_def count_at_def keys_lookup swap_synced_def
          prev_values_run split: if_splits option.splits)
  qed (rule s'(3))
  ultimately show ?thesis
    using s'(1) sub keys_distinct [of "total_delay ?s1"] unfolding out
    by (intro exI [of _ ?ks] exI [of _ s']) auto
qed

lemma high_pid_again:
  assumes "length (prev_values s) = MAX_PIDS" and "0 \<notin> set (keys (total_delay s))"
    and "lookup_elem ops (total_delay s) p = Some v" and "v > 0" and "MAX_PIDS \<le> unat p"
  shows "\<exists>out s'. page_swap_tick ops s = Some (out, s') \<and>
    out_kv (''dr_pid_'' @ fmt_u p) (fmt_u (v div 1000)) \<in> set out \<and>
    length (prev_values s') = MAX_PIDS \<and> keys (total_delay s') = keys (total_delay s) \<and>
    lookup_elem ops (total_delay s') p = Some v"
proof -
  let ?ks = "keys (total_delay s)"
  have all: "keys_from ?ks (Some 0) = ?ks" by (rule keys_from_absent [OF assms(2)])
  obtain s' where s': "page_swap_tick ops s =
      Some (concat (map (\<lambda>k. swap_report k (swap_view ops s k)) ?ks), s')"
    "swap_view ops s' = (\<lambda>k. if k \<in> set ?ks then swap_post k (swap_view ops s k) else swap_view ops s k)"
    "keys (total_delay s') = ?ks" "length (prev_values s') = MAX_PIDS"
    using walk.loop_local [OF assms(1), of "Some 0"] all by (auto simp: page_swap_tick_def)
  have "swap_view ops s p = (Some v, 0)" using assms(3,5) by (simp add: swap_view_def)
  then have "out_kv (''dr_pid_'' @ fmt_u p) (fmt_u (v div 1000)) \<in> set (swap_report p (swap_view ops s p))"
    using assms(4) by (simp add: swap_report_def)
  moreover have "p \<in> set ?ks" by (rule keys_lookup_Some [OF assms(3)])
  ultimately have "out_kv (''dr_pid_'' @ fmt_u p) (fmt_u (v div 1000)) \<in>
      set (concat (map (\<lambda>k. swap_report k (swap_view ops s k)) ?ks))"
    by (simp only: set_concat set_map) blast
  moreover have "fst (swap_view ops s' p) = Some v"
    unfolding s'(2) using assms(3) by (simp add: swap_post_def swap_view_def)
  then have "lookup_elem ops (total_delay s') p = Some v" by (simp add: swap_view_def)
  ultimately show ?thesis using s'(1,3,4) by blast
qed

end

interpretation ps_hash: page_swap "hash_ops reorder" hm_keys hcap
  by unfold_locales

subsection \<open>Properties\<close>

text \<open>For processes with ids between 1 and \<open>MAX_PIDS - 1\<close> that fit the maps, an iteration of
  page_swap_stat returns and prints, for every process that spent time in direct reclaim since the
  last iteration and for no other, that time in whole microseconds (the sum of the differences of
  matched begin and end events), provided the totals do not wrap; the remembered totals then
  agree with the map again.\<close>

theorem page_swap_increments:
  assumes "bpf_hash ops keys cap"
    and "fits keys cap K (start_ts s)" and "fits keys cap K (total_delay s)"
    and "swap_synced ops K s" and "0 \<notin> K" and "\<forall>e \<in> set es. reclaim_pid e \<in> K"
    and "\<forall>p \<in> K. unat (count_at ops (\<lambda>v. v) (total_delay s) p) + unat (reclaim_time ops s es p) < 2 ^ 64"
  shows "\<exists>pids s'. page_swap_tick ops (fold (page_swap_event ops) es s) =
      Some (concat (map (\<lambda>p. if reclaim_time ops s es p > 0
        then [out_kv (''dr_pid_'' @ fmt_u p) (fmt_u (reclaim_time ops s es p div 1000)), Flush]
        else []) pids), s')
    \<and> distinct pids \<and> set pids \<subseteq> K \<and> {p \<in> K. reclaim_time ops s es p > 0} \<subseteq> set pids
    \<and> swap_synced ops K s'"
  using page_swap.tick_increments [OF page_swap.intro [OF assms(1)] _ assms(4-7)] assms(2,3)
  by (simp add: page_swap.holds_def [OF page_swap.intro [OF assms(1)]])

definition swap_demo :: "reclaim_event list" where
  "swap_demo = [Reclaim_begin (task_ctx 5 ''dd'' 1000 0), Reclaim_end (task_ctx 5 ''dd'' 8000 0)]"

definition swap_start :: "(u32, u64) hmap page_swap_maps" where
  "swap_start = \<lparr>start_ts = empty_hash 10240, total_delay = empty_hash 10240,
     prev_values = replicate MAX_PIDS 0\<rparr>"

theorem page_swap_increments_witness:
  "\<exists>pids s'. page_swap_tick (hash_ops False) (fold (page_swap_event (hash_ops False)) swap_demo swap_start) =
      Some (concat (map (\<lambda>p. if reclaim_time (hash_ops False) swap_start swap_demo p > 0
        then [out_kv (''dr_pid_'' @ fmt_u p)
                (fmt_u (reclaim_time (hash_ops False) swap_start swap_demo p div 1000)), Flush]
        else []) pids), s')
    \<and> distinct pids \<and> set pids \<subseteq> {5} \<and> {p \<in> {5}. reclaim_time (hash_ops False) swap_start swap_demo p > 0} \<subseteq> set pids
    \<and> swap_synced (hash_ops False) {5} s'"
proof -
  have look: "lookup_elem (hash_ops False) (empty_hash n) = (\<lambda>k. None)" for n
    by (simp add: fun_eq_iff hash_ops_def hm_lookup_def)
  have time: "reclaim_time (hash_ops False) swap_start swap_demo 5 = 7000"
    by (simp add: reclaim_time_def swap_start_def swap_demo_def look)
  show ?thesis
    by (rule page_swap_increments [OF hm.bpf_hash_axioms])
      (simp_all add: fits_def swap_synced_def count_at_def look time, simp_all add: swap_start_def swap_demo_def MAX_PIDS_def count_at_def look)
qed

text \<open>The array of remembered totals has no slot for process ids of \<open>MAX_PIDS\<close> and above, so
  such a process is reported with its whole total in each of two successive iterations,
  although no event happened in between.\<close>

theorem page_swap_high_pid_repeats:
  assumes "bpf_hash ops keys cap"
    and "length (prev_values s) = MAX_PIDS" and "0 \<notin> set (keys (total_delay s))"
    and "lookup_elem ops (total_delay s) p = Some v" and "v > 0" and "MAX_PIDS \<le> unat p"
  shows "\<exists>out s' out' s''. page_swap_tick ops s = Some (out, s') \<and> page_swap_tick ops s' = Some (out', s'') \<and>
    out_kv (''dr_pid_'' @ fmt_u p) (fmt_u (v div 1000)) \<in> set out \<inter> set out'"
proof -
  note again = page_swap.high_pid_again [OF page_swap.intro [OF assms(1)] _ _ _ assms(5,6)]
  obtain out s' where 1: "page_swap_tick ops s = Some (out, s')"
    "out_kv (''dr_pid_'' @ fmt_u p) (fmt_u (v div 1000)) \<in> set out"
    "length (prev_values s') = MAX_PIDS" "keys (total_delay s') = keys (total_delay s)"
    "lookup_elem ops (total_delay s') p = Some v"
    using again [OF assms(2-4)] by blast
  obtain out' s'' where "page_swap_tick ops s' = Some (out', s'')"
    "out_kv (''dr_pid_'' @ fmt_u p) (fmt_u (v div 1000)) \<in> set out'"
    using again [OF 1(3) _ 1(5)] assms(3) unfolding 1(4) by blast
  with 1 show ?thesis by blast
qed

theorem page_swap_high_pid_repeats_witness:
  "\<exists>out s' out' s''.
     page_swap_tick (hash_ops False) (swap_start\<lparr>total_delay := hash_of 10240 [(70000, 5000)]\<rparr>) = Some (out, s') \<and>
     page_swap_tick (hash_ops False) s' = Some (out', s'') \<and>
     out_kv (''dr_pid_'' @ fmt_u (70000 :: u32)) (fmt_u ((5000 :: u64) div 1000)) \<in> set out \<inter> set out'"
  by (rule page_swap_high_pid_repeats [OF hm.bpf_hash_axioms])
    (simp_all add: swap_start_def MAX_PIDS_def)

end
