(* ===== verification/SocketStat.thy ===== *)
theory SocketStat
  imports CommCount
begin

section \<open>socket_stat: socket() calls by address family and process\<close>

text \<open>
  \<open>my_tools/network/socket_stat.bpf.c\<close> counts \<open>socket()\<close> calls by address family and by process, and
  in two further maps for an external exporter by family and by command name;
  \<open>my_tools/network/socket_stat.c\<close> prints and deletes the entries of the first two every two
  seconds and never touches the exporter maps.
  Shown: what an iteration prints; that the lines by family and the lines by process count the same
  calls; and that the exporter map holds the totals since the start.
\<close>

record family_info =
  fi_count :: u64

record ('f, 'm, 'x, 'n) socket_maps =
  family_count :: 'f
  socket_pid_count :: 'm
  family_exporter :: 'x
  socket_pid_exporter :: 'n

text \<open>The tracepoint's context: the first argument of \<open>socket()\<close>, an \<open>unsigned long\<close>.\<close>

record socket_call =
  args0 :: u64
  caller :: helpers

definition family_of :: "socket_call \<Rightarrow> u32" where
  "family_of ctx = ucast (args0 ctx)"

definition handle_socket_enter ::
  "('f, u32, family_info) map_ops \<Rightarrow> ('m, u32, comm_info) map_ops \<Rightarrow> ('x, u32, u64) map_ops \<Rightarrow>
     ('n, comm, u64) map_ops \<Rightarrow> socket_call \<Rightarrow> ('f, 'm, 'x, 'n) socket_maps \<Rightarrow>
     int \<times> ('f, 'm, 'x, 'n) socket_maps" where
  "handle_socket_enter fops ops xops nops ctx s =
     (let family = family_of ctx;
          s1 = s\<lparr>family_count :=
                 (case lookup_elem fops (family_count s) family of
                    None \<Rightarrow> snd (update_elem fops (family_count s) family \<lparr>fi_count = 1\<rparr> BPF_ANY)
                  | Some f_info \<Rightarrow>
                      store_elem fops (family_count s) family (f_info\<lparr>fi_count := fi_count f_info + 1\<rparr>))\<rparr>;
          s2 = s1\<lparr>socket_pid_count := count_comm ops (socket_pid_count s1) (caller ctx) BPF_ANY\<rparr>;
          s3 = s2\<lparr>family_exporter := add_or_insert xops (family_exporter s2) family 1 BPF_ANY\<rparr>;
          s4 = s3\<lparr>socket_pid_exporter := count_name nops (socket_pid_exporter s3) (caller ctx)\<rparr>
      in (0, s4))"

definition socket_event ::
  "('f, u32, family_info) map_ops \<Rightarrow> ('m, u32, comm_info) map_ops \<Rightarrow> ('x, u32, u64) map_ops \<Rightarrow>
     ('n, comm, u64) map_ops \<Rightarrow> socket_call \<Rightarrow> ('f, 'm, 'x, 'n) socket_maps \<Rightarrow> ('f, 'm, 'x, 'n) socket_maps" where
  "socket_event fops ops xops nops ctx s = snd (handle_socket_enter fops ops xops nops ctx s)"

text \<open>The values of the constants on Linux: \<open>AF_UNIX\<close> 1, \<open>AF_INET\<close> 2, \<open>AF_INET6\<close> 10, \<open>AF_PACKET\<close> 17.\<close>

definition family_name :: "u32 \<Rightarrow> string" where
  "family_name family =
     (if family = 2 then ''AF_INET''
      else if family = 10 then ''AF_INET6''
      else if family = 1 then ''AF_UNIX''
      else if family = 17 then ''AF_PACKET''
      else ''OTHER'')"

definition family_body ::
  "('f, u32, family_info) map_ops \<Rightarrow> u32 \<Rightarrow> ('f, 'm, 'x, 'n) socket_maps \<Rightarrow>
     effect list \<times> ('f, 'm, 'x, 'n) socket_maps" where
  "family_body fops k s =
     (case lookup_elem fops (family_count s) k of
        Some info \<Rightarrow>
          ([out_kv (''Family_'' @ family_name k) (fmt_u (fi_count info))],
           s\<lparr>family_count := snd (delete_elem fops (family_count s) k)\<rparr>)
      | None \<Rightarrow> ([], s))"

definition socket_pid_body ::
  "('m, u32, comm_info) map_ops \<Rightarrow> u32 \<Rightarrow> ('f, 'm, 'x, 'n) socket_maps \<Rightarrow>
     effect list \<times> ('f, 'm, 'x, 'n) socket_maps" where
  "socket_pid_body ops k s =
     (case lookup_elem ops (socket_pid_count s) k of
        Some info \<Rightarrow>
          ([out_kv (''PID_'' @ fmt_u k @ ''_'' @ c_str (ci_comm info)) (fmt_u (ci_count info))],
           s\<lparr>socket_pid_count := snd (delete_elem ops (socket_pid_count s) k)\<rparr>)
      | None \<Rightarrow> ([], s))"

definition socket_print_and_clear ::
  "('f, u32, family_info) map_ops \<Rightarrow> ('m, u32, comm_info) map_ops \<Rightarrow>
     (('f, 'm, 'x, 'n) socket_maps, effect) tick" where
  "socket_print_and_clear fops ops s =
     Option.bind (key_loop (\<lambda>s. next_key fops (family_count s)) (family_body fops) (Some 0) s) (\<lambda>(out1, s1).
     Option.bind (key_loop (\<lambda>s. next_key ops (socket_pid_count s)) (socket_pid_body ops) (Some 0) s1) (\<lambda>(out2, s2).
       Some (out1 @ out2 @ [Flush], s2)))"

definition socket_stat_main ::
  "('f, u32, family_info) map_ops \<Rightarrow> ('m, u32, comm_info) map_ops \<Rightarrow> ('x, u32, u64) map_ops \<Rightarrow>
     ('n, comm, u64) map_ops \<Rightarrow> socket_call env \<Rightarrow> ('f, 'm, 'x, 'n) socket_maps \<Rightarrow>
     (status \<times> effect list \<times> ('f, 'm, 'x, 'n) socket_maps) option" where
  "socket_stat_main fops ops xops nops env s =
     (if \<not> skel_opened env then Some (Exited 1, [], s)
      else if attach_err env \<noteq> 0 then Some (Exited (attach_err env), [Destroy], s)
      else monitor [] [SIGINT]
             (loop_sleep_first 2 [SIGINT] (socket_event fops ops xops nops) (socket_print_and_clear fops ops)) env s)"

subsection \<open>The tool over lawful maps\<close>

definition family_upd :: "socket_call \<Rightarrow> family_info \<Rightarrow> family_info" where
  "family_upd e v = v\<lparr>fi_count := fi_count v + 1\<rparr>"

definition family_report :: "u32 \<Rightarrow> family_info \<Rightarrow> effect list" where
  "family_report k v = [out_kv (''Family_'' @ family_name k) (fmt_u (fi_count v))]"

definition socket_pid_report :: "u32 \<Rightarrow> comm_info \<Rightarrow> effect list" where
  "socket_pid_report k info = [out_kv (''PID_'' @ fmt_u k @ ''_'' @ c_str (ci_comm info)) (fmt_u (ci_count info))]"

lemma run_family:
  assumes "hs \<noteq> []"
  shows "run_value family_upd (\<lambda>_. \<lparr>fi_count = 1\<rparr>) hs = \<lparr>fi_count = of_nat (length hs)\<rparr>"
proof -
  have "fold family_upd es v = v\<lparr>fi_count := fi_count v + of_nat (length es)\<rparr>" for v es
    by (induction es arbitrary: v) (simp_all add: family_upd_def add.assoc)
  then show ?thesis using assms by (cases hs) (simp_all add: run_value_def)
qed

locale socket_stat =
  f: bpf_hash fops fkeys fcap + h: bpf_hash ops keys cap + x: bpf_hash xops xkeys xcap + n: bpf_hash nops nkeys ncap
  for fops :: "('f, u32, family_info) map_ops" and fkeys :: "'f \<Rightarrow> u32 list" and fcap
    and ops :: "('m, u32, comm_info) map_ops" and keys :: "'m \<Rightarrow> u32 list" and cap
    and xops :: "('x, u32, u64) map_ops" and xkeys :: "'x \<Rightarrow> u32 list" and xcap
    and nops :: "('n, comm, u64) map_ops" and nkeys :: "'n \<Rightarrow> comm list" and ncap
begin

abbreviation ev where "ev \<equiv> socket_event fops ops xops nops"

lemma event_maps:
  "family_count (ev e s) =
     modify_or_insert fops (family_count s) (family_of e) (family_upd e) \<lparr>fi_count = 1\<rparr> BPF_ANY"
  "socket_pid_count (ev e s) = count_comm ops (socket_pid_count s) (caller e) BPF_ANY"
  "family_exporter (ev e s) = modify_or_insert xops (family_exporter s) (family_of e) (\<lambda>v. v + 1) 1 BPF_ANY"
  "socket_pid_exporter (ev e s) = count_name nops (socket_pid_exporter s) (caller e)"
  by (simp_all add: socket_event_def handle_socket_enter_def Let_def add_or_insert_modify modify_or_insert_def
      family_upd_def split: option.split)

sublocale fc: event_counter fops fkeys fcap family_count ev
    "\<lambda>e. Some (family_of e)" "\<lambda>_. 1" family_upd "\<lambda>_. \<lparr>fi_count = 1\<rparr>" fi_count BPF_ANY
  by unfold_locales (simp_all add: event_maps family_upd_def)

sublocale fd: counted_drain fops fkeys fcap family_count ev
    "\<lambda>e. Some (family_of e)" "\<lambda>_. 1" family_upd "\<lambda>_. \<lparr>fi_count = 1\<rparr>" fi_count "family_body fops" family_report
  by unfold_locales (simp_all add: family_body_def family_report_def)

sublocale pc: event_counter ops keys cap socket_pid_count ev
    "\<lambda>e. Some (cur_pid (caller e))" "\<lambda>_. 1" comm_upd "comm_ini caller" ci_count BPF_ANY
  by unfold_locales (simp_all add: event_maps count_comm_modify comm_count_laws)

sublocale pd: counted_drain ops keys cap socket_pid_count ev
    "\<lambda>e. Some (cur_pid (caller e))" "\<lambda>_. 1" comm_upd "comm_ini caller" ci_count "socket_pid_body ops" socket_pid_report
  by unfold_locales (simp_all add: socket_pid_body_def socket_pid_report_def)

sublocale xc: event_counter xops xkeys xcap family_exporter ev
    "\<lambda>e. Some (family_of e)" "\<lambda>_. 1" "\<lambda>_ v. v + 1" "\<lambda>_. 1" "\<lambda>v. v" BPF_ANY
  by unfold_locales (simp_all add: event_maps)

sublocale nc: event_counter nops nkeys ncap socket_pid_exporter ev
    "\<lambda>e. Some (cur_comm (caller e))" "\<lambda>_. 1" "\<lambda>_ v. v + 1" "\<lambda>_. 1" "\<lambda>v. v" BPF_ANY
  by unfold_locales (simp_all add: event_maps count_name_modify)

lemma family_half:
  assumes "fkeys (family_count s) = []" and "card (family_of ` set es) \<le> fcap (family_count s)" and "0 \<notin> family_of ` set es"
  obtains fams s1 where "key_loop (\<lambda>s. next_key fops (family_count s)) (family_body fops) (Some 0) (fold ev es s) =
      Some (map (\<lambda>f. out_kv (''Family_'' @ family_name f) (fmt_u (hit_count (\<lambda>e. Some (family_of e)) es f))) fams, s1)"
    and "distinct fams" and "set fams = family_of ` set es" and "fkeys (family_count s1) = []"
    and "socket_pid_count s1 = socket_pid_count (fold ev es s)" and "family_exporter s1 = family_exporter (fold ev es s)"
    and "socket_pid_exporter s1 = socket_pid_exporter (fold ev es s)"
proof -
  let ?s = "fold ev es s" and ?hf = "\<lambda>e. Some (family_of e)"
  have start: "Some 0 = None \<or> (\<exists>c. Some 0 = Some c \<and> c \<notin> keys_hit ?hf es)" using assms(3) by simp
  obtain fams s1 where lf: "key_loop (\<lambda>s. next_key fops (family_count s)) (family_body fops) (Some 0) ?s =
      Some (concat (map (\<lambda>k. family_report k (run_value family_upd (\<lambda>_. \<lparr>fi_count = 1\<rparr>) (hits ?hf es k))) fams), s1)"
    and fams: "distinct fams" "set fams = keys_hit ?hf es" "fkeys (family_count s1) = []"
    by (rule fd.drain_after [OF refl assms(1) _ start, simplified keys_hit_Some, OF assms(2)]) (rule that, simp_all)
  have keep: "socket_pid_count s1 = socket_pid_count ?s \<and> family_exporter s1 = family_exporter ?s \<and>
      socket_pid_exporter s1 = socket_pid_exporter ?s"
    by (rule key_loop_invariant [OF lf, where P = "\<lambda>t. socket_pid_count t = socket_pid_count ?s \<and>
          family_exporter t = family_exporter ?s \<and> socket_pid_exporter t = socket_pid_exporter ?s"])
      (simp_all add: family_body_def split: option.split)
  have "run_value family_upd (\<lambda>_. \<lparr>fi_count = 1\<rparr>) (hits ?hf es k) = \<lparr>fi_count = hit_count ?hf es k\<rparr>"
    if "k \<in> set fams" for k
    using that fams(2) hits_empty_iff [of ?hf es k] by (simp add: run_family hit_count_def)
  then have out: "concat (map (\<lambda>k. family_report k (run_value family_upd (\<lambda>_. \<lparr>fi_count = 1\<rparr>) (hits ?hf es k))) fams) =
      map (\<lambda>f. out_kv (''Family_'' @ family_name f) (fmt_u (hit_count ?hf es f))) fams"
    by (intro concat_singletons) (simp add: family_report_def)
  show thesis by (rule that [OF lf [unfolded out] fams(1) _ fams(3)]) (simp_all add: fams(2) keep)
qed

lemma tick_spec:
  assumes "fkeys (family_count s) = []" and "card (family_of ` set es) \<le> fcap (family_count s)" and "0 \<notin> family_of ` set es"
    and "keys (socket_pid_count s) = []" and "card ((\<lambda>e. cur_pid (caller e)) ` set es) \<le> cap (socket_pid_count s)"
    and "0 \<notin> (\<lambda>e. cur_pid (caller e)) ` set es"
  shows "\<exists>fams pids s'. socket_print_and_clear fops ops (fold ev es s) = Some
      (map (\<lambda>f. out_kv (''Family_'' @ family_name f) (fmt_u (hit_count (\<lambda>e. Some (family_of e)) es f))) fams @
       map (\<lambda>p. out_kv (''PID_'' @ fmt_u p @ ''_'' @ c_str (first_name caller es p)) (fmt_u (calls caller es p))) pids @ [Flush], s')
    \<and> distinct fams \<and> set fams = family_of ` set es
    \<and> distinct pids \<and> set pids = (\<lambda>e. cur_pid (caller e)) ` set es
    \<and> fkeys (family_count s') = [] \<and> keys (socket_pid_count s') = []
    \<and> family_exporter s' = family_exporter (fold ev es s) \<and> socket_pid_exporter s' = socket_pid_exporter (fold ev es s)"
proof -
  let ?s = "fold ev es s" and ?hp = "\<lambda>e. Some (cur_pid (caller e))"
  obtain fams s1 where lf: "key_loop (\<lambda>s. next_key fops (family_count s)) (family_body fops) (Some 0) ?s =
      Some (map (\<lambda>f. out_kv (''Family_'' @ family_name f) (fmt_u (hit_count (\<lambda>e. Some (family_of e)) es f))) fams, s1)"
    and fams: "distinct fams" "set fams = family_of ` set es" "fkeys (family_count s1) = []"
      "socket_pid_count s1 = socket_pid_count ?s" "family_exporter s1 = family_exporter ?s"
      "socket_pid_exporter s1 = socket_pid_exporter ?s"
    using family_half [OF assms(1-3)] .
  have start: "Some 0 = None \<or> (\<exists>c. Some 0 = Some c \<and> c \<notin> keys_hit ?hp es)" using assms(6) by simp
  obtain pids s2 where lp: "key_loop (\<lambda>s. next_key ops (socket_pid_count s)) (socket_pid_body ops) (Some 0) s1 =
      Some (concat (map (\<lambda>k. socket_pid_report k (run_value comm_upd (comm_ini caller) (hits ?hp es k))) pids), s2)"
    and pids: "distinct pids" "set pids = keys_hit ?hp es" "keys (socket_pid_count s2) = []"
    by (rule pd.drain_after [OF fams(4) assms(4) _ start, simplified keys_hit_Some, OF assms(5)]) (rule that, simp_all)
  have keep: "family_count s2 = family_count s1 \<and> family_exporter s2 = family_exporter s1 \<and>
      socket_pid_exporter s2 = socket_pid_exporter s1"
    by (rule key_loop_invariant [OF lp, where P = "\<lambda>t. family_count t = family_count s1 \<and>
          family_exporter t = family_exporter s1 \<and> socket_pid_exporter t = socket_pid_exporter s1"])
      (simp_all add: socket_pid_body_def split: option.split)
  have out: "concat (map (\<lambda>k. socket_pid_report k (run_value comm_upd (comm_ini caller) (hits ?hp es k))) pids) =
      map (\<lambda>p. out_kv (''PID_'' @ fmt_u p @ ''_'' @ c_str (first_name caller es p)) (fmt_u (calls caller es p))) pids"
    using pids(2) by (intro concat_singletons) (simp add: run_comm_pid socket_pid_report_def)
  have "socket_print_and_clear fops ops ?s = Some
      (map (\<lambda>f. out_kv (''Family_'' @ family_name f) (fmt_u (hit_count (\<lambda>e. Some (family_of e)) es f))) fams @
       map (\<lambda>p. out_kv (''PID_'' @ fmt_u p @ ''_'' @ c_str (first_name caller es p)) (fmt_u (calls caller es p))) pids @ [Flush], s2)"
    by (simp only: socket_print_and_clear_def lf lp out split_conv bind.bind_lunit)
  moreover have "set pids = (\<lambda>e. cur_pid (caller e)) ` set es" using pids(2) by simp
  ultimately show ?thesis using fams pids(1,3) keep
    by (intro exI [of _ fams] exI [of _ pids] exI [of _ s2]) (simp only: simp_thms)
qed

text \<open>The exporter maps are never drained: they hold totals.\<close>

lemma exporter_totals:
  assumes "card (set (xkeys (family_exporter s)) \<union> family_of ` set es) \<le> xcap (family_exporter s)"
  shows "count_at xops (\<lambda>v. v) (family_exporter (fold ev es s)) f =
    count_at xops (\<lambda>v. v) (family_exporter s) f + hit_count (\<lambda>e. Some (family_of e)) es f"
  using xc.run_counts [of s es f] assms by (simp add: sum_weight_one hit_count_def)

end

interpretation so_hash: socket_stat "hash_ops r" hm_keys hcap "hash_ops r" hm_keys hcap
    "hash_ops r" hm_keys hcap "hash_ops r" hm_keys hcap
  by unfold_locales

subsection \<open>Properties\<close>

text \<open>After any sequence of \<open>socket()\<close> calls with families and processes that fit the two maps,
  none of them 0, an iteration of socket_stat prints one line for each family with the number of
  calls that named it, then one line for each process with its name at its first call and the number
  of its calls; both maps are then empty and the two exporter maps are as the program left them.\<close>

theorem socket_stat_round:
  assumes "bpf_hash fops fkeys fcap" and "bpf_hash ops keys cap" and "bpf_hash xops xkeys xcap" and "bpf_hash nops nkeys ncap"
    and "fkeys (family_count s) = []" and "card (family_of ` set es) \<le> fcap (family_count s)" and "0 \<notin> family_of ` set es"
    and "keys (socket_pid_count s) = []" and "card ((\<lambda>e. cur_pid (caller e)) ` set es) \<le> cap (socket_pid_count s)"
    and "0 \<notin> (\<lambda>e. cur_pid (caller e)) ` set es"
  shows "\<exists>fams pids s'. socket_print_and_clear fops ops (fold (socket_event fops ops xops nops) es s) = Some
      (map (\<lambda>f. out_kv (''Family_'' @ family_name f) (fmt_u (hit_count (\<lambda>e. Some (family_of e)) es f))) fams @
       map (\<lambda>p. out_kv (''PID_'' @ fmt_u p @ ''_'' @ c_str (first_name caller es p)) (fmt_u (calls caller es p))) pids @ [Flush], s')
    \<and> distinct fams \<and> set fams = family_of ` set es
    \<and> distinct pids \<and> set pids = (\<lambda>e. cur_pid (caller e)) ` set es
    \<and> fkeys (family_count s') = [] \<and> keys (socket_pid_count s') = []
    \<and> family_exporter s' = family_exporter (fold (socket_event fops ops xops nops) es s)
    \<and> socket_pid_exporter s' = socket_pid_exporter (fold (socket_event fops ops xops nops) es s)"
  by (rule socket_stat.tick_spec [OF socket_stat.intro [OF assms(1-4)] assms(5-10)])

definition sock_demo :: "socket_call list" where
  "sock_demo = [\<lparr>args0 = 2, caller = task_ctx 41 ''curl'' 1 0\<rparr>, \<lparr>args0 = 1, caller = task_ctx 41 ''curl'' 2 0\<rparr>,
     \<lparr>args0 = 16, caller = task_ctx 42 ''ip'' 3 0\<rparr>]"

definition sock_init ::
  "((u32, family_info) hmap, (u32, comm_info) hmap, (u32, u64) hmap, (comm, u64) hmap) socket_maps" where
  "sock_init = \<lparr>family_count = empty_hash 256, socket_pid_count = empty_hash 10240,
     family_exporter = empty_hash 256, socket_pid_exporter = empty_hash 10240\<rparr>"

theorem socket_stat_round_witness:
  "\<exists>fams pids s'. socket_print_and_clear (hash_ops False) (hash_ops False)
       (fold (socket_event (hash_ops False) (hash_ops False) (hash_ops False) (hash_ops False)) sock_demo sock_init) = Some
      (map (\<lambda>f. out_kv (''Family_'' @ family_name f) (fmt_u (hit_count (\<lambda>e. Some (family_of e)) sock_demo f))) fams @
       map (\<lambda>p. out_kv (''PID_'' @ fmt_u p @ ''_'' @ c_str (first_name caller sock_demo p)) (fmt_u (calls caller sock_demo p))) pids @
       [Flush], s')
    \<and> distinct fams \<and> set fams = {1, 2, 16} \<and> distinct pids \<and> set pids = {41, 42}
    \<and> hm_keys (family_count s') = [] \<and> hm_keys (socket_pid_count s') = []
    \<and> family_exporter s' = family_exporter
         (fold (socket_event (hash_ops False) (hash_ops False) (hash_ops False) (hash_ops False)) sock_demo sock_init)
    \<and> socket_pid_exporter s' = socket_pid_exporter
         (fold (socket_event (hash_ops False) (hash_ops False) (hash_ops False) (hash_ops False)) sock_demo sock_init)"
proof -
  have f: "family_of ` set sock_demo = {1, 2, 16}" by (auto simp: sock_demo_def family_of_def)
  have p: "(\<lambda>e. cur_pid (caller e)) ` set sock_demo = {41, 42}" by (auto simp: sock_demo_def)
  show ?thesis
    unfolding f [symmetric] p [symmetric]
    by (rule socket_stat_round [OF hm.bpf_hash_axioms hm.bpf_hash_axioms hm.bpf_hash_axioms hm.bpf_hash_axioms])
      (simp_all add: f p sock_init_def)
qed

end
