(* ===== verification/TcpConnect.thy ===== *)
theory TcpConnect
  imports CommCount
begin

section \<open>tcp_connect: TCP connection attempts by process\<close>

text \<open>
  \<open>my_tools/network/tcp_connect.bpf.c\<close> counts calls of \<open>tcp_v4_connect\<close> and \<open>tcp_v6_connect\<close> by process
  and, in a second map for an external exporter, by command name;
  \<open>my_tools/network/tcp_connect.c\<close> prints and deletes the entries of the first map every two
  seconds and never touches the second.
  Shown: what an iteration prints, and that the exporter map keeps the totals since the start.
\<close>

record ('m, 'n) tcp_connect_maps =
  conn_count :: 'm
  conn_exporter :: 'n

definition record_conn ::
  "('m, u32, comm_info) map_ops \<Rightarrow> ('n, comm, u64) map_ops \<Rightarrow> helpers \<Rightarrow>
     ('m, 'n) tcp_connect_maps \<Rightarrow> int \<times> ('m, 'n) tcp_connect_maps" where
  "record_conn ops nops h s =
     (let s1 = s\<lparr>conn_count := count_comm ops (conn_count s) h BPF_ANY\<rparr>;
          s2 = s1\<lparr>conn_exporter := count_name nops (conn_exporter s1) h\<rparr>
      in (0, s2))"

definition handle_tcp_v4_connect ::
  "('m, u32, comm_info) map_ops \<Rightarrow> ('n, comm, u64) map_ops \<Rightarrow> helpers \<Rightarrow>
     ('m, 'n) tcp_connect_maps \<Rightarrow> int \<times> ('m, 'n) tcp_connect_maps" where
  "handle_tcp_v4_connect ops nops h s = record_conn ops nops h s"

definition handle_tcp_v6_connect ::
  "('m, u32, comm_info) map_ops \<Rightarrow> ('n, comm, u64) map_ops \<Rightarrow> helpers \<Rightarrow>
     ('m, 'n) tcp_connect_maps \<Rightarrow> int \<times> ('m, 'n) tcp_connect_maps" where
  "handle_tcp_v6_connect ops nops h s = record_conn ops nops h s"

datatype conn_event = Tcp_v4_connect helpers | Tcp_v6_connect helpers

definition tcp_connect_event ::
  "('m, u32, comm_info) map_ops \<Rightarrow> ('n, comm, u64) map_ops \<Rightarrow> conn_event \<Rightarrow>
     ('m, 'n) tcp_connect_maps \<Rightarrow> ('m, 'n) tcp_connect_maps" where
  "tcp_connect_event ops nops e s =
     (case e of
        Tcp_v4_connect h \<Rightarrow> snd (handle_tcp_v4_connect ops nops h s)
      | Tcp_v6_connect h \<Rightarrow> snd (handle_tcp_v6_connect ops nops h s))"

definition tcp_connect_body ::
  "('m, u32, comm_info) map_ops \<Rightarrow> u32 \<Rightarrow> ('m, 'n) tcp_connect_maps \<Rightarrow> effect list \<times> ('m, 'n) tcp_connect_maps" where
  "tcp_connect_body ops k s =
     (case lookup_elem ops (conn_count s) k of
        Some info \<Rightarrow>
          ([out_kv (''PID_'' @ fmt_u k @ ''_'' @ c_str (ci_comm info)) (fmt_u (ci_count info))],
           s\<lparr>conn_count := snd (delete_elem ops (conn_count s) k)\<rparr>)
      | None \<Rightarrow> ([], s))"

definition print_and_clear_stats ::
  "('m, u32, comm_info) map_ops \<Rightarrow> (('m, 'n) tcp_connect_maps, effect) tick" where
  "print_and_clear_stats ops s =
     Option.bind (key_loop (\<lambda>s. next_key ops (conn_count s)) (tcp_connect_body ops) (Some 0) s)
       (\<lambda>(out, s'). Some (out @ [Flush], s'))"

definition tcp_connect_main ::
  "('m, u32, comm_info) map_ops \<Rightarrow> ('n, comm, u64) map_ops \<Rightarrow> conn_event env \<Rightarrow> ('m, 'n) tcp_connect_maps \<Rightarrow>
     (status \<times> effect list \<times> ('m, 'n) tcp_connect_maps) option" where
  "tcp_connect_main ops nops env s =
     (if \<not> skel_opened env then Some (Exited 1, [], s)
      else if attach_err env \<noteq> 0 then Some (Exited (attach_err env), [Destroy], s)
      else monitor [] [SIGINT, SIGTERM]
             (loop_sleep_first 2 [SIGINT, SIGTERM] (tcp_connect_event ops nops) (print_and_clear_stats ops)) env s)"

subsection \<open>The tool over lawful maps\<close>

fun conn_ctx :: "conn_event \<Rightarrow> helpers" where
  "conn_ctx (Tcp_v4_connect h) = h"
| "conn_ctx (Tcp_v6_connect h) = h"

lemma conn_event_maps:
  "conn_count (tcp_connect_event ops nops e s) = count_comm ops (conn_count s) (conn_ctx e) BPF_ANY"
  "conn_exporter (tcp_connect_event ops nops e s) = count_name nops (conn_exporter s) (conn_ctx e)"
  by (cases e; simp add: tcp_connect_event_def handle_tcp_v4_connect_def handle_tcp_v6_connect_def
      record_conn_def)+

definition conn_report :: "u32 \<Rightarrow> comm_info \<Rightarrow> effect list" where
  "conn_report k info = [out_kv (''PID_'' @ fmt_u k @ ''_'' @ c_str (ci_comm info)) (fmt_u (ci_count info))]"

locale tcp_connect =
  h: bpf_hash ops keys cap + n: bpf_hash nops nkeys ncap
  for ops :: "('m, u32, comm_info) map_ops" and keys :: "'m \<Rightarrow> u32 list" and cap
    and nops :: "('n, comm, u64) map_ops" and nkeys :: "'n \<Rightarrow> comm list" and ncap
begin

sublocale ctr: event_counter ops keys cap conn_count "tcp_connect_event ops nops"
    "\<lambda>e. Some (cur_pid (conn_ctx e))" "\<lambda>_. 1" comm_upd "comm_ini conn_ctx" ci_count BPF_ANY
  by unfold_locales (simp_all add: conn_event_maps count_comm_modify comm_count_laws)

sublocale cd: counted_drain ops keys cap conn_count "tcp_connect_event ops nops"
    "\<lambda>e. Some (cur_pid (conn_ctx e))" "\<lambda>_. 1" comm_upd "comm_ini conn_ctx" ci_count
    "tcp_connect_body ops" conn_report
  by unfold_locales (simp_all add: tcp_connect_body_def conn_report_def)

sublocale ex: event_counter nops nkeys ncap conn_exporter "tcp_connect_event ops nops"
    "\<lambda>e. Some (cur_comm (conn_ctx e))" "\<lambda>_. 1" "\<lambda>_ v. v + 1" "\<lambda>_. 1" "\<lambda>v. v" BPF_ANY
  by unfold_locales (simp_all add: conn_event_maps count_name_modify)

lemma tick_spec:
  assumes "keys (conn_count s) = []" and "card ((\<lambda>e. cur_pid (conn_ctx e)) ` set es) \<le> cap (conn_count s)"
    and "0 \<notin> (\<lambda>e. cur_pid (conn_ctx e)) ` set es"
  shows "\<exists>pids s'. print_and_clear_stats ops (fold (tcp_connect_event ops nops) es s) =
      Some (map (\<lambda>p. out_kv (''PID_'' @ fmt_u p @ ''_'' @ c_str (first_name conn_ctx es p))
                   (fmt_u (calls conn_ctx es p))) pids @ [Flush], s')
    \<and> distinct pids \<and> set pids = (\<lambda>e. cur_pid (conn_ctx e)) ` set es
    \<and> keys (conn_count s') = [] \<and> conn_exporter s' = conn_exporter (fold (tcp_connect_event ops nops) es s)"
proof -
  let ?s1 = "fold (tcp_connect_event ops nops) es s" and ?hit = "\<lambda>e. Some (cur_pid (conn_ctx e))"
  have start: "Some 0 = None \<or> (\<exists>c. Some 0 = Some c \<and> c \<notin> keys_hit ?hit es)" using assms(3) by simp
  obtain pids s' where loop: "key_loop (\<lambda>s. next_key ops (conn_count s)) (tcp_connect_body ops) (Some 0) ?s1 =
      Some (concat (map (\<lambda>k. conn_report k (run_value comm_upd (comm_ini conn_ctx) (hits ?hit es k))) pids), s')"
    and pids: "distinct pids" "set pids = keys_hit ?hit es" "keys (conn_count s') = []"
    by (rule cd.drain_after [OF refl assms(1) _ start, simplified keys_hit_Some, OF assms(2)]) (rule that, simp_all)
  have lines: "concat (map (\<lambda>k. conn_report k (run_value comm_upd (comm_ini conn_ctx) (hits ?hit es k))) pids) =
      map (\<lambda>p. out_kv (''PID_'' @ fmt_u p @ ''_'' @ c_str (first_name conn_ctx es p)) (fmt_u (calls conn_ctx es p))) pids"
    using pids(2) by (intro concat_singletons) (simp add: run_comm_pid conn_report_def)
  have "conn_exporter s' = conn_exporter ?s1"
    by (rule key_loop_invariant [OF loop, where P = "\<lambda>x. conn_exporter x = conn_exporter ?s1"])
      (simp_all add: tcp_connect_body_def split: option.split)
  then show ?thesis using loop pids unfolding print_and_clear_stats_def lines by auto
qed

text \<open>The exporter map is never drained: it holds totals.\<close>

lemma exporter_totals:
  assumes "card (set (nkeys (conn_exporter s)) \<union> (\<lambda>e. cur_comm (conn_ctx e)) ` set es) \<le> ncap (conn_exporter s)"
  shows "count_at nops (\<lambda>v. v) (conn_exporter (fold (tcp_connect_event ops nops) es s)) c =
    count_at nops (\<lambda>v. v) (conn_exporter s) c + name_calls conn_ctx es c"
  using ex.run_counts [of s es c] assms by (simp add: sum_weight_one hits_Some name_calls_def)

end

interpretation tc_hash: tcp_connect "hash_ops r" hm_keys hcap "hash_ops r'" hm_keys hcap
  by unfold_locales

subsection \<open>Properties\<close>

text \<open>After any sequence of IPv4 and IPv6 connection attempts of at most \<open>max_entries\<close> processes,
  none of them process 0, from an empty map, an iteration of tcp_connect prints for each of these
  processes one line with the name it had at its first attempt and the number of its attempts;
  the entries are deleted, and the exporter map is left as it is.\<close>

theorem tcp_connect_round:
  assumes "bpf_hash ops keys cap" and "bpf_hash nops nkeys ncap"
    and "keys (conn_count s) = []" and "card ((\<lambda>e. cur_pid (conn_ctx e)) ` set es) \<le> cap (conn_count s)"
    and "0 \<notin> (\<lambda>e. cur_pid (conn_ctx e)) ` set es"
  shows "\<exists>pids s'. print_and_clear_stats ops (fold (tcp_connect_event ops nops) es s) =
      Some (map (\<lambda>p. out_kv (''PID_'' @ fmt_u p @ ''_'' @ c_str (first_name conn_ctx es p))
                   (fmt_u (calls conn_ctx es p))) pids @ [Flush], s')
    \<and> distinct pids \<and> set pids = (\<lambda>e. cur_pid (conn_ctx e)) ` set es
    \<and> keys (conn_count s') = [] \<and> conn_exporter s' = conn_exporter (fold (tcp_connect_event ops nops) es s)"
  by (rule tcp_connect.tick_spec [OF tcp_connect.intro [OF assms(1,2)] assms(3-5)])

definition conn_demo :: "conn_event list" where
  "conn_demo = [Tcp_v4_connect (task_ctx 21 ''curl'' 1 0), Tcp_v6_connect (task_ctx 21 ''wget'' 2 0),
     Tcp_v4_connect (task_ctx 22 ''ssh'' 3 0)]"

definition conn_init :: "((u32, comm_info) hmap, (comm, u64) hmap) tcp_connect_maps" where
  "conn_init = \<lparr>conn_count = empty_hash 10240, conn_exporter = empty_hash 10240\<rparr>"

theorem tcp_connect_round_witness:
  "\<exists>pids s'. print_and_clear_stats (hash_ops False) (fold (tcp_connect_event (hash_ops False) (hash_ops False)) conn_demo conn_init) =
      Some (map (\<lambda>p. out_kv (''PID_'' @ fmt_u p @ ''_'' @ c_str (first_name conn_ctx conn_demo p))
                   (fmt_u (calls conn_ctx conn_demo p))) pids @ [Flush], s')
    \<and> distinct pids \<and> set pids = {21, 22} \<and> hm_keys (conn_count s') = []
    \<and> conn_exporter s' = conn_exporter (fold (tcp_connect_event (hash_ops False) (hash_ops False)) conn_demo conn_init)"
proof -
  have p: "(\<lambda>e. cur_pid (conn_ctx e)) ` set conn_demo = {21, 22}" by (auto simp: conn_demo_def)
  show ?thesis
    unfolding p [symmetric]
    by (rule tcp_connect_round [OF hm.bpf_hash_axioms hm.bpf_hash_axioms]) (simp_all add: p conn_init_def)
qed

end
