(* ===== verification/TcpRetransmit.thy ===== *)
theory TcpRetransmit
  imports CommCount
begin

section \<open>net_tcp_retransmit: TCP retransmissions\<close>

text \<open>
  \<open>my_tools/network/net_tcp_retransmit.bpf.c\<close> counts \<open>tcp_retransmit_skb\<close> in total, by process and by
  command name; \<open>my_tools/network/net_tcp_retransmit.c\<close> prints the increment of the total and
  prints and deletes the entries of the two hash maps.
  Shown: what an iteration prints; and that retransmissions in the context of process 0 (the idle
  task, on whose stack the retransmission timer often fires) are not attributed: with only such
  entries the walk, which starts at key 0, prints none of them and deletes none of them.
\<close>

record ('m, 'n, 'a) tcp_retransmit_maps =
  retrans_map :: 'm
  retrans_comm_map :: 'n
  retrans_stats :: 'a
  prev_total :: u64

definition handle_tcp_retransmit ::
  "('m, u32, comm_info) map_ops \<Rightarrow> ('n, comm, u64) map_ops \<Rightarrow> ('a, u32, u64) map_ops \<Rightarrow> helpers \<Rightarrow>
     ('m, 'n, 'a) tcp_retransmit_maps \<Rightarrow> int \<times> ('m, 'n, 'a) tcp_retransmit_maps" where
  "handle_tcp_retransmit ops nops aops h s =
     (let idx_total = 0;
          s1 = s\<lparr>retrans_stats := add_or_insert aops (retrans_stats s) idx_total 1 BPF_ANY\<rparr>;
          s2 = s1\<lparr>retrans_map := count_comm ops (retrans_map s1) h BPF_ANY\<rparr>;
          s3 = s2\<lparr>retrans_comm_map := count_name nops (retrans_comm_map s2) h\<rparr>
      in (0, s3))"

definition tcp_retransmit_event ::
  "('m, u32, comm_info) map_ops \<Rightarrow> ('n, comm, u64) map_ops \<Rightarrow> ('a, u32, u64) map_ops \<Rightarrow> helpers \<Rightarrow>
     ('m, 'n, 'a) tcp_retransmit_maps \<Rightarrow> ('m, 'n, 'a) tcp_retransmit_maps" where
  "tcp_retransmit_event ops nops aops h s = snd (handle_tcp_retransmit ops nops aops h s)"

definition retrans_pid_body ::
  "('m, u32, comm_info) map_ops \<Rightarrow> u32 \<Rightarrow> ('m, 'n, 'a) tcp_retransmit_maps \<Rightarrow>
     effect list \<times> ('m, 'n, 'a) tcp_retransmit_maps" where
  "retrans_pid_body ops pid s =
     (case lookup_elem ops (retrans_map s) pid of
        None \<Rightarrow> ([], s)
      | Some info \<Rightarrow>
          (if ci_count info > 0
           then [out_kv (''tcp_retrans_pid_'' @ fmt_u pid @ ''_'' @ c_str (ci_comm info)) (fmt_u (ci_count info))]
           else [],
           s\<lparr>retrans_map := snd (delete_elem ops (retrans_map s) pid)\<rparr>))"

definition retrans_comm_body ::
  "('n, comm, u64) map_ops \<Rightarrow> comm \<Rightarrow> ('m, 'n, 'a) tcp_retransmit_maps \<Rightarrow>
     effect list \<times> ('m, 'n, 'a) tcp_retransmit_maps" where
  "retrans_comm_body nops next_comm s =
     (case lookup_elem nops (retrans_comm_map s) next_comm of
        None \<Rightarrow> ([], s)
      | Some cnt \<Rightarrow>
          (if cnt > 0 then [out_kv (''tcp_retrans_comm_'' @ c_str next_comm) (fmt_u cnt)] else [],
           s\<lparr>retrans_comm_map := snd (delete_elem nops (retrans_comm_map s) next_comm)\<rparr>))"

text \<open>The total: nothing happens when the lookup fails.\<close>

definition retrans_total ::
  "('a, u32, u64) map_ops \<Rightarrow> ('m, 'n, 'a) tcp_retransmit_maps \<Rightarrow> effect list \<times> ('m, 'n, 'a) tcp_retransmit_maps" where
  "retrans_total aops s =
     (case lookup_elem aops (retrans_stats s) 0 of
        None \<Rightarrow> ([], s)
      | Some tot \<Rightarrow>
          let delta = tot - prev_total s in
          (if delta > 0 then [out_kv ''tcp_retransmit_delta'' (fmt_u delta)] else [], s\<lparr>prev_total := tot\<rparr>))"

definition tcp_retransmit_tick ::
  "('m, u32, comm_info) map_ops \<Rightarrow> ('n, comm, u64) map_ops \<Rightarrow> ('a, u32, u64) map_ops \<Rightarrow>
     (('m, 'n, 'a) tcp_retransmit_maps, effect) tick" where
  "tcp_retransmit_tick ops nops aops s =
     (let (out0, s0) = retrans_total aops s in
      Option.bind (key_loop (\<lambda>s. next_key ops (retrans_map s)) (retrans_pid_body ops) (Some 0) s0) (\<lambda>(out1, s1).
      Option.bind (key_loop (\<lambda>s. next_key nops (retrans_comm_map s)) (retrans_comm_body nops) None s1) (\<lambda>(out2, s2).
        Some (out0 @ out1 @ out2 @ [Flush], s2))))"

definition tcp_retransmit_main ::
  "('m, u32, comm_info) map_ops \<Rightarrow> ('n, comm, u64) map_ops \<Rightarrow> ('a, u32, u64) map_ops \<Rightarrow> helpers env \<Rightarrow>
     ('m, 'n, 'a) tcp_retransmit_maps \<Rightarrow> (status \<times> effect list \<times> ('m, 'n, 'a) tcp_retransmit_maps) option" where
  "tcp_retransmit_main ops nops aops env s =
     (if \<not> skel_opened env
      then Some (Exited 1, [err_line ''Failed to open and load BPF skeleton''], s)
      else if attach_err env \<noteq> 0
      then Some (Exited (attach_err env), [err_line ''Failed to attach BPF programs'', Destroy], s)
      else monitor [err_line ''TCP Retransmit Monitor started (waiting for events), Ctrl+C to stop''] [SIGINT, SIGTERM]
             (loop_sleep_first 1 [SIGINT, SIGTERM] (tcp_retransmit_event ops nops aops)
                (tcp_retransmit_tick ops nops aops)) env (s\<lparr>prev_total := 0\<rparr>))"

subsection \<open>The tool over lawful maps\<close>

definition retrans_pid_report :: "u32 \<Rightarrow> comm_info \<Rightarrow> effect list" where
  "retrans_pid_report pid info =
     (if ci_count info > 0
      then [out_kv (''tcp_retrans_pid_'' @ fmt_u pid @ ''_'' @ c_str (ci_comm info)) (fmt_u (ci_count info))] else [])"

definition retrans_comm_report :: "comm \<Rightarrow> u64 \<Rightarrow> effect list" where
  "retrans_comm_report c cnt = (if cnt > 0 then [out_kv (''tcp_retrans_comm_'' @ c_str c) (fmt_u cnt)] else [])"

locale tcp_retransmit =
  h: bpf_hash ops keys cap + n: bpf_hash nops nkeys ncap + a: counter_array aops akeys acap
  for ops :: "('m, u32, comm_info) map_ops" and keys :: "'m \<Rightarrow> u32 list" and cap
    and nops :: "('n, comm, u64) map_ops" and nkeys :: "'n \<Rightarrow> comm list" and ncap
    and aops :: "('a, u32, u64) map_ops" and akeys :: "'a \<Rightarrow> u32 list" and acap
begin

abbreviation ev where "ev \<equiv> tcp_retransmit_event ops nops aops"

lemma event_maps:
  "retrans_map (ev e s) = count_comm ops (retrans_map s) e BPF_ANY"
  "retrans_comm_map (ev e s) = count_name nops (retrans_comm_map s) e"
  "retrans_stats (ev e s) = modify_or_insert aops (retrans_stats s) 0 (\<lambda>v. v + 1) 1 BPF_ANY"
  "prev_total (ev e s) = prev_total s"
  by (simp_all add: tcp_retransmit_event_def handle_tcp_retransmit_def Let_def add_or_insert_modify)

sublocale pc: event_counter ops keys cap retrans_map ev
    "\<lambda>e. Some (cur_pid e)" "\<lambda>_. 1" comm_upd "comm_ini (\<lambda>h. h)" ci_count BPF_ANY
  by unfold_locales (simp_all add: event_maps count_comm_modify [where ctx = "\<lambda>h. h"] comm_count_laws)

sublocale pd: counted_drain ops keys cap retrans_map ev
    "\<lambda>e. Some (cur_pid e)" "\<lambda>_. 1" comm_upd "comm_ini (\<lambda>h. h)" ci_count "retrans_pid_body ops" retrans_pid_report
  by unfold_locales (simp_all add: retrans_pid_body_def retrans_pid_report_def)

sublocale nc: event_counter nops nkeys ncap retrans_comm_map ev
    "\<lambda>e. Some (cur_comm e)" "\<lambda>_. 1" "\<lambda>_ v. v + 1" "\<lambda>_. 1" "\<lambda>v. v" BPF_ANY
  by unfold_locales (simp_all add: event_maps count_name_modify [where ctx = "\<lambda>h. h"])

sublocale nd: counted_drain nops nkeys ncap retrans_comm_map ev
    "\<lambda>e. Some (cur_comm e)" "\<lambda>_. 1" "\<lambda>_ v. v + 1" "\<lambda>_. 1" "\<lambda>v. v" "retrans_comm_body nops" retrans_comm_report
  by unfold_locales (simp_all add: retrans_comm_body_def retrans_comm_report_def)

lemma run_stats:
  assumes "acap (retrans_stats s) = 4"
  shows "acap (retrans_stats (fold ev es s)) = 4 \<and>
    count_at aops (\<lambda>v. v) (retrans_stats (fold ev es s)) 0 = count_at aops (\<lambda>v. v) (retrans_stats s) 0 + of_nat (length es) \<and>
    prev_total (fold ev es s) = prev_total s"
  using assms
proof (induction es arbitrary: s)
  case (Cons e es)
  have "0 \<in> set (akeys (retrans_stats s))" using Cons.prems by (simp add: a.array_keys)
  then have "count_at aops (\<lambda>v. v) (retrans_stats (ev e s)) 0 = count_at aops (\<lambda>v. v) (retrans_stats s) 0 + 1"
    by (simp add: event_maps a.count_modify_present)
  moreover have "acap (retrans_stats (ev e s)) = 4" using Cons.prems by (simp add: event_maps a.cap_modify)
  ultimately show ?case using Cons.IH [of "ev e s"] by (simp add: event_maps add.assoc)
qed simp

lemma total_spec:
  assumes "acap (retrans_stats s) = 4" and "prev_total s = count_at aops (\<lambda>v. v) (retrans_stats s) 0"
    and "length es < 2 ^ 64"
  shows "\<exists>t. retrans_total aops (fold ev es s) =
    (if es = [] then [] else [out_kv ''tcp_retransmit_delta'' (fmt_u (of_nat (length es) :: u64))],
     (fold ev es s)\<lparr>prev_total := t\<rparr>) \<and> t = count_at aops (\<lambda>v. v) (retrans_stats (fold ev es s)) 0"
proof -
  note run = run_stats [OF assms(1), of es]
  obtain v where v: "lookup_elem aops (retrans_stats (fold ev es s)) 0 = Some v"
    using a.array_lookup [of 0 "retrans_stats (fold ev es s)"] run by auto
  then have "v = count_at aops (\<lambda>v. v) (retrans_stats (fold ev es s)) 0" by (simp add: count_at_def)
  moreover have "(of_nat (length es) :: u64) > 0 \<longleftrightarrow> es \<noteq> []"
    using assms(3) by (simp add: word_less_nat_alt unat_of_nat take_bit_nat_eq_self)
  ultimately show ?thesis using run assms(2) by (auto simp: retrans_total_def v Let_def)
qed

lemma bodies_keep:
  "retrans_comm_map (snd (retrans_pid_body ops k s)) = retrans_comm_map s"
  "retrans_map (snd (retrans_comm_body nops c s)) = retrans_map s"
  by (simp_all add: retrans_pid_body_def retrans_comm_body_def split: option.split)

lemma comm_half:
  fixes s1 :: "('m, 'n, 'a) tcp_retransmit_maps"
  assumes "nkeys (retrans_comm_map s) = []" and "card (cur_comm ` set es) \<le> ncap (retrans_comm_map s)"
    and "length es < 2 ^ 64" and "retrans_comm_map s1 = retrans_comm_map (fold ev es s)"
  obtains comms s2 where "key_loop (\<lambda>s. next_key nops (retrans_comm_map s)) (retrans_comm_body nops) None s1 =
      Some (map (\<lambda>c. out_kv (''tcp_retrans_comm_'' @ c_str c) (fmt_u (name_calls (\<lambda>h. h) es c))) comms, s2)"
    and "distinct comms" and "set comms = cur_comm ` set es" and "nkeys (retrans_comm_map s2) = []"
    and "retrans_map s2 = retrans_map s1"
proof -
  let ?hc = "\<lambda>e. Some (cur_comm e)"
  obtain comms s2 where lc: "key_loop (\<lambda>s. next_key nops (retrans_comm_map s)) (retrans_comm_body nops) None s1 =
      Some (concat (map (\<lambda>k. retrans_comm_report k (run_value (\<lambda>_ v. v + 1) (\<lambda>_. 1) (hits ?hc es k))) comms), s2)"
    and comms: "distinct comms" "set comms = keys_hit ?hc es" "nkeys (retrans_comm_map s2) = []"
    by (rule nd.drain_after [OF assms(4,1) _ disjI1 [OF refl], simplified keys_hit_Some, OF assms(2)]) (rule that, simp_all)
  have keep: "retrans_map s2 = retrans_map s1"
    by (rule key_loop_invariant [OF lc, where P = "\<lambda>x. retrans_map x = retrans_map s1"]) (simp_all add: bodies_keep)
  have outc: "concat (map (\<lambda>k. retrans_comm_report k (run_value (\<lambda>_ v. v + 1) (\<lambda>_. 1) (hits ?hc es k))) comms) =
      map (\<lambda>c. out_kv (''tcp_retrans_comm_'' @ c_str c) (fmt_u (name_calls (\<lambda>h. h) es c))) comms"
    using comms(2) name_calls_pos [OF assms(3), of _ "\<lambda>h. h"] run_count_key [of _ ?hc es]
    by (intro concat_singletons) (simp add: retrans_comm_report_def name_calls_def hits_Some)
  show thesis by (rule that [OF lc [unfolded outc] comms(1) _ comms(3) keep]) (simp add: comms(2))
qed

lemma tick_spec:
  assumes "keys (retrans_map s) = []" and "card (cur_pid ` set es) \<le> cap (retrans_map s)" and "0 \<notin> cur_pid ` set es"
    and "nkeys (retrans_comm_map s) = []" and "card (cur_comm ` set es) \<le> ncap (retrans_comm_map s)"
    and "acap (retrans_stats s) = 4" and "prev_total s = count_at aops (\<lambda>v. v) (retrans_stats s) 0"
    and "length es < 2 ^ 64"
  shows "\<exists>pids comms s'. tcp_retransmit_tick ops nops aops (fold ev es s) = Some
      ((if es = [] then [] else [out_kv ''tcp_retransmit_delta'' (fmt_u (of_nat (length es) :: u64))]) @
       map (\<lambda>p. out_kv (''tcp_retrans_pid_'' @ fmt_u p @ ''_'' @ c_str (first_name (\<lambda>h. h) es p)) (fmt_u (calls (\<lambda>h. h) es p))) pids @
       map (\<lambda>c. out_kv (''tcp_retrans_comm_'' @ c_str c) (fmt_u (name_calls (\<lambda>h. h) es c))) comms @ [Flush], s')
    \<and> distinct pids \<and> set pids = cur_pid ` set es \<and> distinct comms \<and> set comms = cur_comm ` set es
    \<and> keys (retrans_map s') = [] \<and> nkeys (retrans_comm_map s') = []"
proof -
  let ?s = "fold ev es s" and ?hp = "\<lambda>e. Some (cur_pid e)" and ?hc = "\<lambda>e. Some (cur_comm e)"
  obtain t where tot: "retrans_total aops ?s =
      (if es = [] then [] else [out_kv ''tcp_retransmit_delta'' (fmt_u (of_nat (length es) :: u64))], ?s\<lparr>prev_total := t\<rparr>)"
    using total_spec [OF assms(6-8)] by blast
  have startp: "Some 0 = None \<or> (\<exists>c. Some 0 = Some c \<and> c \<notin> keys_hit ?hp es)" using assms(3) by simp
  have mp: "retrans_map (?s\<lparr>prev_total := t\<rparr>) = retrans_map ?s" by simp
  obtain pids s1 where lp: "key_loop (\<lambda>s. next_key ops (retrans_map s)) (retrans_pid_body ops) (Some 0) (?s\<lparr>prev_total := t\<rparr>) =
      Some (concat (map (\<lambda>k. retrans_pid_report k (run_value comm_upd (comm_ini (\<lambda>h. h)) (hits ?hp es k))) pids), s1)"
    and pids: "distinct pids" "set pids = keys_hit ?hp es" "keys (retrans_map s1) = []"
    by (rule pd.drain_after [OF mp assms(1) _ startp, simplified keys_hit_Some, OF assms(2)]) (rule that, simp_all)
  have mc: "retrans_comm_map s1 = retrans_comm_map ?s"
    by (rule key_loop_invariant [OF lp, where P = "\<lambda>x. retrans_comm_map x = retrans_comm_map ?s"])
      (simp_all add: bodies_keep)
  obtain comms s2 where lc: "key_loop (\<lambda>s. next_key nops (retrans_comm_map s)) (retrans_comm_body nops) None s1 =
      Some (map (\<lambda>c. out_kv (''tcp_retrans_comm_'' @ c_str c) (fmt_u (name_calls (\<lambda>h. h) es c))) comms, s2)"
    and comms: "distinct comms" "set comms = cur_comm ` set es" "nkeys (retrans_comm_map s2) = []" "retrans_map s2 = retrans_map s1"
    using comm_half [OF assms(4,5,8) mc] .
  have outp: "concat (map (\<lambda>k. retrans_pid_report k (run_value comm_upd (comm_ini (\<lambda>h. h)) (hits ?hp es k))) pids) =
      map (\<lambda>p. out_kv (''tcp_retrans_pid_'' @ fmt_u p @ ''_'' @ c_str (first_name (\<lambda>h. h) es p)) (fmt_u (calls (\<lambda>h. h) es p))) pids"
    using pids(2) calls_pos [OF assms(8), of _ "\<lambda>h. h"] run_comm_pid [of _ "\<lambda>h. h" es]
    by (intro concat_singletons) (simp add: retrans_pid_report_def)
  show ?thesis
    using pids comms unfolding tcp_retransmit_tick_def tot
    by (intro exI [of _ pids] exI [of _ comms] exI [of _ s2]) (simp add: lp lc outp)
qed

text \<open>With key 0 as the last key of the map, the walk from key 0 finds nothing.\<close>

lemma pid0_tick:
  assumes "keys (retrans_map s) = []" and "1 \<le> cap (retrans_map s)"
    and "nkeys (retrans_comm_map s) = []" and "card (cur_comm ` set es) \<le> ncap (retrans_comm_map s)"
    and "acap (retrans_stats s) = 4" and "prev_total s = count_at aops (\<lambda>v. v) (retrans_stats s) 0"
    and "length es < 2 ^ 64" and "cur_pid ` set es = {0}"
  shows "\<exists>comms s'. tcp_retransmit_tick ops nops aops (fold ev es s) = Some
      ([out_kv ''tcp_retransmit_delta'' (fmt_u (of_nat (length es) :: u64))] @
       map (\<lambda>c. out_kv (''tcp_retrans_comm_'' @ c_str c) (fmt_u (name_calls (\<lambda>h. h) es c))) comms @ [Flush], s')
    \<and> lookup_elem ops (retrans_map s') 0 = Some \<lparr>ci_count = of_nat (length es), ci_comm = cur_comm (hd es)\<rparr>"
proof -
  let ?s = "fold ev es s" and ?hp = "\<lambda>e. Some (cur_pid e)"
  have ne: "es \<noteq> []" and same: "filter (\<lambda>e. cur_pid e = 0) es = es"
    using assms(8) by (auto simp: filter_id_conv)
  have card: "card (keys_hit ?hp es) \<le> cap (retrans_map s)" using assms(2,8) by simp
  have "set (keys (retrans_map ?s)) = {0}" using pc.lookup_run(1) [OF assms(1) card] assms(8) by simp
  then have "keys (retrans_map ?s) = [0]" by (rule distinct_singleton_list [OF h.keys_distinct])
  then have loop: "key_loop (\<lambda>s. next_key ops (retrans_map s)) (retrans_pid_body ops) (Some 0) (?s\<lparr>prev_total := t\<rparr>) =
      Some ([], ?s\<lparr>prev_total := t\<rparr>)" for t
    by (intro key_loop_None) (simp add: h.next_key_order keys_from_def)
  obtain t where tot: "retrans_total aops ?s =
      ([out_kv ''tcp_retransmit_delta'' (fmt_u (of_nat (length es) :: u64))], ?s\<lparr>prev_total := t\<rparr>)"
    using total_spec [OF assms(5-7)] ne by auto
  have "retrans_comm_map (?s\<lparr>prev_total := t\<rparr>) = retrans_comm_map ?s" by simp
  from comm_half [OF assms(3,4,7) this] obtain comms s2 where
    lc: "key_loop (\<lambda>s. next_key nops (retrans_comm_map s)) (retrans_comm_body nops) None (?s\<lparr>prev_total := t\<rparr>) =
      Some (map (\<lambda>c. out_kv (''tcp_retrans_comm_'' @ c_str c) (fmt_u (name_calls (\<lambda>h. h) es c))) comms, s2)"
    and k2: "retrans_map s2 = retrans_map (?s\<lparr>prev_total := t\<rparr>)" .
  have none: "lookup_elem ops (retrans_map s) 0 = None" using assms(1) h.keys_lookup [of 0 "retrans_map s"] by simp
  have "lookup_elem ops (retrans_map ?s) 0 = Some (run_value comm_upd (comm_ini (\<lambda>h. h)) es)"
    using pc.run_lookup [of s es 0] card ne by (simp add: none assms(1) hits_Some same)
  then have "lookup_elem ops (retrans_map s2) 0 = Some \<lparr>ci_count = of_nat (length es), ci_comm = cur_comm (hd es)\<rparr>"
    using run_comm [OF ne, of "\<lambda>h. h"] by (simp add: k2)
  then show ?thesis
    unfolding tcp_retransmit_tick_def tot
    by (intro exI [of _ comms] exI [of _ s2]) (simp add: loop lc)
qed

end

interpretation tr_maps: tcp_retransmit "hash_ops r" hm_keys hcap "hash_ops r'" hm_keys hcap array_ops arr_keys arr_cap
  by unfold_locales

subsection \<open>Properties\<close>

text \<open>After any sequence of retransmissions in the context of at most \<open>max_entries\<close> processes, none
  of them process 0, from empty maps and a remembered total that agrees with the array, an
  iteration prints the number of retransmissions (if any), one line per process with its name
  and number, and one line per command name; both hash maps are left empty.\<close>

theorem tcp_retransmit_round:
  assumes "bpf_hash ops keys cap" and "bpf_hash nops nkeys ncap" and "bpf_array aops akeys acap"
    and "keys (retrans_map s) = []" and "card (cur_pid ` set es) \<le> cap (retrans_map s)" and "0 \<notin> cur_pid ` set es"
    and "nkeys (retrans_comm_map s) = []" and "card (cur_comm ` set es) \<le> ncap (retrans_comm_map s)"
    and "acap (retrans_stats s) = 4" and "prev_total s = count_at aops (\<lambda>v. v) (retrans_stats s) 0"
    and "length es < 2 ^ 64"
  shows "\<exists>pids comms s'. tcp_retransmit_tick ops nops aops (fold (tcp_retransmit_event ops nops aops) es s) = Some
      ((if es = [] then [] else [out_kv ''tcp_retransmit_delta'' (fmt_u (of_nat (length es) :: u64))]) @
       map (\<lambda>p. out_kv (''tcp_retrans_pid_'' @ fmt_u p @ ''_'' @ c_str (first_name (\<lambda>h. h) es p)) (fmt_u (calls (\<lambda>h. h) es p))) pids @
       map (\<lambda>c. out_kv (''tcp_retrans_comm_'' @ c_str c) (fmt_u (name_calls (\<lambda>h. h) es c))) comms @ [Flush], s')
    \<and> distinct pids \<and> set pids = cur_pid ` set es \<and> distinct comms \<and> set comms = cur_comm ` set es
    \<and> keys (retrans_map s') = [] \<and> nkeys (retrans_comm_map s') = []"
  by (rule tcp_retransmit.tick_spec [OF tcp_retransmit.intro [OF assms(1,2) counter_array.intro [OF assms(3)]] assms(4-11)])

definition retrans_init :: "((u32, comm_info) hmap, (comm, u64) hmap, u64 list) tcp_retransmit_maps" where
  "retrans_init = \<lparr>retrans_map = empty_hash 10240, retrans_comm_map = empty_hash 10240,
     retrans_stats = replicate 4 0, prev_total = 0\<rparr>"

lemma retrans_init_simps:
  "retrans_map retrans_init = empty_hash 10240" "retrans_comm_map retrans_init = empty_hash 10240"
  "retrans_stats retrans_init = replicate 4 0" "prev_total retrans_init = 0"
  by (simp_all add: retrans_init_def)

theorem tcp_retransmit_round_witness:
  "\<exists>pids comms s'. tcp_retransmit_tick (hash_ops False) (hash_ops False) array_ops
       (fold (tcp_retransmit_event (hash_ops False) (hash_ops False) array_ops) [task_ctx 31 ''nginx'' 1 0] retrans_init) = Some
      ((if [task_ctx 31 ''nginx'' 1 0] = [] then []
        else [out_kv ''tcp_retransmit_delta'' (fmt_u (of_nat (length [task_ctx 31 ''nginx'' 1 0]) :: u64))]) @
       map (\<lambda>p. out_kv (''tcp_retrans_pid_'' @ fmt_u p @ ''_'' @ c_str (first_name (\<lambda>h. h) [task_ctx 31 ''nginx'' 1 0] p))
              (fmt_u (calls (\<lambda>h. h) [task_ctx 31 ''nginx'' 1 0] p))) pids @
       map (\<lambda>c. out_kv (''tcp_retrans_comm_'' @ c_str c) (fmt_u (name_calls (\<lambda>h. h) [task_ctx 31 ''nginx'' 1 0] c))) comms @ [Flush], s')
    \<and> distinct pids \<and> set pids = cur_pid ` set [task_ctx 31 ''nginx'' 1 0]
    \<and> distinct comms \<and> set comms = cur_comm ` set [task_ctx 31 ''nginx'' 1 0]
    \<and> hm_keys (retrans_map s') = [] \<and> hm_keys (retrans_comm_map s') = []"
  by (rule tcp_retransmit_round [OF hm.bpf_hash_axioms hm.bpf_hash_axioms ar.bpf_array_axioms])
    (simp_all add: retrans_init_simps count_at_def)

text \<open>Retransmissions in the context of process 0 are not reported by process: when all of them are,
  an iteration prints the total and the lines by command name but no line for the process, and
  the entry of process 0, with all its counts, stays in the map.\<close>

theorem tcp_retransmit_pid0_unreported:
  assumes "bpf_hash ops keys cap" and "bpf_hash nops nkeys ncap" and "bpf_array aops akeys acap"
    and "keys (retrans_map s) = []" and "1 \<le> cap (retrans_map s)"
    and "nkeys (retrans_comm_map s) = []" and "card (cur_comm ` set es) \<le> ncap (retrans_comm_map s)"
    and "acap (retrans_stats s) = 4" and "prev_total s = count_at aops (\<lambda>v. v) (retrans_stats s) 0"
    and "length es < 2 ^ 64" and "cur_pid ` set es = {0}"
  shows "\<exists>comms s'. tcp_retransmit_tick ops nops aops (fold (tcp_retransmit_event ops nops aops) es s) = Some
      ([out_kv ''tcp_retransmit_delta'' (fmt_u (of_nat (length es) :: u64))] @
       map (\<lambda>c. out_kv (''tcp_retrans_comm_'' @ c_str c) (fmt_u (name_calls (\<lambda>h. h) es c))) comms @ [Flush], s')
    \<and> lookup_elem ops (retrans_map s') 0 = Some \<lparr>ci_count = of_nat (length es), ci_comm = cur_comm (hd es)\<rparr>"
  by (rule tcp_retransmit.pid0_tick [OF tcp_retransmit.intro [OF assms(1,2) counter_array.intro [OF assms(3)]] assms(4-11)])

theorem tcp_retransmit_pid0_unreported_witness:
  "\<exists>comms s'. tcp_retransmit_tick (hash_ops False) (hash_ops False) array_ops
       (fold (tcp_retransmit_event (hash_ops False) (hash_ops False) array_ops) [task_ctx 0 ''swapper/0'' 1 0] retrans_init) = Some
      ([out_kv ''tcp_retransmit_delta'' (fmt_u (of_nat (length [task_ctx 0 ''swapper/0'' 1 0]) :: u64))] @
       map (\<lambda>c. out_kv (''tcp_retrans_comm_'' @ c_str c) (fmt_u (name_calls (\<lambda>h. h) [task_ctx 0 ''swapper/0'' 1 0] c))) comms @ [Flush], s')
    \<and> lookup_elem (hash_ops False) (retrans_map s') 0 =
        Some \<lparr>ci_count = of_nat (length [task_ctx 0 ''swapper/0'' 1 0]), ci_comm = cur_comm (hd [task_ctx 0 ''swapper/0'' 1 0])\<rparr>"
  by (rule tcp_retransmit_pid0_unreported [OF hm.bpf_hash_axioms hm.bpf_hash_axioms ar.bpf_array_axioms])
    (simp_all add: retrans_init_simps count_at_def)

end
