(* ===== verification/UdpStat.thy ===== *)
theory UdpStat
  imports CommCount
begin

section \<open>net_udp_stat: UDP messages and bytes\<close>

text \<open>
  \<open>my_tools/network/net_udp_stat.bpf.c\<close> counts \<open>udp_sendmsg\<close> calls with their lengths and the
  successful \<open>udp_recvmsg\<close> returns, in total (an array map) and by process (three hash maps);
  \<open>my_tools/network/net_udp_stat.c\<close> prints the non-zero increments of the totals and prints and
  deletes the entries by process.
  Shown: what an iteration prints; a return value of 0 or below, read as a signed 32-bit integer,
  counts for nothing.
\<close>

record ('m, 'a) udp_maps =
  udp_send_map :: 'm
  udp_recv_map :: 'm
  udp_send_bytes_map :: 'm
  udp_stats :: 'a
  prev_udp :: "u64 list"

text \<open>\<open>len\<close> is \<open>PT_REGS_PARM3(ctx)\<close>.\<close>

definition handle_udp_sendmsg ::
  "('m, u32, u64) map_ops \<Rightarrow> ('a, u32, u64) map_ops \<Rightarrow> u64 \<Rightarrow> helpers \<Rightarrow> ('m, 'a) udp_maps \<Rightarrow> int \<times> ('m, 'a) udp_maps" where
  "handle_udp_sendmsg ops aops len h s =
     (let pid = cur_pid h;
          key_send_cnt = 0; key_send_bytes = 2;
          s1 = s\<lparr>udp_send_map := add_or_insert ops (udp_send_map s) pid 1 BPF_ANY\<rparr>;
          s2 = s1\<lparr>udp_stats := add_or_insert aops (udp_stats s1) key_send_cnt 1 BPF_ANY\<rparr>;
          s3 = s2\<lparr>udp_stats := add_or_insert aops (udp_stats s2) key_send_bytes len BPF_ANY\<rparr>;
          s4 = s3\<lparr>udp_send_bytes_map := add_or_insert ops (udp_send_bytes_map s3) pid len BPF_ANY\<rparr>
      in (0, s4))"

text \<open>\<open>rc\<close> is \<open>PT_REGS_RC(ctx)\<close>; \<open>int ret = (int)rc\<close> keeps its low 32 bits as a signed number.\<close>

definition handle_udp_recvmsg ::
  "('m, u32, u64) map_ops \<Rightarrow> ('a, u32, u64) map_ops \<Rightarrow> u64 \<Rightarrow> helpers \<Rightarrow> ('m, 'a) udp_maps \<Rightarrow> int \<times> ('m, 'a) udp_maps" where
  "handle_udp_recvmsg ops aops rc h s =
     (let ret = (ucast rc :: 32 word) in
      if sint ret \<le> 0 then (0, s)
      else
        let pid = cur_pid h;
            key_recv_cnt = 1; key_recv_bytes = 3;
            bytes = (scast ret :: u64);
            s1 = s\<lparr>udp_recv_map := add_or_insert ops (udp_recv_map s) pid 1 BPF_ANY\<rparr>;
            s2 = s1\<lparr>udp_stats := add_or_insert aops (udp_stats s1) key_recv_cnt 1 BPF_ANY\<rparr>;
            s3 = s2\<lparr>udp_stats := add_or_insert aops (udp_stats s2) key_recv_bytes bytes BPF_ANY\<rparr>
        in (0, s3))"

datatype udp_event = Udp_sendmsg u64 helpers | Udp_recvmsg u64 helpers

definition udp_stat_event ::
  "('m, u32, u64) map_ops \<Rightarrow> ('a, u32, u64) map_ops \<Rightarrow> udp_event \<Rightarrow> ('m, 'a) udp_maps \<Rightarrow> ('m, 'a) udp_maps" where
  "udp_stat_event ops aops e s =
     (case e of
        Udp_sendmsg len h \<Rightarrow> snd (handle_udp_sendmsg ops aops len h s)
      | Udp_recvmsg rc h \<Rightarrow> snd (handle_udp_recvmsg ops aops rc h s))"

definition udp_send_body ::
  "('m, u32, u64) map_ops \<Rightarrow> u32 \<Rightarrow> ('m, 'a) udp_maps \<Rightarrow> effect list \<times> ('m, 'a) udp_maps" where
  "udp_send_body ops pid s =
     (case lookup_elem ops (udp_send_map s) pid of
        None \<Rightarrow> ([], s)
      | Some cnt \<Rightarrow>
          (if cnt > 0 then [out_kv (''udp_send_pid_'' @ fmt_u pid) (fmt_u cnt)] else [],
           s\<lparr>udp_send_map := snd (delete_elem ops (udp_send_map s) pid)\<rparr>))"

definition udp_recv_body ::
  "('m, u32, u64) map_ops \<Rightarrow> u32 \<Rightarrow> ('m, 'a) udp_maps \<Rightarrow> effect list \<times> ('m, 'a) udp_maps" where
  "udp_recv_body ops pid s =
     (case lookup_elem ops (udp_recv_map s) pid of
        None \<Rightarrow> ([], s)
      | Some cnt \<Rightarrow>
          (if cnt > 0 then [out_kv (''udp_recv_pid_'' @ fmt_u pid) (fmt_u cnt)] else [],
           s\<lparr>udp_recv_map := snd (delete_elem ops (udp_recv_map s) pid)\<rparr>))"

definition udp_bytes_body ::
  "('m, u32, u64) map_ops \<Rightarrow> u32 \<Rightarrow> ('m, 'a) udp_maps \<Rightarrow> effect list \<times> ('m, 'a) udp_maps" where
  "udp_bytes_body ops pid s =
     (case lookup_elem ops (udp_send_bytes_map s) pid of
        None \<Rightarrow> ([], s)
      | Some bytes \<Rightarrow>
          (if bytes > 0 then [out_kv (''udp_send_bytes_pid_'' @ fmt_u pid) (fmt_u bytes)] else [],
           s\<lparr>udp_send_bytes_map := snd (delete_elem ops (udp_send_bytes_map s) pid)\<rparr>))"

definition udp_total_names :: "string list" where
  "udp_total_names = [''udp_send_count'', ''udp_recv_count'', ''udp_send_bytes'', ''udp_recv_bytes'']"

text \<open>The four \<open>if (d > 0) printf(...)\<close>, for the differences in the order of the array.\<close>

definition udp_totals :: "u64 list \<Rightarrow> effect list" where
  "udp_totals d = concat (map (\<lambda>(name, x). if x > 0 then [out_kv name (fmt_u x)] else []) (zip udp_total_names d))"

definition udp_stat_tick ::
  "('m, u32, u64) map_ops \<Rightarrow> ('a, u32, u64) map_ops \<Rightarrow> (('m, 'a) udp_maps, effect) tick" where
  "udp_stat_tick ops aops s =
     (let cur = map (\<lambda>i. case lookup_elem aops (udp_stats s) (of_nat i) of Some v \<Rightarrow> v | None \<Rightarrow> 0) [0..<4];
          d = map (\<lambda>i. cur ! i - prev_udp s ! i) [0..<4];
          s0 = s\<lparr>prev_udp := cur\<rparr>
      in Option.bind (key_loop (\<lambda>s. next_key ops (udp_send_map s)) (udp_send_body ops) (Some 0) s0) (\<lambda>(out1, s1).
         Option.bind (key_loop (\<lambda>s. next_key ops (udp_recv_map s)) (udp_recv_body ops) (Some 0) s1) (\<lambda>(out2, s2).
         Option.bind (key_loop (\<lambda>s. next_key ops (udp_send_bytes_map s)) (udp_bytes_body ops) (Some 0) s2) (\<lambda>(out3, s3).
           Some (udp_totals d @ out1 @ out2 @ out3 @ [Flush], s3)))))"

definition udp_stat_main ::
  "('m, u32, u64) map_ops \<Rightarrow> ('a, u32, u64) map_ops \<Rightarrow> udp_event env \<Rightarrow> ('m, 'a) udp_maps \<Rightarrow>
     (status \<times> effect list \<times> ('m, 'a) udp_maps) option" where
  "udp_stat_main ops aops env s =
     (if \<not> skel_opened env
      then Some (Exited 1, [err_line ''Failed to open and load BPF skeleton''], s)
      else if attach_err env \<noteq> 0
      then Some (Exited (attach_err env), [err_line ''Failed to attach BPF programs'', Destroy], s)
      else monitor [err_line ''UDP Traffic Monitor started (waiting for events), Ctrl+C to stop''] [SIGINT, SIGTERM]
             (loop_sleep_first 1 [SIGINT, SIGTERM] (udp_stat_event ops aops) (udp_stat_tick ops aops)) env
             (s\<lparr>prev_udp := replicate 4 0\<rparr>))"

subsection \<open>The tool over lawful maps\<close>

fun sent_by :: "udp_event \<Rightarrow> u32 option" where
  "sent_by (Udp_sendmsg len h) = Some (cur_pid h)"
| "sent_by (Udp_recvmsg rc h) = None"

fun received_by :: "udp_event \<Rightarrow> u32 option" where
  "received_by (Udp_sendmsg len h) = None"
| "received_by (Udp_recvmsg rc h) = (if sint (ucast rc :: 32 word) \<le> 0 then None else Some (cur_pid h))"

fun sent_len :: "udp_event \<Rightarrow> u64" where
  "sent_len (Udp_sendmsg len h) = len"
| "sent_len (Udp_recvmsg rc h) = 0"

fun received_len :: "udp_event \<Rightarrow> u64" where
  "received_len (Udp_sendmsg len h) = 0"
| "received_len (Udp_recvmsg rc h) =
     (if sint (ucast rc :: 32 word) \<le> 0 then 0 else scast (ucast rc :: 32 word))"

text \<open>What the events add to the four totals.\<close>

definition udp_amounts :: "(udp_event \<Rightarrow> u64) list" where
  "udp_amounts = [\<lambda>e. if sent_by e = None then 0 else 1, \<lambda>e. if received_by e = None then 0 else 1,
     sent_len, received_len]"

lemma udp_amounts_len: "length udp_amounts = 4"
  by (simp add: udp_amounts_def)

locale udp_stat =
  h: bpf_hash ops keys cap + a: bpf_array aops akeys acap
  for ops :: "('m, u32, u64) map_ops" and keys :: "'m \<Rightarrow> u32 list" and cap
    and aops :: "('a, u32, u64) map_ops" and akeys :: "'a \<Rightarrow> u32 list" and acap
begin

abbreviation ev where "ev \<equiv> udp_stat_event ops aops"

lemmas ev_defs = udp_stat_event_def handle_udp_sendmsg_def handle_udp_recvmsg_def Let_def add_or_insert_modify

lemma ev_hits:
  "sent_by e = Some p \<Longrightarrow> udp_send_map (ev e s) = modify_or_insert ops (udp_send_map s) p (\<lambda>v. v + 1) 1 BPF_ANY"
  "sent_by e = None \<Longrightarrow> udp_send_map (ev e s) = udp_send_map s"
  "sent_by e = Some p \<Longrightarrow> udp_send_bytes_map (ev e s) =
     modify_or_insert ops (udp_send_bytes_map s) p (\<lambda>v. v + sent_len e) (sent_len e) BPF_ANY"
  "sent_by e = None \<Longrightarrow> udp_send_bytes_map (ev e s) = udp_send_bytes_map s"
  "received_by e = Some p \<Longrightarrow> udp_recv_map (ev e s) = modify_or_insert ops (udp_recv_map s) p (\<lambda>v. v + 1) 1 BPF_ANY"
  "received_by e = None \<Longrightarrow> udp_recv_map (ev e s) = udp_recv_map s"
  "prev_udp (ev e s) = prev_udp s"
  by (cases e; auto simp: ev_defs split: if_splits)+

sublocale sc: event_counter ops keys cap udp_send_map ev sent_by "\<lambda>_. 1" "\<lambda>_ v. v + 1" "\<lambda>_. 1" "\<lambda>v. v" BPF_ANY
  by unfold_locales (simp_all add: ev_hits)

sublocale rc: event_counter ops keys cap udp_recv_map ev received_by "\<lambda>_. 1" "\<lambda>_ v. v + 1" "\<lambda>_. 1" "\<lambda>v. v" BPF_ANY
  by unfold_locales (simp_all add: ev_hits)

sublocale bc: event_counter ops keys cap udp_send_bytes_map ev sent_by sent_len "\<lambda>e v. v + sent_len e" sent_len "\<lambda>v. v" BPF_ANY
  by unfold_locales (simp_all add: ev_hits)

sublocale sd: counted_drain ops keys cap udp_send_map ev sent_by "\<lambda>_. 1" "\<lambda>_ v. v + 1" "\<lambda>_. 1" "\<lambda>v. v"
    "udp_send_body ops" "\<lambda>p. count_report (''udp_send_pid_'' @ fmt_u p)"
  by unfold_locales (simp_all add: udp_send_body_def count_report_def)

sublocale rd: counted_drain ops keys cap udp_recv_map ev received_by "\<lambda>_. 1" "\<lambda>_ v. v + 1" "\<lambda>_. 1" "\<lambda>v. v"
    "udp_recv_body ops" "\<lambda>p. count_report (''udp_recv_pid_'' @ fmt_u p)"
  by unfold_locales (simp_all add: udp_recv_body_def count_report_def)

sublocale bd: counted_drain ops keys cap udp_send_bytes_map ev sent_by sent_len "\<lambda>e v. v + sent_len e" sent_len "\<lambda>v. v"
    "udp_bytes_body ops" "\<lambda>p. count_report (''udp_send_bytes_pid_'' @ fmt_u p)"
  by unfold_locales (simp_all add: udp_bytes_body_def count_report_def)

lemma event_stat:
  assumes "acap (udp_stats s) = 8" and "i < 4"
  shows "count_at aops (\<lambda>v. v) (udp_stats (ev e s)) (of_nat i) =
      count_at aops (\<lambda>v. v) (udp_stats s) (of_nat i) + (udp_amounts ! i) e"
    and "acap (udp_stats (ev e s)) = 8"
proof -
  have i: "i = 0 \<or> i = 1 \<or> i = 2 \<or> i = 3" using assms(2) by linarith
  have up: "unat k < 8 \<Longrightarrow> acap m = 8 \<Longrightarrow> count_at aops (\<lambda>v. v) (modify_or_insert aops m k (\<lambda>v. v + d) d BPF_ANY) =
      (count_at aops (\<lambda>v. v) m)(k := count_at aops (\<lambda>v. v) m k + d)" for m k d
    by (rule a.count_modify_present) (simp_all add: a.array_keys)
  show "count_at aops (\<lambda>v. v) (udp_stats (ev e s)) (of_nat i) =
      count_at aops (\<lambda>v. v) (udp_stats s) (of_nat i) + (udp_amounts ! i) e"
    using i assms(1) by (cases e) (auto simp: ev_defs up a.cap_modify udp_amounts_def)
  show "acap (udp_stats (ev e s)) = 8" using assms(1) by (cases e) (simp_all add: ev_defs a.cap_modify)
qed

lemma run_stat:
  assumes "acap (udp_stats s) = 8" and "i < 4"
  shows "count_at aops (\<lambda>v. v) (udp_stats (fold ev es s)) (of_nat i) =
      count_at aops (\<lambda>v. v) (udp_stats s) (of_nat i) + sum_list (map (udp_amounts ! i) es)"
  using assms(1)
proof (induction es arbitrary: s)
  case (Cons e es)
  then show ?case using event_stat [OF Cons.prems assms(2), of e] by (simp add: add.assoc)
qed simp

lemma prev_run: "prev_udp (fold ev es s) = prev_udp s"
  by (induction es arbitrary: s) (simp_all add: ev_hits)

lemma bodies_keep:
  "udp_recv_map (snd (udp_send_body ops k s)) = udp_recv_map s"
  "udp_send_bytes_map (snd (udp_send_body ops k s)) = udp_send_bytes_map s"
  "udp_send_map (snd (udp_recv_body ops k s)) = udp_send_map s"
  "udp_send_bytes_map (snd (udp_recv_body ops k s)) = udp_send_bytes_map s"
  "udp_send_map (snd (udp_bytes_body ops k s)) = udp_send_map s"
  "udp_recv_map (snd (udp_bytes_body ops k s)) = udp_recv_map s"
  by (simp_all add: udp_send_body_def udp_recv_body_def udp_bytes_body_def split: option.split)

lemma tick_spec:
  assumes "keys (udp_send_map s) = []" and "keys (udp_recv_map s) = []" and "keys (udp_send_bytes_map s) = []"
    and "card (keys_hit sent_by es) \<le> cap (udp_send_map s)" and "card (keys_hit received_by es) \<le> cap (udp_recv_map s)"
    and "card (keys_hit sent_by es) \<le> cap (udp_send_bytes_map s)"
    and "0 \<notin> keys_hit sent_by es" and "0 \<notin> keys_hit received_by es" and "length es < 2 ^ 64"
    and "acap (udp_stats s) = 8"
    and "prev_udp s = map (\<lambda>i. count_at aops (\<lambda>v. v) (udp_stats s) (of_nat i)) [0..<4]"
  shows "\<exists>senders receivers senders' s'. udp_stat_tick ops aops (fold ev es s) = Some
      (udp_totals (map (\<lambda>amt. sum_list (map amt es)) udp_amounts) @
       map (\<lambda>p. out_kv (''udp_send_pid_'' @ fmt_u p) (fmt_u (hit_count sent_by es p))) senders @
       map (\<lambda>p. out_kv (''udp_recv_pid_'' @ fmt_u p) (fmt_u (hit_count received_by es p))) receivers @
       concat (map (\<lambda>p. count_report (''udp_send_bytes_pid_'' @ fmt_u p) (sum_list (map sent_len (hits sent_by es p)))) senders') @ [Flush], s')
    \<and> distinct senders \<and> set senders = keys_hit sent_by es \<and> distinct receivers \<and> set receivers = keys_hit received_by es
    \<and> distinct senders' \<and> set senders' = keys_hit sent_by es
    \<and> keys (udp_send_map s') = [] \<and> keys (udp_recv_map s') = [] \<and> keys (udp_send_bytes_map s') = []"
proof -
  let ?s = "fold ev es s" and ?rv = "run_value (\<lambda>_ v. v + 1) (\<lambda>_. 1 :: u64)"
  let ?cur = "map (\<lambda>i. count_at aops (\<lambda>v. v) (udp_stats ?s) (of_nat i)) [0..<4]"
  let ?t = "?s\<lparr>prev_udp := ?cur\<rparr>"
  have diff: "map (\<lambda>i. ?cur ! i - prev_udp ?s ! i) [0..<4] = map (\<lambda>amt. sum_list (map amt es)) udp_amounts"
  proof (rule nth_equalityI)
    fix i assume "i < length (map (\<lambda>i. ?cur ! i - prev_udp ?s ! i) [0..<4])"
    then have i: "i < 4" by simp
    have "?cur ! i = count_at aops (\<lambda>v. v) (udp_stats s) (of_nat i) + sum_list (map (udp_amounts ! i) es)"
      using run_stat [OF assms(10) i, of es] i by simp
    moreover have "prev_udp ?s ! i = count_at aops (\<lambda>v. v) (udp_stats s) (of_nat i)"
      using i assms(11) unfolding prev_run by simp
    ultimately have "?cur ! i - prev_udp ?s ! i = sum_list (map (udp_amounts ! i) es)" by simp
    then show "map (\<lambda>i. ?cur ! i - prev_udp ?s ! i) [0..<4] ! i = map (\<lambda>amt. sum_list (map amt es)) udp_amounts ! i"
      using i by (simp add: udp_amounts_len)
  qed (simp add: udp_amounts_len)
  have st1: "Some 0 = None \<or> (\<exists>c. Some 0 = Some c \<and> c \<notin> keys_hit sent_by es)" using assms(7) by simp
  have st2: "Some 0 = None \<or> (\<exists>c. Some 0 = Some c \<and> c \<notin> keys_hit received_by es)" using assms(8) by simp
  have m0: "udp_send_map ?t = udp_send_map ?s" by simp
  obtain ks1 s1 where l1: "key_loop (\<lambda>s. next_key ops (udp_send_map s)) (udp_send_body ops) (Some 0) ?t =
      Some (concat (map (\<lambda>k. count_report (''udp_send_pid_'' @ fmt_u k) (?rv (hits sent_by es k))) ks1), s1)"
    and p1: "distinct ks1" "set ks1 = keys_hit sent_by es" "keys (udp_send_map s1) = []"
    by (rule sd.drain_after [OF m0 assms(1,4) st1])
  have k1: "udp_recv_map s1 = udp_recv_map ?s \<and> udp_send_bytes_map s1 = udp_send_bytes_map ?s"
    by (rule key_loop_invariant [OF l1, where P = "\<lambda>x. udp_recv_map x = udp_recv_map ?s \<and>
          udp_send_bytes_map x = udp_send_bytes_map ?s"]) (simp_all add: bodies_keep)
  obtain ks2 s2 where l2: "key_loop (\<lambda>s. next_key ops (udp_recv_map s)) (udp_recv_body ops) (Some 0) s1 =
      Some (concat (map (\<lambda>k. count_report (''udp_recv_pid_'' @ fmt_u k) (?rv (hits received_by es k))) ks2), s2)"
    and p2: "distinct ks2" "set ks2 = keys_hit received_by es" "keys (udp_recv_map s2) = []"
    by (rule rd.drain_after [OF conjunct1 [OF k1] assms(2,5) st2])
  have k2: "udp_send_map s2 = udp_send_map s1 \<and> udp_send_bytes_map s2 = udp_send_bytes_map ?s"
    by (rule key_loop_invariant [OF l2, where P = "\<lambda>x. udp_send_map x = udp_send_map s1 \<and>
          udp_send_bytes_map x = udp_send_bytes_map ?s"]) (simp_all add: bodies_keep k1)
  obtain ks3 s3 where l3: "key_loop (\<lambda>s. next_key ops (udp_send_bytes_map s)) (udp_bytes_body ops) (Some 0) s2 =
      Some (concat (map (\<lambda>k. count_report (''udp_send_bytes_pid_'' @ fmt_u k)
        (run_value (\<lambda>e v. v + sent_len e) sent_len (hits sent_by es k))) ks3), s3)"
    and p3: "distinct ks3" "set ks3 = keys_hit sent_by es" "keys (udp_send_bytes_map s3) = []"
    by (rule bd.drain_after [OF conjunct2 [OF k2] assms(3,6) st1])
  have k3: "udp_send_map s3 = udp_send_map s2 \<and> udp_recv_map s3 = udp_recv_map s2"
    by (rule key_loop_invariant [OF l3, where P = "\<lambda>x. udp_send_map x = udp_send_map s2 \<and>
          udp_recv_map x = udp_recv_map s2"]) (simp_all add: bodies_keep)
  have bytes: "map (\<lambda>k. count_report (''udp_send_bytes_pid_'' @ fmt_u k)
        (run_value (\<lambda>e v. v + sent_len e) sent_len (hits sent_by es k))) ks3 =
      map (\<lambda>p. count_report (''udp_send_bytes_pid_'' @ fmt_u p) (sum_list (map sent_len (hits sent_by es p)))) ks3"
    using p3(2) by (intro map_cong) (auto simp: run_sum hits_empty_iff)
  show ?thesis
    unfolding udp_stat_tick_def Let_def count_at_def [of aops "\<lambda>v. v", symmetric] diff l1
    by (intro exI [of _ ks1] exI [of _ ks2] exI [of _ ks3] exI [of _ s3])
      (simp only: bind.bind_lunit prod.case l2 l3 hit_reports [OF assms(9)] p1 p2 p3 k2 k3 bytes simp_thms)
qed

end

interpretation ud_maps: udp_stat "hash_ops r" hm_keys hcap array_ops arr_keys arr_cap
  by unfold_locales

subsection \<open>Properties\<close>

text \<open>For any sequence of sends and receives whose processes (none of them process 0) fit the maps,
  from empty process maps and remembered totals that agree with the array, an iteration of
  net_udp_stat prints the non-zero ones of the numbers of sends and of successful receives and
  of the sums of their lengths, then for each sending process the number of its sends, for
  each receiving one the number of its successful receives, and for each sending process the
  sum of its lengths if it is not 0; the process maps are left empty.\<close>

theorem udp_stat_round:
  assumes "bpf_hash ops keys cap" and "bpf_array aops akeys acap"
    and "keys (udp_send_map s) = []" and "keys (udp_recv_map s) = []" and "keys (udp_send_bytes_map s) = []"
    and "card (keys_hit sent_by es) \<le> cap (udp_send_map s)" and "card (keys_hit received_by es) \<le> cap (udp_recv_map s)"
    and "card (keys_hit sent_by es) \<le> cap (udp_send_bytes_map s)"
    and "0 \<notin> keys_hit sent_by es" and "0 \<notin> keys_hit received_by es" and "length es < 2 ^ 64"
    and "acap (udp_stats s) = 8"
    and "prev_udp s = map (\<lambda>i. count_at aops (\<lambda>v. v) (udp_stats s) (of_nat i)) [0..<4]"
  shows "\<exists>senders receivers senders' s'. udp_stat_tick ops aops (fold (udp_stat_event ops aops) es s) = Some
      (udp_totals (map (\<lambda>amt. sum_list (map amt es)) udp_amounts) @
       map (\<lambda>p. out_kv (''udp_send_pid_'' @ fmt_u p) (fmt_u (hit_count sent_by es p))) senders @
       map (\<lambda>p. out_kv (''udp_recv_pid_'' @ fmt_u p) (fmt_u (hit_count received_by es p))) receivers @
       concat (map (\<lambda>p. count_report (''udp_send_bytes_pid_'' @ fmt_u p) (sum_list (map sent_len (hits sent_by es p)))) senders') @ [Flush], s')
    \<and> distinct senders \<and> set senders = keys_hit sent_by es \<and> distinct receivers \<and> set receivers = keys_hit received_by es
    \<and> distinct senders' \<and> set senders' = keys_hit sent_by es
    \<and> keys (udp_send_map s') = [] \<and> keys (udp_recv_map s') = [] \<and> keys (udp_send_bytes_map s') = []"
  by (rule udp_stat.tick_spec [OF udp_stat.intro [OF assms(1,2)] assms(3-13)])

definition udp_demo :: "udp_event list" where
  "udp_demo = [Udp_sendmsg 100 (task_ctx 51 ''dig'' 1 0), Udp_recvmsg 512 (task_ctx 51 ''dig'' 2 0),
     Udp_recvmsg (- 11) (task_ctx 51 ''dig'' 3 0)]"

definition udp_init :: "((u32, u64) hmap, u64 list) udp_maps" where
  "udp_init = \<lparr>udp_send_map = empty_hash 10240, udp_recv_map = empty_hash 10240, udp_send_bytes_map = empty_hash 10240,
     udp_stats = replicate 8 0, prev_udp = replicate 4 0\<rparr>"

lemma udp_demo_hits: "keys_hit sent_by udp_demo = {51}" "keys_hit received_by udp_demo = {51}"
  by (simp_all add: udp_demo_def)

lemma udp_init_prev: "prev_udp udp_init = map (\<lambda>i. count_at array_ops (\<lambda>v. v) (udp_stats udp_init) (of_nat i)) [0..<4]"
  by (rule nth_equalityI) (simp_all add: udp_init_def count_at_def)

theorem udp_stat_round_witness:
  "\<exists>senders receivers senders' s'. udp_stat_tick (hash_ops False) array_ops (fold (udp_stat_event (hash_ops False) array_ops) udp_demo udp_init) = Some
      (udp_totals (map (\<lambda>amt. sum_list (map amt udp_demo)) udp_amounts) @
       map (\<lambda>p. out_kv (''udp_send_pid_'' @ fmt_u p) (fmt_u (hit_count sent_by udp_demo p))) senders @
       map (\<lambda>p. out_kv (''udp_recv_pid_'' @ fmt_u p) (fmt_u (hit_count received_by udp_demo p))) receivers @
       concat (map (\<lambda>p. count_report (''udp_send_bytes_pid_'' @ fmt_u p) (sum_list (map sent_len (hits sent_by udp_demo p)))) senders') @ [Flush], s')
    \<and> distinct senders \<and> set senders = keys_hit sent_by udp_demo \<and> distinct receivers \<and> set receivers = keys_hit received_by udp_demo
    \<and> distinct senders' \<and> set senders' = keys_hit sent_by udp_demo
    \<and> hm_keys (udp_send_map s') = [] \<and> hm_keys (udp_recv_map s') = [] \<and> hm_keys (udp_send_bytes_map s') = []"
  by (rule udp_stat_round [OF hm.bpf_hash_axioms ar.bpf_array_axioms _ _ _ _ _ _ _ _ _ _ udp_init_prev])
    (simp_all add: udp_demo_hits, simp_all add: udp_init_def udp_demo_def)

end
