(* ===== verification/Lifecycle.thy ===== *)
theory Lifecycle
  imports CpuFreq CpuRunDelay CpuUsage IrqStat DiskDelay DiskIoSched DiskIoSize FileOpen FsyncStat
    ReadStat WriteStat MemOom PageFault PageSwap SocketStat TcpConnect TcpRetransmit UdpStat
begin

section \<open>From start to exit: the life of every loader\<close>

text \<open>
  The \<open>main\<close> functions of the tools, for every answer of libbpf, every sequence of kernel events and
  every arrival of signals. Every tool is an instance of the contract \<open>polled_tool\<close> of theory
  \<open>Loader\<close> over lawful maps, with no condition on the state: one iteration always returns.
  Shown: the loaders that install handlers for both signals exit with 0 once a signal arrived and
  release the skeleton exactly once, as their last effect, whatever happened before; the loaders
  without handlers never release it once they run, though the code after their loop would; and
  socket_stat does so for one of the two signals only.
\<close>

subsection \<open>Iterations that return and release nothing\<close>

definition quiet_run :: "(effect list \<times> 's) option \<Rightarrow> bool" where
  "quiet_run r = (case r of None \<Rightarrow> False | Some (out, s') \<Rightarrow> Destroy \<notin> set out)"

lemma quiet_run_Some [simp]: "quiet_run (Some (out, s)) \<longleftrightarrow> Destroy \<notin> set out"
  by (simp add: quiet_run_def)

lemma quiet_bind:
  assumes "quiet_run m" and "\<And>out s. Destroy \<notin> set out \<Longrightarrow> quiet_run (f (out, s))"
  shows "quiet_run (Option.bind m f)"
  using assms by (cases m) (auto simp: quiet_run_def)

lemma polled_toolI:
  assumes "\<And>s. quiet_run (tick s)"
  shows "polled_tool ev tick (\<lambda>_. True)"
proof (unfold_locales, goal_cases)
  case (2 s)
  show ?case using assms [of s] by (auto simp: quiet_run_def split: option.splits)
qed simp

lemma quiet_loop:
  assumes "\<exists>out s'. key_loop nxt body cur s = Some (out, s')" and "\<And>k s. Destroy \<notin> set (fst (body k s))"
  shows "quiet_run (key_loop nxt body cur s)"
proof -
  obtain out s' where l: "key_loop nxt body cur s = Some (out, s')" using assms(1) by blast
  from key_loop_out [OF this, where A = "- {Destroy}"] assms(2) have "Destroy \<notin> set out" by blast
  then show ?thesis by (simp add: l)
qed

lemma quiet_visit:
  assumes "\<And>k s. Destroy \<notin> set (fst (body k s))"
  shows "Destroy \<notin> set (fst (visit body ks s))"
  using visit_out [of body "- {Destroy}" ks s] assms by blast

lemma quiet_prefetch:
  assumes "drain_report ops keys cap getm body report" and "\<And>k s. Destroy \<notin> set (fst (body k s))"
  shows "quiet_run (prefetch_loop (\<lambda>s. next_key ops (getm s)) body (next_key ops (getm s) None) s)"
proof -
  have "bpf_map ops keys cap" using assms(1) by (simp add: drain_report_def bpf_hash_def)
  then have "next_key ops (getm s) None = first_key (keys (getm s))" by (simp add: bpf_map.next_key_order)
  then have "prefetch_loop (\<lambda>s. next_key ops (getm s)) body (next_key ops (getm s) None) s =
      Some (visit body (keys (getm s)) s)"
    using drain_report.prefetch_visits [OF assms(1) refl, of s] by simp
  then show ?thesis using quiet_visit [of body, OF assms(2)] by (metis prod.collapse quiet_run_Some)
qed

lemma reading_returns:
  assumes "reading_walk ops keys cap getm body"
  shows "\<exists>out s'. key_loop (\<lambda>s. next_key ops (getm s)) body cur s = Some (out, s')"
  using reading_walk.loop_visits [OF assms] by (metis prod.collapse)

lemma effects_quiet [simp]: "out_kv k v \<noteq> Destroy" "Destroy \<noteq> out_kv k v" "err_line e \<noteq> Destroy" "Destroy \<noteq> err_line e"
    "json_line n c \<noteq> Destroy" "Destroy \<noteq> json_line n c"
  by (simp_all add: out_kv_def err_line_def json_line_def)

subsection \<open>Every tool is a polled tool\<close>

lemmas quiet_steps = quiet_bind quiet_loop

sublocale tcp_connect \<subseteq> life: polled_tool "tcp_connect_event ops nops" "print_and_clear_stats ops" "\<lambda>_. True"
  by (rule polled_toolI) (auto simp: print_and_clear_stats_def tcp_connect_body_def split: option.splits
      intro!: quiet_steps cd.drain_returns)

sublocale tcp_retransmit \<subseteq> life: polled_tool ev "tcp_retransmit_tick ops nops aops" "\<lambda>_. True"
  by (rule polled_toolI) (auto simp: tcp_retransmit_tick_def retrans_total_def Let_def retrans_pid_body_def
      retrans_comm_body_def split: option.splits intro!: quiet_steps pd.drain_returns nd.drain_returns)

sublocale mem_oom \<subseteq> life: polled_tool ev "mem_oom_tick ops aops" "\<lambda>_. True"
  by (rule polled_toolI) (auto simp: mem_oom_tick_def oom_total_def Let_def oom_victim_body_def
      split: option.splits intro!: quiet_steps vd.drain_returns)

sublocale file_open \<subseteq> life: polled_tool ev "file_open_tick ops nops" "\<lambda>_. True"
  by (rule polled_toolI) (auto simp: file_open_tick_def open_body_def open_fail_body_def open_comm_body_def
      split: option.splits intro!: quiet_steps od.drain_returns fd.drain_returns nd.drain_returns)

sublocale page_fault \<subseteq> life: polled_tool "page_fault_event ops nops" "page_fault_tick ops" "\<lambda>_. True"
  by (rule polled_toolI) (auto simp: page_fault_tick_def page_fault_body_def split: option.splits
      intro!: quiet_bind quiet_prefetch [OF rep.drain_report_axioms])

sublocale socket_stat \<subseteq> life: polled_tool ev "socket_print_and_clear fops ops" "\<lambda>_. True"
  by (rule polled_toolI) (auto simp: socket_print_and_clear_def family_body_def socket_pid_body_def
      split: option.splits intro!: quiet_steps fd.drain_returns pd.drain_returns)

sublocale udp_stat \<subseteq> life: polled_tool ev "udp_stat_tick ops aops" "\<lambda>_. True"
  by (rule polled_toolI) (auto simp: udp_stat_tick_def udp_send_body_def udp_recv_body_def udp_bytes_body_def
      udp_totals_def Let_def split: option.splits intro!: quiet_steps sd.drain_returns rd.drain_returns bd.drain_returns)

lemma io_size_lines_quiet: "Destroy \<notin> set (io_size_lines d)"
  unfolding io_size_lines_def Let_def by simp

lemma io_size_body_quiet: "Destroy \<notin> set (fst (io_size_body ops k s))"
  by (simp add: io_size_body_def split: option.split)

sublocale io_size \<subseteq> life: polled_tool "io_size_event ops aops" "io_size_tick ops aops" "\<lambda>_. True"
proof (rule polled_toolI)
  fix s
  show "quiet_run (io_size_tick ops aops s)"
    unfolding io_size_tick_def Let_def
    by (rule quiet_bind, rule quiet_loop [OF cd.drain_returns io_size_body_quiet])
      (simp only: split_conv quiet_run_Some set_append Un_iff io_size_lines_quiet, simp)
qed

lemma print_entries_quiet: "print_entries i others es = (out, n) \<Longrightarrow> Destroy \<notin> set out"
  by (induction i others es arbitrary: out n rule: print_entries.induct)
    (auto simp: Let_def split: prod.splits if_splits)

sublocale irq_stat \<subseteq> life: polled_tool "irq_stat_event ops" "irq_stat_tick srt ops" "\<lambda>_. True" for srt
proof (rule polled_toolI)
  fix s
  show "quiet_run (irq_stat_tick srt ops s)"
    unfolding irq_stat_tick_def Let_def
    by (rule quiet_bind, rule quiet_loop [OF rep.drain_returns])
      (use print_entries_quiet in \<open>force simp: irq_stat_body_def Let_def split: option.splits prod.splits\<close>)+
qed

text \<open>The tools that only read their maps.\<close>

sublocale run_delay_tool \<subseteq> life: polled_tool "run_delay_event ops" "run_delay_tick ops" "\<lambda>_. True"
proof (rule polled_toolI)
  fix s
  have "reading_walk ops keys cap run_delay (run_delay_body ops)"
    by unfold_locales (simp add: run_delay_body_def Let_def split: option.split)
  then show "quiet_run (run_delay_tick ops s)" unfolding run_delay_tick_def
    by (intro quiet_bind quiet_loop reading_returns) (auto simp: run_delay_body_def Let_def split: option.splits)
qed

sublocale cpu_usage \<subseteq> life: polled_tool "cpu_usage_event ops aops" "cpu_usage_tick ops aops" "\<lambda>_. True"
proof (rule polled_toolI)
  fix s
  have "reading_walk ops keys cap cpu_time (cpu_time_body ops)"
    by unfold_locales (simp add: cpu_time_body_def Let_def split: option.split)
  moreover have "Destroy \<notin> set out" if "visit (cpu_busy_body aops) ks t = (out, t')" for ks out and t t' :: "('m, 'a) cpu_usage_maps"
    using quiet_visit [of "cpu_busy_body aops" ks t] that by (simp add: cpu_busy_body_def Let_def split: option.split)
  ultimately show "quiet_run (cpu_usage_tick ops aops s)" unfolding cpu_usage_tick_def
    by (intro quiet_bind quiet_loop reading_returns) (auto simp: cpu_time_body_def Let_def split: option.splits prod.splits)
qed

sublocale fsync_tool \<subseteq> life: polled_tool "fsync_event ops aops" "fsync_tick ops aops" "\<lambda>_. True"
  by (rule polled_toolI) (auto simp: fsync_tick_def fsync_body_def Let_def split: option.splits
      intro!: quiet_steps reading_returns [OF rep.rd.reading_walk_axioms])

sublocale page_swap \<subseteq> life: polled_tool "page_swap_event ops" "page_swap_tick ops" "\<lambda>_. True"
proof (rule polled_toolI)
  fix s
  have "reading_walk ops keys cap total_delay (page_swap_body ops)"
    by unfold_locales (simp add: page_swap_body_def Let_def split: option.split)
  then show "quiet_run (page_swap_tick ops s)" unfolding page_swap_tick_def
    by (intro quiet_loop reading_returns) (auto simp: page_swap_body_def Let_def split: option.splits)
qed

sublocale write_stat \<subseteq> life: polled_tool "write_stat_event ops" "write_stat_tick ops" "\<lambda>_. True"
  by (rule polled_toolI) (auto simp: write_stat_tick_def write_stat_body_def split: option.splits
      intro!: quiet_steps reading_returns [OF rep.rd.reading_walk_axioms])

sublocale read_stat \<subseteq> life: polled_tool "read_stat_event ops" "read_stat_tick ops" "\<lambda>_. True"
proof (rule polled_toolI)
  fix s
  have "Destroy \<notin> set out" if "visit (read_stat_body ops) ks t = (out, t')" for ks out and t t' :: "'m read_stat_maps"
    using quiet_visit [of "read_stat_body ops" ks t] that by (simp add: read_stat_body_def split: option.split)
  then show "quiet_run (read_stat_tick ops s)" by (auto simp: read_stat_tick_def Let_def split: prod.splits)
qed

lemma cpu_freq_polled: "polled_tool (cpu_freq_event ops) (cpu_freq_tick ops) (\<lambda>_. True)"
proof (rule polled_toolI)
  fix s
  have "Destroy \<notin> set out" if "visit (cpu_freq_body ops) ks t = (out, t')" for ks out t t'
    using quiet_visit [of "cpu_freq_body ops" ks t] that by (simp add: cpu_freq_body_def split: option.split)
  then show "quiet_run (cpu_freq_tick ops s)" by (auto simp: cpu_freq_tick_def Let_def split: prod.splits)
qed

lemma io_sched_polled: "polled_tool (io_sched_event ops pops aops) (io_sched_tick aops) (\<lambda>_. True)"
  by (rule polled_toolI) (simp add: io_sched_tick_def Let_def)

interpretation cf_life: polled_tool "cpu_freq_event array_ops" "cpu_freq_tick array_ops" "\<lambda>_. True"
  by (rule cpu_freq_polled)

interpretation is_life: polled_tool "io_sched_event (hash_ops r) (hash_ops r) array_ops" "io_sched_tick array_ops" "\<lambda>_. True"
  by (rule io_sched_polled)

lemma disk_read_polled: "polled_tool (disk_read_event ops sops) (disk_read_tick sops) (\<lambda>_. True)"
  by (rule polled_toolI) (auto simp: disk_read_tick_def read_key_error_def Let_def)

lemma disk_write_polled: "polled_tool (disk_write_event ops sops) (\<lambda>s. Some (print_incremental_stats sops s)) (\<lambda>_. True)"
  by (rule polled_toolI) (auto simp: print_incremental_stats_def key_failed_def Let_def)

subsection \<open>What a clean run is\<close>

text \<open>The outcome of a loader that installs both handlers: \<open>opened\<close> and \<open>attached\<close> say how its start went
  and with which code it reports a failure to attach.\<close>

definition clean_run :: "bool \<Rightarrow> bool \<Rightarrow> int \<Rightarrow> 'e env \<Rightarrow> (status \<times> effect list \<times> 's) option \<Rightarrow> bool" where
  "clean_run opened attached code env r =
     (case r of
        None \<Rightarrow> False
      | Some (st, out, s') \<Rightarrow>
          if \<not> opened then st = Exited 1 \<and> Destroy \<notin> set out
          else if \<not> attached then st = Exited code \<and> last out = Destroy \<and> count_list out Destroy = 1
          else if early_sig env = None \<and> sig_free (rounds env) then st = Running \<and> Destroy \<notin> set out
          else st = Exited 0 \<and> last out = Destroy \<and> count_list out Destroy = 1)"

context polled_tool
begin

lemma monitor_clean:
  assumes "inv s0" and "Destroy \<notin> set banner" and "Destroy \<notin> set e1" and "last e2 = Destroy" and "count_list e2 Destroy = 1"
    and "loop = loop_sleep_first n [SIGINT, SIGTERM] ev tick \<or> loop = loop_sleep_last n [SIGINT, SIGTERM] ev tick"
  shows "clean_run opened attached code env
    (if \<not> opened then Some (Exited 1, e1, s)
     else if \<not> attached then Some (Exited code, e2, s')
     else monitor banner [SIGINT, SIGTERM] loop env s0)"
  using monitor_clean_exit [OF assms(1) _ assms(2,6), of env] assms(3-5)
  by (auto simp: clean_run_def split: if_splits)

lemmas main_clean_first = monitor_clean [OF _ _ _ _ _ disjI1 [OF refl]]
lemmas main_clean_last = monitor_clean [OF _ _ _ _ _ disjI2 [OF refl]]

text \<open>The first signal decides.\<close>

lemma first_signal:
  assumes "inv s" and "sig_free rs1" and "sig_at r = Some g"
  shows "\<exists>out s'. loop_sleep_first n H ev tick (rs1 @ r # rs2) s =
    Some (if g \<in> set H then Stopped else KilledIn g, out, s') \<and> Destroy \<notin> set out"
  using assms(1,2)
proof (induction rs1 arbitrary: s)
  case Nil
  obtain out s' where "tick (fold ev (during r) s) = Some (out, s')" "Destroy \<notin> set out"
    using tickE [OF events_inv [OF Nil(1)]] by metis
  then show ?case using assms(3) by simp
next
  case (Cons q rs1)
  obtain out s' where t: "tick (fold ev (during q) s) = Some (out, s')" "inv s'" "Destroy \<notin> set out"
    using tickE [OF events_inv [OF Cons.prems(1)]] .
  from Cons.IH [OF t(2)] Cons.prems(2) t show ?case by (auto simp: sig_free_def)
qed

lemma no_handler_never_releases:
  assumes "inv s" and "Destroy \<notin> set banner"
    and "loop = loop_sleep_first n [] ev tick \<or> loop = loop_sleep_last n [] ev tick"
  shows "\<exists>st out s'. monitor banner [] loop env s = Some (st, out, s') \<and> Destroy \<notin> set out \<and> (\<forall>c. st \<noteq> Exited c)"
  using monitor_no_handler [OF assms, of env] by blast

end

subsection \<open>The loaders\<close>

context tcp_connect
begin

lemma loader_clean:
  "clean_run (skel_opened env) (attach_err env = 0) (attach_err env) env (tcp_connect_main ops nops env s)"
  unfolding tcp_connect_main_def by (rule life.main_clean_first) simp_all

end

context tcp_retransmit
begin

lemma loader_clean:
  "clean_run (skel_opened env) (attach_err env = 0) (attach_err env) env (tcp_retransmit_main ops nops aops env s)"
  unfolding tcp_retransmit_main_def by (rule life.main_clean_first) simp_all

end

context mem_oom
begin

lemma loader_clean:
  "clean_run (skel_opened env) (attach_err env = 0) (attach_err env) env (mem_oom_main ops aops env s)"
  unfolding mem_oom_main_def by (rule life.main_clean_first) simp_all

end

context file_open
begin

lemma loader_clean:
  "clean_run (skel_opened env) (attach_err env = 0) (attach_err env) env (file_open_main ops nops env s)"
  unfolding file_open_main_def by (rule life.main_clean_first) simp_all

end

context udp_stat
begin

lemma loader_clean:
  "clean_run (skel_opened env) (attach_err env = 0) (attach_err env) env (udp_stat_main ops aops env s)"
  unfolding udp_stat_main_def by (rule life.main_clean_first) simp_all

end

context page_fault
begin

lemma loader_clean:
  "clean_run (skel_opened env) (attach_err env = 0) (attach_err env) env (page_fault_main ops nops env s)"
  unfolding page_fault_main_def by (rule life.main_clean_last) simp_all

end

context io_size
begin

lemma loader_clean:
  "clean_run (skel_opened env) (attach_err env = 0) (attach_err env) env (io_size_main ops aops env s)"
  unfolding io_size_main_def by (rule life.main_clean_first) simp_all

end

context irq_stat
begin

lemma loader_clean:
  "clean_run (skel_opened env) (attach_err env = 0) (attach_err env) env (irq_stat_main srt ops env s)"
  unfolding irq_stat_main_def by (rule life.main_clean_first) simp_all

end

context run_delay_tool
begin

lemma loader_clean:
  "clean_run (skel_opened env) (attach_err env = 0) (attach_err env) env (run_delay_main ops env s)"
  unfolding run_delay_main_def by (rule life.main_clean_first) simp_all

end

context cpu_usage
begin

lemma loader_clean:
  "clean_run (skel_opened env) (attach_err env = 0) (attach_err env) env (cpu_usage_main ops aops env s)"
  unfolding cpu_usage_main_def by (rule life.main_clean_first) simp_all

end

context fsync_tool
begin

lemma loader_clean:
  "clean_run (skel_opened env) (attach_err env = 0) (attach_err env) env (fsync_main ops aops env s)"
  unfolding fsync_main_def by (rule life.main_clean_first) simp_all

end

context read_stat
begin

lemma loader_endless:
  assumes "skel_opened env" and "load_err env = 0" and "attach_err env = 0"
  shows "\<exists>st out s'. read_stat_main ops True env s = Some (st, out, s') \<and> Destroy \<notin> set out \<and> (\<forall>c. st \<noteq> Exited c)"
proof -
  let ?loop = "loop_sleep_first 1 [] (read_stat_event ops) (read_stat_tick ops)"
  obtain m where main: "read_stat_main ops True env s = monitor [err_line m] [] ?loop env s"
    using assms by (simp add: read_stat_main_def)
  show ?thesis unfolding main by (rule life.no_handler_never_releases [OF TrueI _ disjI1 [OF refl]]) simp
qed

end

context write_stat
begin

lemma loader_endless:
  assumes "skel_opened env" and "load_err env = 0" and "attach_err env = 0"
  shows "\<exists>st out s'. write_stat_main ops env s = Some (st, out, s') \<and> Destroy \<notin> set out \<and> (\<forall>c. st \<noteq> Exited c)"
proof -
  let ?loop = "loop_sleep_last 1 [] (write_stat_event ops) (write_stat_tick ops)"
  obtain m where main: "write_stat_main ops env s = monitor [err_line m] [] ?loop env s"
    using assms by (simp add: write_stat_main_def)
  show ?thesis unfolding main by (rule life.no_handler_never_releases [OF TrueI _ disjI2 [OF refl]]) simp
qed

end

context page_swap
begin

lemma loader_endless:
  assumes "skel_opened env" and "load_err env = 0" and "attach_err env = 0"
  shows "\<exists>st out s'. page_swap_main ops env s = Some (st, out, s') \<and> Destroy \<notin> set out \<and> (\<forall>c. st \<noteq> Exited c)"
proof -
  let ?loop = "loop_sleep_last 1 [] (page_swap_event ops) (page_swap_tick ops)"
  obtain m where main: "page_swap_main ops env s = monitor [err_line m] [] ?loop env s"
    using assms by (simp add: page_swap_main_def)
  show ?thesis unfolding main by (rule life.no_handler_never_releases [OF TrueI _ disjI2 [OF refl]]) simp
qed

end

context socket_stat
begin

lemma loader_first_signal:
  assumes "skel_opened env" and "attach_err env = 0" and "early_sig env = None"
    and "rounds env = rs1 @ r # rs2" and "sig_free rs1" and "sig_at r = Some g"
  shows "\<exists>out s'. socket_stat_main fops ops xops nops env s =
    Some (if g = SIGINT then (Exited 0, out @ [Destroy], s') else (Killed g, out, s')) \<and> Destroy \<notin> set out"
  using life.first_signal [OF TrueI assms(5,6), of 2 "[SIGINT]" rs2 s] assms(1-4)
  by (auto simp: socket_stat_main_def monitor_def)

end

lemma loaders_clean_arrays:
  "clean_run (skel_opened e1) (attach_err e1 = 0) (attach_err e1) e1 (cpu_freq_main fops e1 s1)"
  "clean_run (skel_opened e2) (attach_err e2 = 0) (attach_err e2) e2 (io_sched_main ops pops aops e2 s2)"
  "clean_run (skel_opened e3) (links ! 0 \<and> links ! 1 \<and> links ! 2 \<and> links ! 3) 1 e3 (disk_read_main kops sops links e3 s3)"
  "clean_run (skel_opened e4) (links ! 0 \<and> links ! 1 \<and> links ! 2 \<and> links ! 3) 1 e4 (disk_write_main kops sops links e4 s4)"
  unfolding cpu_freq_main_def io_sched_main_def disk_read_main_def disk_write_main_def
  by (rule polled_tool.main_clean_first [OF cpu_freq_polled] polled_tool.main_clean_first [OF io_sched_polled]
      polled_tool.main_clean_last [OF disk_read_polled] polled_tool.main_clean_last [OF disk_write_polled]; simp)+

subsection \<open>Properties\<close>

text \<open>C18: the eight loaders that print and delete the entries of hash maps (tcp_connect,
  net_tcp_retransmit, mem_oom_stat, file_open_stat, net_udp_stat, page_fault_stat, disk_io_size,
  irq_stat) return over lawful maps, whatever the kernel events, the signals and the answers of libbpf:
  with 1 and nothing to release if the skeleton does not open, with the error code and the skeleton
  released once if the programs do not attach, and otherwise, as soon as a signal arrives, with 0,
  having released the skeleton exactly once, as the last effect. They are never killed.\<close>

theorem draining_loaders_exit_clean:
  assumes "bpf_hash cops ckeys ccap" and "bpf_hash nops nkeys ncap" and "bpf_hash ops keys cap"
    and "bpf_hash iops ikeys icap" and "bpf_hash qops qkeys qcap" and "bpf_array aops akeys acap"
  shows "clean_run (skel_opened e1) (attach_err e1 = 0) (attach_err e1) e1 (tcp_connect_main cops nops e1 s1)
    \<and> clean_run (skel_opened e2) (attach_err e2 = 0) (attach_err e2) e2 (tcp_retransmit_main cops nops aops e2 s2)
    \<and> clean_run (skel_opened e3) (attach_err e3 = 0) (attach_err e3) e3 (mem_oom_main cops aops e3 s3)
    \<and> clean_run (skel_opened e4) (attach_err e4 = 0) (attach_err e4) e4 (file_open_main ops nops e4 s4)
    \<and> clean_run (skel_opened e5) (attach_err e5 = 0) (attach_err e5) e5 (udp_stat_main ops aops e5 s5)
    \<and> clean_run (skel_opened e6) (attach_err e6 = 0) (attach_err e6) e6 (page_fault_main cops nops e6 s6)
    \<and> clean_run (skel_opened e7) (attach_err e7 = 0) (attach_err e7) e7 (io_size_main qops aops e7 s7)
    \<and> clean_run (skel_opened e8) (attach_err e8 = 0) (attach_err e8) e8 (irq_stat_main srt iops e8 s8)"
proof -
  note ca = counter_array.intro [OF assms(6)]
  show ?thesis
    by (intro conjI tcp_connect.loader_clean [OF tcp_connect.intro [OF assms(1,2)]]
        tcp_retransmit.loader_clean [OF tcp_retransmit.intro [OF assms(1,2) ca]]
        mem_oom.loader_clean [OF mem_oom.intro [OF assms(1) ca]]
        file_open.loader_clean [OF file_open.intro [OF assms(3,2)]]
        udp_stat.loader_clean [OF udp_stat.intro [OF assms(3,6)]]
        page_fault.loader_clean [OF page_fault.intro [OF assms(1,2)]]
        io_size.loader_clean [OF io_size.intro [OF assms(5) ca]]
        irq_stat.loader_clean [OF irq_stat.intro [OF assms(4)]])
qed

text \<open>An environment in which everything succeeds and SIGTERM arrives in the second round.\<close>

definition demo_env :: "'e list \<Rightarrow> 'e env" where
  "demo_env es = \<lparr>skel_opened = True, load_err = 0, attach_err = 0, early_sig = None,
     rounds = [\<lparr>during = es, sig_at = None\<rparr>, \<lparr>during = [], sig_at = Some SIGTERM\<rparr>]\<rparr>"

lemma demo_env_fields:
  "skel_opened (demo_env es)" "load_err (demo_env es) = 0" "attach_err (demo_env es) = 0" "early_sig (demo_env es) = None"
  "rounds (demo_env es) = [\<lparr>during = es, sig_at = None\<rparr>, \<lparr>during = [], sig_at = Some SIGTERM\<rparr>]"
  by (simp_all add: demo_env_def)

theorem draining_loaders_exit_clean_witness:
  "clean_run True True 0 (demo_env conn_demo) (tcp_connect_main (hash_ops False) (hash_ops False) (demo_env conn_demo) conn_init)
   \<and> clean_run True True 0 (demo_env open_demo) (file_open_main (hash_ops False) (hash_ops False) (demo_env open_demo) open_init)"
proof -
  note th = draining_loaders_exit_clean [OF hm.bpf_hash_axioms hm.bpf_hash_axioms hm.bpf_hash_axioms hm.bpf_hash_axioms
      hm.bpf_hash_axioms ar.bpf_array_axioms]
  show ?thesis
    using th [THEN conjunct1, of "demo_env conn_demo" False False conn_init]
      th [THEN conjunct2, THEN conjunct2, THEN conjunct2, THEN conjunct1, of "demo_env open_demo" False False open_init]
    by (simp add: demo_env_fields)
qed

text \<open>C28: the same for the seven loaders that only read their maps (cpu_run_delay, cpu_usage,
  file_fsync_stat, cpu_freq_stat, disk_io_sched, and disk_read_delay and disk_write_delay, which attach
  four probes one by one and exit with 1 when any of them failed).\<close>

theorem sampling_loaders_exit_clean:
  assumes "bpf_hash ops keys cap" and "bpf_array aops akeys acap"
  shows "clean_run (skel_opened e1) (attach_err e1 = 0) (attach_err e1) e1 (run_delay_main ops e1 s1)
    \<and> clean_run (skel_opened e2) (attach_err e2 = 0) (attach_err e2) e2 (cpu_usage_main ops aops e2 s2)
    \<and> clean_run (skel_opened e3) (attach_err e3 = 0) (attach_err e3) e3 (fsync_main ops aops e3 s3)
    \<and> clean_run (skel_opened e4) (attach_err e4 = 0) (attach_err e4) e4 (cpu_freq_main fops e4 s4)
    \<and> clean_run (skel_opened e5) (attach_err e5 = 0) (attach_err e5) e5 (io_sched_main kops pops aops e5 s5)
    \<and> clean_run (skel_opened e6) (links ! 0 \<and> links ! 1 \<and> links ! 2 \<and> links ! 3) 1 e6 (disk_read_main kops sops links e6 s6)
    \<and> clean_run (skel_opened e7) (links ! 0 \<and> links ! 1 \<and> links ! 2 \<and> links ! 3) 1 e7 (disk_write_main kops sops links e7 s7)"
  by (intro conjI loaders_clean_arrays run_delay_tool.loader_clean [OF run_delay_tool.intro [OF assms(1)]]
      cpu_usage.loader_clean [OF cpu_usage.intro [OF assms(1) counter_array.intro [OF assms(2)]]]
      fsync_tool.loader_clean [OF fsync_tool.intro [OF assms]])

theorem sampling_loaders_exit_clean_witness:
  "clean_run True True 0 (demo_env switch_demo) (cpu_usage_main (hash_ops False) array_ops (demo_env switch_demo) usage_init)
   \<and> clean_run True True 0 (demo_env fsync_demo) (fsync_main (hash_ops False) array_ops (demo_env fsync_demo) fsync_init)"
proof -
  note th = sampling_loaders_exit_clean [OF hm.bpf_hash_axioms ar.bpf_array_axioms]
  show ?thesis
    using th [THEN conjunct2, THEN conjunct1, of "demo_env switch_demo" False usage_init]
      th [THEN conjunct2, THEN conjunct2, THEN conjunct1, of "demo_env fsync_demo" False fsync_init]
    by (simp add: demo_env_fields)
qed

text \<open>C36: read_stat, write_stat and page_swap_stat install no signal handler and loop on \<open>while (1)\<close>:
  once they are attached, no sequence of events and signals makes them reach the release of the
  skeleton after the loop. They run on or are killed, and never exit.\<close>

theorem loaders_without_handler_never_release:
  assumes "bpf_hash ops keys cap"
    and "skel_opened e" and "load_err e = 0" and "attach_err e = 0"
    and "skel_opened f" and "load_err f = 0" and "attach_err f = 0"
  shows "(\<exists>st out s'. read_stat_main ops True e s1 = Some (st, out, s') \<and> Destroy \<notin> set out \<and> (\<forall>c. st \<noteq> Exited c))
    \<and> (\<exists>st out s'. write_stat_main ops e s2 = Some (st, out, s') \<and> Destroy \<notin> set out \<and> (\<forall>c. st \<noteq> Exited c))
    \<and> (\<exists>st out s'. page_swap_main ops f s3 = Some (st, out, s') \<and> Destroy \<notin> set out \<and> (\<forall>c. st \<noteq> Exited c))"
  by (intro conjI read_stat.loader_endless [OF read_stat.intro [OF assms(1)]] assms
      write_stat.loader_endless [OF write_stat.intro [OF assms(1)]] page_swap.loader_endless [OF page_swap.intro [OF assms(1)]])

theorem loaders_without_handler_never_release_witness:
  "\<exists>st out s'. page_swap_main (hash_ops False) (demo_env swap_demo) swap_start = Some (st, out, s') \<and> Destroy \<notin> set out
     \<and> (\<forall>c. st \<noteq> Exited c)"
  using loaders_without_handler_never_release [OF hm.bpf_hash_axioms demo_env_fields(1-3) demo_env_fields(1-3),
      THEN conjunct2, THEN conjunct2, of False swap_demo swap_start] .

text \<open>The loader of socket_stat handles SIGINT only. The first signal decides: after SIGINT it finishes the
  iteration, releases the skeleton and exits with 0; SIGTERM kills it and the skeleton is not released.\<close>

theorem socket_stat_first_signal:
  assumes "bpf_hash fops fkeys fcap" and "bpf_hash ops keys cap" and "bpf_hash xops xkeys xcap" and "bpf_hash nops nkeys ncap"
    and "skel_opened env" and "attach_err env = 0" and "early_sig env = None"
    and "rounds env = rs1 @ r # rs2" and "sig_free rs1" and "sig_at r = Some g"
  shows "\<exists>out s'. socket_stat_main fops ops xops nops env s =
    Some (if g = SIGINT then (Exited 0, out @ [Destroy], s') else (Killed g, out, s')) \<and> Destroy \<notin> set out"
  by (rule socket_stat.loader_first_signal [OF socket_stat.intro [OF assms(1-4)] assms(5-10)])

theorem socket_stat_first_signal_witness:
  "\<exists>out s'. socket_stat_main (hash_ops False) (hash_ops False) (hash_ops False) (hash_ops False) (demo_env sock_demo) sock_init =
     Some (Killed SIGTERM, out, s') \<and> Destroy \<notin> set out"
  using socket_stat_first_signal [OF hm.bpf_hash_axioms hm.bpf_hash_axioms hm.bpf_hash_axioms hm.bpf_hash_axioms
      demo_env_fields(1,3,4), of sock_demo "[\<lparr>during = sock_demo, sig_at = None\<rparr>]" "\<lparr>during = [], sig_at = Some SIGTERM\<rparr>" "[]"
      SIGTERM False False False False sock_init]
  by (simp add: demo_env_fields sig_free_def)

end
