(* ===== verification/WholeRun.thy ===== *)
theory WholeRun
  imports Lifecycle
begin

section \<open>Whole runs: what a loader reports from start to exit\<close>

text \<open>
  The theories of the tools say what one iteration prints, theory \<open>Lifecycle\<close> how a loader ends. Here the
  two are put together. \<open>chronicled_tool\<close> is the contract of one iteration with the events of all earlier
  intervals as a history \<open>hs\<close>: from a state that is \<open>ready\<close> for \<open>hs\<close>, after acceptable events \<open>es\<close>, the
  iteration returns, prints what \<open>reports hs es\<close> allows and is ready for \<open>hs @ es\<close>. From it follows what a
  whole run prints, for both shapes of the main loop: with the sleep first, every interval is reported by
  the iteration after it, the last one included; with the sleep last, the first iteration reports
  nothing new and the events of the interval in which the signal arrives are never reported.
  \<open>reporting_tool\<close> is the special case of a tool that starts every interval afresh.
  Shown here for tcp_connect, through to its exit, and for read_stat, which has no handler and runs on; the
  theories \<open>CountSessions\<close> and \<open>TimeSessions\<close> have the other tools.
\<close>

text \<open>The outputs of successive iterations, each judged with the events of its interval and of all before.\<close>

primrec chronicle :: "('e list \<Rightarrow> 'e list \<Rightarrow> 'o \<Rightarrow> bool) \<Rightarrow> 'e list \<Rightarrow> 'e list list \<Rightarrow> 'o list \<Rightarrow> bool" where
  "chronicle R hs [] outs \<longleftrightarrow> outs = []"
| "chronicle R hs (es # ess) outs \<longleftrightarrow> (\<exists>out outs'. outs = out # outs' \<and> R hs es out \<and> chronicle R (hs @ es) ess outs')"

text \<open>The same for a condition on the events alone.\<close>

primrec along :: "('e list \<Rightarrow> 'e list \<Rightarrow> bool) \<Rightarrow> 'e list \<Rightarrow> 'e list list \<Rightarrow> bool" where
  "along F hs [] \<longleftrightarrow> True"
| "along F hs (es # ess) \<longleftrightarrow> F hs es \<and> along F (hs @ es) ess"

lemma chronicle_append:
  "chronicle R hs (ess @ fss) outs \<longleftrightarrow>
     (\<exists>outs1 outs2. outs = outs1 @ outs2 \<and> chronicle R hs ess outs1 \<and> chronicle R (hs @ concat ess) fss outs2)"
proof (induction ess arbitrary: hs outs)
  case (Cons es ess)
  show ?case by (auto simp: Cons.IH) (metis append_Cons)+
qed simp

lemma chronicle_snoc:
  "chronicle R hs ess outs \<Longrightarrow> R (hs @ concat ess) es out \<Longrightarrow> chronicle R hs (ess @ [es]) (outs @ [out])"
  unfolding chronicle_append by (intro exI [of _ outs] exI [of _ "[out]"]) simp

lemma along_append: "along F hs (ess @ fss) \<longleftrightarrow> along F hs ess \<and> along F (hs @ concat ess) fss"
  by (induction ess arbitrary: hs) simp_all

lemma chronicle_free: "chronicle (\<lambda>_. R) hs ess outs \<longleftrightarrow> list_all2 R ess outs"
  by (induction ess arbitrary: hs outs) (auto simp: list_all2_Cons1)

lemma along_free: "along (\<lambda>_. F) hs ess \<longleftrightarrow> (\<forall>es \<in> set ess. F es)"
  by (induction ess arbitrary: hs) simp_all

text \<open>The skeleton opens, loads and attaches, and the first signal, \<open>g\<close>, arrives in the last of the sleeps whose
  events are \<open>ess\<close>.\<close>

definition runs_until :: "'e env \<Rightarrow> signal \<Rightarrow> 'e list list \<Rightarrow> bool" where
  "runs_until env g ess \<longleftrightarrow> skel_opened env \<and> load_err env = 0 \<and> attach_err env = 0 \<and> early_sig env = None \<and>
     (\<exists>rs q qs. rounds env = rs @ q # qs \<and> sig_free rs \<and> sig_at q = Some g \<and> ess = map during (rs @ [q]))"

text \<open>The same, and no signal arrives in the rounds given.\<close>

definition runs_on :: "'e env \<Rightarrow> 'e list list \<Rightarrow> bool" where
  "runs_on env ess \<longleftrightarrow> skel_opened env \<and> load_err env = 0 \<and> attach_err env = 0 \<and> early_sig env = None \<and>
     sig_free (rounds env) \<and> ess = map during (rounds env)"

lemma runs_until_starts:
  "runs_until env g ess \<Longrightarrow> skel_opened env \<and> load_err env = 0 \<and> attach_err env = 0 \<and> ess \<noteq> []"
  by (auto simp: runs_until_def)

lemma runs_on_starts: "runs_on env ess \<Longrightarrow> skel_opened env \<and> load_err env = 0 \<and> attach_err env = 0"
  by (simp add: runs_on_def)

lemma signal_handled: "g \<in> set [SIGINT, SIGTERM]"
  by (cases g) simp_all

text \<open>A loop that is still running goes on with the next rounds.\<close>

lemma loop_first_append:
  "loop_sleep_first n H ev tick rs s = Some (Ongoing, out, s1) \<Longrightarrow>
     loop_sleep_first n H ev tick (rs @ qs) s =
       Option.bind (loop_sleep_first n H ev tick qs s1) (\<lambda>(e, out', s'). Some (e, out @ out', s'))"
proof (induction rs arbitrary: s out)
  case Nil
  then show ?case by (cases "loop_sleep_first n H ev tick qs s") auto
next
  case (Cons r rs)
  then show ?case
    by (cases "sig_at r"; cases "loop_sleep_first n H ev tick qs s1")
      (fastforce simp: Let_def split: bind_splits if_splits)+
qed

lemma loop_last_append:
  "loop_sleep_last n H ev tick rs s = Some (Ongoing, out, s1) \<Longrightarrow>
     loop_sleep_last n H ev tick (rs @ qs) s =
       Option.bind (loop_sleep_last n H ev tick qs s1) (\<lambda>(e, out', s'). Some (e, out @ out', s'))"
proof (induction rs arbitrary: s out)
  case Nil
  then show ?case by (cases "loop_sleep_last n H ev tick qs s") auto
next
  case (Cons r rs)
  then show ?case
    by (cases "sig_at r"; cases "loop_sleep_last n H ev tick qs s1")
      (fastforce simp: Let_def split: bind_splits if_splits)+
qed

locale chronicled_tool =
  fixes ev :: "'e \<Rightarrow> 's \<Rightarrow> 's" and tick :: "('s, effect) tick"
    and ready :: "'e list \<Rightarrow> 's \<Rightarrow> bool" and fine :: "'e list \<Rightarrow> 'e list \<Rightarrow> bool"
    and reports :: "'e list \<Rightarrow> 'e list \<Rightarrow> effect list \<Rightarrow> bool"
  assumes tick_chron: "ready hs s \<Longrightarrow> fine hs es \<Longrightarrow>
    \<exists>out s'. tick (fold ev es s) = Some (out, s') \<and> reports hs es out \<and> ready (hs @ es) s'"
begin

lemma run_first:
  assumes "ready hs s" and "along fine hs (map during rs)" and "sig_free rs"
  shows "\<exists>outs s'. loop_sleep_first n H ev tick rs s = Some (Ongoing, concat (map (Cons (Sleep n)) outs), s')
    \<and> chronicle reports hs (map during rs) outs \<and> ready (hs @ concat (map during rs)) s'"
  using assms
proof (induction rs arbitrary: hs s)
  case Nil
  then show ?case by auto
next
  case (Cons r rs)
  obtain out s1 where t: "tick (fold ev (during r) s) = Some (out, s1)" "reports hs (during r) out" "ready (hs @ during r) s1"
    using tick_chron [OF Cons.prems(1), of "during r"] Cons.prems(2) by auto
  obtain outs s' where l: "loop_sleep_first n H ev tick rs s1 = Some (Ongoing, concat (map (Cons (Sleep n)) outs), s')"
      "chronicle reports (hs @ during r) (map during rs) outs" "ready ((hs @ during r) @ concat (map during rs)) s'"
    using Cons.IH [OF t(3)] Cons.prems(2,3) by (auto simp: sig_free_def)
  have "loop_sleep_first n H ev tick (r # rs) s = Some (Ongoing, concat (map (Cons (Sleep n)) (out # outs)), s')"
    using t(1) l(1) Cons.prems(3) by (simp add: sig_free_def)
  with t(2) l(2,3) show ?case
    by (intro exI [of _ "out # outs"] exI [of _ s']) simp
qed

text \<open>The whole program around the loop, up to the signal.\<close>

lemma session_first:
  assumes "ready [] s" and "runs_until env g ess" and "along fine [] ess" and "g \<in> set H"
  shows "\<exists>outs s'. monitor banner H (loop_sleep_first n H ev tick) env s =
      Some (Exited 0, banner @ concat (map (Cons (Sleep n)) outs) @ [Destroy], s')
    \<and> chronicle reports [] ess outs \<and> ready (concat ess) s'"
proof -
  obtain rs q qs where env: "early_sig env = None" "rounds env = rs @ q # qs" "sig_free rs" "sig_at q = Some g"
    and ess: "ess = map during (rs @ [q])" using assms(2) by (auto simp: runs_until_def)
  let ?hs = "concat (map during rs)"
  have fine: "along fine [] (map during rs)" "fine ?hs (during q)" using assms(3) by (simp_all add: ess along_append)
  obtain outs s1 where l: "loop_sleep_first n H ev tick rs s = Some (Ongoing, concat (map (Cons (Sleep n)) outs), s1)"
      "chronicle reports [] (map during rs) outs" "ready ?hs s1"
    using run_first [OF assms(1) fine(1) env(3), of n H] by auto
  obtain out s2 where t: "tick (fold ev (during q) s1) = Some (out, s2)" "reports ?hs (during q) out" "ready (?hs @ during q) s2"
    using tick_chron [OF l(3) fine(2)] by auto
  have "loop_sleep_first n H ev tick (q # qs) s1 = Some (Stopped, Sleep n # out, s2)" using t(1) env(4) assms(4) by simp
  then have "loop_sleep_first n H ev tick (rounds env) s =
      Some (Stopped, concat (map (Cons (Sleep n)) (outs @ [out])), s2)"
    unfolding env(2) loop_first_append [OF l(1)] by simp
  moreover have "chronicle reports [] ess (outs @ [out])"
    using chronicle_snoc [OF l(2), of "during q" out] t(2) by (simp add: ess)
  ultimately show ?thesis using env(1) t(3) unfolding ess by (intro exI [of _ "outs @ [out]"] exI [of _ s2]) (simp add: monitor_def)
qed

lemma session_open:
  assumes "ready [] s" and "runs_on env ess" and "along fine [] ess"
  shows "\<exists>outs s'. monitor banner H (loop_sleep_first n H ev tick) env s =
      Some (Running, banner @ concat (map (Cons (Sleep n)) outs), s')
    \<and> chronicle reports [] ess outs \<and> ready (concat ess) s'"
  using run_first [OF assms(1), of "rounds env" n H] assms(2,3) by (auto simp: monitor_def runs_on_def)

text \<open>With the sleep last, \<open>es\<close> are the events since the last iteration.\<close>

lemma run_last:
  assumes "ready hs s" and "along fine hs (butlast (es # map during rs))" and "sig_free rs"
  shows "\<exists>outs s'. loop_sleep_last n H ev tick rs (fold ev es s) =
      Some (Ongoing, concat (map (\<lambda>out. out @ [Sleep n]) outs), fold ev (last (es # map during rs)) s')
    \<and> chronicle reports hs (butlast (es # map during rs)) outs \<and> ready (hs @ concat (butlast (es # map during rs))) s'"
  using assms
proof (induction rs arbitrary: hs es s)
  case Nil
  then show ?case by auto
next
  case (Cons r rs)
  obtain out s1 where t: "tick (fold ev es s) = Some (out, s1)" "reports hs es out" "ready (hs @ es) s1"
    using tick_chron [OF Cons.prems(1), of es] Cons.prems(2) by auto
  obtain outs s' where l: "loop_sleep_last n H ev tick rs (fold ev (during r) s1) =
      Some (Ongoing, concat (map (\<lambda>out. out @ [Sleep n]) outs), fold ev (last (during r # map during rs)) s')"
      "chronicle reports (hs @ es) (butlast (during r # map during rs)) outs"
      "ready ((hs @ es) @ concat (butlast (during r # map during rs))) s'"
    using Cons.IH [OF t(3), of "during r"] Cons.prems(2,3) by (auto simp: sig_free_def)
  have "loop_sleep_last n H ev tick (r # rs) (fold ev es s) = Some (Ongoing, concat (map (\<lambda>out. out @ [Sleep n]) (out # outs)),
      fold ev (last (es # map during (r # rs))) s')"
    using t(1) l(1) Cons.prems(3) by (simp add: sig_free_def)
  moreover have "butlast (es # map during (r # rs)) = es # butlast (during r # map during rs)" by simp
  ultimately show ?case using t(2) l(2,3)
    by (intro exI [of _ "out # outs"] exI [of _ s']) (simp del: butlast.simps)
qed

lemma session_last:
  assumes "ready [] s" and "runs_until env g ess" and "along fine [] ([] # butlast ess)" and "g \<in> set H"
  shows "\<exists>outs s'. monitor banner H (loop_sleep_last n H ev tick) env s =
      Some (Exited 0, banner @ concat (map (\<lambda>out. out @ [Sleep n]) outs) @ [Destroy], fold ev (last ess) s')
    \<and> chronicle reports [] ([] # butlast ess) outs \<and> ready (concat (butlast ess)) s'"
proof -
  obtain rs q qs where env: "early_sig env = None" "rounds env = rs @ q # qs" "sig_free rs" "sig_at q = Some g"
    and ess: "butlast ess = map during rs" "last ess = during q" using assms(2) by (auto simp: runs_until_def)
  let ?ess = "[] # map during rs"
  have split: "?ess = butlast ?ess @ [last ?ess]" by simp
  have c: "concat ?ess = concat (butlast ?ess) @ last ?ess" using arg_cong [OF split, of concat] by simp
  have fine: "along fine [] (butlast ?ess)" "fine (concat (butlast ?ess)) (last ?ess)"
    using assms(3) split along_append [of fine "[]" "butlast ?ess" "[last ?ess]"] unfolding ess by auto
  obtain outs s1 where l: "loop_sleep_last n H ev tick rs s =
      Some (Ongoing, concat (map (\<lambda>out. out @ [Sleep n]) outs), fold ev (last ?ess) s1)"
      "chronicle reports [] (butlast ?ess) outs" "ready (concat (butlast ?ess)) s1"
    using run_last [OF assms(1) fine(1) env(3), of n H] by auto
  obtain out s2 where t: "tick (fold ev (last ?ess) s1) = Some (out, s2)"
      "reports (concat (butlast ?ess)) (last ?ess) out" "ready (concat ?ess) s2"
    using tick_chron [OF l(3) fine(2)] unfolding c by auto
  have "loop_sleep_last n H ev tick (q # qs) (fold ev (last ?ess) s1) =
      Some (Stopped, out @ [Sleep n], fold ev (during q) s2)" using t(1) env(4) assms(4) by simp
  then have "loop_sleep_last n H ev tick (rounds env) s =
      Some (Stopped, concat (map (\<lambda>out. out @ [Sleep n]) (outs @ [out])), fold ev (during q) s2)"
    unfolding env(2) loop_last_append [OF l(1)] by simp
  moreover have "chronicle reports [] (butlast ?ess @ [last ?ess]) (outs @ [out])"
    using l(2) t(2) by (intro chronicle_snoc) simp_all
  then have "chronicle reports [] ?ess (outs @ [out])" unfolding split [symmetric] .
  ultimately show ?thesis using env(1) t(3) unfolding ess
    by (intro exI [of _ "outs @ [out]"] exI [of _ s2]) (simp add: monitor_def del: chronicle.simps)
qed

lemma session_last_open:
  assumes "ready [] s" and "runs_on env ess" and "along fine [] (butlast ([] # ess))"
  shows "\<exists>outs s'. monitor banner H (loop_sleep_last n H ev tick) env s =
      Some (Running, banner @ concat (map (\<lambda>out. out @ [Sleep n]) outs), fold ev (last ([] # ess)) s')
    \<and> chronicle reports [] (butlast ([] # ess)) outs \<and> ready (concat (butlast ([] # ess))) s'"
proof -
  have ess: "ess = map during (rounds env)" "sig_free (rounds env)" "early_sig env = None"
    using assms(2) by (simp_all add: runs_on_def)
  obtain outs s' where "loop_sleep_last n H ev tick (rounds env) s =
      Some (Ongoing, concat (map (\<lambda>out. out @ [Sleep n]) outs), fold ev (last ([] # ess)) s')"
      "chronicle reports [] (butlast ([] # ess)) outs" "ready (concat (butlast ([] # ess))) s'"
    using run_last [OF assms(1) assms(3) [unfolded ess(1)] ess(2), of n H] unfolding ess(1) by auto
  then show ?thesis using ess(3) by (intro exI [of _ outs] exI [of _ s']) (simp add: monitor_def)
qed

end

text \<open>A tool whose iterations depend on no earlier interval.\<close>

locale reporting_tool =
  fixes ev :: "'e \<Rightarrow> 's \<Rightarrow> 's" and tick :: "('s, effect) tick"
    and ready :: "'s \<Rightarrow> bool" and fine :: "'e list \<Rightarrow> bool" and reports :: "'e list \<Rightarrow> effect list \<Rightarrow> bool"
  assumes tick_reports: "ready s \<Longrightarrow> fine es \<Longrightarrow>
    \<exists>out s'. tick (fold ev es s) = Some (out, s') \<and> reports es out \<and> ready s'"
begin

sublocale chron: chronicled_tool ev tick "\<lambda>_. ready" "\<lambda>_. fine" "\<lambda>_. reports"
  by unfold_locales (rule tick_reports)

lemma session:
  assumes "ready s" and "runs_until env g ess" and "\<forall>es \<in> set ess. fine es" and "g \<in> set H"
  shows "\<exists>outs s'. monitor banner H (loop_sleep_first n H ev tick) env s =
      Some (Exited 0, banner @ concat (map (Cons (Sleep n)) outs) @ [Destroy], s')
    \<and> list_all2 reports ess outs \<and> ready s'"
  using chron.session_first [OF assms(1,2) _ assms(4), of banner n] assms(3)
  by (auto simp: along_free chronicle_free)

lemma session_running:
  assumes "ready s" and "runs_on env ess" and "\<forall>es \<in> set ess. fine es"
  shows "\<exists>outs s'. monitor banner H (loop_sleep_first n H ev tick) env s =
      Some (Running, banner @ concat (map (Cons (Sleep n)) outs), s')
    \<and> list_all2 reports ess outs \<and> ready s'"
  using chron.session_open [OF assms(1,2), of banner H n] assms(3)
  by (auto simp: along_free chronicle_free)

lemma session_sleep_last:
  assumes "ready s" and "runs_until env g ess" and "fine []" and "\<forall>es \<in> set (butlast ess). fine es" and "g \<in> set H"
  shows "\<exists>outs s'. monitor banner H (loop_sleep_last n H ev tick) env s =
      Some (Exited 0, banner @ concat (map (\<lambda>out. out @ [Sleep n]) outs) @ [Destroy], fold ev (last ess) s')
    \<and> list_all2 reports ([] # butlast ess) outs \<and> ready s'"
proof -
  have "along (\<lambda>_. fine) [] ([] # butlast ess)" unfolding along_free using assms(3,4) by simp
  from chron.session_last [OF assms(1,2) this assms(5), of banner n] show ?thesis unfolding chronicle_free .
qed

end

subsection \<open>tcp_connect\<close>

definition conn_fine :: "nat \<Rightarrow> conn_event list \<Rightarrow> bool" where
  "conn_fine c es \<longleftrightarrow> card ((\<lambda>e. cur_pid (conn_ctx e)) ` set es) \<le> c \<and> 0 \<notin> (\<lambda>e. cur_pid (conn_ctx e)) ` set es"

text \<open>One line for each process with an attempt, with its name at the first one and the number of them.\<close>

definition conn_reports :: "conn_event list \<Rightarrow> effect list \<Rightarrow> bool" where
  "conn_reports es out \<longleftrightarrow> (\<exists>pids. distinct pids \<and> set pids = (\<lambda>e. cur_pid (conn_ctx e)) ` set es \<and>
     out = map (\<lambda>p. out_kv (''PID_'' @ fmt_u p @ ''_'' @ c_str (first_name conn_ctx es p)) (fmt_u (calls conn_ctx es p))) pids @ [Flush])"

context tcp_connect
begin

lemma cap_tick:
  assumes "print_and_clear_stats ops s = Some (out, s')"
  shows "cap (conn_count s') = cap (conn_count s)"
proof -
  obtain out0 where l: "key_loop (\<lambda>s. next_key ops (conn_count s)) (tcp_connect_body ops) (Some 0) s = Some (out0, s')"
    using assms by (auto simp: print_and_clear_stats_def Option.bind_eq_Some_conv)
  show ?thesis
    by (rule key_loop_invariant [OF l, where P = "\<lambda>x. cap (conn_count x) = cap (conn_count s)"])
      (simp_all add: tcp_connect_body_def h.cap_delete split: option.split)
qed

end

sublocale tcp_connect \<subseteq> whole: reporting_tool "tcp_connect_event ops nops" "print_and_clear_stats ops"
    "\<lambda>s. keys (conn_count s) = [] \<and> cap (conn_count s) = c" "conn_fine c" conn_reports for c
proof (unfold_locales, goal_cases)
  case (1 s es)
  then obtain pids s' where t: "print_and_clear_stats ops (fold (tcp_connect_event ops nops) es s) =
      Some (map (\<lambda>p. out_kv (''PID_'' @ fmt_u p @ ''_'' @ c_str (first_name conn_ctx es p)) (fmt_u (calls conn_ctx es p))) pids @ [Flush], s')"
      "distinct pids" "set pids = (\<lambda>e. cur_pid (conn_ctx e)) ` set es" "keys (conn_count s') = []"
    using tick_spec [of s es] by (auto simp: conn_fine_def)
  have "cap (conn_count s') = c" using cap_tick [OF t(1)] ctr.cap_run [of es s] 1 by simp
  with t show ?case by (auto simp: conn_reports_def)
qed

subsection \<open>read_stat\<close>

definition read_fine :: "helpers list \<Rightarrow> bool" where
  "read_fine es \<longleftrightarrow> card (cur_pid ` set es) \<le> MAX_ENTRIES \<and> 0 \<notin> cur_pid ` set es"

definition read_reports :: "helpers list \<Rightarrow> effect list \<Rightarrow> bool" where
  "read_reports es out \<longleftrightarrow> (\<exists>pids. distinct pids \<and> set pids = cur_pid ` set es \<and>
     out = map (\<lambda>p. out_kv (''PID_'' @ fmt_u p) (fmt_u (of_nat (length (filter (\<lambda>h. cur_pid h = p) es)) :: u64))) pids @ [Flush])"

sublocale read_stat \<subseteq> whole: reporting_tool "read_stat_event ops" "read_stat_tick ops"
    "\<lambda>s. keys (file_read_counter s) = [] \<and> cap (file_read_counter s) = MAX_ENTRIES" read_fine read_reports
proof (unfold_locales, goal_cases)
  case (1 s es)
  then obtain pids s' where t: "read_stat_tick ops (fold (read_stat_event ops) es s) =
      Some (map (\<lambda>p. out_kv (''PID_'' @ fmt_u p) (fmt_u (of_nat (length (filter (\<lambda>h. cur_pid h = p) es)) :: u64))) pids @ [Flush], s')"
      "distinct pids" "set pids = cur_pid ` set es" "keys (file_read_counter s') = []"
    using round_exact [of s es] by (auto simp: read_fine_def)
  have "cap (file_read_counter (fold (read_stat_event ops) es s)) = MAX_ENTRIES" using ctr.cap_run [of es s] 1 by simp
  then have "cap (file_read_counter s') = MAX_ENTRIES"
    using tick_spec [of "fold (read_stat_event ops) es s"] t(1) by auto
  with t show ?case by (auto simp: read_reports_def)
qed

context tcp_connect
begin

lemma session_exact:
  assumes "runs_until env g ess" and "\<forall>es \<in> set ess. conn_fine c es" and "keys (conn_count s) = []" and "cap (conn_count s) = c"
  shows "\<exists>outs s'. tcp_connect_main ops nops env s = Some (Exited 0, concat (map (Cons (Sleep 2)) outs) @ [Destroy], s')
    \<and> list_all2 conn_reports ess outs \<and> keys (conn_count s') = []"
  using whole.session [where c = c, OF conjI [OF assms(3,4)] assms(1,2) signal_handled, of "[]" 2]
    runs_until_starts [OF assms(1)]
  by (auto simp: tcp_connect_main_def)

end

context read_stat
begin

lemma session_exact:
  assumes "runs_on env ess" and "\<forall>es \<in> set ess. read_fine es"
    and "keys (file_read_counter s) = []" and "cap (file_read_counter s) = MAX_ENTRIES"
  shows "\<exists>outs s'. read_stat_main ops True env s =
      Some (Running, err_line ''Monitoring read syscalls, press Ctrl+C to stop.'' # concat (map (Cons (Sleep 1)) outs), s')
    \<and> list_all2 read_reports ess outs \<and> keys (file_read_counter s') = []"
  using whole.session_running [OF conjI [OF assms(3,4)] assms(1,2),
      of "[err_line ''Monitoring read syscalls, press Ctrl+C to stop.'']" "[]" 1] runs_on_starts [OF assms(1)]
  by (auto simp: read_stat_main_def)

end

subsection \<open>Properties\<close>

text \<open>An environment of two intervals with the same events; SIGTERM arrives in the second.\<close>

definition two_rounds :: "'e list \<Rightarrow> 'e env" where
  "two_rounds es = \<lparr>skel_opened = True, load_err = 0, attach_err = 0, early_sig = None,
     rounds = [\<lparr>during = es, sig_at = None\<rparr>, \<lparr>during = es, sig_at = Some SIGTERM\<rparr>]\<rparr>"

lemma two_rounds_until: "runs_until (two_rounds es) SIGTERM [es, es]"
  unfolding runs_until_def
  by (intro conjI exI [of _ "[\<lparr>during = es, sig_at = None\<rparr>]"] exI [of _ "\<lparr>during = es, sig_at = Some SIGTERM\<rparr>"] exI [of _ "[]"])
    (simp_all add: two_rounds_def sig_free_def)

text \<open>An environment with two intervals and no signal.\<close>

definition going_on :: "'e list \<Rightarrow> 'e env" where
  "going_on es = \<lparr>skel_opened = True, load_err = 0, attach_err = 0, early_sig = None,
     rounds = [\<lparr>during = es, sig_at = None\<rparr>, \<lparr>during = es, sig_at = None\<rparr>]\<rparr>"

lemma going_on_runs: "runs_on (going_on es) [es, es]"
  by (simp add: runs_on_def going_on_def sig_free_def)

text \<open>C19: a whole run of tcp_connect, from attaching its probes to the exit after a signal: as long as in no
  interval more processes connect than the map holds, and none of them is process 0, it prints in the
  iteration after each interval, the last one included, exactly one line for each process that tried to
  connect in it, with the number of its attempts; then it releases the skeleton and exits with 0.
  Nothing is printed twice and nothing is carried over from one interval to the next.\<close>

theorem tcp_connect_session:
  assumes "bpf_hash ops keys cap" and "bpf_hash nops nkeys ncap"
    and "runs_until env g ess" and "\<forall>es \<in> set ess. conn_fine c es"
    and "keys (conn_count s) = []" and "cap (conn_count s) = c"
  shows "\<exists>outs s'. tcp_connect_main ops nops env s = Some (Exited 0, concat (map (Cons (Sleep 2)) outs) @ [Destroy], s')
    \<and> list_all2 conn_reports ess outs \<and> keys (conn_count s') = []"
  by (rule tcp_connect.session_exact [OF tcp_connect.intro [OF assms(1,2)] assms(3-6)])

theorem tcp_connect_session_witness:
  "\<exists>outs s'. tcp_connect_main (hash_ops False) (hash_ops False) (two_rounds conn_demo) conn_init =
     Some (Exited 0, concat (map (Cons (Sleep 2)) outs) @ [Destroy], s')
   \<and> list_all2 conn_reports [conn_demo, conn_demo] outs \<and> hm_keys (conn_count s') = []"
proof -
  have "(\<lambda>e. cur_pid (conn_ctx e)) ` set conn_demo = {21, 22}" by (auto simp: conn_demo_def)
  then have fine: "conn_fine 10240 conn_demo" by (simp add: conn_fine_def)
  show ?thesis
    by (rule tcp_connect_session [OF hm.bpf_hash_axioms hm.bpf_hash_axioms two_rounds_until, where c = 10240])
      (simp_all add: fine conn_init_def)
qed

text \<open>C2: read_stat, which installs no handler and runs on: as long as in no interval more processes call \<open>read()\<close> than
  the map holds, and none of them is process 0, every iteration returns and prints exactly one line for each
  process with a call in the interval before it, with the number of its calls: none is lost, none is counted
  twice, and nothing is left in the map.\<close>

theorem read_stat_session:
  assumes "bpf_hash ops keys cap" and "runs_on env ess" and "\<forall>es \<in> set ess. read_fine es"
    and "keys (file_read_counter s) = []" and "cap (file_read_counter s) = MAX_ENTRIES"
  shows "\<exists>outs s'. read_stat_main ops True env s =
      Some (Running, err_line ''Monitoring read syscalls, press Ctrl+C to stop.'' # concat (map (Cons (Sleep 1)) outs), s')
    \<and> list_all2 read_reports ess outs \<and> keys (file_read_counter s') = []"
  by (rule read_stat.session_exact [OF read_stat.intro [OF assms(1)] assms(2-5)])

theorem read_stat_session_witness:
  "\<exists>outs s'. read_stat_main (hash_ops False) True (going_on read_demo) \<lparr>file_read_counter = empty_hash MAX_ENTRIES\<rparr> =
      Some (Running, err_line ''Monitoring read syscalls, press Ctrl+C to stop.'' # concat (map (Cons (Sleep 1)) outs), s')
    \<and> list_all2 read_reports [read_demo, read_demo] outs \<and> hm_keys (file_read_counter s') = []"
  by (rule read_stat_session [OF hm.bpf_hash_axioms going_on_runs])
    (simp_all add: read_fine_def read_demo_def MAX_ENTRIES_def card_insert_if)

end
