(* ===== verification/MmapStat.thy ===== *)
theory MmapStat
  imports Counting Loader MapInstances
begin

section \<open>mmap_stat: mmap() calls by process\<close>

text \<open>
  \<open>my_tools/memo/mmap_stat.bpf.c\<close> and \<open>my_tools/memo/mmap_stat.c\<close>. The BPF program creates
  entries with \<open>BPF_NOEXIST\<close>; the loader prints a counter and sets it to 0 with \<open>BPF_EXIST\<close>
  while it walks the map.
  Shown: over a map whose updates keep the enumeration order, an iteration ends, prints the
  increment of every process since the last one and resets all counters; over a map that moves
  an updated key to the front (as the kernel does inside a bucket) it does not end as soon as
  two processes are in the map.
\<close>

record 'm mmap_stat_maps =
  memo_counter :: 'm

definition handle_enter_mmap ::
  "('m, u32, u64) map_ops \<Rightarrow> helpers \<Rightarrow> 'm mmap_stat_maps \<Rightarrow> int \<times> 'm mmap_stat_maps" where
  "handle_enter_mmap ops h s =
     (let pid = cur_pid h; init = 1 in
      case lookup_elem ops (memo_counter s) pid of
        None \<Rightarrow> (0, s\<lparr>memo_counter := snd (update_elem ops (memo_counter s) pid init BPF_NOEXIST)\<rparr>)
      | Some val \<Rightarrow> (0, s\<lparr>memo_counter := store_elem ops (memo_counter s) pid (val + 1)\<rparr>))"

definition mmap_stat_event ::
  "('m, u32, u64) map_ops \<Rightarrow> helpers \<Rightarrow> 'm mmap_stat_maps \<Rightarrow> 'm mmap_stat_maps" where
  "mmap_stat_event ops h s = snd (handle_enter_mmap ops h s)"

definition mmap_stat_body ::
  "('m, u32, u64) map_ops \<Rightarrow> u32 \<Rightarrow> 'm mmap_stat_maps \<Rightarrow> effect list \<times> 'm mmap_stat_maps" where
  "mmap_stat_body ops pid s =
     (let zero = 0 in
      case lookup_elem ops (memo_counter s) pid of
        Some value \<Rightarrow>
          ([out_kv (''mmap_calls_pid_'' @ fmt_u pid) (fmt_u value)],
           s\<lparr>memo_counter := snd (update_elem ops (memo_counter s) pid zero BPF_EXIST)\<rparr>)
      | None \<Rightarrow> ([], s))"

definition mmap_stat_tick ::
  "('m, u32, u64) map_ops \<Rightarrow> ('m mmap_stat_maps, effect) tick" where
  "mmap_stat_tick ops =
     key_loop (\<lambda>s. next_key ops (memo_counter s)) (mmap_stat_body ops) (Some 0)"

definition mmap_stat_main ::
  "('m, u32, u64) map_ops \<Rightarrow> helpers env \<Rightarrow> 'm mmap_stat_maps \<Rightarrow>
     (status \<times> effect list \<times> 'm mmap_stat_maps) option" where
  "mmap_stat_main ops env s =
     (if \<not> skel_opened env
      then Some (Exited 1, [err_line ''Failed to open BPF skeleton''], s)
      else if load_err env \<noteq> 0
      then Some (Exited (load_err env), [err_line ''Failed to load BPF program'', Destroy], s)
      else if attach_err env \<noteq> 0
      then Some (Exited (attach_err env), [err_line ''Failed to attach BPF program'', Destroy], s)
      else monitor
             [err_line ''Monitoring mmap syscalls by PID (Incremental per sec), press Ctrl+C to stop.''] []
             (loop_sleep_last 1 [] (mmap_stat_event ops) (mmap_stat_tick ops)) env s)"

subsection \<open>The tool over a lawful map\<close>

locale mmap_stat = stable_hash ops keys cap
  for ops :: "('m, u32, u64) map_ops" and keys :: "'m \<Rightarrow> u32 list" and cap
begin

sublocale walk: reading_walk ops keys cap memo_counter "mmap_stat_body ops"
  by unfold_locales
    (auto simp: mmap_stat_body_def keys_update_present split: option.splits)

sublocale ctr: event_counter ops keys cap memo_counter "mmap_stat_event ops"
    "\<lambda>h. Some (cur_pid h)" "\<lambda>h. 1" "\<lambda>h v. v + 1" "\<lambda>h. 1" "\<lambda>v. v" BPF_NOEXIST
  by unfold_locales
    (auto simp: mmap_stat_event_def handle_enter_mmap_def Let_def modify_or_insert_def
      split: option.splits)

lemma body_step:
  assumes "lookup_elem ops (memo_counter s) k = Some v"
  shows "fst (mmap_stat_body ops k s) = [out_kv (''mmap_calls_pid_'' @ fmt_u k) (fmt_u v)]"
    and "lookup_elem ops (memo_counter (snd (mmap_stat_body ops k s))) =
      (lookup_elem ops (memo_counter s))(k \<mapsto> 0)"
  using assms keys_lookup_Some [OF assms]
  by (simp_all add: mmap_stat_body_def update_ok update_present)

lemma visit_resets:
  "distinct ks \<Longrightarrow> set ks \<subseteq> set (keys (memo_counter s)) \<Longrightarrow>
     fst (visit (mmap_stat_body ops) ks s) =
       map (\<lambda>k. out_kv (''mmap_calls_pid_'' @ fmt_u k)
              (fmt_u (the (lookup_elem ops (memo_counter s) k)))) ks \<and>
     lookup_elem ops (memo_counter (snd (visit (mmap_stat_body ops) ks s))) =
       (\<lambda>k. if k \<in> set ks then Some 0 else lookup_elem ops (memo_counter s) k)"
proof (induction ks arbitrary: s)
  case (Cons k ks)
  obtain v where v: "lookup_elem ops (memo_counter s) k = Some v"
    using Cons.prems keys_lookup by auto
  let ?s1 = "snd (mmap_stat_body ops k s)"
  have "set ks \<subseteq> set (keys (memo_counter ?s1))"
    using Cons.prems walk.body_keys [of k s] by auto
  note IH = Cons.IH [OF _ this]
  have "map (\<lambda>j. out_kv (''mmap_calls_pid_'' @ fmt_u j) (fmt_u (the (lookup_elem ops (memo_counter ?s1) j)))) ks =
      map (\<lambda>j. out_kv (''mmap_calls_pid_'' @ fmt_u j) (fmt_u (the (lookup_elem ops (memo_counter s) j)))) ks"
    using Cons.prems by (intro map_cong) (auto simp: body_step [OF v])
  then show ?case using IH Cons.prems by (auto simp: body_step [OF v] v fun_eq_iff)
qed simp

lemma tick_spec:
  assumes "0 \<notin> set (keys (memo_counter s))"
  shows "\<exists>s'. mmap_stat_tick ops s =
      Some (map (\<lambda>k. out_kv (''mmap_calls_pid_'' @ fmt_u k)
              (fmt_u (the (lookup_elem ops (memo_counter s) k)))) (keys (memo_counter s)), s')
    \<and> keys (memo_counter s') = keys (memo_counter s)
    \<and> (\<forall>k. count_at ops (\<lambda>v. v) (memo_counter s') k = 0)"
proof -
  let ?ks = "keys (memo_counter s)"
  have "mmap_stat_tick ops s = Some (visit (mmap_stat_body ops) ?ks s)"
    using assms unfolding mmap_stat_tick_def walk.loop_visits by (simp add: keys_from_absent)
  moreover note visit_resets [OF keys_distinct subset_refl, of s] walk.visit_keys [OF subset_refl, of s]
  moreover have "k \<notin> set ?ks \<Longrightarrow> lookup_elem ops (memo_counter s) k = None" for k
    by (simp add: keys_lookup)
  ultimately show ?thesis
    by (intro exI [of _ "snd (visit (mmap_stat_body ops) ?ks s)"])
      (auto simp: count_at_def prod_eq_iff)
qed

lemma increments:
  assumes "\<And>k. count_at ops (\<lambda>v. v) (memo_counter s) k = 0"
    and "0 \<notin> set (keys (memo_counter s)) \<union> cur_pid ` set es"
    and "card (set (keys (memo_counter s)) \<union> cur_pid ` set es) \<le> cap (memo_counter s)"
  shows "\<exists>pids s'. mmap_stat_tick ops (fold (mmap_stat_event ops) es s) =
      Some (map (\<lambda>p. out_kv (''mmap_calls_pid_'' @ fmt_u p)
              (fmt_u (of_nat (length (filter (\<lambda>h. cur_pid h = p) es)) :: u64))) pids, s')
    \<and> distinct pids \<and> set pids = set (keys (memo_counter s)) \<union> cur_pid ` set es
    \<and> (\<forall>k. count_at ops (\<lambda>v. v) (memo_counter s') k = 0)"
proof -
  let ?s1 = "fold (mmap_stat_event ops) es s"
  let ?m = "memo_counter ?s1" and ?hit = "\<lambda>h. Some (cur_pid h)"
  have kh: "keys_hit ?hit es = cur_pid ` set es" by (auto simp: keys_hit_def)
  have run: "count_at ops (\<lambda>v. v) ?m k = of_nat (length (filter (\<lambda>h. cur_pid h = k) es))"
    "set (keys ?m) = set (keys (memo_counter s)) \<union> cur_pid ` set es" for k
    using ctr.run_counts [of s es k] ctr.sum_amount_one [of es k] assms(1,3) by (auto simp: kh hits_def)
  have look: "the (lookup_elem ops ?m k) = of_nat (length (filter (\<lambda>h. cur_pid h = k) es))"
    if "k \<in> set (keys ?m)" for k
    using that run(1) [of k] by (auto simp: keys_lookup count_at_def)
  have "0 \<notin> set (keys ?m)" using run(2) assms(2) by simp
  from tick_spec [OF this] obtain s' where
    "mmap_stat_tick ops ?s1 = Some (map (\<lambda>k. out_kv (''mmap_calls_pid_'' @ fmt_u k)
        (fmt_u (the (lookup_elem ops ?m k)))) (keys ?m), s')"
    "\<forall>k. count_at ops (\<lambda>v. v) (memo_counter s') k = 0" by blast
  then show ?thesis
    using look run(2) keys_distinct [of ?m] by (intro exI [of _ "keys ?m"] exI [of _ s']) simp
qed

end

interpretation ms_hash: mmap_stat "hash_ops False" hm_keys hcap
  by unfold_locales

subsection \<open>Properties\<close>

text \<open>Over a map whose updates keep the enumeration order, from counters that are all 0 (the
  start, or the end of an iteration), an iteration of mmap_stat returns, prints for each process
  in the map the number of its \<open>mmap()\<close> calls since then, and resets every counter to 0.\<close>

theorem mmap_stat_increments:
  assumes "stable_hash ops keys cap"
    and "\<And>k. count_at ops (\<lambda>v. v) (memo_counter s) k = 0"
    and "0 \<notin> set (keys (memo_counter s)) \<union> cur_pid ` set es"
    and "card (set (keys (memo_counter s)) \<union> cur_pid ` set es) \<le> cap (memo_counter s)"
  shows "\<exists>pids s'. mmap_stat_tick ops (fold (mmap_stat_event ops) es s) =
      Some (map (\<lambda>p. out_kv (''mmap_calls_pid_'' @ fmt_u p)
              (fmt_u (of_nat (length (filter (\<lambda>h. cur_pid h = p) es)) :: u64))) pids, s')
    \<and> distinct pids \<and> set pids = set (keys (memo_counter s)) \<union> cur_pid ` set es
    \<and> (\<forall>k. count_at ops (\<lambda>v. v) (memo_counter s') k = 0)"
  using mmap_stat.increments [OF mmap_stat.intro [OF assms(1)] assms(2-4)] by blast

theorem mmap_stat_increments_witness:
  "\<exists>pids s'. mmap_stat_tick (hash_ops False) (fold (mmap_stat_event (hash_ops False))
        [task_ctx 3 ''sh'' 1 0, task_ctx 4 ''ls'' 2 0] \<lparr>memo_counter = empty_hash 10240\<rparr>) =
      Some (map (\<lambda>p. out_kv (''mmap_calls_pid_'' @ fmt_u p)
              (fmt_u (of_nat (length (filter (\<lambda>h. cur_pid h = p)
                 [task_ctx 3 ''sh'' 1 0, task_ctx 4 ''ls'' 2 0])) :: u64))) pids, s')
    \<and> distinct pids \<and> set pids = {3, 4}
    \<and> (\<forall>k. count_at (hash_ops False) (\<lambda>v. v) (memo_counter s') k = 0)"
proof -
  let ?s = "\<lparr>memo_counter = empty_hash 10240 :: (u32, u64) hmap\<rparr>"
  let ?es = "[task_ctx 3 ''sh'' 1 0, task_ctx 4 ''ls'' 2 0]"
  have zero: "count_at (hash_ops False) (\<lambda>v. v) (memo_counter ?s) k = 0" for k
    by (simp add: count_at_def hash_ops_def hm_lookup_def)
  have pids: "set (hm_keys (memo_counter ?s)) \<union> cur_pid ` set ?es = {3, 4}" by simp
  show ?thesis
    using mmap_stat_increments [OF hs.stable_hash_axioms zero, of ?es] unfolding pids by simp
qed

text \<open>C34: no promise of the map interface makes this loop end: over \<open>hash_ops True\<close>, which satisfies
  every law of \<open>bpf_hash\<close> and moves an updated key to the front of the enumeration, an iteration
  with the counters of two processes never returns.\<close>

theorem mmap_stat_may_not_return:
  "bpf_hash (hash_ops True :: ((u32, u64) hmap, u32, u64) map_ops) hm_keys hcap \<and>
   mmap_stat_tick (hash_ops True) \<lparr>memo_counter = hash_of 10240 [(1, v), (2, w)]\<rparr> = None"
proof
  show "bpf_hash (hash_ops True :: ((u32, u64) hmap, u32, u64) map_ops) hm_keys hcap"
    by (rule hm.bpf_hash_axioms)
  let ?ops = "hash_ops True :: ((u32, u64) hmap, u32, u64) map_ops"
  let ?I = "\<lambda>cur (s :: (u32, u64) hmap mmap_stat_maps). \<exists>j k. j \<noteq> k \<and> hm_keys (memo_counter s) = [j, k] \<and>
    (cur = Some j \<or> cur = Some 0 \<and> j \<noteq> 0 \<and> k \<noteq> 0)"
  have front: "hm_keys (memo_counter (snd (mmap_stat_body ?ops k s))) = k # remove1 k (hm_keys (memo_counter s))"
    if "k \<in> set (hm_keys (memo_counter s))" for k s
    using that by (simp add: mmap_stat_body_def hash_ops_def hm_lookup_def hm_update_def hm_keys_upd)
  show "mmap_stat_tick ?ops \<lparr>memo_counter = hash_of 10240 [(1, v), (2, w)]\<rparr> = None"
    unfolding mmap_stat_tick_def
  proof (rule key_loop_diverges [where I = ?I])
    fix cur s assume "?I cur s"
    then obtain j k where jk: "j \<noteq> k" "hm_keys (memo_counter s) = [j, k]"
      "cur = Some j \<or> cur = Some 0 \<and> j \<noteq> 0 \<and> k \<noteq> 0" by blast
    from jk(3) show "\<exists>k. next_key ?ops (memo_counter s) cur = Some k \<and> ?I (Some k) (snd (mmap_stat_body ?ops k s))"
    proof
      assume "cur = Some j"
      with jk have "next_key ?ops (memo_counter s) cur = Some k"
        by (simp add: hm.next_key_order keys_from_def)
      moreover have "?I (Some k) (snd (mmap_stat_body ?ops k s))" using jk front [of k s] by auto
      ultimately show ?thesis by blast
    next
      assume "cur = Some 0 \<and> j \<noteq> 0 \<and> k \<noteq> 0"
      with jk have "next_key ?ops (memo_counter s) cur = Some j"
        by (simp add: hm.next_key_order keys_from_def)
      moreover have "?I (Some j) (snd (mmap_stat_body ?ops j s))" using jk front [of j s] by auto
      ultimately show ?thesis by blast
    qed
  qed auto
qed

end
