(* ===== verification/CountSessions.thy ===== *)
theory CountSessions
  imports WholeRun MmapStat
begin

section \<open>Whole runs of the counting tools\<close>

text \<open>
  Every tool that counts in kernel space and prints and deletes in user space, from its start to its exit: for
  each tool the events it can take in one interval (\<open>..._fine\<close>: the keys fit its maps and, where the walk starts
  at key 0, none of them is 0), what it prints for the events of one interval (\<open>..._reports\<close>), the proof that its
  iteration is a \<open>reporting_tool\<close> (theory \<open>WholeRun\<close>), and the theorem on the whole run of its \<open>main\<close>. Tools that
  print differences of totals keep the total of the last iteration; the run shows that the differences never
  drift from the totals. write_stat prints totals since its start, cpu_freq_stat the last frequency, mmap_stat a line
  for every process seen so far: they are \<open>chronicled_tool\<close>s.
\<close>

subsection \<open>file\_open\_stat\<close>

definition open_fine :: "nat \<Rightarrow> nat \<Rightarrow> nat \<Rightarrow> open_event list \<Rightarrow> bool" where
  "open_fine c f n es \<longleftrightarrow> card (keys_hit opened_by es) \<le> c \<and> card (keys_hit failed_by es) \<le> f \<and> card (keys_hit named_by es) \<le> n \<and>
     0 \<notin> keys_hit opened_by es \<and> 0 \<notin> keys_hit failed_by es \<and> length es < 2 ^ 64"

definition open_reports :: "open_event list \<Rightarrow> effect list \<Rightarrow> bool" where
  "open_reports es out \<longleftrightarrow> (\<exists>pids fails comms. out =
       map (\<lambda>p. out_kv (''open_calls_pid_'' @ fmt_u p) (fmt_u (hit_count opened_by es p))) pids @
       map (\<lambda>p. out_kv (''open_fail_pid_'' @ fmt_u p) (fmt_u (hit_count failed_by es p))) fails @
       map (\<lambda>c. out_kv (''open_comm_'' @ c_str c) (fmt_u (hit_count named_by es c))) comms @ [Flush] \<and>
     distinct pids \<and> set pids = keys_hit opened_by es \<and> distinct fails \<and> set fails = keys_hit failed_by es \<and>
     distinct comms \<and> set comms = keys_hit named_by es)"

text \<open>The maps are empty, with room for \<open>c\<close>, \<open>f\<close> and \<open>n\<close> entries.\<close>

definition open_ready :: "('m \<Rightarrow> u32 list) \<Rightarrow> ('m \<Rightarrow> nat) \<Rightarrow> ('n \<Rightarrow> comm list) \<Rightarrow> ('n \<Rightarrow> nat) \<Rightarrow>
    nat \<Rightarrow> nat \<Rightarrow> nat \<Rightarrow> ('m, 'n) file_open_maps \<Rightarrow> bool" where
  "open_ready keys cap nkeys ncap c f n s \<longleftrightarrow> keys (open_counter s) = [] \<and> keys (open_fail_counter s) = [] \<and> nkeys (open_comm_counter s) = [] \<and>
     cap (open_counter s) = c \<and> cap (open_fail_counter s) = f \<and> ncap (open_comm_counter s) = n"

context file_open
begin

lemma cap_tick:
  assumes "file_open_tick ops nops s = Some (out, s')"
  shows "cap (open_counter s') = cap (open_counter s) \<and> cap (open_fail_counter s') = cap (open_fail_counter s) \<and>
    ncap (open_comm_counter s') = ncap (open_comm_counter s)"
proof -
  let ?P = "\<lambda>x. cap (open_counter x) = cap (open_counter s) \<and> cap (open_fail_counter x) = cap (open_fail_counter s) \<and>
    ncap (open_comm_counter x) = ncap (open_comm_counter s)"
  obtain out1 s1 out2 s2 out3 where
    l1: "key_loop (\<lambda>s. next_key ops (open_counter s)) (open_body ops) (Some 0) s = Some (out1, s1)" and
    l2: "key_loop (\<lambda>s. next_key ops (open_fail_counter s)) (open_fail_body ops) (Some 0) s1 = Some (out2, s2)" and
    l3: "key_loop (\<lambda>s. next_key nops (open_comm_counter s)) (open_comm_body nops) None s2 = Some (out3, s')"
    using assms by (auto simp: file_open_tick_def Option.bind_eq_Some_conv)
  have "?P s1" by (rule key_loop_invariant [OF l1, where P = ?P]) (simp_all add: open_body_def h.cap_delete split: option.split)
  then have "?P s2" by (rule key_loop_invariant [OF l2, where P = ?P, rotated]) (simp_all add: open_fail_body_def h.cap_delete split: option.split)
  then show ?thesis by (rule key_loop_invariant [OF l3, where P = ?P, rotated]) (simp_all add: open_comm_body_def n.cap_delete split: option.split)
qed

end

sublocale file_open \<subseteq> whole: reporting_tool ev "file_open_tick ops nops"
    "open_ready keys cap nkeys ncap c f n" "open_fine c f n" open_reports for c f n
proof (unfold_locales, goal_cases)
  case (1 s es)
  note r = 1 [unfolded open_ready_def open_fine_def]
  obtain pids fails comms s' where t: "file_open_tick ops nops (fold ev es s) = Some
      (map (\<lambda>p. out_kv (''open_calls_pid_'' @ fmt_u p) (fmt_u (hit_count opened_by es p))) pids @
       map (\<lambda>p. out_kv (''open_fail_pid_'' @ fmt_u p) (fmt_u (hit_count failed_by es p))) fails @
       map (\<lambda>c. out_kv (''open_comm_'' @ c_str c) (fmt_u (hit_count named_by es c))) comms @ [Flush], s')"
    "distinct pids" "set pids = keys_hit opened_by es" "distinct fails" "set fails = keys_hit failed_by es"
    "distinct comms" "set comms = keys_hit named_by es"
    "keys (open_counter s') = []" "keys (open_fail_counter s') = []" "nkeys (open_comm_counter s') = []"
    using tick_spec [of s es] r by auto
  have "open_ready keys cap nkeys ncap c f n s'"
    using cap_tick [OF t(1)] t(8-10) r oc.cap_run [of es s] fc.cap_run [of es s] nc.cap_run [of es s] by (simp add: open_ready_def)
  with t show ?case unfolding open_reports_def by blast
qed

subsection \<open>mem\_oom\_stat\<close>

definition oom_fine :: "nat \<Rightarrow> helpers list \<Rightarrow> bool" where
  "oom_fine c es \<longleftrightarrow> card (cur_pid ` set es) \<le> c \<and> 0 \<notin> cur_pid ` set es \<and> length es < 2 ^ 64"

text \<open>The number of runs of the OOM killer, then the share of each process; the shares add up to it.\<close>

definition oom_reports :: "helpers list \<Rightarrow> effect list \<Rightarrow> bool" where
  "oom_reports es out \<longleftrightarrow> (\<exists>pids. out =
       (if es = [] then [] else [out_kv ''oom_kill_events'' (fmt_u (of_nat (length es) :: u64))]) @
       map (\<lambda>p. out_kv (''oom_victim_pid_'' @ fmt_u p @ ''_'' @ c_str (first_name (\<lambda>h. h) es p)) (fmt_u (calls (\<lambda>h. h) es p))) pids @
       [Flush] \<and>
     distinct pids \<and> set pids = cur_pid ` set es \<and> (\<Sum>p\<leftarrow>pids. calls (\<lambda>h. h) es p) = of_nat (length es))"

text \<open>The map is empty, and the remembered total is the one in the array.\<close>

definition oom_ready :: "('m \<Rightarrow> u32 list) \<Rightarrow> ('m \<Rightarrow> nat) \<Rightarrow> ('a, u32, u64) map_ops \<Rightarrow> ('a \<Rightarrow> nat) \<Rightarrow> nat \<Rightarrow> ('m, 'a) mem_oom_maps \<Rightarrow> bool" where
  "oom_ready keys cap aops acap c s \<longleftrightarrow> keys (oom_victim_map s) = [] \<and> cap (oom_victim_map s) = c \<and> acap (oom_stats s) = 4 \<and>
     prev_oom_count s = count_at aops (\<lambda>v. v) (oom_stats s) 0"

context mem_oom
begin

lemma cap_tick:
  assumes "mem_oom_tick ops aops s = Some (out, s')"
  shows "cap (oom_victim_map s') = cap (oom_victim_map s)"
proof -
  let ?P = "\<lambda>x. cap (oom_victim_map x) = cap (oom_victim_map s)"
  obtain out1 where
    l: "key_loop (\<lambda>s. next_key ops (oom_victim_map s)) (oom_victim_body ops) (Some 0) (snd (oom_total aops s)) = Some (out1, s')"
    using assms by (auto simp: mem_oom_tick_def case_prod_unfold Let_def Option.bind_eq_Some_conv)
  have "?P (snd (oom_total aops s))" by (simp add: oom_total_def Let_def split: option.split)
  then show ?thesis by (rule key_loop_invariant [OF l, where P = ?P, rotated]) (simp_all add: oom_victim_body_def h.cap_delete split: option.split)
qed

end

sublocale mem_oom \<subseteq> whole: reporting_tool ev "mem_oom_tick ops aops"
    "oom_ready keys cap aops acap c" "oom_fine c" oom_reports for c
proof (unfold_locales, goal_cases)
  case (1 s es)
  note r = 1 [unfolded oom_fine_def oom_ready_def]
  obtain pids s' where t: "mem_oom_tick ops aops (fold ev es s) = Some
      ((if es = [] then [] else [out_kv ''oom_kill_events'' (fmt_u (of_nat (length es) :: u64))]) @
       map (\<lambda>p. out_kv (''oom_victim_pid_'' @ fmt_u p @ ''_'' @ c_str (first_name (\<lambda>h. h) es p)) (fmt_u (calls (\<lambda>h. h) es p))) pids @
       [Flush], s')"
    "distinct pids" "set pids = cur_pid ` set es" "settled s'" "(\<Sum>p\<leftarrow>pids. calls (\<lambda>h. h) es p) = of_nat (length es)"
    using tick_spec [of s es] r by (auto simp: settled_def)
  have "oom_ready keys cap aops acap c s'"
    using cap_tick [OF t(1)] t(4) r vc.cap_run [of es s] by (simp add: oom_ready_def settled_def)
  with t show ?case unfolding oom_reports_def by blast
qed

subsection \<open>net\_tcp\_retransmit\<close>

definition retrans_fine :: "nat \<Rightarrow> nat \<Rightarrow> helpers list \<Rightarrow> bool" where
  "retrans_fine c n es \<longleftrightarrow> card (cur_pid ` set es) \<le> c \<and> 0 \<notin> cur_pid ` set es \<and> card (cur_comm ` set es) \<le> n \<and> length es < 2 ^ 64"

definition retrans_reports :: "helpers list \<Rightarrow> effect list \<Rightarrow> bool" where
  "retrans_reports es out \<longleftrightarrow> (\<exists>pids comms. out =
       (if es = [] then [] else [out_kv ''tcp_retransmit_delta'' (fmt_u (of_nat (length es) :: u64))]) @
       map (\<lambda>p. out_kv (''tcp_retrans_pid_'' @ fmt_u p @ ''_'' @ c_str (first_name (\<lambda>h. h) es p)) (fmt_u (calls (\<lambda>h. h) es p))) pids @
       map (\<lambda>c. out_kv (''tcp_retrans_comm_'' @ c_str c) (fmt_u (name_calls (\<lambda>h. h) es c))) comms @ [Flush] \<and>
     distinct pids \<and> set pids = cur_pid ` set es \<and> distinct comms \<and> set comms = cur_comm ` set es)"

text \<open>The two hash maps are empty, and the remembered total is the one in the array.\<close>

definition retrans_ready :: "('m \<Rightarrow> u32 list) \<Rightarrow> ('m \<Rightarrow> nat) \<Rightarrow> ('n \<Rightarrow> comm list) \<Rightarrow> ('n \<Rightarrow> nat) \<Rightarrow> ('a, u32, u64) map_ops \<Rightarrow> ('a \<Rightarrow> nat) \<Rightarrow>
    nat \<Rightarrow> nat \<Rightarrow> ('m, 'n, 'a) tcp_retransmit_maps \<Rightarrow> bool" where
  "retrans_ready keys cap nkeys ncap aops acap c n s \<longleftrightarrow> keys (retrans_map s) = [] \<and> nkeys (retrans_comm_map s) = [] \<and>
     cap (retrans_map s) = c \<and> ncap (retrans_comm_map s) = n \<and> acap (retrans_stats s) = 4 \<and>
     prev_total s = count_at aops (\<lambda>v. v) (retrans_stats s) 0"

context tcp_retransmit
begin

lemma tick_keeps:
  assumes "tcp_retransmit_tick ops nops aops s = Some (out, s')" and "acap (retrans_stats s) = 4"
  shows "cap (retrans_map s') = cap (retrans_map s) \<and> ncap (retrans_comm_map s') = ncap (retrans_comm_map s) \<and>
    retrans_stats s' = retrans_stats s \<and> prev_total s' = count_at aops (\<lambda>v. v) (retrans_stats s) 0"
proof -
  let ?P = "\<lambda>x. cap (retrans_map x) = cap (retrans_map s) \<and> ncap (retrans_comm_map x) = ncap (retrans_comm_map s) \<and>
    retrans_stats x = retrans_stats s \<and> prev_total x = count_at aops (\<lambda>v. v) (retrans_stats s) 0"
  obtain out1 s1 out2 where
    l1: "key_loop (\<lambda>s. next_key ops (retrans_map s)) (retrans_pid_body ops) (Some 0) (snd (retrans_total aops s)) = Some (out1, s1)" and
    l2: "key_loop (\<lambda>s. next_key nops (retrans_comm_map s)) (retrans_comm_body nops) None s1 = Some (out2, s')"
    using assms(1) by (auto simp: tcp_retransmit_tick_def case_prod_unfold Let_def Option.bind_eq_Some_conv)
  obtain v where "lookup_elem aops (retrans_stats s) 0 = Some v" using a.array_lookup [of 0 "retrans_stats s"] assms(2) by auto
  then have "?P (snd (retrans_total aops s))" by (simp add: retrans_total_def Let_def count_at_def)
  then have "?P s1" by (rule key_loop_invariant [OF l1, where P = ?P, rotated]) (simp_all add: retrans_pid_body_def h.cap_delete split: option.split)
  then show ?thesis by (rule key_loop_invariant [OF l2, where P = ?P, rotated]) (simp_all add: retrans_comm_body_def n.cap_delete split: option.split)
qed

end

sublocale tcp_retransmit \<subseteq> whole: reporting_tool ev "tcp_retransmit_tick ops nops aops"
    "retrans_ready keys cap nkeys ncap aops acap c n" "retrans_fine c n" retrans_reports for c n
proof (unfold_locales, goal_cases)
  case (1 s es)
  note r = 1 [unfolded retrans_ready_def retrans_fine_def]
  obtain pids comms s' where t: "tcp_retransmit_tick ops nops aops (fold ev es s) = Some
      ((if es = [] then [] else [out_kv ''tcp_retransmit_delta'' (fmt_u (of_nat (length es) :: u64))]) @
       map (\<lambda>p. out_kv (''tcp_retrans_pid_'' @ fmt_u p @ ''_'' @ c_str (first_name (\<lambda>h. h) es p)) (fmt_u (calls (\<lambda>h. h) es p))) pids @
       map (\<lambda>c. out_kv (''tcp_retrans_comm_'' @ c_str c) (fmt_u (name_calls (\<lambda>h. h) es c))) comms @ [Flush], s')"
    "distinct pids" "set pids = cur_pid ` set es" "distinct comms" "set comms = cur_comm ` set es"
    "keys (retrans_map s') = []" "nkeys (retrans_comm_map s') = []"
    using tick_spec [of s es] r by auto
  have st: "acap (retrans_stats (fold ev es s)) = 4" using run_stats [of s es] r by simp
  have "retrans_ready keys cap nkeys ncap aops acap c n s'"
    using tick_keeps [OF t(1) st] t(6,7) st r pc.cap_run [of es s] nc.cap_run [of es s] by (simp add: retrans_ready_def)
  with t show ?case unfolding retrans_reports_def by blast
qed

subsection \<open>net\_udp\_stat\<close>

definition udp_fine :: "nat \<Rightarrow> udp_event list \<Rightarrow> bool" where
  "udp_fine c es \<longleftrightarrow> card (keys_hit sent_by es) \<le> c \<and> card (keys_hit received_by es) \<le> c \<and>
     0 \<notin> keys_hit sent_by es \<and> 0 \<notin> keys_hit received_by es \<and> length es < 2 ^ 64"

definition udp_reports :: "udp_event list \<Rightarrow> effect list \<Rightarrow> bool" where
  "udp_reports es out \<longleftrightarrow> (\<exists>senders receivers senders'. out =
       udp_totals (map (\<lambda>amt. sum_list (map amt es)) udp_amounts) @
       map (\<lambda>p. out_kv (''udp_send_pid_'' @ fmt_u p) (fmt_u (hit_count sent_by es p))) senders @
       map (\<lambda>p. out_kv (''udp_recv_pid_'' @ fmt_u p) (fmt_u (hit_count received_by es p))) receivers @
       concat (map (\<lambda>p. count_report (''udp_send_bytes_pid_'' @ fmt_u p) (sum_list (map sent_len (hits sent_by es p)))) senders') @ [Flush] \<and>
     distinct senders \<and> set senders = keys_hit sent_by es \<and> distinct receivers \<and> set receivers = keys_hit received_by es \<and>
     distinct senders' \<and> set senders' = keys_hit sent_by es)"

text \<open>The maps by process are empty, and the remembered totals are those of the array.\<close>

definition udp_ready :: "('m \<Rightarrow> u32 list) \<Rightarrow> ('m \<Rightarrow> nat) \<Rightarrow> ('a, u32, u64) map_ops \<Rightarrow> ('a \<Rightarrow> nat) \<Rightarrow> nat \<Rightarrow> ('m, 'a) udp_maps \<Rightarrow> bool" where
  "udp_ready keys cap aops acap c s \<longleftrightarrow> keys (udp_send_map s) = [] \<and> keys (udp_recv_map s) = [] \<and> keys (udp_send_bytes_map s) = [] \<and>
     cap (udp_send_map s) = c \<and> cap (udp_recv_map s) = c \<and> cap (udp_send_bytes_map s) = c \<and> acap (udp_stats s) = 8 \<and>
     prev_udp s = map (\<lambda>i. count_at aops (\<lambda>v. v) (udp_stats s) (of_nat i)) [0..<4]"

context udp_stat
begin

lemma tick_keeps:
  assumes "udp_stat_tick ops aops s = Some (out, s')"
  shows "cap (udp_send_map s') = cap (udp_send_map s) \<and> cap (udp_recv_map s') = cap (udp_recv_map s) \<and>
    cap (udp_send_bytes_map s') = cap (udp_send_bytes_map s) \<and> udp_stats s' = udp_stats s \<and>
    prev_udp s' = map (\<lambda>i. count_at aops (\<lambda>v. v) (udp_stats s) (of_nat i)) [0..<4]"
proof -
  let ?c = "map (\<lambda>i. count_at aops (\<lambda>v. v) (udp_stats s) (of_nat i)) [0..<4]"
  let ?P = "\<lambda>x. cap (udp_send_map x) = cap (udp_send_map s) \<and> cap (udp_recv_map x) = cap (udp_recv_map s) \<and>
    cap (udp_send_bytes_map x) = cap (udp_send_bytes_map s) \<and> udp_stats x = udp_stats s \<and> prev_udp x = ?c"
  obtain out1 s1 out2 s2 out3 where
    l1: "key_loop (\<lambda>s. next_key ops (udp_send_map s)) (udp_send_body ops) (Some 0) (s\<lparr>prev_udp := ?c\<rparr>) = Some (out1, s1)" and
    l2: "key_loop (\<lambda>s. next_key ops (udp_recv_map s)) (udp_recv_body ops) (Some 0) s1 = Some (out2, s2)" and
    l3: "key_loop (\<lambda>s. next_key ops (udp_send_bytes_map s)) (udp_bytes_body ops) (Some 0) s2 = Some (out3, s')"
    using assms unfolding udp_stat_tick_def Let_def count_at_def [of aops "\<lambda>v. v", symmetric]
    by (auto simp: Option.bind_eq_Some_conv simp del: upt_rec_numeral)
  have "?P (s\<lparr>prev_udp := ?c\<rparr>)" by simp
  then have "?P s1" by (rule key_loop_invariant [OF l1, where P = ?P, rotated]) (simp_all add: udp_send_body_def h.cap_delete split: option.split)
  then have "?P s2" by (rule key_loop_invariant [OF l2, where P = ?P, rotated]) (simp_all add: udp_recv_body_def h.cap_delete split: option.split)
  then show ?thesis by (rule key_loop_invariant [OF l3, where P = ?P, rotated]) (simp_all add: udp_bytes_body_def h.cap_delete split: option.split)
qed

lemma acap_run: "acap (udp_stats s) = 8 \<Longrightarrow> acap (udp_stats (fold ev es s)) = 8"
  by (induction es arbitrary: s) (simp_all add: event_stat(2) [of _ 0])

end

sublocale udp_stat \<subseteq> whole: reporting_tool ev "udp_stat_tick ops aops" "udp_ready keys cap aops acap c" "udp_fine c" udp_reports for c
proof (unfold_locales, goal_cases)
  case (1 s es)
  note r = 1 [unfolded udp_ready_def udp_fine_def]
  obtain senders receivers senders' s' where t: "udp_stat_tick ops aops (fold ev es s) = Some
      (udp_totals (map (\<lambda>amt. sum_list (map amt es)) udp_amounts) @
       map (\<lambda>p. out_kv (''udp_send_pid_'' @ fmt_u p) (fmt_u (hit_count sent_by es p))) senders @
       map (\<lambda>p. out_kv (''udp_recv_pid_'' @ fmt_u p) (fmt_u (hit_count received_by es p))) receivers @
       concat (map (\<lambda>p. count_report (''udp_send_bytes_pid_'' @ fmt_u p) (sum_list (map sent_len (hits sent_by es p)))) senders') @ [Flush], s')"
    "distinct senders" "set senders = keys_hit sent_by es" "distinct receivers" "set receivers = keys_hit received_by es"
    "distinct senders'" "set senders' = keys_hit sent_by es"
    "keys (udp_send_map s') = []" "keys (udp_recv_map s') = []" "keys (udp_send_bytes_map s') = []"
    using tick_spec [of s es] r by (auto simp del: upt_rec_numeral)
  have "udp_ready keys cap aops acap c s'"
    using tick_keeps [OF t(1)] t(8-10) r acap_run [of s es] sc.cap_run [of es s] rc.cap_run [of es s] bc.cap_run [of es s]
    by (simp add: udp_ready_def del: upt_rec_numeral)
  with t show ?case unfolding udp_reports_def by blast
qed

subsection \<open>socket\_stat\<close>

definition socket_fine :: "nat \<Rightarrow> nat \<Rightarrow> socket_call list \<Rightarrow> bool" where
  "socket_fine f c es \<longleftrightarrow> card (family_of ` set es) \<le> f \<and> 0 \<notin> family_of ` set es \<and>
     card ((\<lambda>e. cur_pid (caller e)) ` set es) \<le> c \<and> 0 \<notin> (\<lambda>e. cur_pid (caller e)) ` set es"

definition socket_reports :: "socket_call list \<Rightarrow> effect list \<Rightarrow> bool" where
  "socket_reports es out \<longleftrightarrow> (\<exists>fams pids. out =
       map (\<lambda>f. out_kv (''Family_'' @ family_name f) (fmt_u (hit_count (\<lambda>e. Some (family_of e)) es f))) fams @
       map (\<lambda>p. out_kv (''PID_'' @ fmt_u p @ ''_'' @ c_str (first_name caller es p)) (fmt_u (calls caller es p))) pids @ [Flush] \<and>
     distinct fams \<and> set fams = family_of ` set es \<and> distinct pids \<and> set pids = (\<lambda>e. cur_pid (caller e)) ` set es)"

definition socket_ready :: "('f \<Rightarrow> u32 list) \<Rightarrow> ('f \<Rightarrow> nat) \<Rightarrow> ('m \<Rightarrow> u32 list) \<Rightarrow> ('m \<Rightarrow> nat) \<Rightarrow> nat \<Rightarrow> nat \<Rightarrow> ('f, 'm, 'x, 'n) socket_maps \<Rightarrow> bool" where
  "socket_ready fkeys fcap keys cap f c s \<longleftrightarrow> fkeys (family_count s) = [] \<and> keys (socket_pid_count s) = [] \<and>
     fcap (family_count s) = f \<and> cap (socket_pid_count s) = c"

context socket_stat
begin

lemma cap_tick:
  assumes "socket_print_and_clear fops ops s = Some (out, s')"
  shows "fcap (family_count s') = fcap (family_count s) \<and> cap (socket_pid_count s') = cap (socket_pid_count s)"
proof -
  let ?P = "\<lambda>x. fcap (family_count x) = fcap (family_count s) \<and> cap (socket_pid_count x) = cap (socket_pid_count s)"
  obtain out1 s1 out2 where
    l1: "key_loop (\<lambda>s. next_key fops (family_count s)) (family_body fops) (Some 0) s = Some (out1, s1)" and
    l2: "key_loop (\<lambda>s. next_key ops (socket_pid_count s)) (socket_pid_body ops) (Some 0) s1 = Some (out2, s')"
    using assms by (auto simp: socket_print_and_clear_def Option.bind_eq_Some_conv)
  have "?P s1" by (rule key_loop_invariant [OF l1, where P = ?P]) (simp_all add: family_body_def f.cap_delete split: option.split)
  then show ?thesis by (rule key_loop_invariant [OF l2, where P = ?P, rotated]) (simp_all add: socket_pid_body_def h.cap_delete split: option.split)
qed

end

sublocale socket_stat \<subseteq> whole: reporting_tool ev "socket_print_and_clear fops ops"
    "socket_ready fkeys fcap keys cap f c" "socket_fine f c" socket_reports for f c
proof (unfold_locales, goal_cases)
  case (1 s es)
  note r = 1 [unfolded socket_ready_def socket_fine_def]
  obtain fams pids s' where t: "socket_print_and_clear fops ops (fold ev es s) = Some
      (map (\<lambda>f. out_kv (''Family_'' @ family_name f) (fmt_u (hit_count (\<lambda>e. Some (family_of e)) es f))) fams @
       map (\<lambda>p. out_kv (''PID_'' @ fmt_u p @ ''_'' @ c_str (first_name caller es p)) (fmt_u (calls caller es p))) pids @ [Flush], s')"
    "distinct fams" "set fams = family_of ` set es" "distinct pids" "set pids = (\<lambda>e. cur_pid (caller e)) ` set es"
    "fkeys (family_count s') = []" "keys (socket_pid_count s') = []"
    using tick_spec [of s es] r by auto
  have "socket_ready fkeys fcap keys cap f c s'"
    using cap_tick [OF t(1)] t(6,7) r fc.cap_run [of es s] pc.cap_run [of es s] by (simp add: socket_ready_def)
  with t show ?case unfolding socket_reports_def by blast
qed

subsection \<open>disk\_io\_size\<close>

definition size_fine :: "nat \<Rightarrow> block_rq list \<Rightarrow> bool" where
  "size_fine c es \<longleftrightarrow> card (rq_pid ` set es) \<le> c \<and> 0 \<notin> rq_pid ` set es \<and> length es < 2 ^ 64"

definition size_reports :: "block_rq list \<Rightarrow> effect list \<Rightarrow> bool" where
  "size_reports es out \<longleftrightarrow> (\<exists>pids. out = io_size_lines (map (\<lambda>amt. sum_list (map amt es)) size_amounts) @
       concat (map (pid_lines es) pids) @ [Flush] \<and> distinct pids \<and> set pids = rq_pid ` set es)"

text \<open>The map by process is empty, and the remembered values are those of the array.\<close>

definition size_ready :: "('m \<Rightarrow> u32 list) \<Rightarrow> ('m \<Rightarrow> nat) \<Rightarrow> ('a, u32, u64) map_ops \<Rightarrow> ('a \<Rightarrow> nat) \<Rightarrow> nat \<Rightarrow> ('m, 'a) io_size_maps \<Rightarrow> bool" where
  "size_ready keys cap aops acap c s \<longleftrightarrow> keys (pid_io_stats s) = [] \<and> cap (pid_io_stats s) = c \<and> acap (io_size_stats s) = 8 \<and>
     prev_stats s = map (\<lambda>i. count_at aops (\<lambda>v. v) (io_size_stats s) (of_nat i)) [0..<6]"

context io_size
begin

lemma tick_keeps:
  assumes "io_size_tick ops aops s = Some (out, s')"
  shows "cap (pid_io_stats s') = cap (pid_io_stats s) \<and> io_size_stats s' = io_size_stats s"
proof -
  let ?P = "\<lambda>x. cap (pid_io_stats x) = cap (pid_io_stats s) \<and> io_size_stats x = io_size_stats s"
  obtain out1 s1 t where
    l: "key_loop (\<lambda>s. next_key ops (pid_io_stats s)) (io_size_body ops) (Some 0) s = Some (out1, s1)" and s': "s' = s1\<lparr>prev_stats := t\<rparr>"
    using assms by (auto simp: io_size_tick_def Let_def Option.bind_eq_Some_conv simp del: upt_rec_numeral)
  have "?P s1" by (rule key_loop_invariant [OF l, where P = ?P]) (simp_all add: io_size_body_def h.cap_delete split: option.split)
  then show ?thesis by (simp add: s')
qed

lemma acap_run: "acap (io_size_stats s) = 8 \<Longrightarrow> acap (io_size_stats (fold (io_size_event ops aops) es s)) = 8"
  by (induction es arbitrary: s) (simp_all add: event_stat(2) [of _ 0])

end

sublocale io_size \<subseteq> whole: reporting_tool "io_size_event ops aops" "io_size_tick ops aops"
    "size_ready keys cap aops acap c" "size_fine c" size_reports for c
proof (unfold_locales, goal_cases)
  case (1 s es)
  note r = 1 [unfolded size_ready_def size_fine_def]
  obtain pids s' where t: "io_size_tick ops aops (fold (io_size_event ops aops) es s) = Some
      (io_size_lines (map (\<lambda>amt. sum_list (map amt es)) size_amounts) @ concat (map (pid_lines es) pids) @ [Flush], s')"
    "distinct pids" "set pids = rq_pid ` set es" "keys (pid_io_stats s') = []"
    "prev_stats s' = map (\<lambda>i. count_at aops (\<lambda>v. v) (io_size_stats s') (of_nat i)) [0..<6]"
    using tick_spec [of s es] r by (auto simp del: upt_rec_numeral)
  have "size_ready keys cap aops acap c s'"
    using tick_keeps [OF t(1)] t(4,5) r acap_run [of s es] rc.cap_run [of es s] by (simp add: size_ready_def del: upt_rec_numeral)
  with t(1-3) show ?case unfolding size_reports_def by blast
qed

subsection \<open>irq\_stat\<close>

definition irq_fine :: "helpers list \<Rightarrow> bool" where
  "irq_fine es \<longleftrightarrow> card (cur_comm ` set es) \<le> DATA_LEN"

text \<open>The five command names with the most calls, the sum of the others; all counts add up to the calls.\<close>

definition irq_reports :: "helpers list \<Rightarrow> effect list \<Rightarrow> bool" where
  "irq_reports es out \<longleftrightarrow> (\<exists>ents. out = map (\<lambda>e. json_line (c_str (entry_name e)) (entry_count e)) (take 5 ents) @
       (let others = sum_list (map entry_count (drop 5 ents)) in
        if others > 0 then [json_line ''others'' others] else []) @ [Flush] \<and>
     mset ents = image_mset (entry_total es) (mset_set (cur_comm ` set es)) \<and>
     sorted_wrt (\<lambda>a b. entry_count a \<ge> entry_count b) ents \<and>
     sum_list (map entry_count (take 5 ents)) + sum_list (map entry_count (drop 5 ents)) = of_nat (length es))"

definition irq_ready :: "('m \<Rightarrow> comm list) \<Rightarrow> ('m \<Rightarrow> nat) \<Rightarrow> 'm irq_stat_maps \<Rightarrow> bool" where
  "irq_ready keys cap s \<longleftrightarrow> keys (irq_stats s) = [] \<and> cap (irq_stats s) = DATA_LEN \<and> \<not> out_of_bounds s"

lemma irq_events_in_bounds: "out_of_bounds (fold (irq_stat_event ops) es s) = out_of_bounds s"
proof -
  have "out_of_bounds (irq_stat_event ops e s) = out_of_bounds s" for e s
    by (simp add: irq_stat_event_def handle_execve_def Let_def split: option.split)
  then show ?thesis by (induction es arbitrary: s) simp_all
qed

sublocale sorted_irq_stat \<subseteq> whole: reporting_tool "irq_stat_event ops" "irq_stat_tick srt ops" "irq_ready keys cap" irq_fine irq_reports
proof (unfold_locales, goal_cases)
  case (1 s es)
  then show ?case
    using round_exact [of s es] irq_events_in_bounds [of ops es s] unfolding irq_ready_def irq_fine_def irq_reports_def by blast
qed

subsection \<open>page\_fault\_stat\<close>

definition fault_fine :: "nat \<Rightarrow> fault_event list \<Rightarrow> bool" where
  "fault_fine c es \<longleftrightarrow> card ((\<lambda>e. cur_pid (fault_ctx e)) ` set es) \<le> c \<and> length es < 2 ^ 64"

definition fault_reports :: "fault_event list \<Rightarrow> effect list \<Rightarrow> bool" where
  "fault_reports es out \<longleftrightarrow> (\<exists>pids. out =
       map (\<lambda>p. out_kv (c_str (first_name fault_ctx es p) @ ''_'' @ fmt_u p) (fmt_u (calls fault_ctx es p))) pids @ [Flush] \<and>
     distinct pids \<and> set pids = (\<lambda>e. cur_pid (fault_ctx e)) ` set es)"

context page_fault
begin

lemma cap_tick:
  assumes "page_fault_tick ops s = Some (out, s')"
  shows "cap (counter s') = cap (counter s)"
proof -
  have "s' = snd (visit (page_fault_body ops) (keys (counter s)) s)"
    using assms rep.prefetch_visits [OF refl, of s]
    by (auto simp: page_fault_tick_def h.next_key_order case_prod_unfold)
  then show ?thesis using rep.cap_visit [of "keys (counter s)" s] by simp
qed

end

sublocale page_fault \<subseteq> whole: reporting_tool "page_fault_event ops nops" "page_fault_tick ops"
    "\<lambda>s. keys (counter s) = [] \<and> cap (counter s) = c" "fault_fine c" fault_reports for c
proof (unfold_locales, goal_cases)
  case (1 s es)
  note r = 1 [unfolded fault_fine_def]
  obtain pids s' where t: "page_fault_tick ops (fold (page_fault_event ops nops) es s) =
      Some (map (\<lambda>p. out_kv (c_str (first_name fault_ctx es p) @ ''_'' @ fmt_u p) (fmt_u (calls fault_ctx es p))) pids @ [Flush], s')"
    "distinct pids" "set pids = (\<lambda>e. cur_pid (fault_ctx e)) ` set es" "keys (counter s') = []"
    using tick_spec [of s es] r by auto
  have "cap (counter s') = c" using cap_tick [OF t(1)] ctr.cap_run [of es s] r by simp
  with t show ?case unfolding fault_reports_def by blast
qed

subsection \<open>write\_stat: totals since the start\<close>

definition write_fine :: "nat \<Rightarrow> helpers list \<Rightarrow> helpers list \<Rightarrow> bool" where
  "write_fine c hs es \<longleftrightarrow> card (cur_pid ` set (hs @ es)) \<le> c \<and> 0 \<notin> cur_pid ` set (hs @ es)"

text \<open>The calls of each process in all intervals so far.\<close>

definition write_reports :: "helpers list \<Rightarrow> helpers list \<Rightarrow> effect list \<Rightarrow> bool" where
  "write_reports hs es out \<longleftrightarrow> (\<exists>pids. out =
       map (\<lambda>p. out_kv (''write_calls_pid_'' @ fmt_u p) (fmt_u (calls (\<lambda>h. h) (hs @ es) p))) pids \<and>
     distinct pids \<and> set pids = cur_pid ` set (hs @ es))"

sublocale write_stat \<subseteq> whole: chronicled_tool "write_stat_event ops" "write_stat_tick ops"
    "\<lambda>hs s. \<exists>s0. keys (file_write_counter s0) = [] \<and> cap (file_write_counter s0) = c \<and> s = fold (write_stat_event ops) hs s0"
    "write_fine c" write_reports for c
proof (unfold_locales, goal_cases)
  case (1 hs s es)
  then obtain s0 where s0: "keys (file_write_counter s0) = []" "cap (file_write_counter s0) = c" "s = fold (write_stat_event ops) hs s0"
    by blast
  have run: "fold (write_stat_event ops) es s = fold (write_stat_event ops) (hs @ es) s0" by (simp add: s0(3))
  from totals [OF s0(1), of "hs @ es"] 1(2) s0(2) show ?case
    unfolding run write_fine_def write_reports_def calls_def using s0(1,2) by blast
qed

subsection \<open>mmap\_stat: increments of all processes seen so far\<close>

definition mmap_fine :: "nat \<Rightarrow> helpers list \<Rightarrow> helpers list \<Rightarrow> bool" where
  "mmap_fine c hs es \<longleftrightarrow> card (cur_pid ` set (hs @ es)) \<le> c \<and> 0 \<notin> cur_pid ` set (hs @ es)"

text \<open>For each process seen in any interval so far its calls in the last one.\<close>

definition mmap_reports :: "helpers list \<Rightarrow> helpers list \<Rightarrow> effect list \<Rightarrow> bool" where
  "mmap_reports hs es out \<longleftrightarrow> (\<exists>pids. out =
       map (\<lambda>p. out_kv (''mmap_calls_pid_'' @ fmt_u p) (fmt_u (calls (\<lambda>h. h) es p))) pids \<and>
     distinct pids \<and> set pids = cur_pid ` set (hs @ es))"

definition mmap_ready :: "('m, u32, u64) map_ops \<Rightarrow> ('m \<Rightarrow> u32 list) \<Rightarrow> ('m \<Rightarrow> nat) \<Rightarrow> nat \<Rightarrow> helpers list \<Rightarrow> 'm mmap_stat_maps \<Rightarrow> bool" where
  "mmap_ready ops keys cap c hs s \<longleftrightarrow> (\<forall>k. count_at ops (\<lambda>v. v) (memo_counter s) k = 0) \<and>
     set (keys (memo_counter s)) = cur_pid ` set hs \<and> cap (memo_counter s) = c"

context mmap_stat
begin

lemma tick_keeps:
  assumes "mmap_stat_tick ops s = Some (out, s')" and "0 \<notin> set (keys (memo_counter s))"
  shows "keys (memo_counter s') = keys (memo_counter s) \<and> cap (memo_counter s') = cap (memo_counter s)"
proof
  show "keys (memo_counter s') = keys (memo_counter s)" using tick_spec [OF assms(2)] assms(1) by auto
  show "cap (memo_counter s') = cap (memo_counter s)"
    by (rule key_loop_invariant [OF assms(1) [unfolded mmap_stat_tick_def], where P = "\<lambda>x. cap (memo_counter x) = cap (memo_counter s)"])
      (simp_all add: mmap_stat_body_def cap_update split: option.split)
qed

end

sublocale mmap_stat \<subseteq> whole: chronicled_tool "mmap_stat_event ops" "mmap_stat_tick ops" "mmap_ready ops keys cap c" "mmap_fine c" mmap_reports for c
proof (unfold_locales, goal_cases)
  case (1 hs s es)
  note r = 1 [unfolded mmap_ready_def mmap_fine_def]
  let ?s = "fold (mmap_stat_event ops) es s"
  have all: "set (keys (memo_counter s)) \<union> cur_pid ` set es = cur_pid ` set (hs @ es)" using r by auto
  obtain pids s' where t: "mmap_stat_tick ops ?s = Some (map (\<lambda>p. out_kv (''mmap_calls_pid_'' @ fmt_u p)
        (fmt_u (of_nat (length (filter (\<lambda>h. cur_pid h = p) es)) :: u64))) pids, s')"
    "distinct pids" "set pids = cur_pid ` set (hs @ es)" "\<forall>k. count_at ops (\<lambda>v. v) (memo_counter s') k = 0"
    using increments [of s es] r unfolding all by auto
  have ks: "set (keys (memo_counter ?s)) = cur_pid ` set (hs @ es)"
    using ctr.run_counts [of s es] r all by auto
  then have "0 \<notin> set (keys (memo_counter ?s))" using r by simp
  from tick_keeps [OF t(1) this] have "mmap_ready ops keys cap c (hs @ es) s'"
    using t(4) ks ctr.cap_run [of es s] r by (simp add: mmap_ready_def)
  with t(1-3) show ?case unfolding mmap_reports_def calls_def by blast
qed

subsection \<open>The programs\<close>

text \<open>What each \<open>main\<close> does from its start to its exit.\<close>

context file_open
begin

lemma session_exact:
  assumes "runs_until env g ess" and "\<forall>es \<in> set ess. open_fine c f n es" and "open_ready keys cap nkeys ncap c f n s"
  shows "\<exists>outs s'. file_open_main ops nops env s = Some (Exited 0, [err_line ''File Open Statistics Monitor - Ctrl+C to stop''] @ concat (map (Cons (Sleep 1)) outs) @ [Destroy], s')
    \<and> list_all2 open_reports ess outs \<and> open_ready keys cap nkeys ncap c f n s'"
  using whole.session [OF assms(3,1,2) signal_handled, of "[err_line ''File Open Statistics Monitor - Ctrl+C to stop'']" 1] runs_until_starts [OF assms(1)]
  by (simp add: file_open_main_def)

end

context mem_oom
begin

lemma session_exact:
  assumes "runs_until env g ess" and "\<forall>es \<in> set ess. oom_fine c es" and "oom_ready keys cap aops acap c (s\<lparr>prev_oom_count := 0\<rparr>)"
  shows "\<exists>outs s'. mem_oom_main ops aops env s = Some (Exited 0, [err_line ''OOM Kill Monitor started (waiting for events), Ctrl+C to stop''] @ concat (map (Cons (Sleep 1)) outs) @ [Destroy], s')
    \<and> list_all2 oom_reports ess outs \<and> oom_ready keys cap aops acap c s'"
  using whole.session [OF assms(3,1,2) signal_handled, of "[err_line ''OOM Kill Monitor started (waiting for events), Ctrl+C to stop'']" 1] runs_until_starts [OF assms(1)]
  by (simp add: mem_oom_main_def)

end

context tcp_retransmit
begin

lemma session_exact:
  assumes "runs_until env g ess" and "\<forall>es \<in> set ess. retrans_fine c n es" and "retrans_ready keys cap nkeys ncap aops acap c n (s\<lparr>prev_total := 0\<rparr>)"
  shows "\<exists>outs s'. tcp_retransmit_main ops nops aops env s = Some (Exited 0, [err_line ''TCP Retransmit Monitor started (waiting for events), Ctrl+C to stop''] @ concat (map (Cons (Sleep 1)) outs) @ [Destroy], s')
    \<and> list_all2 retrans_reports ess outs \<and> retrans_ready keys cap nkeys ncap aops acap c n s'"
  using whole.session [OF assms(3,1,2) signal_handled, of "[err_line ''TCP Retransmit Monitor started (waiting for events), Ctrl+C to stop'']" 1] runs_until_starts [OF assms(1)]
  by (simp add: tcp_retransmit_main_def)

end

context udp_stat
begin

lemma session_exact:
  assumes "runs_until env g ess" and "\<forall>es \<in> set ess. udp_fine c es" and "udp_ready keys cap aops acap c (s\<lparr>prev_udp := replicate 4 0\<rparr>)"
  shows "\<exists>outs s'. udp_stat_main ops aops env s = Some (Exited 0, [err_line ''UDP Traffic Monitor started (waiting for events), Ctrl+C to stop''] @ concat (map (Cons (Sleep 1)) outs) @ [Destroy], s')
    \<and> list_all2 udp_reports ess outs \<and> udp_ready keys cap aops acap c s'"
  using whole.session [OF assms(3,1,2) signal_handled, of "[err_line ''UDP Traffic Monitor started (waiting for events), Ctrl+C to stop'']" 1] runs_until_starts [OF assms(1)]
  by (simp add: udp_stat_main_def)

end

context io_size
begin

lemma session_exact:
  assumes "runs_until env g ess" and "\<forall>es \<in> set ess. size_fine c es" and "size_ready keys cap aops acap c (s\<lparr>prev_stats := replicate 6 0\<rparr>)"
  shows "\<exists>outs s'. io_size_main ops aops env s = Some (Exited 0, [err_line ''Disk I/O Size Monitor - Ctrl+C to stop''] @ concat (map (Cons (Sleep 1)) outs) @ [Destroy], s')
    \<and> list_all2 size_reports ess outs \<and> size_ready keys cap aops acap c s'"
  using whole.session [OF assms(3,1,2) signal_handled, of "[err_line ''Disk I/O Size Monitor - Ctrl+C to stop'']" 1] runs_until_starts [OF assms(1)]
  by (simp add: io_size_main_def)

end

context sorted_irq_stat
begin

lemma session_exact:
  assumes "runs_until env g ess" and "\<forall>es \<in> set ess. irq_fine es" and "irq_ready keys cap s"
  shows "\<exists>outs s'. irq_stat_main srt ops env s = Some (Exited 0, concat (map (Cons (Sleep 1)) outs) @ [Destroy], s')
    \<and> list_all2 irq_reports ess outs \<and> irq_ready keys cap s'"
  using whole.session [OF assms(3,1,2) signal_handled, of "[]" 1] runs_until_starts [OF assms(1)]
  by (simp add: irq_stat_main_def)

end

context socket_stat
begin

lemma session_exact:
  assumes "runs_until env SIGINT ess" and "\<forall>es \<in> set ess. socket_fine f c es" and "socket_ready fkeys fcap keys cap f c s"
  shows "\<exists>outs s'. socket_stat_main fops ops xops nops env s = Some (Exited 0, concat (map (Cons (Sleep 2)) outs) @ [Destroy], s')
    \<and> list_all2 socket_reports ess outs \<and> socket_ready fkeys fcap keys cap f c s'"
  using whole.session [OF assms(3,1,2), of "[SIGINT]" "[]" 2] runs_until_starts [OF assms(1)]
  by (simp add: socket_stat_main_def)

end

context page_fault
begin

lemma session_exact:
  assumes "runs_until env g ess" and "\<forall>es \<in> set (butlast ess). fault_fine c es" and "keys (counter s) = []" and "cap (counter s) = c"
  shows "\<exists>outs s'. page_fault_main ops nops env s = Some (Exited 0, concat (map (\<lambda>out. out @ [Sleep 1]) outs) @ [Destroy],
      fold (page_fault_event ops nops) (last ess) s')
    \<and> list_all2 fault_reports ([] # butlast ess) outs \<and> keys (counter s') = []"
proof -
  have "fault_fine c []" by (simp add: fault_fine_def)
  from whole.session_sleep_last [OF conjI [OF assms(3,4)] assms(1) this assms(2) signal_handled, of "[]" 1]
  show ?thesis using runs_until_starts [OF assms(1)] by (auto simp: page_fault_main_def)
qed

end

context write_stat
begin

lemma session_exact:
  assumes "runs_on env ess" and "along (write_fine c) [] (butlast ([] # ess))"
    and "keys (file_write_counter s) = []" and "cap (file_write_counter s) = c"
  shows "\<exists>outs s'. write_stat_main ops env s = Some (Running,
      [err_line ''Monitoring write syscalls by PID, press Ctrl+C to stop.''] @ concat (map (\<lambda>out. out @ [Sleep 1]) outs), s')
    \<and> chronicle write_reports [] (butlast ([] # ess)) outs"
proof -
  have "\<exists>s0. keys (file_write_counter s0) = [] \<and> cap (file_write_counter s0) = c \<and> s = fold (write_stat_event ops) [] s0"
    using assms(3,4) by auto
  from whole.session_last_open [OF this assms(1,2), of "[err_line ''Monitoring write syscalls by PID, press Ctrl+C to stop.'']" "[]" 1]
  show ?thesis using runs_on_starts [OF assms(1)] by (auto simp: write_stat_main_def)
qed

end

context mmap_stat
begin

lemma session_exact:
  assumes "runs_on env ess" and "along (mmap_fine c) [] (butlast ([] # ess))"
    and "keys (memo_counter s) = []" and "cap (memo_counter s) = c"
  shows "\<exists>outs s'. mmap_stat_main ops env s = Some (Running,
      [err_line ''Monitoring mmap syscalls by PID (Incremental per sec), press Ctrl+C to stop.''] @ concat (map (\<lambda>out. out @ [Sleep 1]) outs), s')
    \<and> chronicle mmap_reports [] (butlast ([] # ess)) outs"
proof -
  have "mmap_ready ops keys cap c [] s"
    using assms(3,4) by (auto simp: mmap_ready_def count_at_def keys_Nil_iff)
  from whole.session_last_open [OF this assms(1,2), of "[err_line ''Monitoring mmap syscalls by PID (Incremental per sec), press Ctrl+C to stop.'']" "[]" 1]
  show ?thesis using runs_on_starts [OF assms(1)] by (auto simp: mmap_stat_main_def)
qed

end

subsection \<open>cpu\_freq\_stat\<close>

text \<open>One line for each core with the last of its frequencies since the start, in MHz, unless that is 0.\<close>

definition freq_reports :: "cpu_frequency_args list \<Rightarrow> cpu_frequency_args list \<Rightarrow> effect list \<Rightarrow> bool" where
  "freq_reports hs es out \<longleftrightarrow> out = concat (map (\<lambda>c. let fs = freqs_of (hs @ es) c in
        if fs \<noteq> [] \<and> last fs > 0
        then [out_kv (''cpu_'' @ fmt_u c @ ''_freq_mhz'') (fmt_milli (unat (last fs)))] else [])
      (map of_nat [0..<CpuFreq.MAX_CPUS])) @ [Flush]"

definition freq_ready :: "('a, u32, freq_info) map_ops \<Rightarrow> ('a \<Rightarrow> nat) \<Rightarrow> cpu_frequency_args list \<Rightarrow> 'a cpu_freq_maps \<Rightarrow> bool" where
  "freq_ready ops cap hs s \<longleftrightarrow> cap (cpu_freq_map s) = CpuFreq.MAX_CPUS \<and>
     (\<forall>c. unat c < CpuFreq.MAX_CPUS \<longrightarrow> lookup_elem ops (cpu_freq_map s) c = Some (freq_summary zero_info (freqs_of hs c)))"

context cpu_freq
begin

lemma cap_run: "cap (cpu_freq_map (fold (cpu_freq_event ops) es s)) = cap (cpu_freq_map s)"
  by (induction es arbitrary: s)
    (simp_all add: cpu_freq_event_def handle_cpu_frequency_def Let_def cap_store cap_update split: option.split)

lemma ready_run:
  assumes "freq_ready ops cap hs s"
  shows "freq_ready ops cap (hs @ es) (fold (cpu_freq_event ops) es s)"
proof -
  have "freq_summary (freq_summary zero_info (freqs_of hs c)) (freqs_of es c) = freq_summary zero_info (freqs_of (hs @ es) c)" for c
    by (simp add: freq_summary_def freqs_of_def)
  moreover have "min_freq (freq_summary zero_info fs) = 0" for fs by (simp add: freq_summary_def zero_info_def)
  ultimately show ?thesis
    using assms run_lookup [of s] by (simp add: freq_ready_def cap_run)
qed

end

sublocale cpu_freq \<subseteq> whole: chronicled_tool "cpu_freq_event ops" "cpu_freq_tick ops" "freq_ready ops cap" "\<lambda>_ _. True" freq_reports
proof (unfold_locales, goal_cases)
  case (1 hs s es)
  let ?s1 = "fold (cpu_freq_event ops) es s"
  have ready: "freq_ready ops cap (hs @ es) ?s1" by (rule ready_run [OF 1(1)])
  have line: "freq_line c (lookup_elem ops (cpu_freq_map ?s1) c) = (let fs = freqs_of (hs @ es) c in
        if fs \<noteq> [] \<and> last fs > 0
        then [out_kv (''cpu_'' @ fmt_u c @ ''_freq_mhz'') (fmt_milli (unat (last fs)))] else [])"
    if "c \<in> set (map of_nat [0..<CpuFreq.MAX_CPUS])" for c
  proof -
    have "unat c < CpuFreq.MAX_CPUS" using that index_words(1) [of CpuFreq.MAX_CPUS] by (simp add: CpuFreq.MAX_CPUS_def)
    then have look: "lookup_elem ops (cpu_freq_map ?s1) c = Some (freq_summary zero_info (freqs_of (hs @ es) c))"
      using ready by (simp add: freq_ready_def)
    have "freqs_of (hs @ es) c \<noteq> [] \<Longrightarrow> unat (last (freqs_of (hs @ es) c)) < 2 ^ 52"
      using freqs_of_bound [of "last (freqs_of (hs @ es) c)" "hs @ es" c] by simp
    then show ?thesis by (simp add: look freq_line_def freq_summary_def zero_info_def fmt_us_milli Let_def)
  qed
  show ?case unfolding tick_lines freq_reports_def by (simp only: map_cong [OF refl line]) (use ready in blast)
qed

context cpu_freq
begin

lemma session_exact:
  assumes "runs_until env g ess" and "freq_ready ops cap [] s"
  shows "\<exists>outs s'. cpu_freq_main ops env s = Some (Exited 0,
      [err_line ''CPU Frequency Monitor - Ctrl+C to stop''] @ concat (map (Cons (Sleep 1)) outs) @ [Destroy], s')
    \<and> chronicle freq_reports [] ess outs \<and> freq_ready ops cap (concat ess) s'"
proof -
  have "along (\<lambda>_ _. True) hs ess" for hs :: "cpu_frequency_args list" by (induction ess arbitrary: hs) simp_all
  from whole.session_first [OF assms(2,1) this signal_handled, of "[err_line ''CPU Frequency Monitor - Ctrl+C to stop'']" 1] show ?thesis
    using runs_until_starts [OF assms(1)] by (auto simp: cpu_freq_main_def)
qed

end

subsection \<open>Properties\<close>

text \<open>C30: a whole run of file_open_stat: if in no interval more processes or command names occur than the maps hold,
  and process 0 in none, it prints in the iteration after each interval, the last one included, exactly the
  calls of \<open>openat()\<close> of each process, the failed ones of each process and the calls under each command name of
  that interval; then it releases the skeleton and exits with 0.\<close>

theorem file_open_session:
  assumes "bpf_hash ops keys cap" and "bpf_hash nops nkeys ncap"
    and "runs_until env g ess" and "\<forall>es \<in> set ess. open_fine c f n es" and "open_ready keys cap nkeys ncap c f n s"
  shows "\<exists>outs s'. file_open_main ops nops env s = Some (Exited 0,
      [err_line ''File Open Statistics Monitor - Ctrl+C to stop''] @ concat (map (Cons (Sleep 1)) outs) @ [Destroy], s')
    \<and> list_all2 open_reports ess outs \<and> open_ready keys cap nkeys ncap c f n s'"
  by (rule file_open.session_exact [OF file_open.intro [OF assms(1,2)] assms(3-5)])

theorem file_open_session_witness:
  "\<exists>outs s'. file_open_main (hash_ops False) (hash_ops False) (two_rounds open_demo) open_init = Some (Exited 0,
      [err_line ''File Open Statistics Monitor - Ctrl+C to stop''] @ concat (map (Cons (Sleep 1)) outs) @ [Destroy], s')
    \<and> list_all2 open_reports [open_demo, open_demo] outs \<and> open_ready hm_keys hcap hm_keys hcap 10240 10240 10240 s'"
  by (rule file_open_session [OF hm.bpf_hash_axioms hm.bpf_hash_axioms two_rounds_until])
    (simp_all add: open_fine_def open_ready_def open_init_def open_demo_def card_insert_if)

text \<open>A whole run of mem_oom_stat: after each interval it prints the number of runs of the OOM killer in it and
  the share of each process in whose context it ran; the shares of an interval add up to its number. The
  difference with the remembered total never drifts, however many intervals there are.\<close>

theorem mem_oom_session:
  assumes "bpf_hash ops keys cap" and "bpf_array aops akeys acap"
    and "runs_until env g ess" and "\<forall>es \<in> set ess. oom_fine c es" and "oom_ready keys cap aops acap c (s\<lparr>prev_oom_count := 0\<rparr>)"
  shows "\<exists>outs s'. mem_oom_main ops aops env s = Some (Exited 0,
      [err_line ''OOM Kill Monitor started (waiting for events), Ctrl+C to stop''] @ concat (map (Cons (Sleep 1)) outs) @ [Destroy], s')
    \<and> list_all2 oom_reports ess outs \<and> oom_ready keys cap aops acap c s'"
  by (rule mem_oom.session_exact [OF mem_oom.intro [OF assms(1) counter_array.intro [OF assms(2)]] assms(3-5)])

definition oom_demo :: "helpers list" where
  "oom_demo = [task_ctx 31 ''java'' 1 0, task_ctx 31 ''java'' 5 0, task_ctx 32 ''cc1'' 6 0]"

theorem mem_oom_session_witness:
  "\<exists>outs s'. mem_oom_main (hash_ops False) array_ops (two_rounds oom_demo) oom_init = Some (Exited 0,
      [err_line ''OOM Kill Monitor started (waiting for events), Ctrl+C to stop''] @ concat (map (Cons (Sleep 1)) outs) @ [Destroy], s')
    \<and> list_all2 oom_reports [oom_demo, oom_demo] outs \<and> oom_ready hm_keys hcap array_ops arr_cap 10240 s'"
  by (rule mem_oom_session [OF hm.bpf_hash_axioms ar.bpf_array_axioms two_rounds_until])
    (simp_all add: oom_fine_def oom_ready_def oom_init_def oom_demo_def count_at_def card_insert_if)



text \<open>C31: a whole run of net_udp_stat: after each interval it prints the non-zero totals of sends, successful receives
  and their lengths in that interval, then sends, receives and sent bytes of each process, for processes other
  than 0 that fit the maps; then it releases the skeleton and exits with 0.\<close>

theorem udp_stat_session:
  assumes "bpf_hash ops keys cap" and "bpf_array aops akeys acap"
    and "runs_until env g ess" and "\<forall>es \<in> set ess. udp_fine c es" and "udp_ready keys cap aops acap c (s\<lparr>prev_udp := replicate 4 0\<rparr>)"
  shows "\<exists>outs s'. udp_stat_main ops aops env s = Some (Exited 0,
      [err_line ''UDP Traffic Monitor started (waiting for events), Ctrl+C to stop''] @ concat (map (Cons (Sleep 1)) outs) @ [Destroy], s')
    \<and> list_all2 udp_reports ess outs \<and> udp_ready keys cap aops acap c s'"
  by (rule udp_stat.session_exact [OF udp_stat.intro [OF assms(1,2)] assms(3-5)])

theorem udp_stat_session_witness:
  "\<exists>outs s'. udp_stat_main (hash_ops False) array_ops (two_rounds udp_demo) udp_init = Some (Exited 0,
      [err_line ''UDP Traffic Monitor started (waiting for events), Ctrl+C to stop''] @ concat (map (Cons (Sleep 1)) outs) @ [Destroy], s')
    \<and> list_all2 udp_reports [udp_demo, udp_demo] outs \<and> udp_ready hm_keys hcap array_ops arr_cap 10240 s'"
proof (rule udp_stat_session [OF hm.bpf_hash_axioms ar.bpf_array_axioms two_rounds_until])
  have "udp_init\<lparr>prev_udp := replicate 4 0\<rparr> = udp_init" by (simp add: udp_init_def)
  then show "udp_ready hm_keys hcap array_ops arr_cap 10240 (udp_init\<lparr>prev_udp := replicate 4 0\<rparr>)"
    using udp_init_prev by (simp add: udp_ready_def) (simp add: udp_init_def)
qed (simp add: udp_fine_def udp_demo_hits, simp add: udp_demo_def)

text \<open>A whole run of socket_stat, ended by SIGINT (the one signal it handles): after each interval it prints the
  \<open>socket()\<close> calls of each address family and of each process in it, for families and processes other than 0
  that fit the maps; then it releases the skeleton and exits with 0.\<close>

theorem socket_stat_session:
  assumes "bpf_hash fops fkeys fcap" and "bpf_hash ops keys cap" and "bpf_hash xops xkeys xcap" and "bpf_hash nops nkeys ncap"
    and "runs_until env SIGINT ess" and "\<forall>es \<in> set ess. socket_fine f c es" and "socket_ready fkeys fcap keys cap f c s"
  shows "\<exists>outs s'. socket_stat_main fops ops xops nops env s = Some (Exited 0, concat (map (Cons (Sleep 2)) outs) @ [Destroy], s')
    \<and> list_all2 socket_reports ess outs \<and> socket_ready fkeys fcap keys cap f c s'"
  by (rule socket_stat.session_exact [OF socket_stat.intro [OF assms(1-4)] assms(5-7)])

text \<open>An environment with one interval, in which SIGINT arrives.\<close>

definition one_round :: "'e list \<Rightarrow> 'e env" where
  "one_round es = \<lparr>skel_opened = True, load_err = 0, attach_err = 0, early_sig = None,
     rounds = [\<lparr>during = es, sig_at = Some SIGINT\<rparr>]\<rparr>"

lemma one_round_until: "runs_until (one_round es) SIGINT [es]"
  unfolding runs_until_def
  by (intro conjI exI [of _ "[]"] exI [of _ "\<lparr>during = es, sig_at = Some SIGINT\<rparr>"]) (simp_all add: one_round_def sig_free_def)

theorem socket_stat_session_witness:
  "\<exists>outs s'. socket_stat_main (hash_ops False) (hash_ops False) (hash_ops False) (hash_ops False) (one_round sock_demo) sock_init =
      Some (Exited 0, concat (map (Cons (Sleep 2)) outs) @ [Destroy], s')
    \<and> list_all2 socket_reports [sock_demo] outs \<and> socket_ready hm_keys hcap hm_keys hcap 256 10240 s'"
  by (rule socket_stat_session [OF hm.bpf_hash_axioms hm.bpf_hash_axioms hm.bpf_hash_axioms hm.bpf_hash_axioms one_round_until])
    (simp_all add: socket_fine_def socket_ready_def sock_init_def sock_demo_def family_of_def card_insert_if)





text \<open>C39: a whole run of page_fault_stat, which sleeps after it prints: its first iteration reports nothing, each later
  one exactly the faults of each process (process 0 included) in the interval before it, with the name at the
  first fault; the faults of the interval in which the signal arrives are left in the map and never printed.\<close>

theorem page_fault_session:
  assumes "bpf_hash ops keys cap" and "bpf_hash nops nkeys ncap"
    and "runs_until env g ess" and "\<forall>es \<in> set (butlast ess). fault_fine c es"
    and "keys (counter s) = []" and "cap (counter s) = c"
  shows "\<exists>outs s'. page_fault_main ops nops env s = Some (Exited 0, concat (map (\<lambda>out. out @ [Sleep 1]) outs) @ [Destroy],
      fold (page_fault_event ops nops) (last ess) s')
    \<and> list_all2 fault_reports ([] # butlast ess) outs \<and> keys (counter s') = []"
  by (rule page_fault.session_exact [OF page_fault.intro [OF assms(1,2)] assms(3-6)])

theorem page_fault_session_witness:
  "\<exists>outs s'. page_fault_main (hash_ops False) (hash_ops False) (two_rounds fault_demo) fault_init =
      Some (Exited 0, concat (map (\<lambda>out. out @ [Sleep 1]) outs) @ [Destroy],
        fold (page_fault_event (hash_ops False) (hash_ops False)) (last [fault_demo, fault_demo]) s')
    \<and> list_all2 fault_reports ([] # butlast [fault_demo, fault_demo]) outs \<and> hm_keys (counter s') = []"
  by (rule page_fault_session [OF hm.bpf_hash_axioms hm.bpf_hash_axioms two_rounds_until, where c = 10240])
    (simp_all add: fault_fine_def fault_init_def fault_demo_def card_insert_if)

text \<open>Write_stat, which installs no handler and runs on: as long as the processes seen fit the map and process 0 is
  not among them, its iteration after \<open>n\<close> intervals prints for each process seen in any of them the number of its
  \<open>write()\<close> calls in all of them together: running totals, where the tools beside it print increments.\<close>

theorem write_stat_session:
  assumes "bpf_hash ops keys cap" and "runs_on env ess" and "along (write_fine c) [] (butlast ([] # ess))"
    and "keys (file_write_counter s) = []" and "cap (file_write_counter s) = c"
  shows "\<exists>outs s'. write_stat_main ops env s = Some (Running,
      [err_line ''Monitoring write syscalls by PID, press Ctrl+C to stop.''] @ concat (map (\<lambda>out. out @ [Sleep 1]) outs), s')
    \<and> chronicle write_reports [] (butlast ([] # ess)) outs"
  by (rule write_stat.session_exact [OF write_stat.intro [OF assms(1)] assms(2-5)])

theorem write_stat_session_witness:
  "\<exists>outs s'. write_stat_main (hash_ops False) (going_on read_demo) \<lparr>file_write_counter = empty_hash 10240\<rparr> = Some (Running,
      [err_line ''Monitoring write syscalls by PID, press Ctrl+C to stop.''] @ concat (map (\<lambda>out. out @ [Sleep 1]) outs), s')
    \<and> chronicle write_reports [] (butlast ([] # [read_demo, read_demo])) outs"
  by (rule write_stat_session [OF hm.bpf_hash_axioms going_on_runs, where c = 10240])
    (simp_all add: write_fine_def read_demo_def card_insert_if)

text \<open>C40: mmap_stat, over a map whose updates keep the enumeration order: as long as the processes seen fit the map and
  process 0 is not among them, every iteration returns and prints for each process seen so far the number of
  its \<open>mmap()\<close> calls in the interval before it, and 0 for a process that made none.\<close>

theorem mmap_stat_session:
  assumes "stable_hash ops keys cap" and "runs_on env ess" and "along (mmap_fine c) [] (butlast ([] # ess))"
    and "keys (memo_counter s) = []" and "cap (memo_counter s) = c"
  shows "\<exists>outs s'. mmap_stat_main ops env s = Some (Running,
      [err_line ''Monitoring mmap syscalls by PID (Incremental per sec), press Ctrl+C to stop.''] @ concat (map (\<lambda>out. out @ [Sleep 1]) outs), s')
    \<and> chronicle mmap_reports [] (butlast ([] # ess)) outs"
  by (rule mmap_stat.session_exact [OF mmap_stat.intro [OF assms(1)] assms(2-5)])

theorem mmap_stat_session_witness:
  "\<exists>outs s'. mmap_stat_main (hash_ops False) (going_on read_demo) \<lparr>memo_counter = empty_hash 10240\<rparr> = Some (Running,
      [err_line ''Monitoring mmap syscalls by PID (Incremental per sec), press Ctrl+C to stop.''] @ concat (map (\<lambda>out. out @ [Sleep 1]) outs), s')
    \<and> chronicle mmap_reports [] (butlast ([] # [read_demo, read_demo])) outs"
  by (rule mmap_stat_session [OF hs.stable_hash_axioms going_on_runs, where c = 10240])
    (simp_all add: mmap_fine_def read_demo_def card_insert_if)

text \<open>A whole run of cpu_freq_stat, with no condition on the events: each iteration prints for every core, in order, the
  last frequency it was set to since the start, with the three decimals of the kHz value, whether it changed in the
  interval or not; a core whose last frequency is 0 or that had no event is left out.\<close>

theorem cpu_freq_session:
  assumes "bpf_array ops keys cap" and "runs_until env g ess" and "freq_ready ops cap [] s"
  shows "\<exists>outs s'. cpu_freq_main ops env s = Some (Exited 0,
      [err_line ''CPU Frequency Monitor - Ctrl+C to stop''] @ concat (map (Cons (Sleep 1)) outs) @ [Destroy], s')
    \<and> chronicle freq_reports [] ess outs \<and> freq_ready ops cap (concat ess) s'"
  by (rule cpu_freq.session_exact [OF cpu_freq.intro [OF assms(1)] assms(2,3)])

theorem cpu_freq_session_witness:
  "\<exists>outs s'. cpu_freq_main array_ops (two_rounds freq_demo) freq_init = Some (Exited 0,
      [err_line ''CPU Frequency Monitor - Ctrl+C to stop''] @ concat (map (Cons (Sleep 1)) outs) @ [Destroy], s')
    \<and> chronicle freq_reports [] [freq_demo, freq_demo] outs \<and> freq_ready array_ops arr_cap (concat [freq_demo, freq_demo]) s'"
  by (rule cpu_freq_session [OF ar.bpf_array_axioms two_rounds_until])
    (simp add: freq_ready_def freq_init_def freq_summary_def zero_info_def freqs_of_def CpuFreq.MAX_CPUS_def)

end
