(* ===== verification/TimeSessions.thy ===== *)
theory TimeSessions
  imports WholeRun
begin

section \<open>Whole runs of the tools that measure time\<close>

text \<open>
  The tools that match a start with a finish, from their start to their exit. A duration belongs to the interval in
  which it ends; it may have begun in any earlier one (\<open>ended_in hs es\<close> in theory \<open>Latency\<close>), so each tool is a
  \<open>chronicled_tool\<close> (theory \<open>WholeRun\<close>): its state after the history \<open>hs\<close> holds the starts still open, the totals of
  the history, and remembered values that agree with them. The theorems say what each \<open>main\<close> prints in every
  iteration in terms of the events alone, with no condition on the state other than that the maps start empty.
\<close>

subsection \<open>disk\_io\_sched\<close>

definition sched_fine :: "u64 set \<Rightarrow> rq_event list \<Rightarrow> rq_event list \<Rightarrow> bool" where
  "sched_fine K hs es \<longleftrightarrow> (\<forall>e \<in> set es. rq_key (rq_ctx e) \<in> K)"

text \<open>The durations of at most ten seconds that end in the interval.\<close>

definition accepted :: "rq_event list \<Rightarrow> rq_event list \<Rightarrow> u64 list" where
  "accepted hs es = filter (\<lambda>d. d \<le> TEN_SECONDS) (ended_in (\<lambda>_. True) rq_lat hs es)"

definition sched_reports :: "rq_event list \<Rightarrow> rq_event list \<Rightarrow> effect list \<Rightarrow> bool" where
  "sched_reports hs es out \<longleftrightarrow> (let L = accepted hs es; n = (of_nat (length L) :: u64) in out =
     [out_kv ''disk_io_total_us'' (fmt_us (sum_list L)), out_kv ''disk_io_count'' (fmt_u n)] @
     (if n > 0 then [out_kv ''disk_io_avg_us'' (fmt_avg 1000 (sum_list L) n)] else []) @ [Flush])"

definition sched_ready :: "('m, u64, u64) map_ops \<Rightarrow> ('m \<Rightarrow> u64 list) \<Rightarrow> ('m \<Rightarrow> nat) \<Rightarrow> ('a, u32, u64) map_ops \<Rightarrow> ('a \<Rightarrow> nat) \<Rightarrow>
    u64 set \<Rightarrow> rq_event list \<Rightarrow> ('m, 'n, 'a) io_sched_maps \<Rightarrow> bool" where
  "sched_ready ops keys cap aops acap K hs s \<longleftrightarrow> fits keys cap K (rq_issue_ts s) \<and> acap (io_latency_stats s) = 8 \<and>
     lookup_elem ops (rq_issue_ts s) = still_open rq_lat hs \<and>
     DiskIoSched.prev_delay s = count_at aops (\<lambda>v. v) (io_latency_stats s) 0 \<and>
     DiskIoSched.prev_count s = count_at aops (\<lambda>v. v) (io_latency_stats s) 1"

sublocale io_sched \<subseteq> whole: chronicled_tool "io_sched_event ops pops aops" "io_sched_tick aops"
    "sched_ready ops keys cap aops acap K" "sched_fine K" sched_reports for K
proof (unfold_locales, goal_cases)
  case (1 hs s es)
  note r = 1 [unfolded sched_ready_def sched_fine_def]
  let ?s1 = "fold (io_sched_event ops pops aops) es s"
  have hold: "holds K s" using r by (simp add: holds_def)
  have times: "io_times ops s es = accepted hs es" using r by (simp add: io_times_def accepted_def ended_in_def)
  note st = run_stats [OF hold r(2), unfolded times]
  let ?s2 = "?s1\<lparr>DiskIoSched.prev_delay := stat ?s1 0, DiskIoSched.prev_count := stat ?s1 1\<rparr>"
  have ok: "list_all (\<lambda>e. rq_key (rq_ctx e) \<in> K) es" using r(2) by (simp add: list_all_iff)
  have "\<exists>out. io_sched_tick aops ?s1 = Some (out, ?s2) \<and> sched_reports hs es out"
    unfolding io_sched_tick_def Let_def count_at_def [of aops "\<lambda>v. v", symmetric] io_sched_keeps_prev sched_reports_def
    using r(1) st by simp
  moreover have "sched_ready ops keys cap aops acap K (hs @ es) ?s2"
    using tot.run_inv [OF hold ok] tot.run_open [OF hold ok] r(1) by (simp add: sched_ready_def holds_def still_open_simps)
  ultimately show ?case by blast
qed

subsection \<open>file\_fsync\_stat\<close>

text \<open>No total wraps over the whole history.\<close>

definition fsync_fine :: "u32 set \<Rightarrow> fsync_probe list \<Rightarrow> fsync_probe list \<Rightarrow> bool" where
  "fsync_fine K hs es \<longleftrightarrow> (\<forall>e \<in> set es. fsync_pid e \<in> K) \<and> 0 \<notin> K \<and>
     sum_list (map unat (durations (\<lambda>_. True) fsync_span (hs @ es))) < 2 ^ 64 \<and>
     length (durations (\<lambda>_. True) fsync_span (hs @ es)) < 2 ^ 64"

text \<open>The calls that ended in the interval, then for each process its time since the start of the tool.\<close>

definition fsync_reports :: "fsync_probe list \<Rightarrow> fsync_probe list \<Rightarrow> effect list \<Rightarrow> bool" where
  "fsync_reports hs es out \<longleftrightarrow> (\<exists>pids. let L = ended_in (\<lambda>_. True) fsync_span hs es in distinct pids \<and>
     set pids = {p. durations (\<lambda>k. k = p) fsync_span (hs @ es) \<noteq> []} \<and> out =
     [out_kv ''fsync_total_us'' (fmt_us (sum_list L)), out_kv ''fsync_count'' (fmt_u (of_nat (length L) :: u64))] @
     (if L = [] then [] else [out_kv ''fsync_avg_us'' (fmt_avg 1000 (sum_list L) (of_nat (length L)))]) @
     map (\<lambda>p. out_kv (''fsync_pid_'' @ fmt_u p @ ''_total_us'')
            (fmt_us (sum_list (durations (\<lambda>k. k = p) fsync_span (hs @ es))))) pids @ [Flush])"

definition fsync_ready :: "('m, u32, u64) map_ops \<Rightarrow> ('m \<Rightarrow> u32 list) \<Rightarrow> ('m \<Rightarrow> nat) \<Rightarrow> ('a, u32, u64) map_ops \<Rightarrow> ('a \<Rightarrow> nat) \<Rightarrow>
    u32 set \<Rightarrow> fsync_probe list \<Rightarrow> ('m, 'a) fsync_maps \<Rightarrow> bool" where
  "fsync_ready ops keys cap aops acap K hs s \<longleftrightarrow> fits keys cap K (fsync_start s) \<and> fits keys cap K (pid_fsync_latency s) \<and>
     fits keys cap K (pid_fsync_count s) \<and> acap (fsync_stats s) = 8 \<and>
     lookup_elem ops (fsync_start s) = still_open fsync_span hs \<and>
     count_at aops (\<lambda>v. v) (fsync_stats s) 0 = sum_list (durations (\<lambda>_. True) fsync_span hs) \<and>
     count_at aops (\<lambda>v. v) (fsync_stats s) 1 = of_nat (length (durations (\<lambda>_. True) fsync_span hs)) \<and>
     (\<forall>p. count_at ops (\<lambda>v. v) (pid_fsync_latency s) p = sum_list (durations (\<lambda>k. k = p) fsync_span hs)) \<and>
     set (keys (pid_fsync_latency s)) = {p. durations (\<lambda>k. k = p) fsync_span hs \<noteq> []} \<and>
     FsyncStat.prev_latency s = count_at aops (\<lambda>v. v) (fsync_stats s) 0 \<and>
     FsyncStat.prev_count s = count_at aops (\<lambda>v. v) (fsync_stats s) 1"

context fsync_tool
begin

lemma keys_event:
  assumes "holds K s" and "fsync_pid e \<in> K"
  shows "set (keys (pid_fsync_latency (fsync_event ops aops e s))) = set (keys (pid_fsync_latency s)) \<union>
    {p. spans (\<lambda>k. k = p) (lookup_elem ops (fsync_start s)) [fsync_span e] \<noteq> []}"
  using assms by (cases e) (auto simp: holds_def event_defs h.keys_modify_fits split: option.split)

lemma keys_run:
  "holds K s \<Longrightarrow> \<forall>e \<in> set es. fsync_pid e \<in> K \<Longrightarrow>
     set (keys (pid_fsync_latency (fold (fsync_event ops aops) es s))) = set (keys (pid_fsync_latency s)) \<union>
       {p. spans (\<lambda>k. k = p) (lookup_elem ops (fsync_start s)) (map fsync_span es) \<noteq> []}"
proof (induction es arbitrary: s)
  case (Cons e es)
  then have k: "fsync_pid e \<in> K" by simp
  have "spans rel opn (map fsync_span (e # es)) =
      spans rel opn [fsync_span e] @ spans rel (open_step (fsync_span e) opn) (map fsync_span es)" for rel opn
    using spans_append [of rel opn "[fsync_span e]" "map fsync_span es"] by simp
  then show ?case
    using Cons.IH [OF holds_event [OF Cons.prems(1) k]] Cons.prems(2) keys_event [OF Cons.prems(1) k] open_event [OF Cons.prems(1) k]
    by auto
qed simp

lemma tick_keeps:
  assumes "fsync_tick ops aops s = Some (out, s')"
  shows "fsync_start s' = fsync_start s \<and> pid_fsync_latency s' = pid_fsync_latency s \<and>
    pid_fsync_count s' = pid_fsync_count s \<and> fsync_stats s' = fsync_stats s"
proof -
  let ?P = "\<lambda>x. fsync_start x = fsync_start s \<and> pid_fsync_latency x = pid_fsync_latency s \<and>
    pid_fsync_count x = pid_fsync_count s \<and> fsync_stats x = fsync_stats s"
  obtain cur t where l: "key_loop (\<lambda>s. next_key ops (pid_fsync_latency s)) (fsync_body ops) (Some 0) t = Some (cur, s')" and "?P t"
    using assms by (auto simp: fsync_tick_def Let_def Option.bind_eq_Some_conv)
  then show ?thesis using key_loop_invariant [OF l, where P = ?P] by (simp add: fsync_body_def split: option.splits)
qed

end

lemma no_wrap_durations:
  assumes "sum_list (map unat (durations rel f (hs @ es))) < 2 ^ 64" and "length (durations rel f (hs @ es)) < 2 ^ 64"
  shows "unat (sum_list (durations rel f hs)) + unat (sum_list (ended_in rel f hs es)) < 2 ^ 64"
    and "unat (of_nat (length (durations rel f hs)) :: u64) + length (ended_in rel f hs es) < 2 ^ 64"
proof -
  show "unat (sum_list (durations rel f hs)) + unat (sum_list (ended_in rel f hs es)) < 2 ^ 64"
    using assms(1) by (intro no_wrap_append) (simp add: durations_append)
  show "unat (of_nat (length (durations rel f hs)) :: u64) + length (ended_in rel f hs es) < 2 ^ 64"
    using assms(2) by (simp add: durations_append unat_of_nat take_bit_nat_eq_self)
qed

sublocale fsync_tool \<subseteq> whole: chronicled_tool "fsync_event ops aops" "fsync_tick ops aops"
    "fsync_ready ops keys cap aops acap K" "fsync_fine K" fsync_reports for K
proof (unfold_locales, goal_cases)
  case (1 hs s es)
  note r = 1(1) [unfolded fsync_ready_def] and f = 1(2) [unfolded fsync_fine_def]
  let ?s1 = "fold (fsync_event ops aops) es s" and ?L = "ended_in (\<lambda>_. True) fsync_span hs es"
  have hold: "holds K s" using r by (simp add: holds_def)
  have pids: "\<forall>e \<in> set es. fsync_pid e \<in> K" and ok: "list_all (\<lambda>e. fsync_pid e \<in> K) es" using f by (auto simp: list_all_iff)
  have times: "fsync_times ops s es rel = ended_in rel fsync_span hs es" for rel using r by (simp add: fsync_times_def ended_in_def)
  have nw: "unat (prev_latency s) + unat (sum_list (fsync_times ops s es (\<lambda>_. True))) < 2 ^ 64"
    "unat (prev_count s) + length (fsync_times ops s es (\<lambda>_. True)) < 2 ^ 64"
    using no_wrap_durations [of "\<lambda>_. True" fsync_span hs es] f r by (simp_all add: times)
  obtain s' where t: "fsync_tick ops aops ?s1 = Some
      ([out_kv ''fsync_total_us'' (fmt_us (sum_list ?L)), out_kv ''fsync_count'' (fmt_u (of_nat (length ?L) :: u64))] @
       (if ?L = [] then [] else [out_kv ''fsync_avg_us'' (fmt_avg 1000 (sum_list ?L) (of_nat (length ?L)))]) @
       map (\<lambda>p. out_kv (''fsync_pid_'' @ fmt_u p @ ''_total_us'')
              (fmt_us (count_at ops (\<lambda>v. v) (pid_fsync_latency s) p + sum_list (ended_in (\<lambda>k. k = p) fsync_span hs es))))
            (keys (pid_fsync_latency s')) @ [Flush], s')"
    "prev_latency s' = count_at aops (\<lambda>v. v) (fsync_stats s') 0" "prev_count s' = count_at aops (\<lambda>v. v) (fsync_stats s') 1"
    using tick_spec [OF hold _ pids _ _ nw] f r unfolding times by auto
  note keep = tick_keeps [OF t(1)]
  have ks: "set (keys (pid_fsync_latency s')) = {p. durations (\<lambda>k. k = p) fsync_span (hs @ es) \<noteq> []}"
    using keys_run [OF hold pids] r keep times [unfolded fsync_times_def] by (auto simp: durations_append)
  have tot: "count_at ops (\<lambda>v. v) (pid_fsync_latency s) p + sum_list (ended_in (\<lambda>k. k = p) fsync_span hs es) =
      sum_list (durations (\<lambda>k. k = p) fsync_span (hs @ es))" for p using r by (simp add: durations_append)
  have ready: "fsync_ready ops keys cap aops acap K (hs @ es) s'"
    using tot.run_inv [OF hold ok] tot.run_open [OF hold ok] run_totals [OF hold pids] r keep t(2,3) ks
    unfolding fsync_ready_def times by (simp add: holds_def still_open_simps durations_append)
  have "fsync_reports hs es ([out_kv ''fsync_total_us'' (fmt_us (sum_list ?L)), out_kv ''fsync_count'' (fmt_u (of_nat (length ?L) :: u64))] @
       (if ?L = [] then [] else [out_kv ''fsync_avg_us'' (fmt_avg 1000 (sum_list ?L) (of_nat (length ?L)))]) @
       map (\<lambda>p. out_kv (''fsync_pid_'' @ fmt_u p @ ''_total_us'') (fmt_us (sum_list (durations (\<lambda>k. k = p) fsync_span (hs @ es)))))
            (keys (pid_fsync_latency s')) @ [Flush])"
    unfolding fsync_reports_def Let_def using ks h.keys_distinct by blast
  then show ?case using t(1) ready unfolding tot by blast
qed

subsection \<open>disk\_read\_delay and disk\_write\_delay\<close>

definition disk_fine :: "u64 set \<Rightarrow> u64 set \<Rightarrow> disk_event list \<Rightarrow> disk_event list \<Rightarrow> bool" where
  "disk_fine T R hs es \<longleftrightarrow> (\<forall>e \<in> set es. disk_ok T R e) \<and>
     sum_list (map unat (durations (\<lambda>_. True) vfs_lat (hs @ es))) < 2 ^ 64 \<and> length (durations (\<lambda>_. True) vfs_lat (hs @ es)) < 2 ^ 64 \<and>
     sum_list (map unat (durations (\<lambda>_. True) blk_lat (hs @ es))) < 2 ^ 64 \<and> length (durations (\<lambda>_. True) blk_lat (hs @ es)) < 2 ^ 64"

text \<open>The calls and the block requests that ended in the interval; messages go to standard error.\<close>

definition disk_read_reports :: "disk_event list \<Rightarrow> disk_event list \<Rightarrow> effect list \<Rightarrow> bool" where
  "disk_read_reports hs es out \<longleftrightarrow> (\<exists>errs. let V = ended_in (\<lambda>_. True) vfs_lat hs es; B = ended_in (\<lambda>_. True) blk_lat hs es in
     (\<forall>x \<in> set errs. \<exists>m. x = Stderr m) \<and> out = errs @
     [Stdout (kv_line ''disk_read_vfs_total_us'' (fmt_us (sum_list V)) @
              kv_line ''disk_read_vfs_count'' (fmt_u (of_nat (length V) :: u64))),
      Stdout (kv_line ''disk_read_block_total_us'' (fmt_us (sum_list B)) @
              kv_line ''disk_read_block_count'' (fmt_u (of_nat (length B) :: u64))), Flush])"

definition disk_write_reports :: "disk_event list \<Rightarrow> disk_event list \<Rightarrow> effect list \<Rightarrow> bool" where
  "disk_write_reports hs es out \<longleftrightarrow> (\<exists>errs. let V = ended_in (\<lambda>_. True) vfs_lat hs es; B = ended_in (\<lambda>_. True) blk_lat hs es in
     (\<forall>x \<in> set errs. \<exists>m. x = Stderr m) \<and> out = errs @
     [out_kv ''disk_write_vfs_total_us'' (fmt_us (sum_list V)),
      out_kv ''disk_write_vfs_count'' (fmt_u (of_nat (length V) :: u64)),
      out_kv ''disk_write_block_total_us'' (fmt_us (sum_list B)),
      out_kv ''disk_write_block_count'' (fmt_u (of_nat (length B) :: u64)), Flush])"

definition disk_ready :: "('m, u64, u64) map_ops \<Rightarrow> ('m \<Rightarrow> u64 list) \<Rightarrow> ('m \<Rightarrow> nat) \<Rightarrow> ('n, u32, u64) map_ops \<Rightarrow> ('n \<Rightarrow> u32 list) \<Rightarrow> ('n \<Rightarrow> nat) \<Rightarrow>
    u64 set \<Rightarrow> u64 set \<Rightarrow> disk_event list \<Rightarrow> ('m, 'n) disk_delay_maps \<Rightarrow> bool" where
  "disk_ready ops keys cap sops skeys scap T R hs s \<longleftrightarrow> fits keys cap T (ts_start_pid s) \<and> fits keys cap R (ts_start_req s) \<and>
     fits skeys scap {0, 1, 2, 3} (disk_stats s) \<and>
     lookup_elem ops (ts_start_pid s) = still_open vfs_lat hs \<and> lookup_elem ops (ts_start_req s) = still_open blk_lat hs \<and>
     disk_synced sops s \<and>
     lookup_or_0 sops (disk_stats s) 0 = sum_list (durations (\<lambda>_. True) vfs_lat hs) \<and>
     lookup_or_0 sops (disk_stats s) 1 = of_nat (length (durations (\<lambda>_. True) vfs_lat hs)) \<and>
     lookup_or_0 sops (disk_stats s) 2 = sum_list (durations (\<lambda>_. True) blk_lat hs) \<and>
     lookup_or_0 sops (disk_stats s) 3 = of_nat (length (durations (\<lambda>_. True) blk_lat hs))"

text \<open>What a tick leaves: the remembered values are the current ones.\<close>

definition snap :: "('n, u32, u64) map_ops \<Rightarrow> ('m, 'n) disk_delay_maps \<Rightarrow> ('m, 'n) disk_delay_maps" where
  "snap sops s = s\<lparr>prev_snapshot := \<lparr>total_vfs = lookup_or_0 sops (disk_stats s) 0, count_vfs = lookup_or_0 sops (disk_stats s) 1,
     total_blk = lookup_or_0 sops (disk_stats s) 2, count_blk = lookup_or_0 sops (disk_stats s) 3\<rparr>\<rparr>"

context disk_delay
begin

text \<open>The four differences of an iteration and the state it leaves, for both tools.\<close>

lemma ready_step:
  assumes "disk_ready ops keys cap sops skeys scap T R hs s" and "disk_fine T R hs es"
  defines "s1 \<equiv> fold (disk_read_event ops sops) es s"
  shows "sat_diff (lookup_or_0 sops (disk_stats s1) 0) (total_vfs (prev_snapshot s1)) = sum_list (ended_in (\<lambda>_. True) vfs_lat hs es)"
    and "sat_diff (lookup_or_0 sops (disk_stats s1) 1) (count_vfs (prev_snapshot s1)) = of_nat (length (ended_in (\<lambda>_. True) vfs_lat hs es))"
    and "sat_diff (lookup_or_0 sops (disk_stats s1) 2) (total_blk (prev_snapshot s1)) = sum_list (ended_in (\<lambda>_. True) blk_lat hs es)"
    and "sat_diff (lookup_or_0 sops (disk_stats s1) 3) (count_blk (prev_snapshot s1)) = of_nat (length (ended_in (\<lambda>_. True) blk_lat hs es))"
    and "disk_ready ops keys cap sops skeys scap T R (hs @ es) (snap sops s1)"
proof -
  note r = assms(1) [unfolded disk_ready_def] and f = assms(2) [unfolded disk_fine_def]
  have hold: "holds T R s" using r by (simp add: holds_def)
  have evs: "\<forall>e \<in> set es. disk_ok T R e" and ok: "list_all (disk_ok T R) es" using f by (auto simp: list_all_iff)
  have times: "vfs_times ops s es = ended_in (\<lambda>_. True) vfs_lat hs es" "blk_times ops s es = ended_in (\<lambda>_. True) blk_lat hs es"
    using r by (simp_all add: vfs_times_def blk_times_def ended_in_def)
  have "prev_snapshot s = \<lparr>total_vfs = sum_list (durations (\<lambda>_. True) vfs_lat hs), count_vfs = of_nat (length (durations (\<lambda>_. True) vfs_lat hs)),
      total_blk = sum_list (durations (\<lambda>_. True) blk_lat hs), count_blk = of_nat (length (durations (\<lambda>_. True) blk_lat hs))\<rparr>"
    using r by (simp add: disk_synced_def)
  then have nw: "disk_no_wrap (prev_snapshot s) (vfs_times ops s es) (blk_times ops s es)"
    using no_wrap_durations [of "\<lambda>_. True" vfs_lat hs es] no_wrap_durations [of "\<lambda>_. True" blk_lat hs es] f
    by (simp add: disk_no_wrap_def times)
  have sync: "disk_synced sops s" using r by simp
  note d = deltas [OF hold evs sync nw, unfolded times, folded s1_def]
  show "sat_diff (lookup_or_0 sops (disk_stats s1) 0) (total_vfs (prev_snapshot s1)) = sum_list (ended_in (\<lambda>_. True) vfs_lat hs es)"
    "sat_diff (lookup_or_0 sops (disk_stats s1) 1) (count_vfs (prev_snapshot s1)) = of_nat (length (ended_in (\<lambda>_. True) vfs_lat hs es))"
    "sat_diff (lookup_or_0 sops (disk_stats s1) 2) (total_blk (prev_snapshot s1)) = sum_list (ended_in (\<lambda>_. True) blk_lat hs es)"
    "sat_diff (lookup_or_0 sops (disk_stats s1) 3) (count_blk (prev_snapshot s1)) = of_nat (length (ended_in (\<lambda>_. True) blk_lat hs es))"
    using d snapshot_run [of es s] by (simp_all add: s1_def)
  show "disk_ready ops keys cap sops skeys scap T R (hs @ es) (snap sops s1)"
    using vtot.run_inv [OF hold ok] vtot.run_open [OF hold ok] btot.run_open [OF hold ok] run_totals [OF hold evs, unfolded times] r
    by (simp add: s1_def disk_ready_def snap_def holds_def still_open_simps durations_append disk_synced_def)
qed

end

sublocale disk_delay \<subseteq> rwhole: chronicled_tool "disk_read_event ops sops" "disk_read_tick sops"
    "disk_ready ops keys cap sops skeys scap T R" "disk_fine T R" disk_read_reports for T R
proof (unfold_locales, goal_cases)
  case (1 hs s es)
  note step = ready_step [OF 1]
  from read_tick_out [of sops "fold (disk_read_event ops sops) es s"] obtain errs where
    "disk_read_tick sops (fold (disk_read_event ops sops) es s) = Some (errs @
     [Stdout (kv_line ''disk_read_vfs_total_us'' (fmt_us (sum_list (ended_in (\<lambda>_. True) vfs_lat hs es))) @
              kv_line ''disk_read_vfs_count'' (fmt_u (of_nat (length (ended_in (\<lambda>_. True) vfs_lat hs es)) :: u64))),
      Stdout (kv_line ''disk_read_block_total_us'' (fmt_us (sum_list (ended_in (\<lambda>_. True) blk_lat hs es))) @
              kv_line ''disk_read_block_count'' (fmt_u (of_nat (length (ended_in (\<lambda>_. True) blk_lat hs es)) :: u64))), Flush],
      snap sops (fold (disk_read_event ops sops) es s))" "\<forall>x \<in> set errs. \<exists>m. x = Stderr m"
    unfolding step snap_def by blast
  with step(5) show ?case unfolding disk_read_reports_def Let_def by blast
qed

sublocale disk_delay \<subseteq> wwhole: chronicled_tool "disk_write_event ops sops" "\<lambda>s. Some (print_incremental_stats sops s)"
    "disk_ready ops keys cap sops skeys scap T R" "disk_fine T R" disk_write_reports for T R
proof (unfold_locales, goal_cases)
  case (1 hs s es)
  note step = ready_step [OF 1]
  have ev: "disk_write_event ops sops = disk_read_event ops sops" by (intro ext) (rule disk_events_equal)
  from write_tick_out [of sops "fold (disk_read_event ops sops) es s"] obtain errs where
    "print_incremental_stats sops (fold (disk_read_event ops sops) es s) = (errs @
     [out_kv ''disk_write_vfs_total_us'' (fmt_us (sum_list (ended_in (\<lambda>_. True) vfs_lat hs es))),
      out_kv ''disk_write_vfs_count'' (fmt_u (of_nat (length (ended_in (\<lambda>_. True) vfs_lat hs es)) :: u64)),
      out_kv ''disk_write_block_total_us'' (fmt_us (sum_list (ended_in (\<lambda>_. True) blk_lat hs es))),
      out_kv ''disk_write_block_count'' (fmt_u (of_nat (length (ended_in (\<lambda>_. True) blk_lat hs es)) :: u64)), Flush],
      snap sops (fold (disk_read_event ops sops) es s))" "\<forall>x \<in> set errs. \<exists>m. x = Stderr m"
    unfolding step snap_def by blast
  with step(5) show ?case unfolding disk_write_reports_def Let_def ev by blast
qed

subsection \<open>cpu\_run\_delay\<close>

definition delay_fine :: "u32 set \<Rightarrow> sched_event list \<Rightarrow> sched_event list \<Rightarrow> bool" where
  "delay_fine K hs es \<longleftrightarrow> (\<forall>e \<in> set es. sched_pid e \<in> K) \<and> 0 \<notin> K \<and>
     (\<forall>p \<in> K. sum_list (map unat (durations (\<lambda>k. k = p) sched_span (hs @ es))) < 2 ^ 64 \<and>
        length (durations (\<lambda>k. k = p) sched_span (hs @ es)) < 2 ^ 64)"

text \<open>One line for each task whose waiting ended in the interval: the mean of its waiting times.\<close>

definition delay_reports :: "sched_event list \<Rightarrow> sched_event list \<Rightarrow> effect list \<Rightarrow> bool" where
  "delay_reports hs es out \<longleftrightarrow> (\<exists>pids. distinct pids \<and> set pids = {p. ended_in (\<lambda>k. k = p) sched_span hs es \<noteq> []} \<and>
     out = map (\<lambda>p. let W = ended_in (\<lambda>k. k = p) sched_span hs es in
       out_kv (''runq_delay_pid_'' @ fmt_u p) (fmt_u (sum_list W div of_nat (length W) div 1000))) pids @ [Flush])"

definition delay_ready :: "('m, u32, u64) map_ops \<Rightarrow> ('m \<Rightarrow> u32 list) \<Rightarrow> ('m \<Rightarrow> nat) \<Rightarrow> u32 set \<Rightarrow> sched_event list \<Rightarrow> 'm run_delay_maps \<Rightarrow> bool" where
  "delay_ready ops keys cap K hs s \<longleftrightarrow> fits keys cap K (wakeup_ts s) \<and> fits keys cap K (run_delay s) \<and> fits keys cap K (wakeup_count s) \<and>
     set (keys (run_delay s)) = set (keys (wakeup_count s)) \<and> delay_synced ops K s \<and>
     lookup_elem ops (wakeup_ts s) = still_open sched_span hs \<and>
     (\<forall>p. count_at ops (\<lambda>v. v) (run_delay s) p = sum_list (durations (\<lambda>k. k = p) sched_span hs) \<and>
          count_at ops (\<lambda>v. v) (wakeup_count s) p = of_nat (length (durations (\<lambda>k. k = p) sched_span hs)))"

lemma concat_filter: "concat (map (\<lambda>x. if P x then [] else [f x]) xs) = map f (filter (\<lambda>x. \<not> P x) xs)"
  by (induction xs) auto

context run_delay_tool
begin

lemma tick_keeps:
  assumes "run_delay_tick ops s = Some (out, s')"
  shows "wakeup_ts s' = wakeup_ts s \<and> run_delay s' = run_delay s \<and> wakeup_count s' = wakeup_count s"
proof -
  let ?P = "\<lambda>x. wakeup_ts x = wakeup_ts s \<and> run_delay x = run_delay s \<and> wakeup_count x = wakeup_count s"
  obtain out1 where l: "key_loop (\<lambda>s. next_key ops (run_delay s)) (run_delay_body ops) (Some 0) s = Some (out1, s')"
    using assms by (auto simp: run_delay_tick_def Option.bind_eq_Some_conv)
  show ?thesis by (rule key_loop_invariant [OF l, where P = ?P]) (simp_all add: run_delay_body_def Let_def split: option.split)
qed

end

sublocale run_delay_tool \<subseteq> whole: chronicled_tool "run_delay_event ops" "run_delay_tick ops" "delay_ready ops keys cap K" "delay_fine K" delay_reports for K
proof (unfold_locales, goal_cases)
  case (1 hs s es)
  note r = 1(1) [unfolded delay_ready_def] and f = 1(2) [unfolded delay_fine_def]
  let ?s1 = "fold (run_delay_event ops) es s" and ?W = "\<lambda>p. ended_in (\<lambda>k. k = p) sched_span hs es"
  have hold: "holds K s" using r by (simp add: holds_def)
  have evs: "\<forall>e \<in> set es. sched_pid e \<in> K" and ok: "list_all (\<lambda>e. sched_pid e \<in> K) es" using f by (auto simp: list_all_iff)
  have times: "waits ops s es p = ?W p" for p using r by (simp add: waits_def ended_in_def)
  have nw: "no_wrap ops K s es"
    using no_wrap_durations [of "\<lambda>k. k = _" sched_span hs es] f r by (simp add: no_wrap_def times)
  obtain pids s' where t: "run_delay_tick ops ?s1 = Some (concat (map (mean_line ops s es) pids) @ [Flush], s')"
    "distinct pids" "{p \<in> K. ?W p \<noteq> []} \<subseteq> set pids" "delay_synced ops K s'"
    using tick_means [OF hold _ _ evs nw] r f unfolding times by auto
  have inK: "p \<in> K" if "?W p \<noteq> []" for p
  proof -
    obtain t e where "e \<in> set es" "sched_span e = Finish p t" using ended_in_finish [OF \<open>?W p \<noteq> []\<close>] by blast
    then show ?thesis using evs by (cases e rule: sched_span.cases) auto
  qed
  let ?ps = "filter (\<lambda>p. \<not> ?W p = []) pids"
  have "concat (map (mean_line ops s es) pids) = concat (map (\<lambda>p. if ?W p = [] then [] else
      [out_kv (''runq_delay_pid_'' @ fmt_u p) (fmt_u (sum_list (?W p) div of_nat (length (?W p)) div 1000))]) pids)"
    by (intro arg_cong [where f = concat] map_cong) (simp_all add: mean_line_def times)
  then have "delay_reports hs es (concat (map (mean_line ops s es) pids) @ [Flush])"
    unfolding delay_reports_def concat_filter Let_def using t(2,3) inK by (intro exI [of _ ?ps]) auto
  moreover have "delay_ready ops keys cap K (hs @ es) s'"
    using tick_keeps [OF t(1)] t(4) holds_run [OF hold evs] tot.run_open [OF hold ok] run_totals [OF hold evs] r
    by (simp add: delay_ready_def holds_def still_open_simps durations_append times)
  ultimately show ?case using t(1) by blast
qed

subsection \<open>page\_swap\_stat\<close>

definition swap_fine :: "u32 set \<Rightarrow> reclaim_event list \<Rightarrow> reclaim_event list \<Rightarrow> bool" where
  "swap_fine K hs es \<longleftrightarrow> (\<forall>e \<in> set es. reclaim_pid e \<in> K) \<and> 0 \<notin> K \<and>
     (\<forall>p \<in> K. sum_list (map unat (durations (\<lambda>k. k = p) reclaim_span (hs @ es))) < 2 ^ 64)"

text \<open>One line for each process that spent time in reclaim in the interval, with that time.\<close>

definition swap_reports :: "reclaim_event list \<Rightarrow> reclaim_event list \<Rightarrow> effect list \<Rightarrow> bool" where
  "swap_reports hs es out \<longleftrightarrow> (\<exists>pids. distinct pids \<and> set pids = {p. sum_list (ended_in (\<lambda>k. k = p) reclaim_span hs es) > 0} \<and>
     out = concat (map (\<lambda>p. [out_kv (''dr_pid_'' @ fmt_u p) (fmt_u (sum_list (ended_in (\<lambda>k. k = p) reclaim_span hs es) div 1000)), Flush]) pids))"

definition swap_ready :: "('m, u32, u64) map_ops \<Rightarrow> ('m \<Rightarrow> u32 list) \<Rightarrow> ('m \<Rightarrow> nat) \<Rightarrow> u32 set \<Rightarrow> reclaim_event list \<Rightarrow> 'm page_swap_maps \<Rightarrow> bool" where
  "swap_ready ops keys cap K hs s \<longleftrightarrow> fits keys cap K (start_ts s) \<and> fits keys cap K (total_delay s) \<and> swap_synced ops K s \<and>
     lookup_elem ops (start_ts s) = still_open reclaim_span hs \<and>
     (\<forall>p. count_at ops (\<lambda>v. v) (total_delay s) p = sum_list (durations (\<lambda>k. k = p) reclaim_span hs))"

lemma concat_filter_list: "concat (map (\<lambda>x. if P x then f x else []) xs) = concat (map f (filter P xs))"
  by (induction xs) auto

context page_swap
begin

lemma tick_keeps:
  assumes "page_swap_tick ops s = Some (out, s')"
  shows "start_ts s' = start_ts s \<and> total_delay s' = total_delay s"
  by (rule key_loop_invariant [OF assms [unfolded page_swap_tick_def], where P = "\<lambda>x. start_ts x = start_ts s \<and> total_delay x = total_delay s"])
    (simp_all add: page_swap_body_def Let_def split: option.split)

end

sublocale page_swap \<subseteq> whole: chronicled_tool "page_swap_event ops" "page_swap_tick ops" "swap_ready ops keys cap K" "swap_fine K" swap_reports for K
proof (unfold_locales, goal_cases)
  case (1 hs s es)
  note r = 1(1) [unfolded swap_ready_def] and f = 1(2) [unfolded swap_fine_def]
  let ?s1 = "fold (page_swap_event ops) es s" and ?W = "\<lambda>p. sum_list (ended_in (\<lambda>k. k = p) reclaim_span hs es)"
  have hold: "holds K s" using r by (simp add: holds_def)
  have evs: "\<forall>e \<in> set es. reclaim_pid e \<in> K" and ok: "list_all (\<lambda>e. reclaim_pid e \<in> K) es" using f by (auto simp: list_all_iff)
  have times: "reclaim_time ops s es p = ?W p" for p using r by (simp add: reclaim_time_def ended_in_def)
  have nw: "\<forall>p \<in> K. unat (count_at ops (\<lambda>v. v) (total_delay s) p) + unat (reclaim_time ops s es p) < 2 ^ 64"
    using f r by (auto simp: times durations_append unat_sum_list)
  obtain pids s' where t: "page_swap_tick ops ?s1 = Some (concat (map (\<lambda>p. if ?W p > 0
        then [out_kv (''dr_pid_'' @ fmt_u p) (fmt_u (?W p div 1000)), Flush] else []) pids), s')"
    "distinct pids" "{p \<in> K. ?W p > 0} \<subseteq> set pids" "swap_synced ops K s'"
    using tick_increments [OF hold _ _ evs nw] r f unfolding times by auto
  have inK: "p \<in> K" if "?W p > 0" for p
  proof -
    have ne: "ended_in (\<lambda>k. k = p) reclaim_span hs es \<noteq> []" using \<open>?W p > 0\<close> by auto
    obtain t e where "e \<in> set es" "reclaim_span e = Finish p t" using ended_in_finish [OF ne] by blast
    then show ?thesis using evs by (cases e rule: reclaim_span.cases) auto
  qed
  have "swap_reports hs es (concat (map (\<lambda>p. if ?W p > 0
        then [out_kv (''dr_pid_'' @ fmt_u p) (fmt_u (?W p div 1000)), Flush] else []) pids))"
    unfolding swap_reports_def concat_filter_list using t(2,3) inK by (intro exI [of _ "filter (\<lambda>p. ?W p > 0) pids"]) auto
  moreover have "swap_ready ops keys cap K (hs @ es) s'"
    using tick_keeps [OF t(1)] t(4) holds_run [OF hold evs] lat.run_open [OF hold ok] run_total [OF hold evs] r
    by (simp add: swap_ready_def holds_def still_open_simps durations_append times)
  ultimately show ?case using t(1) by blast
qed

subsection \<open>cpu\_usage\<close>

text \<open>The tasks on CPU after a history, since when.\<close>

definition running :: "switch_event list \<Rightarrow> u32 \<rightharpoonup> u64" where
  "running hs = fold open_step (concat (map switch_lat hs)) Map.empty"

text \<open>The intervals on CPU of task \<open>p\<close> that end in \<open>es\<close>, and those of any task that end on core \<open>c\<close>.\<close>

definition task_slices :: "switch_event list \<Rightarrow> switch_event list \<Rightarrow> u32 \<Rightarrow> u64 list" where
  "task_slices hs es p = spans (\<lambda>k. k = p) (running hs) (concat (map switch_lat es))"

fun core_slices :: "(u32 \<rightharpoonup> u64) \<Rightarrow> switch_event list \<Rightarrow> u32 \<Rightarrow> u64 list" where
  "core_slices opn [] c = []"
| "core_slices opn (e # es) c =
     (if smp_cpu (sw_ctx e) = c then spans (\<lambda>_. True) opn (switch_lat e) else []) @
     core_slices (fold open_step (switch_lat e) opn) es c"

lemma running_append: "running (hs @ es) = fold open_step (concat (map switch_lat es)) (running hs)"
  by (simp add: running_def)

lemma task_slices_append: "task_slices [] (hs @ es) p = task_slices [] hs p @ task_slices hs es p"
  by (simp add: task_slices_def running_def spans_append)

lemma core_slices_append:
  "core_slices opn (xs @ ys) c = core_slices opn xs c @ core_slices (fold open_step (concat (map switch_lat xs)) opn) ys c"
  by (induction xs arbitrary: opn) simp_all

lemma core_slices_history: "core_slices Map.empty (hs @ es) c = core_slices Map.empty hs c @ core_slices (running hs) es c"
  by (simp add: core_slices_append running_def)

definition usage_fine :: "u32 set \<Rightarrow> switch_event list \<Rightarrow> switch_event list \<Rightarrow> bool" where
  "usage_fine K hs es \<longleftrightarrow> (\<forall>e \<in> set es. switch_ok K e) \<and>
     (\<forall>p \<in> K. sum_list (map unat (task_slices [] (hs @ es) p)) < 2 ^ 64) \<and>
     (\<forall>c. sum_list (map unat (core_slices Map.empty (hs @ es) c)) < 2 ^ 64)"

text \<open>For each task on CPU for a microsecond or more in the interval that time, and for each core busy for a
  millisecond or more that time.\<close>

definition usage_reports :: "switch_event list \<Rightarrow> switch_event list \<Rightarrow> effect list \<Rightarrow> bool" where
  "usage_reports hs es out \<longleftrightarrow> (\<exists>pids. distinct pids \<and> set pids = {p. sum_list (task_slices hs es p) div 1000 > 0} \<and> out =
     map (\<lambda>p. out_kv (''cpu_time_pid_'' @ fmt_u p) (fmt_u (sum_list (task_slices hs es p) div 1000))) pids @
     concat (map (\<lambda>c. let ms = sum_list (core_slices (running hs) es c) div 1000000 in
        if ms > 0 then [out_kv (''cpu_'' @ fmt_u c @ ''_busy_ms'') (fmt_u ms)] else []) (map of_nat [0..<MAX_CPUS])) @ [Flush])"

text \<open>Only tasks that leave a CPU have time on it, and the lines of an iteration that reports the growth of each
  counter are the report.\<close>

lemma task_slices_task:
  assumes "\<forall>e \<in> set es. switch_ok K e" and "sum_list (task_slices hs es p) div 1000 > 0"
  shows "p \<in> K"
proof -
  have ne: "task_slices hs es p \<noteq> []" using assms(2) by auto
  obtain t where "Finish p t \<in> set (concat (map switch_lat es))" using spans_finish [OF ne [unfolded task_slices_def]] by blast
  then show ?thesis using assms(1) by (auto simp: switch_lat_def switch_ok_def split: if_splits)
qed

lemma usage_lines:
  assumes "distinct pids" and "{p \<in> K. sum_list (task_slices hs es p) \<noteq> 0} \<subseteq> set pids"
    and "\<And>p. sum_list (task_slices hs es p) div 1000 > 0 \<Longrightarrow> p \<in> K"
    and "\<And>c. c \<in> set cs \<Longrightarrow> grown c = sum_list (core_slices (running hs) es c)" and "cs = map of_nat [0..<MAX_CPUS]"
  shows "usage_reports hs es
      (concat (map (\<lambda>p. let us = sum_list (task_slices hs es p) div 1000 in
          if us > 0 then [out_kv (''cpu_time_pid_'' @ fmt_u p) (fmt_u us)] else []) pids) @
       concat (map (\<lambda>c. let ms = grown c div 1000000 in
          if ms > 0 then [out_kv (''cpu_'' @ fmt_u c @ ''_busy_ms'') (fmt_u ms)] else []) cs) @ [Flush])"
proof -
  let ?W = "\<lambda>p. sum_list (task_slices hs es p)"
  let ?ps = "filter (\<lambda>p. ?W p div 1000 > 0) pids"
  have busy: "map (\<lambda>c. let ms = grown c div 1000000 in
        if ms > 0 then [out_kv (''cpu_'' @ fmt_u c @ ''_busy_ms'') (fmt_u ms)] else []) cs =
      map (\<lambda>c. let ms = sum_list (core_slices (running hs) es c) div 1000000 in
        if ms > 0 then [out_kv (''cpu_'' @ fmt_u c @ ''_busy_ms'') (fmt_u ms)] else []) cs"
    using assms(4) by (intro map_cong) auto
  have ps: "set ?ps = {p. ?W p div 1000 > 0}" using assms(2,3) by fastforce
  have tasks: "concat (map (\<lambda>p. let us = ?W p div 1000 in if us > 0 then [out_kv (''cpu_time_pid_'' @ fmt_u p) (fmt_u us)] else []) pids) =
      map (\<lambda>p. out_kv (''cpu_time_pid_'' @ fmt_u p) (fmt_u (?W p div 1000))) ?ps"
    by (simp add: Let_def concat_filter_list concat_map_singleton)
  show ?thesis unfolding usage_reports_def busy tasks unfolding assms(5) using assms(1)
    by (intro exI [of _ ?ps] conjI ps refl) simp
qed

definition usage_ready :: "('m, u32, u64) map_ops \<Rightarrow> ('m \<Rightarrow> u32 list) \<Rightarrow> ('m \<Rightarrow> nat) \<Rightarrow> ('a, u32, u64) map_ops \<Rightarrow> ('a \<Rightarrow> nat) \<Rightarrow>
    u32 set \<Rightarrow> switch_event list \<Rightarrow> ('m, 'a) cpu_usage_maps \<Rightarrow> bool" where
  "usage_ready ops keys cap aops acap K hs s \<longleftrightarrow> fits keys cap K (cpu_start s) \<and> fits keys cap K (cpu_time s) \<and>
     acap (cpu_busy s) = MAX_CPUS \<and> lookup_elem ops (cpu_start s) = running hs \<and>
     length (prev_cpu_time s) = CpuUsage.MAX_PIDS \<and> length (prev_cpu_busy s) = MAX_CPUS \<and>
     (\<forall>p. count_at ops (\<lambda>v. v) (cpu_time s) p = sum_list (task_slices [] hs p)) \<and>
     (\<forall>p \<in> K. 0 < p \<and> unat p < CpuUsage.MAX_PIDS \<and> prev_cpu_time s ! unat p = sum_list (task_slices [] hs p)) \<and>
     (\<forall>c. unat c < MAX_CPUS \<longrightarrow> count_at aops (\<lambda>v. v) (cpu_busy s) c = sum_list (core_slices Map.empty hs c) \<and>
        prev_cpu_busy s ! unat c = sum_list (core_slices Map.empty hs c))"

context cpu_usage
begin

lemma run_busy:
  "holds K s \<Longrightarrow> \<forall>e \<in> set es. switch_ok K e \<Longrightarrow> count_at aops (\<lambda>v. v) (cpu_busy (fold (cpu_usage_event ops aops) es s)) c =
     count_at aops (\<lambda>v. v) (cpu_busy s) c + sum_list (core_slices (lookup_elem ops (cpu_start s)) es c)"
proof (induction es arbitrary: s)
  case (Cons e es)
  then have e: "switch_ok K e" by simp
  show ?case
    using Cons.IH [OF holds_event [OF Cons.prems(1) e]] Cons.prems(2) open_event [OF Cons.prems(1) e] count_busy [OF Cons.prems(1) e]
    by (simp add: slice_def add.assoc)
qed simp

lemma open_run:
  "holds K s \<Longrightarrow> \<forall>e \<in> set es. switch_ok K e \<Longrightarrow> lookup_elem ops (cpu_start (fold (cpu_usage_event ops aops) es s)) =
     fold open_step (concat (map switch_lat es)) (lookup_elem ops (cpu_start s))"
  by (induction es arbitrary: s) (simp_all add: holds_event open_event)

lemma tick_state:
  assumes "length (prev_cpu_time s) = CpuUsage.MAX_PIDS" and "length (prev_cpu_busy s) = MAX_CPUS"
    and "acap (cpu_busy s) = MAX_CPUS" and "0 \<notin> set (keys (cpu_time s))" and "cpu_usage_tick ops aops s = Some (out, s')"
  shows "cpu_start s' = cpu_start s \<and> cpu_time s' = cpu_time s \<and> cpu_busy s' = cpu_busy s"
    and "length (prev_cpu_time s') = CpuUsage.MAX_PIDS \<and> length (prev_cpu_busy s') = MAX_CPUS"
    and "unat k < CpuUsage.MAX_PIDS \<Longrightarrow> prev_cpu_time s' ! unat k =
      (case lookup_elem ops (cpu_time s) k of Some v \<Rightarrow> v | None \<Rightarrow> prev_cpu_time s ! unat k)"
    and "unat c < MAX_CPUS \<Longrightarrow> prev_cpu_busy s' ! unat c = count_at aops (\<lambda>v. v) (cpu_busy s) c"
proof -
  let ?cs = "map of_nat [0..<MAX_CPUS]" and ?ks = "keys (cpu_time s)"
  have all: "keys_from ?ks (Some 0) = ?ks" by (rule keys_from_absent [OF assms(4)])
  obtain out1 s1 where l: "key_loop (\<lambda>s. next_key ops (cpu_time s)) (cpu_time_body ops) (Some 0) s = Some (out1, s1)"
    and s': "s' = snd (visit (cpu_busy_body aops) ?cs s1)"
    using assms(5) by (auto simp: cpu_usage_tick_def Option.bind_eq_Some_conv case_prod_unfold Let_def)
  have v1: "time_view ops s1 = (\<lambda>k. if k \<in> set ?ks then time_post k (time_view ops s k) else time_view ops s k)"
    and len1: "length (prev_cpu_time s1) = CpuUsage.MAX_PIDS"
    using times.loop_local [OF assms(1), of "Some 0"] l all by auto
  let ?P = "\<lambda>x. cpu_start x = cpu_start s \<and> cpu_time x = cpu_time s \<and> cpu_busy x = cpu_busy s"
  have p1: "?P s1 \<and> prev_cpu_busy s1 = prev_cpu_busy s"
    by (rule key_loop_invariant [OF l, where P = "\<lambda>x. ?P x \<and> prev_cpu_busy x = prev_cpu_busy s"])
      (simp_all add: cpu_time_body_def Let_def split: option.split)
  have p2: "?P s' \<and> prev_cpu_time s' = prev_cpu_time s1"
    unfolding s' by (rule visit_invariant [where P = "\<lambda>x. ?P x \<and> prev_cpu_time x = prev_cpu_time s1"])
      (simp_all add: p1 cpu_busy_body_def Let_def split: option.split)
  then show "cpu_start s' = cpu_start s \<and> cpu_time s' = cpu_time s \<and> cpu_busy s' = cpu_busy s" by simp
  have inv1: "length (prev_cpu_busy s1) = MAX_CPUS \<and> acap (cpu_busy s1) = MAX_CPUS" using p1 assms(2,3) by simp
  have sub: "set ?cs \<subseteq> set (akeys (cpu_busy s1))" unfolding cores(1) using inv1 by (auto simp: a.array_keys)
  note b = busy.visit_local [OF inv1 cores(2) sub, folded s']
  show "length (prev_cpu_time s') = CpuUsage.MAX_PIDS \<and> length (prev_cpu_busy s') = MAX_CPUS" using b p2 len1 by simp
  show "prev_cpu_time s' ! unat k = (case lookup_elem ops (cpu_time s) k of Some v \<Rightarrow> v | None \<Rightarrow> prev_cpu_time s ! unat k)"
    if "unat k < CpuUsage.MAX_PIDS"
    using fun_cong [OF v1, of k] that p2
    by (auto simp: time_view_def time_post_def h.keys_lookup split: if_splits option.splits)
  show "prev_cpu_busy s' ! unat c = count_at aops (\<lambda>v. v) (cpu_busy s) c" if "unat c < MAX_CPUS"
  proof -
    have "c \<in> set ?cs" unfolding cores(1) using that by simp
    then have "busy_view aops s' c = busy_post c (busy_view aops s1 c)" using b by (simp del: set_map)
    then have "prev_cpu_busy s' ! unat c = the (lookup_elem aops (cpu_busy s1) c)" by (simp add: busy_view_def busy_post_def)
    then show ?thesis using p1 a.array_lookup [of c "cpu_busy s"] assms(3) that by (auto simp: count_at_def)
  qed
qed

end

sublocale cpu_usage \<subseteq> whole: chronicled_tool "cpu_usage_event ops aops" "cpu_usage_tick ops aops"
    "usage_ready ops keys cap aops acap K" "usage_fine K" usage_reports for K
proof (unfold_locales, goal_cases)
  case (1 hs s es)
  note r = 1(1) [unfolded usage_ready_def] and f = 1(2) [unfolded usage_fine_def]
  let ?s1 = "fold (cpu_usage_event ops aops) es s" and ?W = "\<lambda>p. sum_list (task_slices hs es p)"
  have hold: "holds K s" and evs: "\<forall>e \<in> set es. switch_ok K e" using r f by (auto simp: holds_def)
  have times: "on_cpu ops s es p = task_slices hs es p" for p using r by (simp add: on_cpu_def task_slices_def)
  have h1: "holds K ?s1" by (rule holds_run [OF hold evs])
  have tot: "count_at ops (\<lambda>v. v) (cpu_time ?s1) p = sum_list (task_slices [] (hs @ es) p)" for p
    using run_time [OF hold evs, of p] r by (simp add: times task_slices_append)
  have busy: "count_at aops (\<lambda>v. v) (cpu_busy ?s1) c = sum_list (core_slices Map.empty (hs @ es) c)" if "unat c < MAX_CPUS" for c
    using run_busy [OF hold evs, of c] r that by (simp add: core_slices_history)
  have nw: "\<forall>p \<in> K. 0 < p \<and> unat p < CpuUsage.MAX_PIDS \<and> prev_cpu_time s ! unat p = count_at ops (\<lambda>v. v) (cpu_time s) p \<and>
      unat (prev_cpu_time s ! unat p) + unat (sum_list (on_cpu ops s es p)) < 2 ^ 64"
    using r f by (auto simp: times task_slices_append unat_sum_list)
  have growth: "sat_diff (count_at aops (\<lambda>v. v) (cpu_busy ?s1) c) (prev_cpu_busy s ! unat c) = sum_list (core_slices (running hs) es c)"
    if "unat c < MAX_CPUS" for c
  proof -
    have "unat (sum_list (core_slices Map.empty hs c)) + unat (sum_list (core_slices (running hs) es c)) < 2 ^ 64"
      using f by (intro no_wrap_append) (simp flip: core_slices_history)
    then show ?thesis using busy [OF that] r that by (simp add: core_slices_history sat_diff_add)
  qed
  obtain pids s' where t: "cpu_usage_tick ops aops ?s1 = Some
      (concat (map (\<lambda>p. let us = ?W p div 1000 in if us > 0 then [out_kv (''cpu_time_pid_'' @ fmt_u p) (fmt_u us)] else []) pids) @
       concat (map (\<lambda>c. let ms = sat_diff (count_at aops (\<lambda>v. v) (cpu_busy ?s1) c) (prev_cpu_busy s ! unat c) div 1000000 in
          if ms > 0 then [out_kv (''cpu_'' @ fmt_u c @ ''_busy_ms'') (fmt_u ms)] else []) (map of_nat [0..<MAX_CPUS])) @ [Flush], s')"
    "distinct pids" "{p \<in> K. ?W p \<noteq> 0} \<subseteq> set pids"
    using round_spec [OF hold evs nw] r unfolding times by auto
  have sub: "set (keys (cpu_time ?s1)) \<subseteq> K" and cap1: "acap (cpu_busy ?s1) = MAX_CPUS" using h1 by (simp_all add: holds_def fits_def)
  have z: "0 \<notin> set (keys (cpu_time ?s1))" using sub r by fastforce
  have lens: "length (prev_cpu_time ?s1) = CpuUsage.MAX_PIDS" "length (prev_cpu_busy ?s1) = MAX_CPUS" using r by (simp_all add: arrays_run)
  note st = tick_state [OF lens cap1 z t(1)]
  have "usage_reports hs es
      (concat (map (\<lambda>p. let us = ?W p div 1000 in if us > 0 then [out_kv (''cpu_time_pid_'' @ fmt_u p) (fmt_u us)] else []) pids) @
       concat (map (\<lambda>c. let ms = sat_diff (count_at aops (\<lambda>v. v) (cpu_busy ?s1) c) (prev_cpu_busy s ! unat c) div 1000000 in
          if ms > 0 then [out_kv (''cpu_'' @ fmt_u c @ ''_busy_ms'') (fmt_u ms)] else []) (map of_nat [0..<MAX_CPUS])) @ [Flush])"
    by (rule usage_lines [OF t(2,3) task_slices_task [OF evs] _ refl]) (use growth cores(1) in \<open>auto simp del: set_map\<close>)
  moreover have "usage_ready ops keys cap aops acap K (hs @ es) s'"
  proof -
    have "prev_cpu_time s' ! unat p = sum_list (task_slices [] (hs @ es) p)" if "p \<in> K" for p
    proof -
      have u: "unat p < CpuUsage.MAX_PIDS" using r that by simp
      show ?thesis
      proof (cases "lookup_elem ops (cpu_time ?s1) p")
        case None
        then have "sat_diff (count_at ops (\<lambda>v. v) (cpu_time ?s1) p) (count_at ops (\<lambda>v. v) (cpu_time s) p) = 0"
          by (simp add: count_at_def sat_diff_def)
        then have "?W p = 0" using nw that unfolding run_time [OF hold evs] times by (auto simp: sat_diff_add)
        then show ?thesis using st(3) [OF u] None r that by (simp add: arrays_run task_slices_append)
      next
        case (Some v)
        then show ?thesis using st(3) [OF u] tot [of p] by (simp add: count_at_def)
      qed
    qed
    then show ?thesis
      using st(1,2,4) h1 r open_run [OF hold evs] tot busy
      by (simp add: usage_ready_def holds_def running_append)
  qed
  ultimately show ?case using t(1) by blast
qed

subsection \<open>The programs\<close>

text \<open>What each \<open>main\<close> does from its start to its exit.\<close>

context io_sched
begin

lemma session_exact:
  assumes "runs_until env g ess" and "along (sched_fine K) [] ess" and "sched_ready ops keys cap aops acap K [] (s\<lparr>DiskIoSched.prev_delay := 0, DiskIoSched.prev_count := 0\<rparr>)"
  shows "\<exists>outs s'. io_sched_main ops pops aops env s = Some (Exited 0, [err_line ''Disk I/O Scheduler Latency Monitor - Ctrl+C to stop''] @ concat (map (Cons (Sleep 1)) outs) @ [Destroy], s')
    \<and> chronicle sched_reports [] ess outs \<and> sched_ready ops keys cap aops acap K (concat ess) s'"
  using whole.session_first [OF assms(3,1,2) signal_handled, of "[err_line ''Disk I/O Scheduler Latency Monitor - Ctrl+C to stop'']" 1] runs_until_starts [OF assms(1)]
  by (simp add: io_sched_main_def)

end

context fsync_tool
begin

lemma session_exact:
  assumes "runs_until env g ess" and "along (fsync_fine K) [] ess" and "fsync_ready ops keys cap aops acap K [] (s\<lparr>FsyncStat.prev_latency := 0, FsyncStat.prev_count := 0\<rparr>)"
  shows "\<exists>outs s'. fsync_main ops aops env s = Some (Exited 0, [err_line ''fsync Latency Monitor - Ctrl+C to stop''] @ concat (map (Cons (Sleep 1)) outs) @ [Destroy], s')
    \<and> chronicle fsync_reports [] ess outs \<and> fsync_ready ops keys cap aops acap K (concat ess) s'"
  using whole.session_first [OF assms(3,1,2) signal_handled, of "[err_line ''fsync Latency Monitor - Ctrl+C to stop'']" 1] runs_until_starts [OF assms(1)]
  by (simp add: fsync_main_def)

end

context run_delay_tool
begin

lemma session_exact:
  assumes "runs_until env g ess" and "along (delay_fine K) [] ess" and "delay_ready ops keys cap K [] s"
  shows "\<exists>outs s'. run_delay_main ops env s = Some (Exited 0, [err_line ''CPU Run Queue Delay Monitor - Ctrl+C to stop''] @ concat (map (Cons (Sleep 1)) outs) @ [Destroy], s')
    \<and> chronicle delay_reports [] ess outs \<and> delay_ready ops keys cap K (concat ess) s'"
  using whole.session_first [OF assms(3,1,2) signal_handled, of "[err_line ''CPU Run Queue Delay Monitor - Ctrl+C to stop'']" 1] runs_until_starts [OF assms(1)]
  by (simp add: run_delay_main_def)

end

context cpu_usage
begin

lemma session_exact:
  assumes "runs_until env g ess" and "along (usage_fine K) [] ess" and "usage_ready ops keys cap aops acap K [] s"
  shows "\<exists>outs s'. cpu_usage_main ops aops env s = Some (Exited 0, [err_line ''CPU Usage Monitor - Ctrl+C to stop''] @ concat (map (Cons (Sleep 1)) outs) @ [Destroy], s')
    \<and> chronicle usage_reports [] ess outs \<and> usage_ready ops keys cap aops acap K (concat ess) s'"
  using whole.session_first [OF assms(3,1,2) signal_handled, of "[err_line ''CPU Usage Monitor - Ctrl+C to stop'']" 1] runs_until_starts [OF assms(1)]
  by (simp add: cpu_usage_main_def)

end

context disk_delay
begin

lemma read_session:
  assumes "runs_until env g ess" and "along (disk_fine T R) [] ([] # butlast ess)" and "disk_ready ops keys cap sops skeys scap T R [] s"
    and "links_ok = [True, True, True, True]"
  shows "\<exists>outs s'. disk_read_main ops sops links_ok env s = Some (Exited 0, concat (map (\<lambda>out. out @ [Sleep 1]) outs) @ [Destroy],
      fold (disk_read_event ops sops) (last ess) s')
    \<and> chronicle disk_read_reports [] ([] # butlast ess) outs"
  using rwhole.session_last [OF assms(3,1,2) signal_handled, of "[]" 1] runs_until_starts [OF assms(1)] assms(4)
  by (auto simp: disk_read_main_def)

lemma write_session:
  assumes "runs_until env g ess" and "along (disk_fine T R) [] ([] # butlast ess)" and "disk_ready ops keys cap sops skeys scap T R [] s"
    and "links_ok = [True, True, True, True]"
  shows "\<exists>outs s'. disk_write_main ops sops links_ok env s = Some (Exited 0,
      [err_line ''Monitoring disk latencies (ms)... Press Ctrl+C to stop.''] @ concat (map (\<lambda>out. out @ [Sleep 1]) outs) @ [Destroy],
      fold (disk_write_event ops sops) (last ess) s')
    \<and> chronicle disk_write_reports [] ([] # butlast ess) outs"
proof -
  note run = wwhole.session_last [OF assms(3,1,2) signal_handled, of "[err_line ''Monitoring disk latencies (ms)... Press Ctrl+C to stop.'']" 1]
  have main: "disk_write_main ops sops links_ok env s = monitor [err_line ''Monitoring disk latencies (ms)... Press Ctrl+C to stop.''] [SIGINT, SIGTERM]
      (loop_sleep_last 1 [SIGINT, SIGTERM] (disk_write_event ops sops) (\<lambda>s. Some (print_incremental_stats sops s))) env s"
    using runs_until_starts [OF assms(1)] assms(4) by (simp add: disk_write_main_def)
  show ?thesis unfolding main using run by blast
qed

end

context page_swap
begin

lemma session_exact:
  assumes "runs_on env ess" and "along (swap_fine K) [] (butlast ([] # ess))" and "swap_ready ops keys cap K [] s"
  shows "\<exists>outs s'. page_swap_main ops env s = Some (Running,
      [err_line ''Monitoring direct page reclaim delay by PID, press Ctrl+C to stop.''] @ concat (map (\<lambda>out. out @ [Sleep 1]) outs), s')
    \<and> chronicle swap_reports [] (butlast ([] # ess)) outs"
proof -
  note run = whole.session_last_open [OF assms(3,1,2), of "[err_line ''Monitoring direct page reclaim delay by PID, press Ctrl+C to stop.'']" "[]" 1]
  have main: "page_swap_main ops env s = monitor [err_line ''Monitoring direct page reclaim delay by PID, press Ctrl+C to stop.''] []
      (loop_sleep_last 1 [] (page_swap_event ops) (page_swap_tick ops)) env s"
    using runs_on_starts [OF assms(1)] by (simp add: page_swap_main_def)
  show ?thesis unfolding main using run by blast
qed

end

subsection \<open>Properties\<close>





text \<open>C21: a whole run of disk_write_delay, which sleeps after it prints, for threads and requests that fit the maps and
  totals that do not wrap: each iteration prints the total duration and the number of the \<open>vfs_write\<close> calls, and of
  the block requests, that ended in the interval before it, whenever they began; what ends in the interval in which
  the signal arrives is not printed.\<close>

theorem disk_write_session:
  assumes "bpf_hash ops keys cap" and "bpf_hash sops skeys scap"
    and "runs_until env g ess" and "along (disk_fine T R) [] ([] # butlast ess)" and "disk_ready ops keys cap sops skeys scap T R [] s"
    and "links_ok = [True, True, True, True]"
  shows "\<exists>outs s'. disk_write_main ops sops links_ok env s = Some (Exited 0,
      [err_line ''Monitoring disk latencies (ms)... Press Ctrl+C to stop.''] @ concat (map (\<lambda>out. out @ [Sleep 1]) outs) @ [Destroy],
      fold (disk_write_event ops sops) (last ess) s')
    \<and> chronicle disk_write_reports [] ([] # butlast ess) outs"
  by (rule disk_delay.write_session [OF disk_delay.intro [OF assms(1,2)] assms(3-6)])

theorem disk_write_session_witness:
  "\<exists>outs s'. disk_write_main (hash_ops False) (hash_ops False) [True, True, True, True] (two_rounds disk_demo) disk_init = Some (Exited 0,
      [err_line ''Monitoring disk latencies (ms)... Press Ctrl+C to stop.''] @ concat (map (\<lambda>out. out @ [Sleep 1]) outs) @ [Destroy],
      fold (disk_write_event (hash_ops False) (hash_ops False)) (last [disk_demo, disk_demo]) s')
    \<and> chronicle disk_write_reports [] ([] # butlast [disk_demo, disk_demo]) outs"
  by (rule disk_write_session [OF hm.bpf_hash_axioms hm.bpf_hash_axioms two_rounds_until, where T = "{mk_pid_tgid 3 3}" and R = "{7}"])
    (simp_all add: disk_fine_def disk_ready_def disk_init_def disk_demo_def fits_def disk_synced_def lookup_or_0_def
      durations_def still_open_simps card_insert_if)

text \<open>The same for disk_read_delay.\<close>

theorem disk_read_session:
  assumes "bpf_hash ops keys cap" and "bpf_hash sops skeys scap"
    and "runs_until env g ess" and "along (disk_fine T R) [] ([] # butlast ess)" and "disk_ready ops keys cap sops skeys scap T R [] s"
    and "links_ok = [True, True, True, True]"
  shows "\<exists>outs s'. disk_read_main ops sops links_ok env s = Some (Exited 0, concat (map (\<lambda>out. out @ [Sleep 1]) outs) @ [Destroy],
      fold (disk_read_event ops sops) (last ess) s')
    \<and> chronicle disk_read_reports [] ([] # butlast ess) outs"
  by (rule disk_delay.read_session [OF disk_delay.intro [OF assms(1,2)] assms(3-6)])



text \<open>C29: a whole run of cpu_usage, for tasks with ids between 1 and \<open>MAX_PIDS - 1\<close> that fit the maps, cores below
  \<open>MAX_CPUS\<close> and totals that do not wrap: after each interval it prints, for each task and for no other, the time on
  CPU that ended in it when that is a microsecond or more, then for each core the time of whatever tasks left it in
  the interval when that is a millisecond or more.\<close>

theorem cpu_usage_session:
  assumes "bpf_hash ops keys cap" and "bpf_array aops akeys acap"
    and "runs_until env g ess" and "along (usage_fine K) [] ess" and "usage_ready ops keys cap aops acap K [] s"
  shows "\<exists>outs s'. cpu_usage_main ops aops env s = Some (Exited 0,
      [err_line ''CPU Usage Monitor - Ctrl+C to stop''] @ concat (map (Cons (Sleep 1)) outs) @ [Destroy], s')
    \<and> chronicle usage_reports [] ess outs \<and> usage_ready ops keys cap aops acap K (concat ess) s'"
  by (rule cpu_usage.session_exact [OF cpu_usage.intro [OF assms(1) counter_array.intro [OF assms(2)]] assms(3-5)])

theorem cpu_usage_session_witness:
  "\<exists>outs s'. cpu_usage_main (hash_ops False) array_ops (two_rounds switch_demo) usage_init = Some (Exited 0,
      [err_line ''CPU Usage Monitor - Ctrl+C to stop''] @ concat (map (Cons (Sleep 1)) outs) @ [Destroy], s')
    \<and> chronicle usage_reports [] [switch_demo, switch_demo] outs
    \<and> usage_ready (hash_ops False) hm_keys hcap array_ops arr_cap {7, 8} (concat [switch_demo, switch_demo]) s'"
  by (rule cpu_usage_session [OF hm.bpf_hash_axioms ar.bpf_array_axioms two_rounds_until])
    (simp_all add: usage_fine_def usage_ready_def usage_init_def switch_demo_def switch_ok_def fits_def count_at_def
      MAX_CPUS_def CpuUsage.MAX_PIDS_def task_slices_def running_def switch_lat_def)

text \<open>Page_swap_stat, which installs no handler and runs on, for processes with ids between 1 and \<open>MAX_PIDS - 1\<close> that
  fit the maps and totals that do not wrap: every iteration returns and prints exactly one line for each process
  that spent time in direct reclaim that ended in the interval before it, with that time in whole microseconds.\<close>

theorem page_swap_session:
  assumes "bpf_hash ops keys cap"
    and "runs_on env ess" and "along (swap_fine K) [] (butlast ([] # ess))" and "swap_ready ops keys cap K [] s"
  shows "\<exists>outs s'. page_swap_main ops env s = Some (Running,
      [err_line ''Monitoring direct page reclaim delay by PID, press Ctrl+C to stop.''] @ concat (map (\<lambda>out. out @ [Sleep 1]) outs), s')
    \<and> chronicle swap_reports [] (butlast ([] # ess)) outs"
  by (rule page_swap.session_exact [OF page_swap.intro [OF assms(1)] assms(2-4)])

theorem page_swap_session_witness:
  "\<exists>outs s'. page_swap_main (hash_ops False) (going_on swap_demo) swap_start = Some (Running,
      [err_line ''Monitoring direct page reclaim delay by PID, press Ctrl+C to stop.''] @ concat (map (\<lambda>out. out @ [Sleep 1]) outs), s')
    \<and> chronicle swap_reports [] (butlast ([] # [swap_demo, swap_demo])) outs"
  by (rule page_swap_session [OF hm.bpf_hash_axioms going_on_runs, where K = "{5}"])
    (simp_all add: swap_fine_def swap_ready_def swap_start_def swap_demo_def fits_def swap_synced_def PageSwap.MAX_PIDS_def
      count_at_def durations_def still_open_simps fun_eq_iff)

end
