(* ===== verification/Race.thy ===== *)
theory Race
  imports ReadStat
begin

section \<open>Kernel events between the map calls of an iteration\<close>

text \<open>
  In theory \<open>ReadStat\<close> an iteration of read_stat runs with no kernel event in between. Here the loader
  of \<open>my_tools/file/read_stat.c\<close> is a thread that makes one map call at a time, and the BPF program may
  run between any two of them. The state holds the map, where the loader is, the pairs it printed
  and, as a ghost, the events so far; a run of the BPF program is one step.
  Shown: without events in between the steps of the thread compute exactly the iteration of theory
  \<open>ReadStat\<close>; under every interleaving no \<open>read()\<close> is ever reported twice and the array of process ids is
  not overrun; but an event between the lookup of a key and its deletion is lost.
\<close>

datatype rd_pc =
    Sleeping
  | Collecting u32 "u32 list"
  | Draining "u32 list"
  | Printed u32 u64 "u32 list"

record 'm rd_state =
  rd_maps :: "'m read_stat_maps"
  rd_pc :: rd_pc
  rd_out :: "(u32 \<times> u64) list"
  rd_hist :: "helpers list"

text \<open>The next map call of the loader: \<open>Collecting pid pids\<close> is the head of the first loop with \<open>pids[0..count)\<close>
  filled, \<open>Draining ks\<close> the head of the second with \<open>ks\<close> still to visit, \<open>Printed\<close> the point between
  \<open>printf\<close> and \<open>bpf_map__delete_elem\<close>.\<close>

definition user_step :: "('m, u32, u64) map_ops \<Rightarrow> 'm rd_state \<Rightarrow> 'm rd_state" where
  "user_step ops s =
     (let m = file_read_counter (rd_maps s) in
      case rd_pc s of
        Sleeping \<Rightarrow> s\<lparr>rd_pc := Collecting 0 []\<rparr>
      | Collecting pid pids \<Rightarrow>
          (case next_key ops m (Some pid) of
             None \<Rightarrow> s\<lparr>rd_pc := Draining pids\<rparr>
           | Some next_pid \<Rightarrow>
               if length pids \<ge> MAX_ENTRIES then s\<lparr>rd_pc := Draining pids\<rparr>
               else s\<lparr>rd_pc := Collecting next_pid (pids @ [next_pid])\<rparr>)
      | Draining [] \<Rightarrow> s\<lparr>rd_pc := Sleeping\<rparr>
      | Draining (k # ks) \<Rightarrow>
          (case lookup_elem ops m k of
             Some value \<Rightarrow> s\<lparr>rd_pc := Printed k value ks, rd_out := rd_out s @ [(k, value)]\<rparr>
           | None \<Rightarrow> s\<lparr>rd_pc := Draining ks\<rparr>)
      | Printed k value ks \<Rightarrow>
          s\<lparr>rd_pc := Draining ks,
            rd_maps := (rd_maps s)\<lparr>file_read_counter := snd (delete_elem ops m k)\<rparr>\<rparr>)"

definition kernel_step :: "('m, u32, u64) map_ops \<Rightarrow> helpers \<Rightarrow> 'm rd_state \<Rightarrow> 'm rd_state" where
  "kernel_step ops h s = s\<lparr>rd_maps := read_stat_event ops h (rd_maps s), rd_hist := rd_hist s @ [h]\<rparr>"

inductive rd_reach :: "('m, u32, u64) map_ops \<Rightarrow> 'm rd_state \<Rightarrow> 'm rd_state \<Rightarrow> bool"
  for ops :: "('m, u32, u64) map_ops" and s0 :: "'m rd_state" where
  start: "rd_reach ops s0 s0"
| user: "rd_reach ops s0 s \<Longrightarrow> rd_reach ops s0 (user_step ops s)"
| kernel: "rd_reach ops s0 s \<Longrightarrow> rd_reach ops s0 (kernel_step ops h s)"

definition rd_begin :: "'m \<Rightarrow> 'm rd_state" where
  "rd_begin m = \<lparr>rd_maps = \<lparr>file_read_counter = m\<rparr>, rd_pc = Sleeping, rd_out = [], rd_hist = []\<rparr>"

text \<open>What was printed for a process in all, and how many events it had.\<close>

definition reported :: "(u32 \<times> u64) list \<Rightarrow> u32 \<Rightarrow> nat" where
  "reported out k = sum_list (map (\<lambda>x. unat (snd x)) (filter (\<lambda>x. fst x = k) out))"

definition reads_of :: "helpers list \<Rightarrow> u32 \<Rightarrow> nat" where
  "reads_of es k = length (filter (\<lambda>h. cur_pid h = k) es)"

lemma reported_snoc [simp]: "reported (out @ [(k, v)]) j = reported out j + (if k = j then unat v else 0)"
  by (simp add: reported_def)

lemma reads_of_snoc [simp]: "reads_of (es @ [h]) k = reads_of es k + (if cur_pid h = k then 1 else 0)"
  by (simp add: reads_of_def)

lemma reads_of_le: "reads_of es k \<le> length es"
  by (simp add: reads_of_def)

subsection \<open>No event is reported twice\<close>

text \<open>What is in the map for a process, and the part of it that is already printed.\<close>

fun unsettled :: "rd_pc \<Rightarrow> u32 \<Rightarrow> nat" where
  "unsettled (Printed k v ks) j = (if k = j then unat v else 0)"
| "unsettled _ j = 0"

definition live :: "('m, u32, u64) map_ops \<Rightarrow> 'm rd_state \<Rightarrow> u32 \<Rightarrow> nat" where
  "live ops s k = unat (count_at ops (\<lambda>v. v) (file_read_counter (rd_maps s)) k)"

definition accounted :: "('m, u32, u64) map_ops \<Rightarrow> 'm rd_state \<Rightarrow> bool" where
  "accounted ops s \<longleftrightarrow> (\<forall>k.
     reported (rd_out s) k + live ops s k \<le> reads_of (rd_hist s) k + unsettled (rd_pc s) k \<and>
     unsettled (rd_pc s) k \<le> live ops s k \<and> unsettled (rd_pc s) k \<le> reported (rd_out s) k)"

context read_stat
begin

lemma accounted_kernel:
  assumes "accounted ops s" and "length (rd_hist (kernel_step ops h s)) < 2 ^ 64"
  shows "accounted ops (kernel_step ops h s)"
proof -
  have "live ops (kernel_step ops h s) k = live ops s k \<or>
      (cur_pid h = k \<and> live ops (kernel_step ops h s) k = Suc (live ops s k))" for k
  proof -
    have "live ops s k \<le> length (rd_hist s)"
      using spec [OF assms(1) [unfolded accounted_def], of k] reads_of_le [of "rd_hist s" k] by linarith
    then have "unat (count_at ops (\<lambda>v. v) (file_read_counter (rd_maps s)) k) + 1 < 2 ^ 64"
      using assms(2) by (simp add: live_def kernel_step_def)
    from ctr.count_ev_nat [OF _ this] show ?thesis by (auto simp: live_def kernel_step_def)
  qed
  note live = this
  show ?thesis unfolding accounted_def
  proof (intro allI)
    fix k
    show "reported (rd_out (kernel_step ops h s)) k + live ops (kernel_step ops h s) k
        \<le> reads_of (rd_hist (kernel_step ops h s)) k + unsettled (rd_pc (kernel_step ops h s)) k \<and>
      unsettled (rd_pc (kernel_step ops h s)) k \<le> live ops (kernel_step ops h s) k \<and>
      unsettled (rd_pc (kernel_step ops h s)) k \<le> reported (rd_out (kernel_step ops h s)) k"
      using spec [OF assms(1) [unfolded accounted_def], of k] live [of k] by (auto simp: kernel_step_def)
  qed
qed

lemma accounted_user:
  assumes "accounted ops s"
  shows "accounted ops (user_step ops s)"
proof -
  note acc = spec [OF assms [unfolded accounted_def]]
  let ?m = "file_read_counter (rd_maps s)"
  have "reported (rd_out (user_step ops s)) k + live ops (user_step ops s) k
      \<le> reads_of (rd_hist (user_step ops s)) k + unsettled (rd_pc (user_step ops s)) k \<and>
    unsettled (rd_pc (user_step ops s)) k \<le> live ops (user_step ops s) k \<and>
    unsettled (rd_pc (user_step ops s)) k \<le> reported (rd_out (user_step ops s)) k" for k
  proof (cases "rd_pc s")
    case (Collecting pid pids)
    then show ?thesis using acc [of k] by (simp add: user_step_def Let_def live_def split: option.split)
  next
    case (Draining ks)
    then show ?thesis using acc [of k]
      by (cases ks) (auto simp: user_step_def Let_def live_def count_at_def split: option.split)
  next
    case (Printed j v ks)
    then show ?thesis using acc [of k]
      by (auto simp: user_step_def Let_def live_def count_at_def lookup_delete_any)
  qed (use acc [of k] in \<open>simp add: user_step_def Let_def live_def\<close>)
  then show ?thesis by (simp add: accounted_def)
qed

lemma hist_user [simp]: "rd_hist (user_step ops s) = rd_hist s"
  by (simp add: user_step_def Let_def split: rd_pc.split list.split option.split)

lemma reach_accounted:
  assumes "rd_reach ops (rd_begin m) s" and "keys m = []" and "length (rd_hist s) < 2 ^ 64"
  shows "accounted ops s"
  using assms(1,3)
proof (induction rule: rd_reach.induct)
  case start
  have "lookup_elem ops m k = None" for k using assms(2) keys_lookup [of k m] by simp
  then show ?case by (simp add: accounted_def rd_begin_def live_def count_at_def reported_def)
next
  case (user s)
  then show ?case by (simp add: accounted_user)
next
  case (kernel s h)
  then have "accounted ops s" by (simp add: kernel_step_def)
  then show ?case using kernel.prems by (rule accounted_kernel)
qed

lemma no_overcount:
  assumes "rd_reach ops (rd_begin m) s" and "keys m = []" and "length (rd_hist s) < 2 ^ 64"
  shows "reported (rd_out s) k \<le> reads_of (rd_hist s) k"
  using spec [OF reach_accounted [OF assms, unfolded accounted_def], of k] by linarith

subsection \<open>An event between lookup and delete is lost\<close>

lemma lost_event:
  assumes "rd_pc s = Draining (cur_pid h # ks)" and "lookup_elem ops (file_read_counter (rd_maps s)) (cur_pid h) = Some v"
  defines "s' \<equiv> user_step ops (kernel_step ops h (user_step ops s))"
  shows "reads_of (rd_hist s') (cur_pid h) = Suc (reads_of (rd_hist s) (cur_pid h))"
    and "rd_out s' = rd_out s @ [(cur_pid h, v)]" and "live ops s' (cur_pid h) = 0" and "rd_pc s' = Draining ks"
  using assms(1,2) unfolding s'_def
  by (simp_all add: user_step_def kernel_step_def Let_def live_def count_at_def lookup_delete_any)

end

subsection \<open>Without events in between: the atomic iteration\<close>

definition rd_line :: "u32 \<times> u64 \<Rightarrow> effect" where
  "rd_line x = out_kv (''PID_'' @ fmt_u (fst x)) (fmt_u (snd x))"

lemma funpow_comp_ex: "(f ^^ a) s = t \<Longrightarrow> (f ^^ b) t = u \<Longrightarrow> \<exists>n. (f ^^ n) s = u"
  by (intro exI [of _ "b + a"]) (simp add: funpow_add)

lemma funpow_step_ex: "(f ^^ n) (f s) = t \<Longrightarrow> \<exists>n. (f ^^ n) s = t"
  by (rule exI [of _ "Suc n"]) (simp add: funpow_swap1)

lemma collecting_steps:
  "rd_pc s = Collecting pid pids \<Longrightarrow>
     \<exists>n. (user_step ops ^^ n) s =
       s\<lparr>rd_pc := Draining (pids @ collect_pids ops (file_read_counter (rd_maps s)) pid (length pids))\<rparr>"
proof (induction ops "file_read_counter (rd_maps s)" pid "length pids" arbitrary: s pids rule: collect_pids.induct)
  case (1 ops pid s pids)
  let ?m = "file_read_counter (rd_maps s)"
  show ?case
  proof (cases "next_key ops ?m (Some pid)")
    case None
    then show ?thesis using 1(2)
      by (intro exI [of _ 1]) (simp add: user_step_def Let_def collect_pids.simps [of ops ?m])
  next
    case (Some k)
    show ?thesis
    proof (cases "length pids \<ge> MAX_ENTRIES")
      case True
      then show ?thesis using 1(2) Some
        by (intro exI [of _ 1]) (simp add: user_step_def Let_def collect_pids.simps [of ops ?m])
    next
      case False
      let ?t = "s\<lparr>rd_pc := Collecting k (pids @ [k])\<rparr>"
      have step: "user_step ops s = ?t" using 1(2) Some False by (simp add: user_step_def Let_def)
      obtain n where "(user_step ops ^^ n) ?t =
          ?t\<lparr>rd_pc := Draining ((pids @ [k]) @ collect_pids ops (file_read_counter (rd_maps ?t)) k (length (pids @ [k])))\<rparr>"
        using 1(1) [OF Some False, of ?t "pids @ [k]"] by auto
      then have "(user_step ops ^^ n) (user_step ops s) =
          s\<lparr>rd_pc := Draining (pids @ collect_pids ops ?m pid (length pids))\<rparr>"
        using Some False by (simp add: step collect_pids.simps [of ops ?m pid])
      then show ?thesis by (rule funpow_step_ex)
    qed
  qed
qed

lemma draining_steps:
  "rd_pc s = Draining ks \<Longrightarrow>
     \<exists>n L. (user_step ops ^^ n) s = s\<lparr>rd_pc := Sleeping, rd_maps := snd (visit (read_stat_body ops) ks (rd_maps s)),
         rd_out := rd_out s @ L\<rparr> \<and> map rd_line L = fst (visit (read_stat_body ops) ks (rd_maps s))"
proof (induction ks arbitrary: s)
  case Nil
  then show ?case by (intro exI [of _ 1] exI [of _ "[]"]) (simp add: user_step_def)
next
  case (Cons k ks)
  let ?m = "file_read_counter (rd_maps s)"
  show ?case
  proof (cases "lookup_elem ops ?m k")
    case None
    have st: "user_step ops s = s\<lparr>rd_pc := Draining ks\<rparr>" using Cons.prems None by (simp add: user_step_def Let_def)
    obtain n L where "(user_step ops ^^ n) (user_step ops s) = s\<lparr>rd_pc := Sleeping,
        rd_maps := snd (visit (read_stat_body ops) ks (rd_maps s)), rd_out := rd_out s @ L\<rparr>"
      "map rd_line L = fst (visit (read_stat_body ops) ks (rd_maps s))"
      using Cons.IH [of "s\<lparr>rd_pc := Draining ks\<rparr>"] unfolding st by auto
    then show ?thesis using None
      by (intro exI [of _ "Suc n"] exI [of _ L]) (simp add: funpow_swap1 read_stat_body_def [of ops k])
  next
    case (Some v)
    let ?t = "s\<lparr>rd_pc := Draining ks, rd_maps := (rd_maps s)\<lparr>file_read_counter := snd (delete_elem ops ?m k)\<rparr>,
        rd_out := rd_out s @ [(k, v)]\<rparr>"
    have st: "user_step ops (user_step ops s) = ?t" using Cons.prems Some by (simp add: user_step_def Let_def)
    obtain n L where "(user_step ops ^^ n) ?t = ?t\<lparr>rd_pc := Sleeping,
        rd_maps := snd (visit (read_stat_body ops) ks (rd_maps ?t)), rd_out := rd_out ?t @ L\<rparr>"
      "map rd_line L = fst (visit (read_stat_body ops) ks (rd_maps ?t))"
      using Cons.IH [of ?t] by auto
    then show ?thesis using Some
      by (intro exI [of _ "Suc (Suc n)"] exI [of _ "(k, v) # L"])
        (simp add: funpow_swap1 st read_stat_body_def [of ops k] rd_line_def [of "(k, v)"])
  qed
qed

subsection \<open>Properties\<close>

text \<open>C16: an iteration of read_stat made of single map calls, with no kernel event between them, is the
  atomic iteration: from \<open>Sleeping\<close> the thread comes back to \<open>Sleeping\<close> with the maps and the printed
  lines of \<open>read_stat_tick\<close>.\<close>

theorem read_stat_calls_refine_tick:
  assumes "rd_pc s = Sleeping"
  shows "\<exists>n > 0. \<exists>L m'. (user_step ops ^^ n) s = s\<lparr>rd_maps := m', rd_out := rd_out s @ L\<rparr>
    \<and> read_stat_tick ops (rd_maps s) = Some (map rd_line L @ [Flush], m')"
proof -
  let ?pids = "collect_pids ops (file_read_counter (rd_maps s)) 0 0" and ?v = "visit (read_stat_body ops)"
  have "user_step ops s = s\<lparr>rd_pc := Collecting 0 []\<rparr>" using assms by (simp add: user_step_def Let_def)
  moreover obtain a where "(user_step ops ^^ a) (s\<lparr>rd_pc := Collecting 0 []\<rparr>) = s\<lparr>rd_pc := Draining ?pids\<rparr>"
    using collecting_steps [of "s\<lparr>rd_pc := Collecting 0 []\<rparr>" 0 "[]" ops] by auto
  moreover obtain b L where "(user_step ops ^^ b) (s\<lparr>rd_pc := Draining ?pids\<rparr>) =
      s\<lparr>rd_pc := Sleeping, rd_maps := snd (?v ?pids (rd_maps s)), rd_out := rd_out s @ L\<rparr>"
    and L: "map rd_line L = fst (?v ?pids (rd_maps s))"
    using draining_steps [of "s\<lparr>rd_pc := Draining ?pids\<rparr>" ?pids ops] by auto
  moreover have "s\<lparr>rd_pc := Sleeping, rd_maps := m, rd_out := out\<rparr> = s\<lparr>rd_maps := m, rd_out := out\<rparr>" for m out
    using assms by (cases s) simp
  ultimately have "(user_step ops ^^ (b + Suc a)) s = s\<lparr>rd_maps := snd (?v ?pids (rd_maps s)), rd_out := rd_out s @ L\<rparr>"
    by (simp add: funpow_add funpow_swap1)
  moreover have "read_stat_tick ops (rd_maps s) = Some (map rd_line L @ [Flush], snd (?v ?pids (rd_maps s)))"
    by (simp add: read_stat_tick_def L case_prod_unfold Let_def)
  ultimately show ?thesis by (intro exI [of _ "b + Suc a"]) auto
qed

definition rd_demo :: "(u32, u64) hmap rd_state" where
  "rd_demo = (rd_begin (empty_hash 10240))\<lparr>rd_maps := fold (read_stat_event (hash_ops False)) read_demo
     \<lparr>file_read_counter = empty_hash 10240\<rparr>\<rparr>"

theorem read_stat_calls_refine_tick_witness:
  "\<exists>n > 0. \<exists>L m'. (user_step (hash_ops False) ^^ n) rd_demo = rd_demo\<lparr>rd_maps := m', rd_out := rd_out rd_demo @ L\<rparr>
    \<and> read_stat_tick (hash_ops False) (rd_maps rd_demo) = Some (map rd_line L @ [Flush], m')"
  by (rule read_stat_calls_refine_tick) (simp add: rd_demo_def rd_begin_def)

text \<open>C17: whatever the interleaving of \<open>read()\<close> calls with the map calls of the loader, over a lawful map
  that is empty at the start, what read_stat has printed for a process in all never exceeds the
  number of \<open>read()\<close> calls the process made: nothing is counted twice.\<close>

theorem read_stat_never_overcounts:
  assumes "bpf_hash ops keys cap" and "rd_reach ops (rd_begin m) s" and "keys m = []" and "length (rd_hist s) < 2 ^ 64"
  shows "reported (rd_out s) k \<le> reads_of (rd_hist s) k"
  by (rule read_stat.no_overcount [OF read_stat.intro [OF assms(1)] assms(2-4)])

theorem read_stat_never_overcounts_witness:
  "reported (rd_out (user_step (hash_ops False) (kernel_step (hash_ops False) (task_ctx 7 ''cat'' 1 0) (rd_begin (empty_hash 10240))))) 7
     \<le> reads_of [task_ctx 7 ''cat'' 1 0] 7"
  using read_stat_never_overcounts [OF hm.bpf_hash_axioms
      rd_reach.user [OF rd_reach.kernel [OF rd_reach.start, of "hash_ops False" "rd_begin (empty_hash 10240)" "task_ctx 7 ''cat'' 1 0"]], of 7]
  by (simp add: kernel_step_def rd_begin_def)

text \<open>A \<open>read()\<close> call of a process between the lookup of its counter and its deletion is lost: after
  the deletion the call is neither printed nor in the map.\<close>

theorem read_stat_loses_event:
  assumes "bpf_hash ops keys cap" and "rd_pc s = Draining (cur_pid h # ks)"
    and "lookup_elem ops (file_read_counter (rd_maps s)) (cur_pid h) = Some v"
    and "s' = user_step ops (kernel_step ops h (user_step ops s))"
  shows "reads_of (rd_hist s') (cur_pid h) = Suc (reads_of (rd_hist s) (cur_pid h))
    \<and> rd_out s' = rd_out s @ [(cur_pid h, v)] \<and> live ops s' (cur_pid h) = 0 \<and> rd_pc s' = Draining ks"
  unfolding assms(4) using read_stat.lost_event [OF read_stat.intro [OF assms(1)] assms(2,3)] by blast

theorem read_stat_loses_event_witness:
  "reads_of (rd_hist (user_step (hash_ops False) (kernel_step (hash_ops False) (task_ctx 7 ''cat'' 1 0) (user_step (hash_ops False)
      ((rd_begin (empty_hash 10240))\<lparr>rd_pc := Draining [7], rd_maps := read_stat_event (hash_ops False) (task_ctx 7 ''cat'' 0 0)
         \<lparr>file_read_counter = empty_hash 10240\<rparr>\<rparr>))))) 7 = Suc 0"
  using read_stat_loses_event [OF hm.bpf_hash_axioms _ _ refl, of "(rd_begin (empty_hash 10240))\<lparr>rd_pc := Draining [7],
      rd_maps := read_stat_event (hash_ops False) (task_ctx 7 ''cat'' 0 0) \<lparr>file_read_counter = empty_hash 10240\<rparr>\<rparr>"
      "task_ctx 7 ''cat'' 1 0" "[]" False 1]
  by (simp add: rd_begin_def reads_of_def read_stat_event_def handle_enter_read_def add_or_insert_modify hm.lookup_modify_room)

end
