(* ===== verification/ConnRace.thy ===== *)
theory ConnRace
  imports Race TcpConnect
begin

section \<open>tcp_connect with events between its map calls\<close>

text \<open>
  \<open>print_and_clear_stats\<close> of \<open>my_tools/network/tcp_connect.c\<close> as a thread that makes one map call at a time, with
  the BPF program of \<open>my_tools/network/tcp_connect.bpf.c\<close> running between any two of them, as theory \<open>Race\<close> has it
  for read_stat. The loop of tcp_connect is the other kind: it walks the map while it deletes from it, and its
  entries carry the name of the process.
  Shown: without events in between the steps of the thread compute the iteration of theory \<open>TcpConnect\<close>; under
  every interleaving each name in the two maps and in the output is one the process had at an event, so what
  is printed as a name is a string of at most 15 characters, and no attempt is reported twice.
\<close>

datatype cn_pc =
    Cn_sleeping
  | Cn_next u32
  | Cn_lookup u32
  | Cn_delete u32 comm_info

record ('m, 'n) cn_state =
  cn_maps :: "('m, 'n) tcp_connect_maps"
  cn_pc :: cn_pc
  cn_out :: "(u32 \<times> comm_info) list"
  cn_hist :: "conn_event list"

text \<open>The next map call: \<open>Cn_next key\<close> is the head of the loop, \<open>Cn_lookup nxt\<close> the point after it (\<open>nxt\<close> is
  \<open>next_key\<close> of the code), \<open>Cn_delete nxt info\<close> the point between \<open>printf\<close> and \<open>bpf_map__delete_elem\<close>.\<close>

definition conn_user_step :: "('m, u32, comm_info) map_ops \<Rightarrow> ('m, 'n) cn_state \<Rightarrow> ('m, 'n) cn_state" where
  "conn_user_step ops s =
     (let m = conn_count (cn_maps s) in
      case cn_pc s of
        Cn_sleeping \<Rightarrow> s\<lparr>cn_pc := Cn_next 0\<rparr>
      | Cn_next key \<Rightarrow>
          (case next_key ops m (Some key) of
             None \<Rightarrow> s\<lparr>cn_pc := Cn_sleeping\<rparr>
           | Some nxt \<Rightarrow> s\<lparr>cn_pc := Cn_lookup nxt\<rparr>)
      | Cn_lookup nxt \<Rightarrow>
          (case lookup_elem ops m nxt of
             Some info \<Rightarrow> s\<lparr>cn_pc := Cn_delete nxt info, cn_out := cn_out s @ [(nxt, info)]\<rparr>
           | None \<Rightarrow> s\<lparr>cn_pc := Cn_next nxt\<rparr>)
      | Cn_delete nxt info \<Rightarrow>
          s\<lparr>cn_pc := Cn_next nxt,
            cn_maps := (cn_maps s)\<lparr>conn_count := snd (delete_elem ops m nxt)\<rparr>\<rparr>)"

definition conn_kernel_step :: "('m, u32, comm_info) map_ops \<Rightarrow> ('n, comm, u64) map_ops \<Rightarrow> conn_event \<Rightarrow>
    ('m, 'n) cn_state \<Rightarrow> ('m, 'n) cn_state" where
  "conn_kernel_step ops nops e s = s\<lparr>cn_maps := tcp_connect_event ops nops e (cn_maps s), cn_hist := cn_hist s @ [e]\<rparr>"

inductive cn_reach :: "('m, u32, comm_info) map_ops \<Rightarrow> ('n, comm, u64) map_ops \<Rightarrow> ('m, 'n) cn_state \<Rightarrow> ('m, 'n) cn_state \<Rightarrow> bool"
  for ops :: "('m, u32, comm_info) map_ops" and nops :: "('n, comm, u64) map_ops" and s0 :: "('m, 'n) cn_state" where
  cn_start: "cn_reach ops nops s0 s0"
| cn_user: "cn_reach ops nops s0 s \<Longrightarrow> cn_reach ops nops s0 (conn_user_step ops s)"
| cn_kernel: "cn_reach ops nops s0 s \<Longrightarrow> cn_reach ops nops s0 (conn_kernel_step ops nops e s)"

definition cn_begin :: "('m, 'n) tcp_connect_maps \<Rightarrow> ('m, 'n) cn_state" where
  "cn_begin maps = \<lparr>cn_maps = maps, cn_pc = Cn_sleeping, cn_out = [], cn_hist = []\<rparr>"

lemma conn_user_hist [simp]: "cn_hist (conn_user_step ops s) = cn_hist s"
  by (simp add: conn_user_step_def Let_def split: cn_pc.split option.split)

lemma conn_kernel_simps [simp]:
  "cn_hist (conn_kernel_step ops nops e s) = cn_hist s @ [e]" "cn_pc (conn_kernel_step ops nops e s) = cn_pc s"
  "cn_out (conn_kernel_step ops nops e s) = cn_out s"
  "cn_maps (conn_kernel_step ops nops e s) = tcp_connect_event ops nops e (cn_maps s)"
  by (simp_all add: conn_kernel_step_def)

text \<open>The line \<open>printf\<close> writes.\<close>

definition conn_line :: "u32 \<times> comm_info \<Rightarrow> effect" where
  "conn_line x = out_kv (''PID_'' @ fmt_u (fst x) @ ''_'' @ c_str (ci_comm (snd x))) (fmt_u (ci_count (snd x)))"

subsection \<open>Where the names come from\<close>

text \<open>A buffer \<open>bpf_get_current_comm\<close> has filled: 16 bytes with a NUL among them.\<close>

definition comm_buf :: "comm \<Rightarrow> bool" where
  "comm_buf c \<longleftrightarrow> length c = 16 \<and> CHR 0x00 \<in> set c"

lemma c_str_buf:
  assumes "comm_buf c"
  shows "length (c_str c) \<le> 15 \<and> CHR 0x00 \<notin> set (c_str c)"
proof -
  have "length (c_str c) \<noteq> length c"
  proof
    assume "length (c_str c) = length c"
    then have "c_str c = c" unfolding c_str_def by (metis takeWhile_eq_take take_all order_refl)
    then have "CHR 0x00 \<in> set (c_str c)" using assms by (simp add: comm_buf_def)
    then show False unfolding c_str_def by (auto dest: set_takeWhileD)
  qed
  moreover have "length (c_str c) \<le> length c" unfolding c_str_def by (rule length_takeWhile_le)
  ultimately show ?thesis using assms by (auto simp: comm_buf_def c_str_def dest: set_takeWhileD)
qed

text \<open>The names a process had at its events so far.\<close>

definition names_of :: "conn_event list \<Rightarrow> u32 \<Rightarrow> comm set" where
  "names_of es k = (\<lambda>e. cur_comm (conn_ctx e)) ` {e \<in> set es. cur_pid (conn_ctx e) = k}"

lemma names_of_snoc: "names_of (es @ [e]) k = names_of es k \<union> (if cur_pid (conn_ctx e) = k then {cur_comm (conn_ctx e)} else {})"
  by (auto simp: names_of_def)

definition cn_named :: "('m, u32, comm_info) map_ops \<Rightarrow> ('n, comm, u64) map_ops \<Rightarrow> ('m, 'n) cn_state \<Rightarrow> bool" where
  "cn_named ops nops s \<longleftrightarrow>
     (\<forall>k info. lookup_elem ops (conn_count (cn_maps s)) k = Some info \<longrightarrow> ci_comm info \<in> names_of (cn_hist s) k) \<and>
     (\<forall>c. lookup_elem nops (conn_exporter (cn_maps s)) c \<noteq> None \<longrightarrow> c \<in> (\<lambda>e. cur_comm (conn_ctx e)) ` set (cn_hist s)) \<and>
     (\<forall>x \<in> set (cn_out s). ci_comm (snd x) \<in> names_of (cn_hist s) (fst x))"

context tcp_connect
begin

lemma lookup_event:
  assumes "lookup_elem ops (conn_count (tcp_connect_event ops nops e s)) k = Some info"
  shows "(\<exists>v. lookup_elem ops (conn_count s) k = Some v \<and> ci_comm info = ci_comm v) \<or>
    cur_pid (conn_ctx e) = k \<and> ci_comm info = cur_comm (conn_ctx e)"
  using h.lookup_modify_cases [OF assms [unfolded conn_event_maps count_comm_modify]]
  by (auto simp: comm_upd_def comm_ini_def)

lemma exporter_event:
  assumes "lookup_elem nops (conn_exporter (tcp_connect_event ops nops e s)) c = Some v"
  shows "(\<exists>u. lookup_elem nops (conn_exporter s) c = Some u) \<or> c = cur_comm (conn_ctx e)"
  using n.lookup_modify_cases [OF assms [unfolded conn_event_maps count_name_modify]] by auto

lemma named_kernel: "cn_named ops nops s \<Longrightarrow> cn_named ops nops (conn_kernel_step ops nops e s)"
  unfolding cn_named_def by (fastforce simp: names_of_snoc dest: lookup_event exporter_event)

lemma named_user: "cn_named ops nops s \<Longrightarrow> cn_named ops nops (conn_user_step ops s)"
  by (auto simp: cn_named_def conn_user_step_def Let_def h.lookup_delete_any split: cn_pc.split option.split if_splits)

lemma reach_named:
  assumes "cn_reach ops nops (cn_begin maps) s" and "keys (conn_count maps) = []" and "nkeys (conn_exporter maps) = []"
  shows "cn_named ops nops s"
  using assms(1)
proof (induction rule: cn_reach.induct)
  case cn_start
  then show ?case using assms(2,3) by (simp add: cn_named_def cn_begin_def h.keys_Nil_iff n.keys_Nil_iff)
qed (simp_all add: named_user named_kernel)

text \<open>Consequences for the shape of what is stored and printed.\<close>

lemma reach_typed:
  assumes "cn_reach ops nops (cn_begin maps) s" and "keys (conn_count maps) = []" and "nkeys (conn_exporter maps) = []"
    and bufs: "\<forall>e \<in> set (cn_hist s). comm_buf (cur_comm (conn_ctx e))"
  shows "\<And>k info. lookup_elem ops (conn_count (cn_maps s)) k = Some info \<Longrightarrow> comm_buf (ci_comm info)"
    and "\<And>c v. lookup_elem nops (conn_exporter (cn_maps s)) c = Some v \<Longrightarrow> comm_buf c"
    and "\<And>k info. (k, info) \<in> set (cn_out s) \<Longrightarrow> comm_buf (ci_comm info)"
  using reach_named [OF assms(1-3)] bufs by (fastforce simp: cn_named_def names_of_def)+

end

subsection \<open>No attempt is reported twice\<close>

definition conn_reported :: "(u32 \<times> comm_info) list \<Rightarrow> u32 \<Rightarrow> nat" where
  "conn_reported out = reported (map (\<lambda>(k, info). (k, ci_count info)) out)"

definition conns_of :: "conn_event list \<Rightarrow> u32 \<Rightarrow> nat" where
  "conns_of es = reads_of (map conn_ctx es)"

lemma conn_reported_snoc [simp]:
  "conn_reported (out @ [(k, info)]) j = conn_reported out j + (if k = j then unat (ci_count info) else 0)"
  by (simp add: conn_reported_def)

lemma conns_of_snoc [simp]: "conns_of (es @ [e]) k = conns_of es k + (if cur_pid (conn_ctx e) = k then 1 else 0)"
  by (simp add: conns_of_def)

fun conn_unsettled :: "cn_pc \<Rightarrow> u32 \<Rightarrow> nat" where
  "conn_unsettled (Cn_delete k info) j = (if k = j then unat (ci_count info) else 0)"
| "conn_unsettled _ j = 0"

definition conn_live :: "('m, u32, comm_info) map_ops \<Rightarrow> ('m, 'n) cn_state \<Rightarrow> u32 \<Rightarrow> nat" where
  "conn_live ops s k = unat (count_at ops ci_count (conn_count (cn_maps s)) k)"

definition conn_accounted :: "('m, u32, comm_info) map_ops \<Rightarrow> ('m, 'n) cn_state \<Rightarrow> bool" where
  "conn_accounted ops s \<longleftrightarrow> (\<forall>k.
     conn_reported (cn_out s) k + conn_live ops s k \<le> conns_of (cn_hist s) k + conn_unsettled (cn_pc s) k \<and>
     conn_unsettled (cn_pc s) k \<le> conn_live ops s k \<and> conn_unsettled (cn_pc s) k \<le> conn_reported (cn_out s) k)"

context tcp_connect
begin

lemma accounted_kernel:
  assumes "conn_accounted ops s" and "length (cn_hist s) + 1 < 2 ^ 64"
  shows "conn_accounted ops (conn_kernel_step ops nops e s)"
proof -
  note acc = spec [OF assms(1) [unfolded conn_accounted_def]]
  have "conn_live ops (conn_kernel_step ops nops e s) k = conn_live ops s k \<or>
      cur_pid (conn_ctx e) = k \<and> conn_live ops (conn_kernel_step ops nops e s) k = Suc (conn_live ops s k)" for k
  proof -
    have "conns_of (cn_hist s) k \<le> length (cn_hist s)"
      using reads_of_le [of "map conn_ctx (cn_hist s)" k] by (simp add: conns_of_def)
    then have "unat (count_at ops ci_count (conn_count (cn_maps s)) k) + 1 < 2 ^ 64"
      using acc [of k] assms(2) unfolding conn_live_def by linarith
    from ctr.count_ev_nat [OF refl this, of e] show ?thesis by (auto simp: conn_live_def)
  qed
  note live = this
  show ?thesis unfolding conn_accounted_def
  proof
    fix k
    show "conn_reported (cn_out (conn_kernel_step ops nops e s)) k + conn_live ops (conn_kernel_step ops nops e s) k
        \<le> conns_of (cn_hist (conn_kernel_step ops nops e s)) k + conn_unsettled (cn_pc (conn_kernel_step ops nops e s)) k \<and>
      conn_unsettled (cn_pc (conn_kernel_step ops nops e s)) k \<le> conn_live ops (conn_kernel_step ops nops e s) k \<and>
      conn_unsettled (cn_pc (conn_kernel_step ops nops e s)) k \<le> conn_reported (cn_out (conn_kernel_step ops nops e s)) k"
      using acc [of k] live [of k] by auto
  qed
qed

lemma accounted_user:
  assumes "conn_accounted ops s"
  shows "conn_accounted ops (conn_user_step ops s)"
proof -
  note acc = spec [OF assms [unfolded conn_accounted_def]]
  have "conn_reported (cn_out (conn_user_step ops s)) k + conn_live ops (conn_user_step ops s) k
      \<le> conns_of (cn_hist s) k + conn_unsettled (cn_pc (conn_user_step ops s)) k \<and>
    conn_unsettled (cn_pc (conn_user_step ops s)) k \<le> conn_live ops (conn_user_step ops s) k \<and>
    conn_unsettled (cn_pc (conn_user_step ops s)) k \<le> conn_reported (cn_out (conn_user_step ops s)) k" for k
    using acc [of k]
    by (cases "cn_pc s")
      (auto simp: conn_user_step_def Let_def conn_live_def count_at_def h.lookup_delete_any split: option.split)
  then show ?thesis by (simp add: conn_accounted_def)
qed

lemma reach_conn_accounted:
  assumes "cn_reach ops nops (cn_begin maps) s" and "keys (conn_count maps) = []" and "length (cn_hist s) < 2 ^ 64"
  shows "conn_accounted ops s"
  using assms(1,3)
proof (induction rule: cn_reach.induct)
  case cn_start
  then show ?case using assms(2)
    by (simp add: conn_accounted_def cn_begin_def conn_live_def count_at_def h.keys_Nil_iff conn_reported_def reported_def)
qed (simp_all add: accounted_user accounted_kernel)

lemma conn_no_overcount:
  assumes "cn_reach ops nops (cn_begin maps) s" and "keys (conn_count maps) = []" and "length (cn_hist s) < 2 ^ 64"
  shows "conn_reported (cn_out s) k \<le> conns_of (cn_hist s) k"
  using spec [OF reach_conn_accounted [OF assms, unfolded conn_accounted_def], of k] by linarith

end

subsection \<open>Without events in between: the atomic iteration\<close>

text \<open>From one head of the loop to the next: two calls when the key is gone, three when it is there.\<close>

lemma conn_visit_steps:
  assumes "cn_pc s = Cn_next k" and "next_key ops (conn_count (cn_maps s)) (Some k) = Some j"
  shows "\<exists>n L. (conn_user_step ops ^^ n) s =
      s\<lparr>cn_pc := Cn_next j, cn_maps := snd (tcp_connect_body ops j (cn_maps s)), cn_out := cn_out s @ L\<rparr>
    \<and> map conn_line L = fst (tcp_connect_body ops j (cn_maps s))"
proof (cases "lookup_elem ops (conn_count (cn_maps s)) j")
  case None
  then show ?thesis using assms
    by (intro exI [of _ 2] exI [of _ "[]"]) (simp add: numeral_2_eq_2 conn_user_step_def Let_def tcp_connect_body_def)
next
  case (Some info)
  then show ?thesis using assms
    by (intro exI [of _ 3] exI [of _ "[(j, info)]"])
      (simp add: numeral_3_eq_3 conn_user_step_def Let_def tcp_connect_body_def conn_line_def)
qed

lemma conn_walk_steps:
  fixes s :: "('m, 'n) cn_state"
  assumes "key_loop (\<lambda>s. next_key ops (conn_count s)) (tcp_connect_body ops) (Some k) (cn_maps s) = Some (out, m')" and "cn_pc s = Cn_next k"
  shows "\<exists>n L. (conn_user_step ops ^^ n) s = s\<lparr>cn_pc := Cn_sleeping, cn_maps := m', cn_out := cn_out s @ L\<rparr> \<and> map conn_line L = out"
proof -
  let ?goal = "\<lambda>s out m'. \<exists>n L. (conn_user_step ops ^^ n) s = s\<lparr>cn_pc := Cn_sleeping, cn_maps := m', cn_out := cn_out s @ L\<rparr> \<and> map conn_line L = out"
  have "\<forall>k' s'. Some k = Some k' \<longrightarrow> cn_pc s' = Cn_next k' \<longrightarrow> cn_maps s' = cn_maps s \<longrightarrow> ?goal s' out m'"
  proof (rule key_loop_induct [OF assms(1), where P = "\<lambda>cur m out m'. \<forall>k s. cur = Some k \<longrightarrow> cn_pc s = Cn_next k \<longrightarrow> cn_maps s = m \<longrightarrow> ?goal s out m'"],
      intro allI impI)
    fix cur k and m :: "('m, 'n) tcp_connect_maps" and s :: "('m, 'n) cn_state"
    assume "next_key ops (conn_count m) cur = None" "cur = Some k" "cn_pc s = Cn_next k" "cn_maps s = m"
    then show "?goal s [] m" by (intro exI [of _ 1] exI [of _ "[]"]) (simp add: conn_user_step_def Let_def)
  next
    fix cur j out and m m' :: "('m, 'n) tcp_connect_maps"
    assume nx: "next_key ops (conn_count m) cur = Some j"
      and IH: "\<forall>k s. Some j = Some k \<longrightarrow> cn_pc s = Cn_next k \<longrightarrow> cn_maps s = snd (tcp_connect_body ops j m) \<longrightarrow> ?goal s out m'"
    show "\<forall>k s. cur = Some k \<longrightarrow> cn_pc s = Cn_next k \<longrightarrow> cn_maps s = m \<longrightarrow> ?goal s (fst (tcp_connect_body ops j m) @ out) m'"
    proof (intro allI impI)
      fix k and s :: "('m, 'n) cn_state"
      assume s: "cur = Some k" "cn_pc s = Cn_next k" "cn_maps s = m"
      obtain a L1 where a: "(conn_user_step ops ^^ a) s = s\<lparr>cn_pc := Cn_next j, cn_maps := snd (tcp_connect_body ops j m), cn_out := cn_out s @ L1\<rparr>"
        and L1: "map conn_line L1 = fst (tcp_connect_body ops j m)"
        using conn_visit_steps [of s k ops j] s nx by auto
      obtain b L where "(conn_user_step ops ^^ b) ((conn_user_step ops ^^ a) s) =
          s\<lparr>cn_pc := Cn_sleeping, cn_maps := m', cn_out := cn_out s @ L1 @ L\<rparr>" and L: "map conn_line L = out"
        using IH [rule_format, OF refl, of "(conn_user_step ops ^^ a) s"] unfolding a by auto
      then have "(conn_user_step ops ^^ (b + a)) s = s\<lparr>cn_pc := Cn_sleeping, cn_maps := m', cn_out := cn_out s @ L1 @ L\<rparr>"
        by (simp add: funpow_add)
      then show "?goal s (fst (tcp_connect_body ops j m) @ out) m'" using L1 L
        by (intro exI [of _ "b + a"] exI [of _ "L1 @ L"]) simp
    qed
  qed
  then show ?thesis using assms(2) by blast
qed

subsection \<open>Properties\<close>

text \<open>An iteration of tcp_connect made of single map calls, with no event between them, is the atomic iteration.\<close>

theorem tcp_connect_calls_refine_tick:
  assumes "cn_pc s = Cn_sleeping" and "print_and_clear_stats ops (cn_maps s) = Some (out, m')"
  shows "\<exists>n > 0. \<exists>L. (conn_user_step ops ^^ n) s = s\<lparr>cn_maps := m', cn_out := cn_out s @ L\<rparr> \<and> out = map conn_line L @ [Flush]"
proof -
  obtain out0 where l: "key_loop (\<lambda>s. next_key ops (conn_count s)) (tcp_connect_body ops) (Some 0) (cn_maps s) = Some (out0, m')"
    and out: "out = out0 @ [Flush]"
    using assms(2) by (auto simp: print_and_clear_stats_def Option.bind_eq_Some_conv)
  obtain n L where n: "(conn_user_step ops ^^ n) (s\<lparr>cn_pc := Cn_next 0\<rparr>) = s\<lparr>cn_pc := Cn_sleeping, cn_maps := m', cn_out := cn_out s @ L\<rparr>"
    and L: "map conn_line L = out0"
    using conn_walk_steps [of ops 0 "s\<lparr>cn_pc := Cn_next 0\<rparr>" out0 m'] l by auto
  have "conn_user_step ops s = s\<lparr>cn_pc := Cn_next 0\<rparr>" using assms(1) by (simp add: conn_user_step_def)
  then have "(conn_user_step ops ^^ Suc n) s = s\<lparr>cn_pc := Cn_sleeping, cn_maps := m', cn_out := cn_out s @ L\<rparr>"
    using n by (simp add: funpow_swap1)
  moreover have "s\<lparr>cn_pc := Cn_sleeping, cn_maps := m', cn_out := cn_out s @ L\<rparr> = s\<lparr>cn_maps := m', cn_out := cn_out s @ L\<rparr>"
    using assms(1) by (cases s) simp
  ultimately show ?thesis using L out by (intro exI [of _ "Suc n"]) auto
qed

text \<open>C8: under every interleaving of connection attempts with the map calls of tcp_connect, from empty maps and with
  16-byte NUL-terminated names as \<open>bpf_get_current_comm\<close> gives them: every entry of \<open>conn_count\<close> and every key
  of the exporter map holds such a name, and every line printed so far has the form \<open>PID_<pid>_<name>: <count>\<close>
  with a name of at most 15 characters, none of them NUL, that the process had at one of its attempts:
  \<open>printf\<close> never reads past the 16 bytes of \<open>info.comm\<close>.\<close>

theorem tcp_connect_names_typed:
  assumes "bpf_hash ops keys cap" and "bpf_hash nops nkeys ncap"
    and "cn_reach ops nops (cn_begin maps) s" and "keys (conn_count maps) = []" and "nkeys (conn_exporter maps) = []"
    and "\<forall>e \<in> set (cn_hist s). comm_buf (cur_comm (conn_ctx e))"
  shows "(\<forall>k info. lookup_elem ops (conn_count (cn_maps s)) k = Some info \<longrightarrow> comm_buf (ci_comm info))
    \<and> (\<forall>c \<in> set (nkeys (conn_exporter (cn_maps s))). comm_buf c)
    \<and> (\<forall>line \<in> conn_line ` set (cn_out s). \<exists>k name count. line = out_kv (''PID_'' @ fmt_u k @ ''_'' @ name) (fmt_u (count :: u64))
        \<and> name \<in> c_str ` names_of (cn_hist s) k \<and> length name \<le> 15 \<and> CHR 0x00 \<notin> set name)"
proof (intro conjI allI impI ballI)
  note tool = tcp_connect.intro [OF assms(1,2)]
  note typed = tcp_connect.reach_typed [OF tool assms(3-6)] and named = tcp_connect.reach_named [OF tool assms(3-5)]
  show "comm_buf (ci_comm info)" if "lookup_elem ops (conn_count (cn_maps s)) k = Some info" for k info
    by (rule typed(1) [OF that])
  show "comm_buf c" if "c \<in> set (nkeys (conn_exporter (cn_maps s)))" for c
    using that typed(2) bpf_map.keys_lookup [OF bpf_hash.axioms(1) [OF assms(2)], of c] by auto
  show "\<exists>k name count. line = out_kv (''PID_'' @ fmt_u k @ ''_'' @ name) (fmt_u (count :: u64))
      \<and> name \<in> c_str ` names_of (cn_hist s) k \<and> length name \<le> 15 \<and> CHR 0x00 \<notin> set name"
    if line: "line \<in> conn_line ` set (cn_out s)" for line
  proof -
    obtain k info where x: "(k, info) \<in> set (cn_out s)" "line = conn_line (k, info)" using line by auto
    then have "ci_comm info \<in> names_of (cn_hist s) k" using named by (fastforce simp: cn_named_def)
    then show ?thesis using c_str_buf [OF typed(3) [OF x(1)]] x(2)
      by (intro exI [of _ k] exI [of _ "c_str (ci_comm info)"] exI [of _ "ci_count info"]) (simp add: conn_line_def)
  qed
qed

definition cn_demo :: "((u32, comm_info) hmap, (comm, u64) hmap) cn_state" where
  "cn_demo = conn_user_step (hash_ops False) (conn_user_step (hash_ops False) (conn_user_step (hash_ops False)
     (conn_kernel_step (hash_ops False) (hash_ops False) (Tcp_v4_connect (task_ctx 21 ''curl'' 1 0)) (cn_begin conn_init))))"

lemma cn_demo_reach: "cn_reach (hash_ops False) (hash_ops False) (cn_begin conn_init) cn_demo"
  unfolding cn_demo_def by (intro cn_reach.intros)

lemma cn_demo_hist: "cn_hist cn_demo = [Tcp_v4_connect (task_ctx 21 ''curl'' 1 0)]"
  by (simp add: cn_demo_def cn_begin_def)

text \<open>The demonstration has printed a line.\<close>

lemma cn_demo_prints: "map conn_line (cn_out cn_demo) = [out_kv (''PID_21_curl'') ''1'']"
  by code_simp

theorem tcp_connect_names_typed_witness:
  "list_all comm_buf (hm_keys (conn_exporter (cn_maps cn_demo))) \<and>
   (\<exists>k name count. out_kv (''PID_21_curl'') ''1'' = out_kv (''PID_'' @ fmt_u k @ ''_'' @ name) (fmt_u (count :: u64))
        \<and> name \<in> c_str ` names_of (cn_hist cn_demo) k \<and> length name \<le> 15 \<and> CHR 0x00 \<notin> set name)"
proof -
  have bufs: "\<forall>e \<in> set (cn_hist cn_demo). comm_buf (cur_comm (conn_ctx e))"
    by (simp add: cn_demo_hist comm_buf_def task_ctx_def numeral_eq_Suc)
  have "out_kv (''PID_21_curl'') ''1'' \<in> conn_line ` set (cn_out cn_demo)"
    using cn_demo_prints by (metis list.set_intros(1) set_map)
  moreover have "hm_keys (conn_count conn_init) = []" "hm_keys (conn_exporter conn_init) = []" by (simp_all add: conn_init_def)
  note typed = tcp_connect_names_typed [OF hm.bpf_hash_axioms hm.bpf_hash_axioms cn_demo_reach this bufs]
  ultimately show ?thesis using conjunct1 [OF conjunct2 [OF typed]] bspec [OF conjunct2 [OF conjunct2 [OF typed]]]
    unfolding list_all_iff by blast
qed

text \<open>Under every interleaving, from an empty map, what tcp_connect has printed for a process in all never exceeds the
  number of its attempts.\<close>

theorem tcp_connect_never_overcounts:
  assumes "bpf_hash ops keys cap" and "bpf_hash nops nkeys ncap"
    and "cn_reach ops nops (cn_begin maps) s" and "keys (conn_count maps) = []" and "length (cn_hist s) < 2 ^ 64"
  shows "conn_reported (cn_out s) k \<le> conns_of (cn_hist s) k"
  by (rule tcp_connect.conn_no_overcount [OF tcp_connect.intro [OF assms(1,2)] assms(3-5)])

end
