(* ===== verification/Smp.thy ===== *)
theory Smp
  imports ReadStat WriteStat MmapStat
begin

section \<open>The counting programs on several CPUs\<close>

text \<open>
  The BPF programs of read_stat, write_stat and mmap_stat look a counter up and then either add to it
  through the pointer or create the entry; the program may run on every CPU at once, so between the
  lookup and the second map call other CPUs make theirs. Here each CPU is where it is in the program
  (\<open>Idle\<close>; \<open>Found k\<close>: it holds the pointer to the counter of \<open>k\<close>; \<open>Missing k\<close>: its lookup returned NULL), a
  step is one map call of one CPU, and the state keeps, as a ghost, the processes whose events began.
  The entry is created with \<open>BPF_NOEXIST\<close> in \<open>my_tools/memo/mmap_stat.bpf.c\<close> and with \<open>BPF_ANY\<close> in
  \<open>my_tools/file/read_stat.bpf.c\<close> and \<open>my_tools/file/write_stat.bpf.c\<close>.
  Shown: one CPU alone computes the handlers of the theories of these tools; with \<open>BPF_NOEXIST\<close>, under
  every interleaving, no event is counted twice and each process loses fewer events than there are
  CPUs over the whole run; with \<open>BPF_ANY\<close> two CPUs suffice to lose any number of events.
  No step removes or replaces an entry while a CPU holds a pointer to it: with \<open>BPF_NOEXIST\<close> no entry is
  ever replaced, and the run that shows the loss replaces one only when no CPU is at \<open>Found\<close>.
\<close>

datatype 'k cpu_pc = Idle | Found 'k | Missing 'k

record ('m, 'k) smp =
  smp_map :: 'm
  smp_pcs :: "'k cpu_pc list"
  smp_hist :: "'k list"

text \<open>\<open>val = bpf_map_lookup_elem(&m, &pid)\<close>\<close>

definition cpu_enter :: "('m, 'k, u64) map_ops \<Rightarrow> nat \<Rightarrow> 'k \<Rightarrow> ('m, 'k) smp \<Rightarrow> ('m, 'k) smp" where
  "cpu_enter ops c k s =
     s\<lparr>smp_pcs := (smp_pcs s)[c := (case lookup_elem ops (smp_map s) k of Some _ \<Rightarrow> Found k | None \<Rightarrow> Missing k)],
       smp_hist := smp_hist s @ [k]\<rparr>"

text \<open>\<open>if (val) __sync_fetch_and_add(val, 1); else bpf_map_update_elem(&m, &pid, &init, flag);\<close>
  the atomic addition reads the counter when it is executed.\<close>

definition cpu_leave :: "('m, 'k, u64) map_ops \<Rightarrow> update_flag \<Rightarrow> nat \<Rightarrow> ('m, 'k) smp \<Rightarrow> ('m, 'k) smp" where
  "cpu_leave ops fl c s =
     (case smp_pcs s ! c of
        Idle \<Rightarrow> s
      | Found k \<Rightarrow>
          (case lookup_elem ops (smp_map s) k of
             Some v \<Rightarrow> s\<lparr>smp_map := store_elem ops (smp_map s) k (v + 1), smp_pcs := (smp_pcs s)[c := Idle]\<rparr>
           | None \<Rightarrow> s\<lparr>smp_pcs := (smp_pcs s)[c := Idle]\<rparr>)
      | Missing k \<Rightarrow>
          s\<lparr>smp_map := snd (update_elem ops (smp_map s) k 1 fl), smp_pcs := (smp_pcs s)[c := Idle]\<rparr>)"

inductive smp_step :: "('m, 'k, u64) map_ops \<Rightarrow> update_flag \<Rightarrow> ('m, 'k) smp \<Rightarrow> ('m, 'k) smp \<Rightarrow> bool"
  for ops :: "('m, 'k, u64) map_ops" and fl :: update_flag where
  enter: "c < length (smp_pcs s) \<Longrightarrow> smp_pcs s ! c = Idle \<Longrightarrow> smp_step ops fl s (cpu_enter ops c k s)"
| leave: "c < length (smp_pcs s) \<Longrightarrow> smp_pcs s ! c \<noteq> Idle \<Longrightarrow> smp_step ops fl s (cpu_leave ops fl c s)"

abbreviation smp_run :: "('m, 'k, u64) map_ops \<Rightarrow> update_flag \<Rightarrow> ('m, 'k) smp \<Rightarrow> ('m, 'k) smp \<Rightarrow> bool" where
  "smp_run ops fl \<equiv> (smp_step ops fl)\<^sup>*\<^sup>*"

inductive_cases smp_stepE: "smp_step ops fl s s'"

definition smp_begin :: "nat \<Rightarrow> 'm \<Rightarrow> ('m, 'k) smp" where
  "smp_begin n m = \<lparr>smp_map = m, smp_pcs = replicate n Idle, smp_hist = []\<rparr>"

text \<open>Events of \<open>k\<close> that have begun, and those of them that are between their two map calls.\<close>

definition begun :: "('m, 'k) smp \<Rightarrow> 'k \<Rightarrow> nat" where
  "begun s k = count_list (smp_hist s) k"

definition pending :: "('m, 'k) smp \<Rightarrow> 'k \<Rightarrow> nat" where
  "pending s k = count_list (smp_pcs s) (Found k) + count_list (smp_pcs s) (Missing k)"

lemma count_list_update:
  "i < length xs \<Longrightarrow> count_list (xs[i := y]) x + (if xs ! i = x then 1 else 0) = count_list xs x + (if y = x then 1 else 0)"
proof (induction xs arbitrary: i)
  case (Cons a xs)
  show ?case
  proof (cases i)
    case (Suc j)
    with Cons.prems have "j < length xs" by simp
    from Cons.IH [OF this] Suc show ?thesis by auto
  qed auto
qed simp

lemma count_list_replicate: "count_list (replicate n x) x = n"
  by (induction n) simp_all

text \<open>A CPU that is elsewhere leaves room for a step.\<close>

lemma count_list_less: "i < length xs \<Longrightarrow> xs ! i \<noteq> x \<Longrightarrow> count_list xs x < length xs"
  using count_list_update [of i xs x x] count_le_length [of "xs[i := x]" x] by simp

subsection \<open>One CPU alone\<close>

lemma leave_enter:
  assumes "c < length (smp_pcs s)" and "smp_pcs s ! c = Idle"
  shows "cpu_leave ops fl c (cpu_enter ops c k s) =
    s\<lparr>smp_map := add_or_insert ops (smp_map s) k 1 fl, smp_hist := smp_hist s @ [k]\<rparr>"
  using assms
  by (cases "lookup_elem ops (smp_map s) k")
    (simp_all add: cpu_enter_def cpu_leave_def add_or_insert_def list_update_same_conv)

lemma run_alone:
  assumes "c < length (smp_pcs s)" and "smp_pcs s ! c = Idle"
  shows "smp_run ops fl s (s\<lparr>smp_map := add_or_insert ops (smp_map s) k 1 fl, smp_hist := smp_hist s @ [k]\<rparr>)"
proof -
  have "smp_pcs (cpu_enter ops c k s) ! c \<noteq> Idle"
    using assms(1) by (simp add: cpu_enter_def split: option.split)
  then have "smp_step ops fl (cpu_enter ops c k s) (cpu_leave ops fl c (cpu_enter ops c k s))"
    using assms(1) by (intro smp_step.leave) (simp_all add: cpu_enter_def)
  with smp_step.enter [OF assms, of ops fl k] show ?thesis
    unfolding leave_enter [OF assms] by (meson converse_rtranclp_into_rtranclp r_into_rtranclp)
qed

lemma handlers_run_alone:
  "file_read_counter (read_stat_event ops h r) = add_or_insert ops (file_read_counter r) (cur_pid h) 1 BPF_ANY"
  "file_write_counter (write_stat_event ops h w) = add_or_insert ops (file_write_counter w) (cur_pid h) 1 BPF_ANY"
  "memo_counter (mmap_stat_event ops h m) = add_or_insert ops (memo_counter m) (cur_pid h) 1 BPF_NOEXIST"
  by (simp_all add: read_stat_event_def handle_enter_read_def write_stat_event_def handle_enter_write_def
      mmap_stat_event_def handle_enter_mmap_def add_or_insert_def Let_def split: option.split)

subsection \<open>Created with BPF\_NOEXIST: the loss is bounded\<close>

text \<open>The account of key \<open>k\<close> on \<open>n\<close> CPUs: of its events \<open>d\<close> are in the counter and \<open>l\<close> were lost because another
  CPU created the entry first. Once the entry exists no CPU becomes \<open>Missing\<close> again, so the CPUs that still are,
  and the events already lost, are together fewer than \<open>n\<close>.\<close>

definition account :: "('m, 'k, u64) map_ops \<Rightarrow> nat \<Rightarrow> 'k \<Rightarrow> ('m, 'k) smp \<Rightarrow> nat \<Rightarrow> nat \<Rightarrow> bool" where
  "account ops n k s d l \<longleftrightarrow> length (smp_pcs s) = n \<and> begun s k = d + pending s k + l \<and>
     (case lookup_elem ops (smp_map s) k of
        None \<Rightarrow> d = 0 \<and> l = 0 \<and> count_list (smp_pcs s) (Found k) = 0
      | Some v \<Rightarrow> v = of_nat d \<and> l + count_list (smp_pcs s) (Missing k) < n)"

locale smp_counter = bpf_hash ops keys cap
  for ops :: "('m, 'k, u64) map_ops" and keys :: "'m \<Rightarrow> 'k list" and cap
begin

lemma account_enter:
  assumes "account ops n k s d l" and c: "c < length (smp_pcs s)" "smp_pcs s ! c = Idle"
  shows "account ops n k (cpu_enter ops c j s) d l"
proof -
  let ?p = "case lookup_elem ops (smp_map s) j of Some _ \<Rightarrow> Found j | None \<Rightarrow> Missing j"
  note count_list_update [OF c(1), of ?p "Found k"] count_list_update [OF c(1), of ?p "Missing k"]
  with assms(1) c(2) show ?thesis
    by (auto simp: account_def cpu_enter_def pending_def begun_def split: option.splits if_splits)
qed

lemma account_found:
  assumes "account ops n k s d l" and c: "c < length (smp_pcs s)" "smp_pcs s ! c = Found j"
  shows "\<exists>d l. account ops n k (cpu_leave ops fl c s) d l"
proof (cases "lookup_elem ops (smp_map s) j")
  case None
  note upd = count_list_update [OF c(1), of Idle "Found k"] count_list_update [OF c(1), of Idle "Missing k"]
  then have "account ops n k (cpu_leave ops fl c s) d l"
    using assms(1) c None
    by (auto simp: account_def cpu_leave_def pending_def begun_def split: option.splits if_splits)
  then show ?thesis by blast
next
  case (Some v)
  note upd = count_list_update [OF c(1), of Idle "Found k"] count_list_update [OF c(1), of Idle "Missing k"]
  then have "account ops n k (cpu_leave ops fl c s) (if j = k then Suc d else d) l"
    using assms(1) c Some by (auto simp: account_def cpu_leave_def pending_def begun_def
        lookup_store [OF keys_lookup_Some [OF Some]] split: option.splits)
  then show ?thesis by blast
qed

lemma account_missing_other:
  assumes "account ops n k s d l" and c: "c < length (smp_pcs s)" "smp_pcs s ! c = Missing j" and "j \<noteq> k"
  shows "account ops n k (cpu_leave ops fl c s) d l"
  using assms(1,4) c count_list_update [OF c(1), of Idle "Found k"] count_list_update [OF c(1), of Idle "Missing k"]
  by (auto simp: account_def cpu_leave_def pending_def begun_def lookup_update_other [of k j]
      split: option.splits)

text \<open>A CPU that saw no entry either creates it, and no event was lost before, or loses its own.\<close>

lemma account_missing:
  assumes "account ops n k s d l" and c: "c < length (smp_pcs s)" "smp_pcs s ! c = Missing k"
    and "k \<in> set (keys (smp_map s)) \<or> length (keys (smp_map s)) < cap (smp_map s)"
  shows "\<exists>d l. account ops n k (cpu_leave ops BPF_NOEXIST c s) d l"
proof -
  let ?s = "cpu_leave ops BPF_NOEXIST c s"
  note upd = count_list_update [OF c(1), of Idle "Found k"] count_list_update [OF c(1), of Idle "Missing k"]
  have less: "count_list ((smp_pcs s)[c := Idle]) (Missing k) < length (smp_pcs s)"
    using count_list_less [of c "(smp_pcs s)[c := Idle]" "Missing k"] c(1) by simp
  show ?thesis
  proof (cases "lookup_elem ops (smp_map s) k")
    case None
    with assms(4) have "fst (update_elem ops (smp_map s) k 1 BPF_NOEXIST) = 0"
      by (intro update_room) (simp_all add: keys_lookup)
    from update_ok [OF this] have "account ops n k ?s 1 0"
      using assms(1) c None upd less by (auto simp: account_def cpu_leave_def pending_def begun_def)
    then show ?thesis by blast
  next
    case (Some v)
    have "snd (update_elem ops (smp_map s) k 1 BPF_NOEXIST) = smp_map s"
      by (rule update_fail [OF update_noexist [OF keys_lookup_Some [OF Some]]])
    then have "account ops n k ?s d (Suc l)"
      using assms(1) c Some upd by (auto simp: account_def cpu_leave_def pending_def begun_def)
    then show ?thesis by blast
  qed
qed

text \<open>What every reachable state satisfies as long as the processes seen fit into the map.\<close>

definition smp_inv :: "nat \<Rightarrow> 'k set \<Rightarrow> ('m, 'k) smp \<Rightarrow> bool" where
  "smp_inv n K s \<longleftrightarrow> fits keys cap K (smp_map s) \<and>
     (\<forall>j. Missing j \<in> set (smp_pcs s) \<longrightarrow> j \<in> K) \<and> (\<forall>k. \<exists>d l. account ops n k s d l)"

lemma smp_inv_step:
  assumes "smp_step ops BPF_NOEXIST s s'" and "set (smp_hist s') \<subseteq> K" and "smp_inv n K s"
  shows "smp_inv n K s'"
  using assms(1)
proof (cases rule: smp_step.cases)
  case (enter c j)
  have j: "j \<in> K" using assms(2) by (simp add: enter cpu_enter_def)
  have "set (smp_pcs s') \<subseteq> insert (Found j) (insert (Missing j) (set (smp_pcs s)))"
    by (auto simp: enter cpu_enter_def dest!: subsetD [OF set_update_subset_insert] split: option.splits)
  with j assms(3) have "Missing i \<in> set (smp_pcs s') \<Longrightarrow> i \<in> K" for i by (auto simp: smp_inv_def)
  moreover have "\<exists>d l. account ops n k s' d l" for k
    using assms(3) account_enter [OF _ enter(2,3)] unfolding enter(1) smp_inv_def by metis
  ultimately show ?thesis using assms(3) by (simp add: smp_inv_def enter(1) cpu_enter_def)
next
  case (leave c)
  have inK: "smp_pcs s ! c = Missing j \<Longrightarrow> j \<in> K" for j
    using assms(3) leave(2) nth_mem [of c "smp_pcs s"] by (auto simp: smp_inv_def)
  have fit: "fits keys cap K (smp_map s)" using assms(3) by (simp add: smp_inv_def)
  have "fits keys cap K (smp_map s')"
  proof (cases "smp_pcs s ! c")
    case (Found j)
    then show ?thesis using fit
      by (auto simp: leave cpu_leave_def fits_def keys_store [OF keys_lookup_Some] cap_store split: option.split)
  next
    case (Missing j)
    with fits_update [OF fit inK [OF Missing]] show ?thesis by (simp add: leave cpu_leave_def)
  qed (use leave in simp)
  moreover have "set (smp_pcs s') \<subseteq> insert Idle (set (smp_pcs s))"
    by (auto simp: leave cpu_leave_def dest!: subsetD [OF set_update_subset_insert] split: cpu_pc.splits option.splits)
  then have "Missing i \<in> set (smp_pcs s') \<Longrightarrow> i \<in> K" for i using assms(3) by (auto simp: smp_inv_def)
  moreover have "\<exists>d l. account ops n k s' d l" for k
  proof -
    obtain d l where a: "account ops n k s d l" using assms(3) unfolding smp_inv_def by blast
    show ?thesis
    proof (cases "smp_pcs s ! c")
      case (Found j)
      then show ?thesis using account_found [OF a leave(2)] leave(1) by simp
    next
      case (Missing j)
      show ?thesis
      proof (cases "j = k")
        case True
        then show ?thesis
          using account_missing [OF a leave(2)] Missing fits_room [OF fit] inK leave(1) by simp
      next
        case False
        then show ?thesis using account_missing_other [OF a leave(2) Missing] leave(1) by blast
      qed
    qed (use leave in simp)
  qed
  ultimately show ?thesis by (simp add: smp_inv_def)
qed

lemma hist_mono: "smp_step ops fl s s' \<Longrightarrow> set (smp_hist s) \<subseteq> set (smp_hist s')"
  by (erule smp_stepE) (auto simp: cpu_enter_def cpu_leave_def split: cpu_pc.splits option.splits)

lemma smp_inv_run:
  assumes "smp_run ops BPF_NOEXIST s s'" and "smp_inv n K s" and "set (smp_hist s') \<subseteq> K"
  shows "smp_inv n K s'"
  using assms
proof (induction rule: rtranclp_induct)
  case (step y z)
  then show ?case using smp_inv_step hist_mono by blast
qed simp

lemma loss_bounded:
  assumes "keys m = []" and "smp_run ops BPF_NOEXIST (smp_begin n m) s" and "card (set (smp_hist s)) \<le> cap m"
  shows "\<exists>d l. count_at ops (\<lambda>v. v) (smp_map s) k = of_nat d \<and> begun s k = d + pending s k + l \<and> l \<le> n - 1"
proof -
  have "lookup_elem ops m k = None" for k using assms(1) by (simp add: keys_Nil_iff)
  then have "account ops n k (smp_begin n m) 0 0" for k
    by (simp add: account_def smp_begin_def begun_def pending_def)
  then have "smp_inv n (set (smp_hist s)) (smp_begin n m)"
    using assms(1,3) by (auto simp: smp_inv_def fits_def) (auto simp: smp_begin_def)
  from smp_inv_run [OF assms(2) this] obtain d l where "account ops n k s d l" unfolding smp_inv_def by blast
  then show ?thesis by (intro exI [of _ d] exI [of _ l]) (auto simp: account_def count_at_def split: option.splits)
qed

subsubsection \<open>Created with BPF\_ANY: the loss is not bounded\<close>

text \<open>CPU \<open>c\<close> alone counts \<open>j\<close> more events of a process whose entry exists.\<close>

lemma run_adds:
  assumes "c < length (smp_pcs s)" and "smp_pcs s ! c = Idle" and "lookup_elem ops (smp_map s) k \<noteq> None"
  shows "\<exists>s'. smp_run ops fl s s' \<and> smp_pcs s' = smp_pcs s \<and> smp_hist s' = smp_hist s @ replicate j k
    \<and> lookup_elem ops (smp_map s') k \<noteq> None"
proof (induction j)
  case 0
  then show ?case using assms by auto
next
  case (Suc j)
  then obtain s1 where s1: "smp_run ops fl s s1" "smp_pcs s1 = smp_pcs s" "smp_hist s1 = smp_hist s @ replicate j k"
    "lookup_elem ops (smp_map s1) k \<noteq> None" by blast
  let ?s2 = "s1\<lparr>smp_map := add_or_insert ops (smp_map s1) k 1 fl, smp_hist := smp_hist s1 @ [k]\<rparr>"
  have "smp_run ops fl s ?s2"
    using rtranclp_trans [OF s1(1) run_alone [of c s1 ops fl k]] s1(2) assms(1,2) by simp
  moreover have "lookup_elem ops (smp_map ?s2) k \<noteq> None"
    using s1(4) by (auto simp: add_or_insert_modify lookup_modify_present)
  ultimately show ?case using s1(2,3) by (intro exI [of _ ?s2]) (simp add: replicate_append_same)
qed

text \<open>Two CPUs look the same absent counter up, then one of them creates it.\<close>

lemma run_both_missing:
  assumes "lookup_elem ops m k = None"
  shows "smp_run ops fl (smp_begin 2 m) \<lparr>smp_map = snd (update_elem ops m k 1 fl), smp_pcs = [Missing k, Idle], smp_hist = [k, k]\<rparr>"
proof -
  let ?s0 = "\<lparr>smp_map = m, smp_pcs = [Missing k, Idle], smp_hist = [k]\<rparr>"
  let ?s1 = "\<lparr>smp_map = m, smp_pcs = [Missing k, Missing k], smp_hist = [k, k]\<rparr>"
  have "smp_step ops fl (smp_begin 2 m) ?s0"
    using smp_step.enter [of 0 "smp_begin 2 m" ops fl k] by (simp add: smp_begin_def cpu_enter_def assms numeral_2_eq_2)
  moreover have "smp_step ops fl ?s0 ?s1"
    using smp_step.enter [of 1 ?s0 ops fl k] by (simp add: cpu_enter_def assms)
  moreover have "smp_step ops fl ?s1 \<lparr>smp_map = snd (update_elem ops m k 1 fl), smp_pcs = [Missing k, Idle], smp_hist = [k, k]\<rparr>"
    using smp_step.leave [of 1 ?s1 ops fl] by (simp add: cpu_leave_def)
  ultimately show ?thesis by (meson converse_rtranclp_into_rtranclp rtranclp.rtrancl_refl)
qed

lemma loss_happens:
  assumes "keys m = []" and "0 < cap m"
  shows "\<exists>s. smp_run ops BPF_NOEXIST (smp_begin 2 m) s \<and> begun s k = 2 \<and> smp_pcs s = [Idle, Idle]
    \<and> lookup_elem ops (smp_map s) k = Some 1"
proof -
  have abs: "lookup_elem ops m k = None" using assms(1) by (simp add: keys_Nil_iff)
  let ?m1 = "snd (update_elem ops m k 1 BPF_NOEXIST)"
  let ?s1 = "\<lparr>smp_map = ?m1, smp_pcs = [Missing k, Idle], smp_hist = [k, k]\<rparr>"
  have m1: "lookup_elem ops ?m1 k = Some 1" using assms by (simp add: update_ok update_room)
  have "snd (update_elem ops ?m1 k 1 BPF_NOEXIST) = ?m1"
    by (rule update_fail [OF update_noexist [OF keys_lookup_Some [OF m1]]])
  then have "cpu_leave ops BPF_NOEXIST 0 ?s1 = \<lparr>smp_map = ?m1, smp_pcs = [Idle, Idle], smp_hist = [k, k]\<rparr>"
    by (simp add: cpu_leave_def)
  then have "smp_step ops BPF_NOEXIST ?s1 \<lparr>smp_map = ?m1, smp_pcs = [Idle, Idle], smp_hist = [k, k]\<rparr>"
    using smp_step.leave [of 0 ?s1 ops BPF_NOEXIST] by simp
  with run_both_missing [OF abs] show ?thesis
    by (intro exI [of _ "\<lparr>smp_map = ?m1, smp_pcs = [Idle, Idle], smp_hist = [k, k]\<rparr>"])
      (auto simp: m1 begun_def intro: rtranclp.rtrancl_into_rtrancl)
qed

lemma loss_unbounded:
  assumes "keys m = []" and "0 < cap m"
  shows "\<exists>s. smp_run ops BPF_ANY (smp_begin 2 m) s \<and> begun s k = N + 2 \<and> smp_pcs s = [Idle, Idle]
    \<and> lookup_elem ops (smp_map s) k = Some 1"
proof -
  have abs: "lookup_elem ops m k = None" using assms(1) by (simp add: keys_Nil_iff)
  let ?m1 = "snd (update_elem ops m k 1 BPF_ANY)"
  let ?s1 = "\<lparr>smp_map = ?m1, smp_pcs = [Missing k, Idle], smp_hist = [k, k]\<rparr>"
  have "lookup_elem ops ?m1 k \<noteq> None" using lookup_update_room [of m k 1] assms by simp
  then obtain s2 where s2: "smp_run ops BPF_ANY ?s1 s2" "smp_pcs s2 = [Missing k, Idle]"
      "smp_hist s2 = [k, k] @ replicate N k" "lookup_elem ops (smp_map s2) k \<noteq> None"
    using run_adds [of 1 ?s1 k BPF_ANY N] by auto
  let ?s3 = "cpu_leave ops BPF_ANY 0 s2"
  have "smp_step ops BPF_ANY s2 ?s3" using s2(2) by (intro smp_step.leave) simp_all
  with run_both_missing [OF abs] s2(1) have "smp_run ops BPF_ANY (smp_begin 2 m) ?s3" by (meson rtranclp.rtrancl_into_rtrancl rtranclp_trans)
  moreover have "begun ?s3 k = N + 2" by (simp add: cpu_leave_def s2 begun_def count_list_replicate)
  moreover have "lookup_elem ops (smp_map ?s3) k = Some 1"
    using lookup_update_room [of "smp_map s2" k 1] s2(2,4) by (simp add: cpu_leave_def keys_lookup)
  ultimately show ?thesis using s2(2) by (intro exI [of _ ?s3]) (simp add: cpu_leave_def)
qed

end

interpretation smp_hash: smp_counter "hash_ops reorder" hm_keys hcap
  by unfold_locales

subsection \<open>The tools\<close>

text \<open>The BPF programs of the three tools on several CPUs: process ids as keys, and each tool's flag.\<close>

definition mmap_smp :: "('m, u32, u64) map_ops \<Rightarrow> ('m, u32) smp \<Rightarrow> ('m, u32) smp \<Rightarrow> bool" where
  "mmap_smp ops = smp_step ops BPF_NOEXIST"

definition read_smp :: "('m, u32, u64) map_ops \<Rightarrow> ('m, u32) smp \<Rightarrow> ('m, u32) smp \<Rightarrow> bool" where
  "read_smp ops = smp_step ops BPF_ANY"

definition write_smp :: "('m, u32, u64) map_ops \<Rightarrow> ('m, u32) smp \<Rightarrow> ('m, u32) smp \<Rightarrow> bool" where
  "write_smp ops = smp_step ops BPF_ANY"

text \<open>A handler that is not interrupted has the effect that the theory of its tool gives it.\<close>

lemma tools_run_alone:
  assumes "c < length (smp_pcs s)" and "smp_pcs s ! c = Idle"
  shows "(mmap_smp ops)\<^sup>*\<^sup>* s (s\<lparr>smp_map := memo_counter (mmap_stat_event ops h \<lparr>memo_counter = smp_map s\<rparr>),
      smp_hist := smp_hist s @ [cur_pid h]\<rparr>)"
    and "(read_smp ops)\<^sup>*\<^sup>* s (s\<lparr>smp_map := file_read_counter (read_stat_event ops h \<lparr>file_read_counter = smp_map s\<rparr>),
      smp_hist := smp_hist s @ [cur_pid h]\<rparr>)"
    and "(write_smp ops)\<^sup>*\<^sup>* s (s\<lparr>smp_map := file_write_counter (write_stat_event ops h \<lparr>file_write_counter = smp_map s\<rparr>),
      smp_hist := smp_hist s @ [cur_pid h]\<rparr>)"
  using run_alone [OF assms, of ops _ "cur_pid h"]
  by (simp_all add: mmap_smp_def read_smp_def write_smp_def handlers_run_alone)

subsection \<open>Properties\<close>

text \<open>C7: mmap_stat on \<open>n\<close> CPUs, in every interleaving of their map calls, as long as the processes fit into
  the map: the counter of a process holds (modulo 2^64) the number of its \<open>mmap()\<close> calls less those
  still between their two map calls and less at most \<open>n - 1\<close> lost ones. So on one CPU nothing is
  lost, no call is counted twice, and over the whole run no process loses more calls than
  there are other CPUs.\<close>

theorem mmap_stat_smp_loss_bounded:
  assumes "bpf_hash ops keys cap" and "keys m = []" and "(mmap_smp ops)\<^sup>*\<^sup>* (smp_begin n m) s"
    and "card (set (smp_hist s)) \<le> cap m"
  shows "\<exists>d l. count_at ops (\<lambda>v. v) (smp_map s) pid = of_nat d \<and> begun s pid = d + pending s pid + l \<and> l \<le> n - 1"
  using smp_counter.loss_bounded [OF smp_counter.intro [OF assms(1)] assms(2) _ assms(4)] assms(3)
  unfolding mmap_smp_def by blast

theorem mmap_stat_smp_loss_bounded_witness:
  "\<exists>d l. count_at (hash_ops False) (\<lambda>v. v) (memo_counter (mmap_stat_event (hash_ops False) (task_ctx 7 ''sh'' 1 0)
      \<lparr>memo_counter = empty_hash 10240\<rparr>)) 7 = of_nat d \<and> 1 = d + 0 + l \<and> l \<le> 2 - (1 :: nat)"
  using mmap_stat_smp_loss_bounded [OF hm.bpf_hash_axioms _
      tools_run_alone(1) [of 0 "smp_begin 2 (empty_hash 10240)" "hash_ops False" "task_ctx 7 ''sh'' 1 0"], of 7]
  by (simp add: smp_begin_def begun_def pending_def numeral_2_eq_2)

text \<open>Read_stat on two CPUs: for every \<open>N\<close> there is an interleaving in which \<open>N + 2\<close> calls of a process
  have been handled to the end and its counter is 1. The entry that one CPU creates with \<open>BPF_ANY\<close> overwrites
  whatever other CPUs have counted since its lookup. write_stat has the same steps.\<close>

theorem read_stat_smp_loss_unbounded:
  assumes "bpf_hash ops keys cap" and "keys m = []" and "0 < cap m"
  shows "\<exists>s. (read_smp ops)\<^sup>*\<^sup>* (smp_begin 2 m) s \<and> begun s pid = N + 2 \<and> smp_pcs s = [Idle, Idle]
    \<and> lookup_elem ops (smp_map s) pid = Some 1"
  using smp_counter.loss_unbounded [OF smp_counter.intro [OF assms(1)] assms(2,3)] unfolding read_smp_def by blast

theorem read_stat_smp_loss_unbounded_witness:
  "\<exists>s. (read_smp (hash_ops False))\<^sup>*\<^sup>* (smp_begin 2 (empty_hash MAX_ENTRIES)) s \<and> begun s 7 = 98 + 2
    \<and> smp_pcs s = [Idle, Idle] \<and> lookup_elem (hash_ops False) (smp_map s) 7 = Some 1"
  by (rule read_stat_smp_loss_unbounded [OF hm.bpf_hash_axioms]) (simp_all add: MAX_ENTRIES_def)

text \<open>The bound of mmap_stat is attained on two CPUs: the program that loses the creation of the entry does not
  go on to add to it.\<close>

theorem mmap_stat_smp_loses:
  assumes "bpf_hash ops keys cap" and "keys m = []" and "0 < cap m"
  shows "\<exists>s. (mmap_smp ops)\<^sup>*\<^sup>* (smp_begin 2 m) s \<and> begun s pid = 2 \<and> smp_pcs s = [Idle, Idle]
    \<and> lookup_elem ops (smp_map s) pid = Some 1"
  using smp_counter.loss_happens [OF smp_counter.intro [OF assms(1)] assms(2,3)] unfolding mmap_smp_def by blast

end
