(* ===== verification/CLib.thy ===== *)
theory CLib
  imports Loader
begin

section \<open>The C library functions that the programs call on strings\<close>

text \<open>
  \<open>strtol\<close> and \<open>atoi\<close> on decimal numerals, the conversions \<open>%s\<close> and \<open>%c\<close> of \<open>fscanf\<close>, and the protocol
  between glibc's \<open>argp_parse\<close> and the parser function of a program, in the C locale.
\<close>

subsection \<open>Numerals\<close>

definition LONG_MAX :: int where
  "LONG_MAX = 2 ^ 63 - 1"

definition is_space :: "char \<Rightarrow> bool" where
  "is_space c = (c = CHR '' '' \<or> (9 \<le> (of_char c :: nat) \<and> of_char c \<le> (13 :: nat)))"

definition is_digit :: "char \<Rightarrow> bool" where
  "is_digit c = (48 \<le> (of_char c :: nat) \<and> of_char c \<le> (57 :: nat))"

text \<open>\<open>strtol(arg, NULL, 10)\<close> and whether it set \<open>errno\<close>.\<close>

definition strtol10 :: "string \<Rightarrow> int \<times> bool" where
  "strtol10 arg =
     (let s = dropWhile is_space arg;
          neg = (s \<noteq> [] \<and> hd s = CHR ''-'');
          s' = (if s \<noteq> [] \<and> (hd s = CHR ''-'' \<or> hd s = CHR ''+'') then tl s else s);
          v = int (read_nat (takeWhile is_digit s'));
          x = (if neg then - v else v)
      in if x > LONG_MAX then (LONG_MAX, True) else if x < - LONG_MAX - 1 then (- LONG_MAX - 1, True) else (x, False))"

subsection \<open>Reading words\<close>

definition skip_ws :: "string \<Rightarrow> string" where
  "skip_ws s = dropWhile is_space s"

text \<open>\<open>%<n>s\<close>: leading white space is skipped, then at most \<open>n\<close> characters that are not white space are taken; at the
  end of the input nothing is converted. Results are paired with the rest of the input.\<close>

definition scan_s :: "nat \<Rightarrow> string \<Rightarrow> (string \<times> string) option" where
  "scan_s n s =
     (let s' = skip_ws s in
      if s' = [] then None
      else let w = take n (takeWhile (\<lambda>c. \<not> is_space c) s') in Some (w, drop (length w) s'))"

definition scan_c :: "string \<Rightarrow> (char \<times> string) option" where
  "scan_c s = (case s of [] \<Rightarrow> None | c # s' \<Rightarrow> Some (c, s'))"

definition blank :: "string \<Rightarrow> bool" where
  "blank s = list_all is_space s"

definition solid :: "string \<Rightarrow> bool" where
  "solid s = list_all (\<lambda>c. \<not> is_space c) s"

text \<open>The rest of the input does not continue a word.\<close>

definition word_ends :: "string \<Rightarrow> bool" where
  "word_ends s = (case s of [] \<Rightarrow> True | c # _ \<Rightarrow> is_space c)"

lemma skip_ws_blank: "blank b \<Longrightarrow> skip_ws (b @ s) = skip_ws s"
  by (induction b) (simp_all add: blank_def skip_ws_def)

lemma skip_ws_solid: "solid w \<Longrightarrow> w \<noteq> [] \<Longrightarrow> skip_ws (w @ s) = w @ s"
  by (cases w) (simp_all add: solid_def skip_ws_def)

lemma takeWhile_solid: "solid w \<Longrightarrow> word_ends s \<Longrightarrow> takeWhile (\<lambda>c. \<not> is_space c) (w @ s) = w"
  by (induction w) (auto simp: solid_def word_ends_def split: list.splits)

lemma scan_s_word:
  assumes "blank b" and "solid w" and "w \<noteq> []" and "length w \<le> n" and "word_ends s"
  shows "scan_s n (b @ w @ s) = Some (w, s)"
  using assms by (simp add: scan_s_def skip_ws_blank skip_ws_solid takeWhile_solid)

lemma scan_s_blank: "blank b \<Longrightarrow> scan_s n b = None"
  using skip_ws_blank [of b "[]"] by (simp add: scan_s_def) (simp add: skip_ws_def)

lemma scan_s_shorter: "scan_s n s = Some (w, s') \<Longrightarrow> 0 < n \<Longrightarrow> length s' < length s"
proof -
  assume a: "scan_s n s = Some (w, s')" and n: "0 < n"
  let ?s = "skip_ws s"
  have ne: "?s \<noteq> []" using a by (auto simp: scan_s_def Let_def split: if_splits)
  then have "\<not> is_space (hd ?s)" unfolding skip_ws_def by (rule hd_dropWhile)
  then have "w \<noteq> []" using a ne n by (cases ?s) (auto simp: scan_s_def Let_def)
  moreover have "s' = drop (length w) ?s" using a by (auto simp: scan_s_def Let_def split: if_splits)
  moreover have "length ?s \<le> length s" by (simp add: skip_ws_def length_dropWhile_le)
  ultimately show ?thesis using ne by (cases ?s; cases w) auto
qed

subsection \<open>Command lines\<close>

text \<open>glibc's \<open>argp_parse\<close> calls the parser of the program for every option and argument in turn. The parser may call
  \<open>argp_usage\<close>, which prints the usage and exits with 64 (\<open>EX_USAGE\<close>); a key that the parser does not know is no error.\<close>

datatype argp_key = Opt char | ARGP_KEY_ARG | ARGP_KEY_OTHER

datatype argp_result = Argp_ok | ARGP_ERR_UNKNOWN | Argp_usage

fun argp_parse ::
  "(argp_key \<Rightarrow> string \<Rightarrow> 'v \<Rightarrow> argp_result \<times> effect list \<times> 'v) \<Rightarrow> (argp_key \<times> string) list \<Rightarrow> 'v \<Rightarrow> (int \<times> effect list) + 'v" where
  "argp_parse parser [] env = Inr env"
| "argp_parse parser ((k, arg) # args) env =
     (case parser k arg env of
        (Argp_usage, out, env') \<Rightarrow> Inl (64, out)
      | (_, out, env') \<Rightarrow> argp_parse parser args env')"

end
