(* ===== verification/RingBuf.thy ===== *)
theory RingBuf
  imports CLib
begin

section \<open>Loaders that wait on a ring buffer\<close>

text \<open>
  The examples \<open>bootstrap\<close>, \<open>bootstrap_legacy\<close> and \<open>sockfilter\<close> wait in \<open>ring_buffer__poll\<close> (or
  \<open>perf_buffer__poll\<close>), which calls the registered callback for every record submitted so far and
  returns their number, or returns a negative code without calling it. What it returns, which
  kernel events happen while it waits, and whether a signal has set \<open>exiting\<close> by the time the loop
  condition is read, is the record \<open>poll_round\<close>.
  Shown: the loop ends with the code of the poll that stopped it, and a loop whose deliveries cannot
  be told apart gives the same result, which is how the two variants of bootstrap are compared.
\<close>

definition EINTR :: int where
  "EINTR = 4"

record 'e poll_round =
  incoming :: "'e list"
  poll_ret :: int
  sig_seen :: bool

text \<open>\<open>while (!exiting) { err = poll(rb, 100); if (err == -EINTR) { err = 0; break; }
  if (err < 0) { message; break; } rest }\<close>. The result is \<open>err\<close> at the end of the loop, \<open>None\<close> while it
  still runs.\<close>

primrec poll_loop ::
  "(int \<Rightarrow> effect) \<Rightarrow> effect list \<Rightarrow> ('e \<Rightarrow> 's \<Rightarrow> 's) \<Rightarrow> ('s \<Rightarrow> effect list \<times> 's) \<Rightarrow>
     'e poll_round list \<Rightarrow> 's \<Rightarrow> int option \<times> effect list \<times> 's" where
  "poll_loop msg rest ev deliver [] s = (None, [], s)"
| "poll_loop msg rest ev deliver (r # rs) s =
     (let s1 = fold ev (incoming r) s in
      if poll_ret r = - EINTR then (Some 0, [], s1)
      else if poll_ret r < 0 then (Some (poll_ret r), [msg (poll_ret r)], s1)
      else let (out, s2) = deliver s1 in
           if sig_seen r then (Some (poll_ret r), out @ rest, s2)
           else let (e, out', s3) = poll_loop msg rest ev deliver rs s2 in (e, out @ rest @ out', s3))"

text \<open>\<open>%-<n>s\<close>: padded with blanks on the right.\<close>

definition pad_right :: "nat \<Rightarrow> string \<Rightarrow> string" where
  "pad_right n s = s @ replicate (n - length s) CHR '' ''"

text \<open>\<open>bpf_probe_read_str\<close> into a buffer of \<open>n\<close> bytes: at most \<open>n - 1\<close> bytes before the NUL.\<close>

definition read_str :: "nat \<Rightarrow> char list \<Rightarrow> char list" where
  "read_str n src = take (n - 1) (c_str src) @ [CHR 0x00]"

lemma c_str_takeWhile_nul: "\<forall>c \<in> set s. c \<noteq> CHR 0x00 \<Longrightarrow> c_str (s @ [CHR 0x00]) = s"
  by (induction s) (simp_all add: c_str_def)

lemma c_str_read_str: "c_str (read_str n src) = take (n - 1) (c_str src)"
proof -
  have "\<forall>c \<in> set (take (n - 1) (c_str src)). c \<noteq> CHR 0x00"
    by (auto simp: c_str_def dest!: in_set_takeD set_takeWhileD)
  then show ?thesis unfolding read_str_def by (rule c_str_takeWhile_nul)
qed

text \<open>A signal stops the loop with what the poll before it returned.\<close>

lemma poll_loop_signal:
  assumes "\<forall>r \<in> set rs. 0 \<le> poll_ret r \<and> \<not> sig_seen r" and "0 \<le> poll_ret q" and "sig_seen q"
  shows "fst (poll_loop msg rest ev dl (rs @ q # qs) s) = Some (poll_ret q)"
  using assms
  by (induction rs arbitrary: s) (auto simp: Let_def EINTR_def case_prod_unfold)

subsection \<open>Two loops that deliver the same\<close>

locale same_delivery =
  fixes ev1 :: "'e \<Rightarrow> 's \<Rightarrow> 's" and deliver1 :: "'s \<Rightarrow> effect list \<times> 's"
    and ev2 :: "'e \<Rightarrow> 't \<Rightarrow> 't" and deliver2 :: "'t \<Rightarrow> effect list \<times> 't"
    and R :: "'s \<Rightarrow> 't \<Rightarrow> bool"
  assumes ev_rel: "R s t \<Longrightarrow> R (ev1 e s) (ev2 e t)"
    and deliver_rel: "R s t \<Longrightarrow> fst (deliver1 s) = fst (deliver2 t) \<and> R (snd (deliver1 s)) (snd (deliver2 t))"
begin

lemma events_rel: "R s t \<Longrightarrow> R (fold ev1 es s) (fold ev2 es t)"
  by (induction es arbitrary: s t) (simp_all add: ev_rel)

lemma loops_rel:
  assumes "R s t"
  shows "fst (poll_loop msg rest ev1 deliver1 rs s) = fst (poll_loop msg rest ev2 deliver2 rs t)
    \<and> fst (snd (poll_loop msg rest ev1 deliver1 rs s)) = fst (snd (poll_loop msg rest ev2 deliver2 rs t))
    \<and> R (snd (snd (poll_loop msg rest ev1 deliver1 rs s))) (snd (snd (poll_loop msg rest ev2 deliver2 rs t)))"
  using assms
proof (induction rs arbitrary: s t)
  case (Cons r rs)
  have R1: "R (fold ev1 (incoming r) s) (fold ev2 (incoming r) t)" using Cons.prems by (rule events_rel)
  note d = deliver_rel [OF R1]
  from Cons.IH [OF conjunct2 [OF d]] d R1 show ?case by (simp add: case_prod_unfold Let_def)
qed simp

end

end
