(* ===== verification/Bootstrap.thy ===== *)
theory Bootstrap
  imports RingBuf MapInstances
begin

section \<open>bootstrap and bootstrap_legacy: process starts and exits\<close>

text \<open>
  \<open>examples/c/bootstrap.bpf.c\<close> remembers when a process called \<open>exec\<close>, and submits a record for every
  start and exit of a process to a ring buffer; with a minimum duration set, only for exits of
  processes that lived at least that long. \<open>bootstrap_legacy.bpf.c\<close> is the variant for old kernels:
  it fills a zeroed local struct and sends it through a perf buffer, where bootstrap writes into a
  reserved slot of the ring buffer whose old contents stay in the fields it does not set. The two
  loaders (\<open>bootstrap.c\<close>, \<open>bootstrap_legacy.c\<close>) differ only in the kind of buffer.
  The state of the kernel side is the map \<open>exec_start\<close>, the records not yet consumed, and the time of
  day that the callback prints. An event carries what the helpers return: the task, whether a slot
  could be reserved and what the slot held.
  Shown: the two variants print the same whatever the slots held; which exits are reported and with
  which duration; and what the filter means in milliseconds.
\<close>

subsection \<open>Data\<close>

record event =
  ev_pid :: u32
  ev_ppid :: u32
  ev_exit_code :: u32
  ev_duration_ns :: u64
  ev_comm :: comm
  ev_filename :: "char list"
  ev_exit_event :: bool

definition zero_event :: event where
  "zero_event = \<lparr>ev_pid = 0, ev_ppid = 0, ev_exit_code = 0, ev_duration_ns = 0, ev_comm = [], ev_filename = [],
     ev_exit_event = False\<rparr>"

definition MAX_FILENAME_LEN :: nat where
  "MAX_FILENAME_LEN = 127"

text \<open>The current task: what \<open>BPF_CORE_READ\<close> reads of it, beside the helpers; and the context of the exec
  tracepoint: the strings at its offsets.\<close>

record task = helpers +
  real_parent_tgid :: u32
  task_exit_code :: u32

record exec_ctx =
  data_loc_filename :: u32
  ctx_str :: "nat \<Rightarrow> char list"

record 'm boot_state =
  exec_start :: 'm
  rb :: "event list"
  now :: string

subsection \<open>The BPF programs\<close>

definition handle_exec ::
  "('m, u32, u64) map_ops \<Rightarrow> u64 \<Rightarrow> event option \<Rightarrow> exec_ctx \<Rightarrow> task \<Rightarrow> 'm boot_state \<Rightarrow> int \<times> 'm boot_state" where
  "handle_exec ops min_duration_ns slot ctx task s =
     (let pid = cur_pid task;
          ts = ktime_ns task;
          s1 = s\<lparr>exec_start := snd (update_elem ops (exec_start s) pid ts BPF_ANY)\<rparr>
      in if min_duration_ns \<noteq> 0 then (0, s1)
         else case slot of
                None \<Rightarrow> (0, s1)
              | Some e \<Rightarrow>
                  let fname_off = unat (data_loc_filename ctx AND 0xFFFF);
                      e' = e\<lparr>ev_exit_event := False, ev_pid := pid, ev_ppid := real_parent_tgid task,
                             ev_comm := cur_comm task, ev_filename := read_str MAX_FILENAME_LEN (ctx_str ctx fname_off)\<rparr>
                  in (0, s1\<lparr>rb := rb s1 @ [e']\<rparr>))"

definition handle_exit ::
  "('m, u32, u64) map_ops \<Rightarrow> u64 \<Rightarrow> event option \<Rightarrow> task \<Rightarrow> 'm boot_state \<Rightarrow> int \<times> 'm boot_state" where
  "handle_exit ops min_duration_ns slot task s =
     (let id = cur_pid_tgid task;
          pid = tgid_of id;
          tid = tid_of id
      in if pid \<noteq> tid then (0, s)
         else let start_ts = lookup_elem ops (exec_start s) pid in
           if start_ts = None \<and> min_duration_ns \<noteq> 0 then (0, s)
           else let duration_ns = (case start_ts of Some t \<Rightarrow> ktime_ns task - t | None \<Rightarrow> 0);
                    s1 = s\<lparr>exec_start := snd (delete_elem ops (exec_start s) pid)\<rparr>
                in if min_duration_ns \<noteq> 0 \<and> duration_ns < min_duration_ns then (0, s1)
                   else case slot of
                          None \<Rightarrow> (0, s1)
                        | Some e \<Rightarrow>
                            let e' = e\<lparr>ev_exit_event := True, ev_duration_ns := duration_ns, ev_pid := pid,
                                       ev_ppid := real_parent_tgid task,
                                       ev_exit_code := drop_bit 8 (task_exit_code task) AND 0xFF,
                                       ev_comm := cur_comm task\<rparr>
                            in (0, s1\<lparr>rb := rb s1 @ [e']\<rparr>))"

text \<open>The legacy programs: the record is a zeroed local variable; \<open>sent\<close> is whether the perf buffer took it.\<close>

definition legacy_handle_exec ::
  "('m, u32, u64) map_ops \<Rightarrow> u64 \<Rightarrow> bool \<Rightarrow> exec_ctx \<Rightarrow> task \<Rightarrow> 'm boot_state \<Rightarrow> int \<times> 'm boot_state" where
  "legacy_handle_exec ops min_duration_ns sent ctx task s =
     (let pid = cur_pid task;
          ts = ktime_ns task;
          s1 = s\<lparr>exec_start := snd (update_elem ops (exec_start s) pid ts BPF_ANY)\<rparr>
      in if min_duration_ns \<noteq> 0 then (0, s1)
         else let fname_off = unat (data_loc_filename ctx AND 0xFFFF);
                  e = zero_event\<lparr>ev_exit_event := False, ev_pid := pid, ev_ppid := real_parent_tgid task,
                        ev_comm := cur_comm task, ev_filename := read_str MAX_FILENAME_LEN (ctx_str ctx fname_off)\<rparr>
              in (0, if sent then s1\<lparr>rb := rb s1 @ [e]\<rparr> else s1))"

definition legacy_handle_exit ::
  "('m, u32, u64) map_ops \<Rightarrow> u64 \<Rightarrow> bool \<Rightarrow> task \<Rightarrow> 'm boot_state \<Rightarrow> int \<times> 'm boot_state" where
  "legacy_handle_exit ops min_duration_ns sent task s =
     (let id = cur_pid_tgid task;
          pid = tgid_of id;
          tid = tid_of id
      in if pid \<noteq> tid then (0, s)
         else let start_ts = lookup_elem ops (exec_start s) pid in
           if start_ts = None \<and> min_duration_ns \<noteq> 0 then (0, s)
           else let duration_ns = (case start_ts of Some t \<Rightarrow> ktime_ns task - t | None \<Rightarrow> 0);
                    s1 = s\<lparr>exec_start := snd (delete_elem ops (exec_start s) pid)\<rparr>
                in if min_duration_ns \<noteq> 0 \<and> duration_ns < min_duration_ns then (0, s1)
                   else let e = zero_event\<lparr>ev_exit_event := True, ev_duration_ns := duration_ns, ev_pid := pid,
                                  ev_ppid := real_parent_tgid task,
                                  ev_exit_code := drop_bit 8 (task_exit_code task) AND 0xFF,
                                  ev_comm := cur_comm task\<rparr>
                        in (0, if sent then s1\<lparr>rb := rb s1 @ [e]\<rparr> else s1))"

datatype proc_event = Exec "event option" exec_ctx task | Exit "event option" task | Clock string

definition boot_event ::
  "('m, u32, u64) map_ops \<Rightarrow> u64 \<Rightarrow> proc_event \<Rightarrow> 'm boot_state \<Rightarrow> 'm boot_state" where
  "boot_event ops min_duration_ns e s =
     (case e of
        Exec slot ctx task \<Rightarrow> snd (handle_exec ops min_duration_ns slot ctx task s)
      | Exit slot task \<Rightarrow> snd (handle_exit ops min_duration_ns slot task s)
      | Clock t \<Rightarrow> s\<lparr>now := t\<rparr>)"

definition legacy_event ::
  "('m, u32, u64) map_ops \<Rightarrow> u64 \<Rightarrow> proc_event \<Rightarrow> 'm boot_state \<Rightarrow> 'm boot_state" where
  "legacy_event ops min_duration_ns e s =
     (case e of
        Exec slot ctx task \<Rightarrow> snd (legacy_handle_exec ops min_duration_ns (slot \<noteq> None) ctx task s)
      | Exit slot task \<Rightarrow> snd (legacy_handle_exit ops min_duration_ns (slot \<noteq> None) task s)
      | Clock t \<Rightarrow> s\<lparr>now := t\<rparr>)"

subsection \<open>The command line\<close>

record boot_env =
  verbose :: bool
  min_duration_ms :: int

fun parse_arg :: "argp_key \<Rightarrow> string \<Rightarrow> boot_env \<Rightarrow> argp_result \<times> effect list \<times> boot_env" where
  "parse_arg (Opt c) arg env =
     (if c = CHR ''v'' then (Argp_ok, [], env\<lparr>verbose := True\<rparr>)
      else if c = CHR ''d'' then
        let (ms, err) = strtol10 arg; env' = env\<lparr>min_duration_ms := ms\<rparr> in
        if err \<or> ms \<le> 0 then (Argp_usage, [err_line (''Invalid duration: '' @ arg)], env') else (Argp_ok, [], env')
      else (ARGP_ERR_UNKNOWN, [], env))"
| "parse_arg ARGP_KEY_ARG arg env = (Argp_usage, [], env)"
| "parse_arg ARGP_KEY_OTHER arg env = (ARGP_ERR_UNKNOWN, [], env)"

text \<open>The parser of \<open>bootstrap_legacy.c\<close>.\<close>

fun legacy_parse_arg :: "argp_key \<Rightarrow> string \<Rightarrow> boot_env \<Rightarrow> argp_result \<times> effect list \<times> boot_env" where
  "legacy_parse_arg (Opt c) arg env =
     (if c = CHR ''v'' then (Argp_ok, [], env\<lparr>verbose := True\<rparr>)
      else if c = CHR ''d'' then
        let (ms, err) = strtol10 arg; env' = env\<lparr>min_duration_ms := ms\<rparr> in
        if err \<or> ms \<le> 0 then (Argp_usage, [err_line (''Invalid duration: '' @ arg)], env') else (Argp_ok, [], env')
      else (ARGP_ERR_UNKNOWN, [], env))"
| "legacy_parse_arg ARGP_KEY_ARG arg env = (Argp_usage, [], env)"
| "legacy_parse_arg ARGP_KEY_OTHER arg env = (ARGP_ERR_UNKNOWN, [], env)"

text \<open>\<open>env.min_duration_ms * 1000000ULL\<close>: computed in 64 bits.\<close>

definition min_ns :: "boot_env \<Rightarrow> u64" where
  "min_ns env = word_of_int (min_duration_ms env) * 1000000"

subsection \<open>The loader\<close>

definition print_int :: "u32 \<Rightarrow> string" where
  "print_int w = fmt_d (sint w)"

definition handle_event :: "string \<Rightarrow> event \<Rightarrow> effect list" where
  "handle_event ts e =
     (let front = (\<lambda>kind. pad_right 8 ts @ '' '' @ pad_right 5 kind @ '' '' @ pad_right 16 (c_str (ev_comm e)) @ '' '' @
                     pad_right 7 (print_int (ev_pid e)) @ '' '' @ pad_right 7 (print_int (ev_ppid e)) @ '' '')
      in if ev_exit_event e
         then [Stdout (front ''EXIT'' @ ''['' @ fmt_u (ev_exit_code e) @ '']'')] @
              (if ev_duration_ns e \<noteq> 0
               then [Stdout ('' ('' @ fmt_u (ev_duration_ns e div 1000000) @ ''ms)'')] else []) @
              [Stdout nl]
         else [Stdout (front ''EXEC'' @ c_str (ev_filename e) @ nl)])"

definition deliver :: "'m boot_state \<Rightarrow> effect list \<times> 'm boot_state" where
  "deliver s = (concat (map (handle_event (now s)) (rb s)), s\<lparr>rb := []\<rparr>)"

text \<open>The callback of \<open>bootstrap_legacy.c\<close> and a poll of the perf buffer.\<close>

definition legacy_handle_event :: "string \<Rightarrow> event \<Rightarrow> effect list" where
  "legacy_handle_event ts e =
     (let front = (\<lambda>kind. pad_right 8 ts @ '' '' @ pad_right 5 kind @ '' '' @ pad_right 16 (c_str (ev_comm e)) @ '' '' @
                     pad_right 7 (print_int (ev_pid e)) @ '' '' @ pad_right 7 (print_int (ev_ppid e)) @ '' '')
      in if ev_exit_event e
         then [Stdout (front ''EXIT'' @ ''['' @ fmt_u (ev_exit_code e) @ '']'')] @
              (if ev_duration_ns e \<noteq> 0
               then [Stdout ('' ('' @ fmt_u (ev_duration_ns e div 1000000) @ ''ms)'')] else []) @
              [Stdout nl]
         else [Stdout (front ''EXEC'' @ c_str (ev_filename e) @ nl)])"

definition legacy_deliver :: "'m boot_state \<Rightarrow> effect list \<times> 'm boot_state" where
  "legacy_deliver s = (concat (map (legacy_handle_event (now s)) (rb s)), s\<lparr>rb := []\<rparr>)"

record poll_env =
  args :: "(argp_key \<times> string) list"
  b_args_err :: int
  b_opened :: bool
  b_load_err :: int
  b_attach_err :: int
  b_buffer_ok :: bool
  b_sig_early :: bool
  b_rounds :: "proc_event poll_round list"

definition boot_header :: effect where
  "boot_header = Stdout (pad_right 8 ''TIME'' @ '' '' @ pad_right 5 ''EVENT'' @ '' '' @ pad_right 16 ''COMM'' @ '' '' @
     pad_right 7 ''PID'' @ '' '' @ pad_right 7 ''PPID'' @ '' FILENAME/EXIT CODE'' @ nl)"

definition poll_error :: "int \<Rightarrow> effect" where
  "poll_error err = Stdout (''Error polling perf buffer: '' @ fmt_d err @ nl)"

text \<open>\<open>return err < 0 ? -err : 0\<close>\<close>

definition exit_of :: "int \<Rightarrow> status" where
  "exit_of err = Exited (if err < 0 then - err else 0)"

definition poll_outcome :: "effect list \<Rightarrow> int option \<times> effect list \<times> 's \<Rightarrow> status \<times> effect list" where
  "poll_outcome cleanup r =
     (case fst r of
        None \<Rightarrow> (Running, [boot_header] @ fst (snd r))
      | Some err \<Rightarrow> (exit_of err, [boot_header] @ fst (snd r) @ cleanup))"

definition bootstrap_main ::
  "('m, u32, u64) map_ops \<Rightarrow> poll_env \<Rightarrow> 'm boot_state \<Rightarrow> status \<times> effect list" where
  "bootstrap_main ops penv s =
     (case argp_parse parse_arg (args penv) \<lparr>verbose = False, min_duration_ms = 0\<rparr> of
        Inl (code, out) \<Rightarrow> (Exited code, out)
      | Inr env \<Rightarrow>
          if b_args_err penv \<noteq> 0 then (Exited (b_args_err penv), [])
          else if \<not> b_opened penv then (Exited 1, [err_line ''Failed to open and load BPF skeleton''])
          else let cleanup = [Release ''buffer'', Destroy]; min_duration_ns = min_ns env in
            if b_load_err penv \<noteq> 0
            then (exit_of (b_load_err penv), [err_line ''Failed to load and verify BPF skeleton''] @ cleanup)
            else if b_attach_err penv \<noteq> 0
            then (exit_of (b_attach_err penv), [err_line ''Failed to attach BPF skeleton''] @ cleanup)
            else if \<not> b_buffer_ok penv then (exit_of (-1), [err_line ''Failed to create ring buffer''] @ cleanup)
            else if b_sig_early penv then (Exited 0, [boot_header] @ cleanup)
            else poll_outcome cleanup
              (poll_loop poll_error [] (boot_event ops min_duration_ns) deliver (b_rounds penv) s))"

definition bootstrap_legacy_main ::
  "('m, u32, u64) map_ops \<Rightarrow> poll_env \<Rightarrow> 'm boot_state \<Rightarrow> status \<times> effect list" where
  "bootstrap_legacy_main ops penv s =
     (case argp_parse legacy_parse_arg (args penv) \<lparr>verbose = False, min_duration_ms = 0\<rparr> of
        Inl (code, out) \<Rightarrow> (Exited code, out)
      | Inr env \<Rightarrow>
          if b_args_err penv \<noteq> 0 then (Exited (b_args_err penv), [])
          else if \<not> b_opened penv then (Exited 1, [err_line ''Failed to open and load BPF skeleton''])
          else let cleanup = [Release ''buffer'', Destroy]; min_duration_ns = min_ns env in
            if b_load_err penv \<noteq> 0
            then (exit_of (b_load_err penv), [err_line ''Failed to load and verify BPF skeleton''] @ cleanup)
            else if b_attach_err penv \<noteq> 0
            then (exit_of (b_attach_err penv), [err_line ''Failed to attach BPF skeleton''] @ cleanup)
            else if \<not> b_buffer_ok penv then (exit_of (-1), [err_line ''Failed to create perf event buffer''] @ cleanup)
            else if b_sig_early penv then (Exited 0, [boot_header] @ cleanup)
            else poll_outcome cleanup
              (poll_loop poll_error [] (legacy_event ops min_duration_ns) legacy_deliver (b_rounds penv) s))"

subsection \<open>The two variants\<close>

text \<open>Two records that the callback prints alike.\<close>

definition same_print :: "event \<Rightarrow> event \<Rightarrow> bool" where
  "same_print e f \<longleftrightarrow> (\<forall>ts. handle_event ts e = handle_event ts f)"

definition boot_rel :: "'m boot_state \<Rightarrow> 'm boot_state \<Rightarrow> bool" where
  "boot_rel s t \<longleftrightarrow> exec_start s = exec_start t \<and> now s = now t \<and> list_all2 same_print (rb s) (rb t)"

lemma same_print_exec:
  "same_print (e\<lparr>ev_exit_event := False, ev_pid := p, ev_ppid := q, ev_comm := c, ev_filename := f\<rparr>)
     (e'\<lparr>ev_exit_event := False, ev_pid := p, ev_ppid := q, ev_comm := c, ev_filename := f\<rparr>)"
  by (simp add: same_print_def handle_event_def)

lemma same_print_exit:
  "same_print (e\<lparr>ev_exit_event := True, ev_duration_ns := d, ev_pid := p, ev_ppid := q, ev_exit_code := x, ev_comm := c\<rparr>)
     (e'\<lparr>ev_exit_event := True, ev_duration_ns := d, ev_pid := p, ev_ppid := q, ev_exit_code := x, ev_comm := c\<rparr>)"
  by (simp add: same_print_def handle_event_def Let_def)

lemma deliver_same: "list_all2 same_print es fs \<Longrightarrow> map (handle_event ts) es = map (handle_event ts) fs"
  by (induction rule: list_all2_induct) (simp_all add: same_print_def)

lemma exec_rel:
  assumes "boot_rel s t"
  shows "boot_rel (snd (handle_exec ops m slot ctx task s)) (snd (legacy_handle_exec ops m (slot \<noteq> None) ctx task t))"
  using assms same_print_exec
  by (cases slot) (auto simp: boot_rel_def handle_exec_def legacy_handle_exec_def Let_def intro: list_all2_appendI)

lemma exit_rel:
  assumes "boot_rel s t"
  shows "boot_rel (snd (handle_exit ops m slot task s)) (snd (legacy_handle_exit ops m (slot \<noteq> None) task t))"
  using assms same_print_exit
  by (cases slot) (auto simp: boot_rel_def handle_exit_def legacy_handle_exit_def Let_def intro: list_all2_appendI)

lemma legacy_callback: "legacy_handle_event = handle_event"
  by (intro ext) (simp add: legacy_handle_event_def handle_event_def)

lemma legacy_parser: "legacy_parse_arg = parse_arg"
  proof (intro ext)
  show "legacy_parse_arg k arg env = parse_arg k arg env" for k arg env by (cases k) simp_all
qed

interpretation boot: same_delivery "boot_event ops m" deliver "legacy_event ops m" legacy_deliver boot_rel
proof (unfold_locales, goal_cases)
  case (1 s t e)
  then show ?case
    by (cases e) (simp_all add: boot_event_def legacy_event_def exec_rel exit_rel del: not_None_eq, simp add: boot_rel_def)
next
  case (2 s t)
  then have "map (handle_event (now t)) (rb s) = map (handle_event (now t)) (rb t)"
    by (simp add: boot_rel_def deliver_same)
  with 2 show ?case by (simp add: deliver_def legacy_deliver_def legacy_callback boot_rel_def)
qed

lemma boot_main_same:
  "b_buffer_ok penv \<Longrightarrow> bootstrap_main ops penv s = bootstrap_legacy_main ops penv s"
proof -
  have "list_all2 same_print es es" for es by (simp add: list_all2_refl same_print_def)
  then have "boot_rel s s" by (simp add: boot_rel_def)
  note same = boot.loops_rel [OF this, of poll_error "[]" ops _ "b_rounds penv"]
  have out: "poll_outcome c (poll_loop poll_error [] (boot_event ops m) deliver (b_rounds penv) s) =
      poll_outcome c (poll_loop poll_error [] (legacy_event ops m) legacy_deliver (b_rounds penv) s)" for c m
    unfolding poll_outcome_def using same [of m] by (simp split: option.split)
  assume "b_buffer_ok penv"
  then show ?thesis
    unfolding bootstrap_main_def bootstrap_legacy_main_def legacy_parser
    by (cases "argp_parse parse_arg (args penv) \<lparr>verbose = False, min_duration_ms = 0\<rparr>")
      (simp_all add: Let_def out)
qed

subsection \<open>Which exits are reported\<close>

text \<open>The specification: when the process last called exec, if it has not exited since.\<close>

definition is_main :: "task \<Rightarrow> bool" where
  "is_main t \<longleftrightarrow> tgid_of (cur_pid_tgid t) = tid_of (cur_pid_tgid t)"

fun track :: "proc_event \<Rightarrow> (u32 \<Rightarrow> u64 option) \<Rightarrow> u32 \<Rightarrow> u64 option" where
  "track (Exec slot ctx t) m = m(cur_pid t \<mapsto> ktime_ns t)"
| "track (Exit slot t) m = (if is_main t then m(cur_pid t := None) else m)"
| "track (Clock c) m = m"

fun exec_in :: "u32 set \<Rightarrow> proc_event \<Rightarrow> bool" where
  "exec_in K (Exec slot ctx t) = (cur_pid t \<in> K)"
| "exec_in K _ = True"

definition lifetime :: "u64 option \<Rightarrow> task \<Rightarrow> u64" where
  "lifetime start t = (case start of Some t0 \<Rightarrow> ktime_ns t - t0 | None \<Rightarrow> 0)"

definition exit_reported :: "u64 \<Rightarrow> u64 option \<Rightarrow> task \<Rightarrow> bool" where
  "exit_reported m start t \<longleftrightarrow> is_main t \<and> (m \<noteq> 0 \<longrightarrow> start \<noteq> None \<and> m \<le> lifetime start t)"

locale boot_tool = bpf_hash ops keys cap
  for ops :: "('m, u32, u64) map_ops" and keys :: "'m \<Rightarrow> u32 list" and cap
begin

lemma track_event:
  assumes "fits keys cap K (exec_start s)" and "exec_in K e"
  shows "lookup_elem ops (exec_start (boot_event ops m e s)) = track e (lookup_elem ops (exec_start s))
    \<and> fits keys cap K (exec_start (boot_event ops m e s))"
proof (cases e)
  case (Exec slot ctx t)
  then have "exec_start (boot_event ops m e s) = snd (update_elem ops (exec_start s) (cur_pid t) (ktime_ns t) BPF_ANY)"
    by (simp add: boot_event_def handle_exec_def Let_def split: option.split)
  then show ?thesis using assms Exec by (simp add: lookup_update_fits fits_update)
next
  case (Exit slot t)
  let ?l = "lookup_elem ops (exec_start s)"
  have "exec_start (boot_event ops m e s) =
      (if is_main t \<and> (?l (cur_pid t) \<noteq> None \<or> m = 0) then snd (delete_elem ops (exec_start s) (cur_pid t)) else exec_start s)"
    using Exit by (auto simp: boot_event_def handle_exit_def is_main_def cur_pid_def Let_def split: option.split)
  moreover have "?l(cur_pid t := None) = ?l" if "?l (cur_pid t) = None" using that by auto
  ultimately show ?thesis using assms(1) Exit by (auto simp: lookup_delete_any fits_delete)
next
  case (Clock c)
  then show ?thesis using assms by (simp add: boot_event_def)
qed

lemma track_run:
  assumes "fits keys cap K (exec_start s)" and "\<forall>e \<in> set es. exec_in K e"
  shows "lookup_elem ops (exec_start (fold (boot_event ops m) es s)) = fold track es (lookup_elem ops (exec_start s))"
  using assms
proof (induction es arbitrary: s)
  case (Cons e es)
  from track_event [OF Cons.prems(1), of e m] Cons show ?case by simp
qed simp

lemma exit_output:
  "rb (snd (handle_exit ops m (Some slot) t s)) = rb s @
    (if exit_reported m (lookup_elem ops (exec_start s) (cur_pid t)) t
     then [slot\<lparr>ev_exit_event := True, ev_duration_ns := lifetime (lookup_elem ops (exec_start s) (cur_pid t)) t,
             ev_pid := cur_pid t, ev_ppid := real_parent_tgid t,
             ev_exit_code := drop_bit 8 (task_exit_code t) AND 0xFF, ev_comm := cur_comm t\<rparr>]
     else [])"
  by (auto simp: handle_exit_def exit_reported_def lifetime_def is_main_def cur_pid_def Let_def split: option.split)

end

interpretation bt_hash: boot_tool "hash_ops r" hm_keys hcap
  by unfold_locales

subsection \<open>Properties\<close>


definition boot_task :: "u32 \<Rightarrow> u64 \<Rightarrow> u32 \<Rightarrow> task" where
  "boot_task pid ts code = \<lparr>cur_pid_tgid = mk_pid_tgid pid pid, cur_comm = ''sh'', ktime_ns = ts, smp_cpu = 0,
     real_parent_tgid = 1, task_exit_code = code\<rparr>"

definition stale_slot :: event where
  "stale_slot = zero_event\<lparr>ev_exit_code := 77, ev_duration_ns := 5, ev_filename := ''old''\<rparr>"

definition boot_demo :: "proc_event list" where
  "boot_demo = [Exec (Some stale_slot) \<lparr>data_loc_filename = 8, ctx_str = (\<lambda>_. ''/bin/sh'')\<rparr> (boot_task 40 1000000 0)]"

definition boot_penv :: poll_env where
  "boot_penv = \<lparr>args = [(Opt CHR ''v'', [])], b_args_err = 0, b_opened = True, b_load_err = 0, b_attach_err = 0, b_buffer_ok = True,
     b_sig_early = False, b_rounds = [\<lparr>incoming = boot_demo, poll_ret = 1, sig_seen = True\<rparr>]\<rparr>"

definition boot_init :: "(u32, u64) hmap boot_state" where
  "boot_init = \<lparr>exec_start = empty_hash 8192, rb = [], now = ''12:00:00''\<rparr>"


text \<open>C27: after any sequence of starts and exits of processes that fit the map, the exit of a process for
  which a slot can be reserved submits exactly one record, with the time since the last \<open>exec\<close> of the
  process (0 if none was seen), if it is the exit of the whole process and either no minimum is set or
  the start was seen and that time reaches the minimum; otherwise it submits nothing.\<close>

theorem bootstrap_exit_reported:
  assumes "bpf_hash ops keys cap" and "fits keys cap K (exec_start s)" and "\<forall>e \<in> set es. exec_in K e"
    and "st = fold (boot_event ops m) es s"
    and "start = fold track es (lookup_elem ops (exec_start s)) (cur_pid t)"
  shows "rb (boot_event ops m (Exit (Some slot) t) st) = rb st @
    (if exit_reported m start t
     then [slot\<lparr>ev_exit_event := True, ev_duration_ns := lifetime start t, ev_pid := cur_pid t, ev_ppid := real_parent_tgid t,
             ev_exit_code := drop_bit 8 (task_exit_code t) AND 0xFF, ev_comm := cur_comm t\<rparr>]
     else [])"
proof -
  have tool: "boot_tool ops keys cap" using assms(1) by (rule boot_tool.intro)
  have "start = lookup_elem ops (exec_start st) (cur_pid t)"
    by (simp add: assms(4,5) boot_tool.track_run [OF tool assms(2,3)])
  then show ?thesis by (simp add: boot_event_def boot_tool.exit_output [OF tool])
qed

theorem bootstrap_exit_reported_witness:
  "length (rb (boot_event (hash_ops False) 2000000 (Exit (Some stale_slot) (boot_task 40 3500000 256))
     (fold (boot_event (hash_ops False) 2000000) boot_demo boot_init))) = 1"
  using bootstrap_exit_reported [OF hm.bpf_hash_axioms, of "{40}" boot_init boot_demo _ False 2000000 _ "boot_task 40 3500000 256" stale_slot]
  by (simp add: boot_init_def boot_demo_def boot_task_def fits_def exit_reported_def lifetime_def is_main_def cur_pid_def
      boot_event_def handle_exec_def Let_def)

text \<open>As long as the requested milliseconds do not overflow 64 bits of nanoseconds, the filter of
  bootstrap keeps exactly the processes whose lifetime, in the whole milliseconds the loader prints, is
  at least what \<open>-d\<close> asked for.\<close>

theorem bootstrap_filter_in_ms:
  assumes "0 < min_duration_ms env" and "min_duration_ms env * 1000000 < 2 ^ 64" and "is_main t"
  shows "exit_reported (min_ns env) (Some t0) t \<longleftrightarrow>
    min_duration_ms env \<le> int (unat (lifetime (Some t0) t div 1000000))"
proof -
  obtain n where n: "min_duration_ms env = int n" using assms(1) by (metis less_le nonneg_int_cases)
  let ?d = "unat (lifetime (Some t0) t)"
  have lim: "n * 1000000 < 2 ^ 64" using assms(2) by (simp add: n)
  have "min_ns env = of_nat (n * 1000000)" by (simp add: min_ns_def n)
  then have m: "unat (min_ns env) = n * 1000000" using lim by (simp only: unat_of_nat) (simp add: take_bit_nat_eq_self)
  have "min_ns env \<noteq> 0" using m assms(1) n by auto
  then have "exit_reported (min_ns env) (Some t0) t \<longleftrightarrow> n * 1000000 \<le> ?d"
    using assms(3) m by (simp add: exit_reported_def word_le_nat_alt)
  also have "\<dots> \<longleftrightarrow> n \<le> ?d div 1000000" by (simp add: less_eq_div_iff_mult_less_eq)
  finally show ?thesis by (simp add: n unat_div)
qed

theorem bootstrap_filter_in_ms_witness:
  "exit_reported (min_ns \<lparr>verbose = False, min_duration_ms = 2\<rparr>) (Some 1000000) (boot_task 40 3500000 0) \<longleftrightarrow>
     2 \<le> int (unat (lifetime (Some 1000000) (boot_task 40 3500000 0) div 1000000))"
  using bootstrap_filter_in_ms [of "\<lparr>verbose = False, min_duration_ms = 2\<rparr>" "boot_task 40 3500000 0" 1000000]
  by (simp add: is_main_def boot_task_def)

text \<open>A duration of \<open>2 ^ 58\<close> milliseconds is accepted by the parser, but the multiplication wraps around to 0
  nanoseconds: the program then runs with no minimum at all.\<close>

theorem bootstrap_duration_wraps:
  "argp_parse parse_arg [(Opt CHR ''d'', ''288230376151711744'')] \<lparr>verbose = False, min_duration_ms = 0\<rparr> =
     Inr \<lparr>verbose = False, min_duration_ms = 2 ^ 58\<rparr>
   \<and> min_ns \<lparr>verbose = False, min_duration_ms = 2 ^ 58\<rparr> = 0"
proof
  have "strtol10 ''288230376151711744'' = (2 ^ 58, False)"
    by (simp add: strtol10_def is_space_def is_digit_def read_nat_def digit_val_def LONG_MAX_def Let_def)
  then show "argp_parse parse_arg [(Opt CHR ''d'', ''288230376151711744'')] \<lparr>verbose = False, min_duration_ms = 0\<rparr> =
     Inr \<lparr>verbose = False, min_duration_ms = 2 ^ 58\<rparr>" by simp
  show "min_ns \<lparr>verbose = False, min_duration_ms = 2 ^ 58\<rparr> = 0" by (simp add: min_ns_def)
qed

end
