(* ===== verification/Sockfilter.thy ===== *)
theory Sockfilter
  imports RingBuf
begin

section \<open>sockfilter: IPv4 packets of an interface\<close>

text \<open>
  \<open>examples/c/sockfilter.bpf.c\<close> is a socket filter that reads the IPv4 header of every frame that is not a
  fragment and submits addresses, ports and protocol to a ring buffer; \<open>examples/c/sockfilter.c\<close> prints
  them. Bytes are kept in memory order and the machine is little endian: a value loaded from the
  packet into an integer variable has its first byte lowest, and \<open>ntohs\<close> and \<open>ntohl\<close> reverse the bytes.
  \<open>bpf_skb_load_bytes\<close> fills the destination with zeros when the packet is too short.
  Shown: parsing a frame built from its header fields and printing the record gives these fields back,
  and the address text always fits its 16-byte buffer; a slot of the ring buffer with old contents
  makes the loader drop the record, since only one byte of the protocol field is written; and the exit
  code of the loader is the negated number of records of the last poll.
\<close>

subsection \<open>Bytes and integers\<close>

definition le16 :: "u8 list \<Rightarrow> u16" where
  "le16 bs = ucast (bs ! 0) OR push_bit 8 (ucast (bs ! 1))"

definition le32 :: "u8 list \<Rightarrow> u32" where
  "le32 bs = ucast (bs ! 0) OR push_bit 8 (ucast (bs ! 1)) OR push_bit 16 (ucast (bs ! 2)) OR push_bit 24 (ucast (bs ! 3))"

definition byte_of :: "nat \<Rightarrow> 'a::len word \<Rightarrow> u8" where
  "byte_of i w = ucast (drop_bit (8 * i) w)"

definition ntohs :: "u16 \<Rightarrow> u16" where
  "ntohs w = le16 [byte_of 1 w, byte_of 0 w]"

definition ntohl :: "u32 \<Rightarrow> u32" where
  "ntohl w = le32 [byte_of 3 w, byte_of 2 w, byte_of 1 w, byte_of 0 w]"

lemma byte_of_le16:
  "byte_of 0 (le16 [a, b]) = a" "byte_of (Suc 0) (le16 [a, b]) = b"
  by (rule bit_word_eqI; auto simp: byte_of_def le16_def bit_simps dest: bit_imp_le_length)+

lemma byte_of_le32:
  "byte_of 0 (le32 [a, b, c, d]) = a" "byte_of (Suc 0) (le32 [a, b, c, d]) = b"
  "byte_of 2 (le32 [a, b, c, d]) = c" "byte_of 3 (le32 [a, b, c, d]) = d"
  by (rule bit_word_eqI; auto simp: byte_of_def le32_def bit_simps dest: bit_imp_le_length)+

lemma ntohs_le16: "ntohs (le16 [a, b]) = le16 [b, a]"
  by (simp add: ntohs_def byte_of_le16)

lemma ntohl_le32: "ntohl (le32 [a, b, c, d]) = le32 [d, c, b, a]"
  by (simp add: ntohl_def byte_of_le32)

text \<open>The value of two bytes in network order.\<close>

lemma unat_be16: "unat (le16 [b, a]) = 256 * unat a + unat b"
proof -
  have "le16 [b, a] = ucast b + push_bit 8 (ucast a)"
    unfolding le16_def nth_Cons_0 nth_Cons_Suc One_nat_def
    by (rule disjunctive_add_eq_or [symmetric]) (rule bit_word_eqI; auto simp: bit_simps dest: bit_imp_le_length)
  also have "\<dots> = of_nat (unat b + 256 * unat a)"
    by (simp add: push_bit_eq_mult)
  finally have "le16 [b, a] = of_nat (unat b + 256 * unat a)" .
  moreover have "unat b + 256 * unat a < 2 ^ 16" using unsigned_less [of a, where ?'a = nat] unsigned_less [of b, where ?'a = nat] by simp
  ultimately show ?thesis by (simp only: unat_of_nat) (simp add: take_bit_nat_eq_self)
qed

subsection \<open>The filter\<close>

record so_event =
  src_addr :: u32
  dst_addr :: u32
  ports :: u32
  ip_proto :: u32
  pkt_type :: u32
  ifindex :: u32

record skb =
  skb_bytes :: "u8 list"
  skb_pkt_type :: u32
  skb_ifindex :: u32
  skb_len :: u32

definition bpf_skb_load_bytes :: "skb \<Rightarrow> nat \<Rightarrow> nat \<Rightarrow> u8 list" where
  "bpf_skb_load_bytes skb off n =
     (if off + n \<le> length (skb_bytes skb) then take n (drop off (skb_bytes skb)) else replicate n 0)"

definition ETH_HLEN :: nat where "ETH_HLEN = 14"
definition ETH_P_IP :: u16 where "ETH_P_IP = 0x0800"
definition IP_MF :: u16 where "IP_MF = 0x2000"
definition IP_OFFSET :: u16 where "IP_OFFSET = 0x1FFF"
definition IPPROTO_GRE :: u32 where "IPPROTO_GRE = 47"

definition ip_is_fragment :: "skb \<Rightarrow> nat \<Rightarrow> bool" where
  "ip_is_fragment skb nhoff =
     (let frag_off = ntohs (le16 (bpf_skb_load_bytes skb (nhoff + 6) 2))
      in frag_off AND (IP_MF OR IP_OFFSET) \<noteq> 0)"

text \<open>\<open>bpf_skb_load_bytes(skb, off, &e->ip_proto, 1)\<close>: one byte of a four-byte field.\<close>

definition store_byte :: "u32 \<Rightarrow> u8 \<Rightarrow> u32" where
  "store_byte old b = (old AND NOT 0xFF) OR ucast b"

text \<open>\<open>slot\<close> is what \<open>bpf_ringbuf_reserve\<close> returned: nothing, or a slot with its old contents. The result is the
  return value and the submitted record.\<close>

definition socket_handler :: "so_event option \<Rightarrow> skb \<Rightarrow> u32 \<times> so_event list" where
  "socket_handler slot skb =
     (let nhoff = ETH_HLEN;
          proto = ntohs (le16 (bpf_skb_load_bytes skb 12 2))
      in if proto \<noteq> ETH_P_IP then (0, [])
         else if ip_is_fragment skb nhoff then (0, [])
         else case slot of
                None \<Rightarrow> (0, [])
              | Some e \<Rightarrow>
                  let e1 = e\<lparr>ip_proto := store_byte (ip_proto e) (hd (bpf_skb_load_bytes skb (nhoff + 9) 1))\<rparr>;
                      e2 = (if ip_proto e1 \<noteq> IPPROTO_GRE
                            then e1\<lparr>src_addr := le32 (bpf_skb_load_bytes skb (nhoff + 12) 4),
                                    dst_addr := le32 (bpf_skb_load_bytes skb (nhoff + 16) 4)\<rparr>
                            else e1);
                      verlen = hd (bpf_skb_load_bytes skb nhoff 1);
                      off = nhoff + 4 * unat (verlen AND 0xF);
                      e3 = e2\<lparr>ports := le32 (bpf_skb_load_bytes skb off 4), pkt_type := skb_pkt_type skb,
                              ifindex := skb_ifindex skb\<rparr>
                  in (skb_len skb, [e3]))"

subsection \<open>The loader\<close>

definition ipproto_mapping :: "(nat \<times> string) list" where
  "ipproto_mapping =
     [(0, ''IP''), (1, ''ICMP''), (2, ''IGMP''), (4, ''IPIP''), (6, ''TCP''), (8, ''EGP''), (12, ''PUP''), (17, ''UDP''),
      (22, ''IDP''), (29, ''TP''), (33, ''DCCP''), (41, ''IPV6''), (46, ''RSVP''), (47, ''GRE''), (50, ''ESP''), (51, ''AH''),
      (92, ''MTP''), (94, ''BEETPH''), (98, ''ENCAP''), (103, ''PIM''), (108, ''COMP''), (132, ''SCTP''), (136, ''UDPLITE''),
      (137, ''MPLS''), (255, ''RAW'')]"

text \<open>\<open>%s\<close> of an array entry; the entries without a name are NULL, which glibc prints as \<open>(null)\<close>.\<close>

definition proto_text :: "u32 \<Rightarrow> string" where
  "proto_text p = (case map_of ipproto_mapping (unat p) of Some n \<Rightarrow> n | None \<Rightarrow> ''(null)'')"

text \<open>\<open>snprintf(dst, 16, "%u.%u.%u.%u", ...)\<close>: at most 15 characters.\<close>

definition ltoa :: "u32 \<Rightarrow> string" where
  "ltoa addr = take 15
     (fmt_u (drop_bit 24 addr AND 0xFF) @ ''.'' @ fmt_u (drop_bit 16 addr AND 0xFF) @ ''.'' @
      fmt_u (drop_bit 8 addr AND 0xFF) @ ''.'' @ fmt_u (addr AND 0xFF))"

definition port16_0 :: "so_event \<Rightarrow> u16" where
  "port16_0 e = le16 [byte_of 0 (ports e), byte_of 1 (ports e)]"

definition port16_1 :: "so_event \<Rightarrow> u16" where
  "port16_1 e = le16 [byte_of 2 (ports e), byte_of 3 (ports e)]"

text \<open>\<open>IPPROTO_MAX\<close> depends on the version of the system's headers; \<open>if_indextoname\<close> asks the kernel.\<close>

definition so_handle_event :: "u32 \<Rightarrow> (u32 \<Rightarrow> string option) \<Rightarrow> so_event \<Rightarrow> effect list" where
  "so_handle_event IPPROTO_MAX if_indextoname e =
     (if pkt_type e \<noteq> 0 then []
      else if ip_proto e \<ge> IPPROTO_MAX then []
      else case if_indextoname (ifindex e) of
             None \<Rightarrow> []
           | Some ifname \<Rightarrow>
               let sstr = ltoa (ntohl (src_addr e)); dstr = ltoa (ntohl (dst_addr e)); tab = [CHR 0x09] in
               [Stdout (''interface: '' @ ifname @ tab @ ''protocol: '' @ proto_text (ip_proto e) @ tab @
                  sstr @ '':'' @ fmt_u (ntohs (port16_0 e)) @ ''(src) -> '' @
                  dstr @ '':'' @ fmt_u (ntohs (port16_1 e)) @ ''(dst)'' @ nl)])"

record so_env =
  so_args :: "(argp_key \<times> string) list"
  so_args_err :: int
  so_opened :: bool
  so_buffer_ok :: bool
  so_socket_ok :: bool
  so_bind_ok :: bool
  so_strerror :: string
  so_setsockopt_ok :: bool
  so_sig_early :: bool
  so_rounds :: "(so_event option \<times> skb) poll_round list"

text \<open>\<open>open_raw_sock\<close>: the descriptor or -1, and what it printed and closed.\<close>

definition open_raw_sock :: "string \<Rightarrow> so_env \<Rightarrow> bool \<times> effect list" where
  "open_raw_sock name env =
     (if \<not> so_socket_ok env then (False, [err_line ''Failed to create raw socket''])
      else if \<not> so_bind_ok env then (False, [err_line (''Failed to bind to '' @ name @ '': '' @ so_strerror env), Release ''sock''])
      else (True, []))"

definition so_event_step :: "so_event option \<times> skb \<Rightarrow> so_event list \<Rightarrow> so_event list" where
  "so_event_step ev rb = rb @ snd (socket_handler (fst ev) (snd ev))"

definition so_deliver :: "u32 \<Rightarrow> (u32 \<Rightarrow> string option) \<Rightarrow> so_event list \<Rightarrow> effect list \<times> so_event list" where
  "so_deliver mx ifn rb = (concat (map (so_handle_event mx ifn) rb), [])"

definition so_poll_error :: "int \<Rightarrow> effect" where
  "so_poll_error err = err_line (''Error polling perf buffer: '' @ fmt_d err)"

fun so_parse_arg :: "argp_key \<Rightarrow> string \<Rightarrow> string \<Rightarrow> argp_result \<times> effect list \<times> string" where
  "so_parse_arg (Opt c) arg interface =
     (if c = CHR ''i'' then (Argp_ok, [], arg) else (ARGP_ERR_UNKNOWN, [], interface))"
| "so_parse_arg ARGP_KEY_ARG arg interface = (Argp_usage, [], interface)"
| "so_parse_arg ARGP_KEY_OTHER arg interface = (ARGP_ERR_UNKNOWN, [], interface)"

definition sockfilter_main :: "u32 \<Rightarrow> (u32 \<Rightarrow> string option) \<Rightarrow> so_env \<Rightarrow> status \<times> effect list" where
  "sockfilter_main mx ifn env =
     (case argp_parse so_parse_arg (so_args env) ''lo'' of
        Inl (code, out) \<Rightarrow> (Exited code, out)
      | Inr interface \<Rightarrow>
          let cleanup = [Release ''rb'', Destroy]; sock = open_raw_sock interface env in
          if so_args_err env \<noteq> 0 then (Exited (- so_args_err env), [])
          else if \<not> so_opened env then (Exited 1, [err_line ''Failed to open and load BPF skeleton''])
          else if \<not> so_buffer_ok env then (Exited 1, [err_line ''Failed to create ring buffer''] @ cleanup)
          else if \<not> fst sock then (Exited 2, snd sock @ [err_line ''Failed to open raw socket''] @ cleanup)
          else if \<not> so_setsockopt_ok env then (Exited 3, [err_line ''Failed to attach to raw socket''] @ cleanup)
          else if so_sig_early env then (Exited 0, cleanup)
          else let r = poll_loop so_poll_error [Sleep 1] so_event_step (so_deliver mx ifn) (so_rounds env) [] in
               case fst r of
                 None \<Rightarrow> (Running, fst (snd r))
               | Some err \<Rightarrow> (Exited (- err), fst (snd r) @ cleanup))"

subsection \<open>Printing an address\<close>

lemma octets:
  "drop_bit 24 (le32 [d, c, b, a]) AND 0xFF = (ucast a :: u32)" "drop_bit 16 (le32 [d, c, b, a]) AND 0xFF = (ucast b :: u32)"
  "drop_bit 8 (le32 [d, c, b, a]) AND 0xFF = (ucast c :: u32)" "le32 [d, c, b, a] AND 0xFF = (ucast d :: u32)"
proof -
  have m: "(0xFF :: u32) = mask 8" by (simp add: mask_eq_exp_minus_1)
  show "drop_bit 24 (le32 [d, c, b, a]) AND 0xFF = (ucast a :: u32)" "drop_bit 16 (le32 [d, c, b, a]) AND 0xFF = (ucast b :: u32)"
    "drop_bit 8 (le32 [d, c, b, a]) AND 0xFF = (ucast c :: u32)" "le32 [d, c, b, a] AND 0xFF = (ucast d :: u32)"
    unfolding m by (rule bit_word_eqI; auto simp: le32_def bit_simps dest: bit_imp_le_length)+
qed

lemma fmt_u_ucast: "fmt_u (ucast (b :: u8) :: u32) = fmt_u b"
  by (simp add: fmt_u_def unsigned_ucast_eq take_bit_nat_eq_self order_less_le_trans [OF unsigned_less])

lemma fmt_byte_length: "length (fmt_u (b :: u8)) \<le> 3"
proof -
  have "unat b < 256" using unsigned_less [of b, where ?'a = nat] by simp
  then show ?thesis unfolding fmt_u_def
    by (subst fmt_nat.simps, subst fmt_nat.simps, subst fmt_nat.simps) auto
qed

text \<open>Dotted decimals: never cut off by the 16-byte buffer.\<close>

definition dotted :: "u8 list \<Rightarrow> string" where
  "dotted bs = fmt_u (bs ! 0) @ ''.'' @ fmt_u (bs ! 1) @ ''.'' @ fmt_u (bs ! 2) @ ''.'' @ fmt_u (bs ! 3)"

lemma ltoa_dotted: "ltoa (ntohl (le32 [a, b, c, d])) = dotted [a, b, c, d]"
  using fmt_byte_length [of a] fmt_byte_length [of b] fmt_byte_length [of c] fmt_byte_length [of d]
  by (simp add: ltoa_def ntohl_le32 octets fmt_u_ucast dotted_def)

subsection \<open>Frames\<close>

text \<open>The specification of what the filter parses: an Ethernet frame with an IPv4 packet in it, from its fields.\<close>

record ip_frame =
  f_macs :: "u8 list"
  f_len_id :: "u8 list"
  f_frag :: "u8 list"
  f_ttl :: u8
  f_proto :: u8
  f_check :: "u8 list"
  f_src :: "u8 list"
  f_dst :: "u8 list"
  f_opts :: "u8 list"
  f_sport :: "u8 list"
  f_dport :: "u8 list"
  f_payload :: "u8 list"

definition f_verlen :: "ip_frame \<Rightarrow> u8" where
  "f_verlen f = 0x40 OR of_nat (5 + length (f_opts f) div 4)"

definition frame_bytes :: "ip_frame \<Rightarrow> u8 list" where
  "frame_bytes f = f_macs f @ [8, 0] @ [f_verlen f] @ f_len_id f @ f_frag f @ [f_ttl f] @ [f_proto f] @ f_check f @
     f_src f @ f_dst f @ f_opts f @ (f_sport f @ f_dport f) @ f_payload f"

definition well_formed :: "ip_frame \<Rightarrow> bool" where
  "well_formed f \<longleftrightarrow> length (f_macs f) = 12 \<and> length (f_len_id f) = 5 \<and> length (f_frag f) = 2 \<and> length (f_check f) = 2 \<and>
     length (f_src f) = 4 \<and> length (f_dst f) = 4 \<and> length (f_opts f) mod 4 = 0 \<and> length (f_opts f) \<le> 40 \<and>
     length (f_sport f) = 2 \<and> length (f_dport f) = 2"

definition unfragmented :: "ip_frame \<Rightarrow> bool" where
  "unfragmented f \<longleftrightarrow> le16 [f_frag f ! 1, f_frag f ! 0] AND 0x3FFF = 0"

definition be16 :: "u8 list \<Rightarrow> nat" where
  "be16 bs = 256 * unat (bs ! 0) + unat (bs ! 1)"

lemma load_at:
  assumes "skb_bytes skb = pre @ x @ post" and "length pre = off" and "length x = n"
  shows "bpf_skb_load_bytes skb off n = x"
  using assms by (simp add: bpf_skb_load_bytes_def)

lemma list2E: assumes "length xs = 2" obtains a b where "xs = [a, b]"
  using assms by (auto simp: length_Suc_conv numeral_eq_Suc)

lemma list4E: assumes "length xs = 4" obtains a b c d where "xs = [a, b, c, d]"
  using assms by (auto simp: length_Suc_conv numeral_eq_Suc)

lemma verlen_words:
  assumes "well_formed f"
  shows "4 * unat (f_verlen f AND 0xF) = 20 + length (f_opts f)"
proof -
  define k where "k = 5 + length (f_opts f) div 4"
  have k: "k < 16" using assms unfolding k_def well_formed_def by linarith
  have "k \<in> set [0..<16]" using k by simp
  then have "unat (((0x40 :: u8) OR of_nat k) AND 0xF) = k" by (auto simp: upt_rec)
  moreover have "4 * k = 20 + length (f_opts f)" using assms by (auto simp: k_def well_formed_def)
  ultimately show ?thesis by (simp add: f_verlen_def k_def)
qed

lemma frame_loads:
  assumes "well_formed f" and "skb_bytes skb = frame_bytes f"
  shows "bpf_skb_load_bytes skb 12 2 = [8, 0]" "bpf_skb_load_bytes skb 14 (Suc 0) = [f_verlen f]"
    "bpf_skb_load_bytes skb 20 2 = f_frag f" "bpf_skb_load_bytes skb 23 (Suc 0) = [f_proto f]"
    "bpf_skb_load_bytes skb 26 4 = f_src f" "bpf_skb_load_bytes skb 30 4 = f_dst f"
    "bpf_skb_load_bytes skb (34 + length (f_opts f)) 4 = f_sport f @ f_dport f"
proof -
  note wf = assms(1) [unfolded well_formed_def]
  show "bpf_skb_load_bytes skb 12 2 = [8, 0]"
    by (rule load_at [where pre = "f_macs f"]) (use wf in \<open>simp_all add: assms(2) frame_bytes_def\<close>)
  show "bpf_skb_load_bytes skb 14 (Suc 0) = [f_verlen f]"
    by (rule load_at [where pre = "f_macs f @ [8, 0]"]) (use wf in \<open>simp_all add: assms(2) frame_bytes_def\<close>)
  show "bpf_skb_load_bytes skb 20 2 = f_frag f"
    by (rule load_at [where pre = "f_macs f @ [8, 0] @ [f_verlen f] @ f_len_id f"])
      (use wf in \<open>simp_all add: assms(2) frame_bytes_def\<close>)
  show "bpf_skb_load_bytes skb 23 (Suc 0) = [f_proto f]"
    by (rule load_at [where pre = "f_macs f @ [8, 0] @ [f_verlen f] @ f_len_id f @ f_frag f @ [f_ttl f]"])
      (use wf in \<open>simp_all add: assms(2) frame_bytes_def\<close>)
  show "bpf_skb_load_bytes skb 26 4 = f_src f"
    by (rule load_at [where pre = "f_macs f @ [8, 0] @ [f_verlen f] @ f_len_id f @ f_frag f @ [f_ttl f] @ [f_proto f] @ f_check f"])
      (use wf in \<open>simp_all add: assms(2) frame_bytes_def\<close>)
  show "bpf_skb_load_bytes skb 30 4 = f_dst f"
    by (rule load_at [where pre = "f_macs f @ [8, 0] @ [f_verlen f] @ f_len_id f @ f_frag f @ [f_ttl f] @ [f_proto f] @ f_check f @
          f_src f"]) (use wf in \<open>simp_all add: assms(2) frame_bytes_def\<close>)
  show "bpf_skb_load_bytes skb (34 + length (f_opts f)) 4 = f_sport f @ f_dport f"
    by (rule load_at [where pre = "f_macs f @ [8, 0] @ [f_verlen f] @ f_len_id f @ f_frag f @ [f_ttl f] @ [f_proto f] @ f_check f @
          f_src f @ f_dst f @ f_opts f" and post = "f_payload f"]) (use wf in \<open>simp_all add: assms(2) frame_bytes_def\<close>)
qed

text \<open>What the filter submits for a frame, in terms of its fields.\<close>

lemma handler_frame:
  assumes "well_formed f" and "skb_bytes skb = frame_bytes f" and "unfragmented f"
    and "store_byte (ip_proto g) (f_proto f) \<noteq> IPPROTO_GRE"
  shows "socket_handler (Some g) skb = (skb_len skb,
    [g\<lparr>ip_proto := store_byte (ip_proto g) (f_proto f), src_addr := le32 (f_src f), dst_addr := le32 (f_dst f),
       ports := le32 (f_sport f @ f_dport f), pkt_type := skb_pkt_type skb, ifindex := skb_ifindex skb\<rparr>])"
proof -
  note loads = frame_loads [OF assms(1,2)]
  obtain x y where frag: "f_frag f = [x, y]" using assms(1) list2E by (metis well_formed_def)
  have "ntohs (le16 [8, 0]) = ETH_P_IP" unfolding ntohs_le16 by (simp add: le16_def ETH_P_IP_def)
  moreover have "\<not> ip_is_fragment skb 14"
    using assms(3) by (simp add: ip_is_fragment_def loads frag ntohs_le16 unfragmented_def IP_MF_def IP_OFFSET_def)
  moreover have "14 + 4 * unat (f_verlen f AND 0xF) = 34 + length (f_opts f)" using verlen_words [OF assms(1)] by simp
  ultimately show ?thesis
    using assms(4) by (simp add: socket_handler_def ETH_HLEN_def loads Let_def)
qed

lemma proto_byte: "p AND NOT 0xFF = 0 \<Longrightarrow> store_byte p b = ucast b"
  by (simp add: store_byte_def)

lemma handler_proto:
  assumes "e \<in> set (snd (socket_handler (Some g) skb))"
  shows "ip_proto e = store_byte (ip_proto g) (hd (bpf_skb_load_bytes skb (ETH_HLEN + 9) 1))"
  using assms unfolding socket_handler_def Let_def option.case by (auto split: if_splits)

lemma ports_of:
  "ports e = le32 [a, b, c, d] \<Longrightarrow> fmt_u (ntohs (port16_0 e)) = fmt_nat (be16 [a, b]) \<and> fmt_u (ntohs (port16_1 e)) = fmt_nat (be16 [c, d])"
  by (simp add: port16_0_def port16_1_def byte_of_le32 ntohs_le16 unat_be16 fmt_u_def be16_def)

subsection \<open>Properties\<close>

text \<open>C11: parsing inverts building: for a well-formed, unfragmented IPv4 frame (with or without options) of a
  protocol other than GRE that arrived for this host, and a zeroed slot of the ring buffer, the filter
  passes the packet and the loader prints the interface, the protocol, both addresses in dotted decimals
  and both ports exactly as they are in the header.\<close>

theorem sockfilter_roundtrip:
  assumes "well_formed f" and "skb_bytes skb = frame_bytes f" and "unfragmented f" and "f_proto f \<noteq> 47"
    and "ip_proto g AND NOT 0xFF = 0" and "skb_pkt_type skb = 0" and "256 \<le> mx" and "ifn (skb_ifindex skb) = Some name"
  shows "fst (socket_handler (Some g) skb) = skb_len skb
    \<and> concat (map (so_handle_event mx ifn) (snd (socket_handler (Some g) skb))) =
        [Stdout (''interface: '' @ name @ [CHR 0x09] @ ''protocol: '' @ proto_text (ucast (f_proto f)) @ [CHR 0x09] @
           dotted (f_src f) @ '':'' @ fmt_nat (be16 (f_sport f)) @ ''(src) -> '' @
           dotted (f_dst f) @ '':'' @ fmt_nat (be16 (f_dport f)) @ ''(dst)'' @ nl)]"
proof -
  note wf = assms(1) [unfolded well_formed_def]
  have p: "store_byte (ip_proto g) (f_proto f) = ucast (f_proto f)" using assms(5) by (rule proto_byte)
  have "unat (ucast (f_proto f) :: u32) = unat (f_proto f)" by (simp add: unsigned_ucast_eq take_bit_nat_eq_self order_less_le_trans [OF unsigned_less])
  moreover have "unat (f_proto f) < 256" using unsigned_less [of "f_proto f", where ?'a = nat] by simp
  moreover have "unat (f_proto f) \<noteq> 47" using assms(4) by (auto simp: word_unat_eq_iff)
  ultimately have lt: "\<not> mx \<le> ucast (f_proto f)" and gre: "store_byte (ip_proto g) (f_proto f) \<noteq> IPPROTO_GRE"
    using assms(7) unfolding p IPPROTO_GRE_def by (auto simp: word_le_nat_alt)
  obtain a b c d a' b' c' d' x y x' y' where l: "f_src f = [a, b, c, d]" "f_dst f = [a', b', c', d']" "f_sport f = [x, y]" "f_dport f = [x', y']"
    using wf list2E list4E by metis
  show ?thesis unfolding handler_frame [OF assms(1-3) gre]
    using assms(6,8) lt ports_of [of "g\<lparr>ip_proto := ucast (f_proto f), src_addr := le32 (f_src f), dst_addr := le32 (f_dst f),
       ports := le32 (f_sport f @ f_dport f), pkt_type := 0, ifindex := skb_ifindex skb\<rparr>" x y x' y']
    by (simp add: so_handle_event_def p l ltoa_dotted Let_def)
qed

definition demo_frame :: ip_frame where
  "demo_frame = \<lparr>f_macs = replicate 12 1, f_len_id = [0, 0, 40, 0, 7], f_frag = [0x40, 0], f_ttl = 64, f_proto = 6, f_check = [0, 0],
     f_src = [192, 168, 0, 1], f_dst = [10, 0, 0, 255], f_opts = [1, 1, 1, 1], f_sport = [0x1F, 0x90], f_dport = [0, 80], f_payload = []\<rparr>"

definition demo_skb :: skb where
  "demo_skb = \<lparr>skb_bytes = frame_bytes demo_frame, skb_pkt_type = 0, skb_ifindex = 1, skb_len = 60\<rparr>"

definition zero_slot :: so_event where
  "zero_slot = \<lparr>src_addr = 0, dst_addr = 0, ports = 0, ip_proto = 0, pkt_type = 0, ifindex = 0\<rparr>"

theorem sockfilter_roundtrip_witness:
  "fst (socket_handler (Some zero_slot) demo_skb) = 60
   \<and> concat (map (so_handle_event 256 (\<lambda>_. Some ''lo'')) (snd (socket_handler (Some zero_slot) demo_skb))) =
       [Stdout (''interface: lo'' @ [CHR 0x09] @ ''protocol: TCP'' @ [CHR 0x09] @ ''192.168.0.1:8080(src) -> 10.0.0.255:80(dst)'' @ nl)]"
proof -
  have p: "proto_text 6 = ''TCP''" by (simp add: proto_text_def ipproto_mapping_def)
  have a: "dotted [192, 168, 0, 1] = ''192.168.0.1''" "dotted [10, 0, 0, 255] = ''10.0.0.255''"
    "fmt_nat 8080 = ''8080''" "fmt_nat 80 = ''80''" by (simp_all add: dotted_def fmt_u_def fmt_simps)
  show ?thesis
    using sockfilter_roundtrip [of demo_frame demo_skb zero_slot 256 "\<lambda>_. Some ''lo''" "''lo''"]
    by (simp add: demo_frame_def demo_skb_def zero_slot_def well_formed_def unfragmented_def le16_def be16_def p a)
qed

text \<open>The filter writes one byte of the four-byte protocol field. If the slot that the ring buffer hands out
  held bytes that make the rest of the field at least \<open>IPPROTO_MAX\<close>, the loader prints nothing for the
  packet, whatever the packet is.\<close>

theorem sockfilter_stale_slot_drops:
  assumes "mx \<le> ip_proto g AND NOT 0xFF"
  shows "concat (map (so_handle_event mx ifn) (snd (socket_handler (Some g) skb))) = []"
proof -
  have "mx \<le> store_byte (ip_proto g) b" for b
    unfolding store_byte_def using assms le_word_or2 by (rule order_trans)
  then have "so_handle_event mx ifn e = []" if "e \<in> set (snd (socket_handler (Some g) skb))" for e
    using handler_proto [OF that] by (simp add: so_handle_event_def)
  then show ?thesis by simp
qed

theorem sockfilter_stale_slot_drops_witness:
  "concat (map (so_handle_event 256 (\<lambda>_. Some ''lo'')) (snd (socket_handler (Some (zero_slot\<lparr>ip_proto := 0x0A00\<rparr>)) demo_skb))) = []"
  by (rule sockfilter_stale_slot_drops) (simp add: zero_slot_def)

text \<open>A signal ends sockfilter with the negated number of records of the last poll as its exit code, so
  that a normal termination reports failure whenever the last poll delivered anything; the raw socket is
  never closed.\<close>

theorem sockfilter_exit_code:
  assumes "argp_parse so_parse_arg (so_args env) ''lo'' = Inr interface" and "so_args_err env = 0" and "so_opened env" and "so_buffer_ok env" and "so_socket_ok env" and "so_bind_ok env"
    and "so_setsockopt_ok env" and "\<not> so_sig_early env"
    and "so_rounds env = rs @ q # qs" and "\<forall>r \<in> set rs. 0 \<le> poll_ret r \<and> \<not> sig_seen r" and "0 \<le> poll_ret q" and "sig_seen q"
  shows "\<exists>out. sockfilter_main mx ifn env = (Exited (- poll_ret q), out @ [Release ''rb'', Destroy])"
  using poll_loop_signal [OF assms(10-12), of so_poll_error "[Sleep 1]" so_event_step "so_deliver mx ifn" qs "[]"] assms(1-9)
  by (simp add: sockfilter_main_def open_raw_sock_def Let_def)

definition so_demo_env :: so_env where
  "so_demo_env = \<lparr>so_args = [(Opt CHR ''i'', ''lo'')], so_args_err = 0, so_opened = True, so_buffer_ok = True, so_socket_ok = True,
     so_bind_ok = True, so_strerror = [], so_setsockopt_ok = True, so_sig_early = False,
     so_rounds = [\<lparr>incoming = [(Some zero_slot, demo_skb)], poll_ret = 1, sig_seen = True\<rparr>]\<rparr>"

theorem sockfilter_exit_code_witness:
  "\<exists>out. sockfilter_main 256 (\<lambda>_. Some ''lo'') so_demo_env = (Exited (- 1), out @ [Release ''rb'', Destroy])"
  using sockfilter_exit_code [of so_demo_env "''lo''" "[]" "\<lparr>incoming = [(Some zero_slot, demo_skb)], poll_ret = 1, sig_seen = True\<rparr>"
     "[]" 256 "\<lambda>_. Some ''lo''"]
  by (simp add: so_demo_env_def)

end
