(* ===== verification/Probes.thy ===== *)
theory Probes
  imports Loader MapInstances
begin

section \<open>The small examples: minimal, fentry, kprobe, ksyscall, uprobe, usdt, lsm, xdp\<close>

text \<open>
  Each of these examples attaches a few programs that write a line to the kernel's trace pipe
  (\<open>bpf_printk\<close>, modelled as the list of lines a program writes), and a loader that prints a dot every
  second. The loaders differ in how they handle errors and signals, and that is what is modelled of
  them: \<open>ex_env\<close> says what libbpf and the system answer, \<open>dot_loop\<close> is the loop around \<open>sleep\<close>.
  A local variable that is read before it is set is an input of the function (\<open>junk\<close>).
  Shown: minimal and minimal_legacy trace the same system calls; the loaders of fentry, kprobe and
  ksyscall report success when they could not install their signal handler; minimal_ns leaks the
  skeleton on one error path and no other loader does.
\<close>

record ex_env =
  x_opened :: bool
  x_load_err :: int
  x_attach_err :: int
  x_sigset_ok :: bool
  x_errno :: int
  x_strerror :: "int \<Rightarrow> string"
  x_sleeps :: "signal option list"

definition started :: effect where
  "started = Stdout (''Successfully started! Please run `sudo cat /sys/kernel/debug/tracing/trace_pipe` to see output of the BPF programs.'' @ nl)"

text \<open>\<open>while (!stop) { fprintf(stderr, "."); sleep(1); }\<close>, with handlers for \<open>H\<close>.\<close>

primrec dot_loop :: "signal list \<Rightarrow> signal option list \<Rightarrow> loop_end \<times> effect list" where
  "dot_loop H [] = (Ongoing, [])"
| "dot_loop H (r # rs) =
     (case r of
        None \<Rightarrow> (let (e, out) = dot_loop H rs in (e, [Stderr ''.'', Sleep 1] @ out))
      | Some g \<Rightarrow> (if g \<in> set H then Stopped else KilledIn g, [Stderr ''.'', Sleep 1]))"

definition after_loop :: "int \<Rightarrow> effect list \<Rightarrow> loop_end \<times> effect list \<Rightarrow> status \<times> effect list" where
  "after_loop err cleanup r =
     (case fst r of
        Stopped \<Rightarrow> (Exited (- err), [started] @ snd r @ cleanup)
      | KilledIn g \<Rightarrow> (Killed g, [started] @ snd r)
      | Ongoing \<Rightarrow> (Running, [started] @ snd r))"

lemma dot_loop_quiet: "Destroy \<notin> set (snd (dot_loop H rs))"
  by (induction rs) (auto simp: case_prod_unfold Let_def split: option.split)

lemma dot_loop_no_handler: "fst (dot_loop [] rs) \<noteq> Stopped"
  by (induction rs) (auto simp: case_prod_unfold Let_def split: option.split)

subsection \<open>minimal, minimal_legacy, minimal_ns\<close>

definition trace_pid :: "u32 \<Rightarrow> string" where
  "trace_pid pid = ''BPF triggered from PID '' @ fmt_d (sint pid) @ ''.'' @ nl"

definition minimal_handle_tp :: "u32 \<Rightarrow> helpers \<Rightarrow> int \<times> string list" where
  "minimal_handle_tp my_pid h =
     (let pid = cur_pid h in
      if pid \<noteq> my_pid then (0, []) else (0, [trace_pid pid]))"

definition legacy_handle_tp :: "('m, u32, u32) map_ops \<Rightarrow> 'm \<Rightarrow> helpers \<Rightarrow> int \<times> string list" where
  "legacy_handle_tp ops my_pid_map h =
     (let index = 0; pid = cur_pid h in
      case lookup_elem ops my_pid_map index of
        None \<Rightarrow> (1, [])
      | Some my_pid \<Rightarrow> if my_pid \<noteq> pid then (1, []) else (0, [trace_pid pid]))"

text \<open>\<open>bpf_get_ns_current_pid_tgid\<close> is a parameter: the process id in a namespace, if the task is in it; on failure
  the local variable is not written.\<close>

definition ns_handle_tp :: "(u64 \<Rightarrow> u64 \<Rightarrow> helpers \<Rightarrow> u32 option) \<Rightarrow> u32 \<Rightarrow> u64 \<Rightarrow> u64 \<Rightarrow> u32 \<Rightarrow> helpers \<Rightarrow> int \<times> string list" where
  "ns_handle_tp ns_pid junk dev ino my_pid h =
     (let pid = (case ns_pid dev ino h of Some p \<Rightarrow> p | None \<Rightarrow> junk) in
      if pid \<noteq> my_pid then (0, []) else (0, [trace_pid pid]))"

text \<open>The loaders; none installs a handler and the loops are \<open>for (;;)\<close>.\<close>

definition minimal_main :: "ex_env \<Rightarrow> status \<times> effect list" where
  "minimal_main env =
     (if \<not> x_opened env then (Exited 1, [err_line ''Failed to open BPF skeleton''])
      else if x_load_err env \<noteq> 0
      then (Exited (- x_load_err env), [err_line ''Failed to load and verify BPF skeleton'', Destroy])
      else if x_attach_err env \<noteq> 0
      then (Exited (- x_attach_err env), [err_line ''Failed to attach BPF skeleton'', Destroy])
      else after_loop 0 [Destroy] (dot_loop [] (x_sleeps env)))"

text \<open>The result also holds the map as the BPF program sees it.\<close>

definition minimal_legacy_main :: "('m, u32, u32) map_ops \<Rightarrow> u32 \<Rightarrow> ex_env \<Rightarrow> 'm \<Rightarrow> (status \<times> effect list) \<times> 'm" where
  "minimal_legacy_main ops pid env m =
     (if \<not> x_opened env then ((Exited 1, [err_line ''Failed to open and load BPF skeleton'']), m)
      else let (err, m1) = update_elem ops m 0 pid BPF_ANY in
        if err < 0 then ((Exited (- err), [err_line (''Error updating map with pid: '' @ x_strerror env err), Destroy]), m1)
        else if x_attach_err env \<noteq> 0
        then ((Exited (- x_attach_err env), [err_line ''Failed to attach BPF skeleton'', Destroy]), m1)
        else (after_loop 0 [Destroy] (dot_loop [] (x_sleeps env)), m1))"

definition minimal_ns_main :: "bool \<Rightarrow> ex_env \<Rightarrow> status \<times> effect list" where
  "minimal_ns_main stat_ok env =
     (if \<not> x_opened env then (Exited 1, [err_line ''Failed to open BPF skeleton''])
      else if \<not> stat_ok then (Exited 1, [Stderr ''Failed to acquire namespace information''])
      else if x_load_err env \<noteq> 0
      then (Exited (- x_load_err env), [err_line ''Failed to load and verify BPF skeleton'', Destroy])
      else if x_attach_err env \<noteq> 0
      then (Exited (- x_attach_err env), [err_line ''Failed to attach BPF skeleton'', Destroy])
      else after_loop 0 [Destroy] (dot_loop [] (x_sleeps env)))"

subsection \<open>fentry, kprobe, ksyscall\<close>

definition do_unlinkat :: "helpers \<Rightarrow> string \<Rightarrow> int \<times> string list" where
  "do_unlinkat h name = (0, [''fentry: pid = '' @ fmt_d (sint (cur_pid h)) @ '', filename = '' @ name @ nl])"

definition do_unlinkat_exit :: "helpers \<Rightarrow> string \<Rightarrow> int \<Rightarrow> int \<times> string list" where
  "do_unlinkat_exit h name ret =
     (0, [''fexit: pid = '' @ fmt_d (sint (cur_pid h)) @ '', filename = '' @ name @ '', ret = '' @ fmt_d ret @ nl])"

definition kprobe_do_unlinkat :: "helpers \<Rightarrow> string \<Rightarrow> int \<times> string list" where
  "kprobe_do_unlinkat h filename =
     (0, [''KPROBE ENTRY pid = '' @ fmt_d (sint (cur_pid h)) @ '', filename = '' @ filename @ nl])"

definition kprobe_do_unlinkat_exit :: "helpers \<Rightarrow> int \<Rightarrow> int \<times> string list" where
  "kprobe_do_unlinkat_exit h ret =
     (0, [''KPROBE EXIT: pid = '' @ fmt_d (sint (cur_pid h)) @ '', ret = '' @ fmt_d ret @ nl])"

definition tgkill_entry :: "helpers \<Rightarrow> int \<Rightarrow> int \<Rightarrow> int \<Rightarrow> int \<times> string list" where
  "tgkill_entry h tgid tid sig =
     (if sig = 0 then (0, [])
      else (0, [''tgkill syscall called by PID '' @ fmt_d (sint (cur_pid h)) @ '' ('' @ c_str (cur_comm h) @ '') for thread id '' @
                fmt_d tid @ '' with pid '' @ fmt_d tgid @ '' and signal '' @ fmt_d sig @ ''.'']))"

definition entry_probe :: "helpers \<Rightarrow> int \<Rightarrow> int \<Rightarrow> int \<times> string list" where
  "entry_probe h pid sig =
     (if sig = 0 then (0, [])
      else (0, [''KILL syscall called by PID '' @ fmt_d (sint (cur_pid h)) @ '' ('' @ c_str (cur_comm h) @ '') for PID '' @
                fmt_d pid @ '' with signal '' @ fmt_d sig @ ''.'']))"

definition fentry_main :: "ex_env \<Rightarrow> status \<times> effect list" where
  "fentry_main env =
     (if \<not> x_opened env then (Exited 1, [err_line ''Failed to open BPF skeleton''])
      else let err = x_attach_err env in
        if err \<noteq> 0 then (Exited (- err), [err_line ''Failed to attach BPF skeleton'', Destroy])
        else if \<not> x_sigset_ok env then (Exited (- err), [err_line (''can't set signal handler: '' @ x_strerror env (x_errno env)), Destroy])
        else after_loop err [Destroy] (dot_loop [SIGINT] (x_sleeps env)))"

definition kprobe_main :: "ex_env \<Rightarrow> status \<times> effect list" where
  "kprobe_main env =
     (if \<not> x_opened env then (Exited 1, [err_line ''Failed to open BPF skeleton''])
      else let err = x_attach_err env in
        if err \<noteq> 0 then (Exited (- err), [err_line ''Failed to attach BPF skeleton'', Destroy])
        else if \<not> x_sigset_ok env then (Exited (- err), [err_line (''can't set signal handler: '' @ x_strerror env (x_errno env)), Destroy])
        else after_loop err [Destroy] (dot_loop [SIGINT] (x_sleeps env)))"

definition ksyscall_main :: "ex_env \<Rightarrow> status \<times> effect list" where
  "ksyscall_main env =
     (if \<not> x_opened env then (Exited 1, [err_line ''Failed to open BPF skeleton''])
      else let err = x_attach_err env in
        if err \<noteq> 0 then (Exited (- err), [err_line ''Failed to attach BPF skeleton'', Destroy])
        else if \<not> x_sigset_ok env then (Exited (- err), [err_line (''can't set signal handler: '' @ x_strerror env (x_errno env)), Destroy])
        else after_loop err [Destroy] (dot_loop [SIGINT] (x_sleeps env)))"

subsection \<open>lsm, usdt, uprobe, xdp\<close>

definition EPERM :: int where
  "EPERM = 1"

definition lsm_bpf :: "int \<Rightarrow> int \<times> string list" where
  "lsm_bpf ret = (if ret \<noteq> 0 then (ret, []) else (- EPERM, [''LSM: block bpf() worked'']))"

definition lsm_main :: "int \<Rightarrow> ex_env \<Rightarrow> status \<times> effect list" where
  "lsm_main junk env =
     (if \<not> x_opened env then (Exited (- junk), [err_line ''Failed to open and load BPF skeleton'', Destroy])
      else if x_attach_err env \<noteq> 0
      then (Exited (- x_attach_err env), [err_line ''Failed to attach BPF skeleton'', Destroy])
      else after_loop 0 [Destroy] (dot_loop [] (x_sleeps env)))"

definition usdt_auto_attach :: "u32 \<Rightarrow> string \<Rightarrow> int \<Rightarrow> string \<Rightarrow> helpers \<Rightarrow> int \<times> string list" where
  "usdt_auto_attach my_pid arg1 arg2 arg3 h =
     (if cur_pid h \<noteq> my_pid then (0, [])
      else (0, [''USDT auto attach to libc:setjmp: arg1 = '' @ arg1 @ '', arg2 = '' @ fmt_d arg2 @ '', arg3 = '' @ arg3]))"

definition usdt_manual_attach :: "string \<Rightarrow> int \<Rightarrow> string \<Rightarrow> int \<times> string list" where
  "usdt_manual_attach arg1 arg2 arg3 =
     (0, [''USDT manual attach to libc:setjmp: arg1 = '' @ arg1 @ '', arg2 = '' @ fmt_d arg2 @ '', arg3 = '' @ arg3])"

text \<open>The code of \<open>usdt_bpf__load\<close> is stored and never tested: the test that follows is of the skeleton again.\<close>

definition usdt_main :: "bool \<Rightarrow> ex_env \<Rightarrow> status \<times> effect list" where
  "usdt_main manual_ok env =
     (if \<not> x_opened env then (Exited 1, [err_line ''Failed to open BPF skeleton''])
      else if \<not> manual_ok
      then (Exited (- x_errno env), [err_line ''Failed to attach BPF program `usdt_manual_attach`'', Destroy])
      else if x_attach_err env \<noteq> 0
      then (Exited (- x_attach_err env), [err_line ''Failed to attach BPF skeleton'', Destroy])
      else if \<not> x_sigset_ok env then (Exited (- x_errno env), [err_line (''can't set signal handler: '' @ x_strerror env (x_errno env)), Destroy])
      else after_loop 0 [Destroy] (dot_loop [SIGINT] (x_sleeps env)))"

definition uprobed_add :: "u32 \<Rightarrow> u32 \<Rightarrow> u32" where
  "uprobed_add a b = a + b"

definition uprobed_sub :: "u32 \<Rightarrow> u32 \<Rightarrow> u32" where
  "uprobed_sub a b = a - b"

definition uprobe_add :: "u32 \<Rightarrow> u32 \<Rightarrow> int \<times> string list" where
  "uprobe_add a b = (0, [''uprobed_add ENTRY: a = '' @ fmt_d (sint a) @ '', b = '' @ fmt_d (sint b)])"

definition uretprobe_add :: "u32 \<Rightarrow> int \<times> string list" where
  "uretprobe_add ret = (0, [''uprobed_add EXIT: return = '' @ fmt_d (sint ret)])"

definition uprobe_sub :: "u32 \<Rightarrow> u32 \<Rightarrow> int \<times> string list" where
  "uprobe_sub a b = (0, [''uprobed_sub ENTRY: a = '' @ fmt_d (sint a) @ '', b = '' @ fmt_d (sint b)])"

definition uretprobe_sub :: "u32 \<Rightarrow> int \<times> string list" where
  "uretprobe_sub ret = (0, [''uprobed_sub EXIT: return = '' @ fmt_d (sint ret)])"

text \<open>One iteration of the loop of \<open>uprobe.c\<close>: the two calls and what the four probes trace of them. The
  products are computed in 32 bits.\<close>

definition uprobe_round :: "u32 \<Rightarrow> string list" where
  "uprobe_round i =
     snd (uprobe_add i (i + 1)) @ snd (uretprobe_add (uprobed_add i (i + 1))) @
     snd (uprobe_sub (i * i) i) @ snd (uretprobe_sub (uprobed_sub (i * i) i))"

definition uprobe_main :: "bool \<Rightarrow> bool \<Rightarrow> ex_env \<Rightarrow> status \<times> effect list" where
  "uprobe_main add_ok ret_ok env =
     (if \<not> x_opened env then (Exited 1, [err_line ''Failed to open and load BPF skeleton''])
      else if \<not> add_ok \<or> \<not> ret_ok
      then (Exited (x_errno env), [err_line (''Failed to attach uprobe: '' @ fmt_d (- x_errno env)), Destroy])
      else if x_attach_err env \<noteq> 0
      then (Exited (- x_attach_err env), [err_line (''Failed to auto-attach BPF skeleton: '' @ fmt_d (x_attach_err env)), Destroy])
      else after_loop 0 [Destroy] (dot_loop [] (x_sleeps env)))"

definition XDP_PASS :: int where
  "XDP_PASS = 2"

definition xdp_pass :: "u32 \<Rightarrow> u32 \<Rightarrow> int \<times> string list" where
  "xdp_pass data data_end = (XDP_PASS, [''packet size: '' @ fmt_d (sint (data_end - data))])"

subsection \<open>Properties\<close>

text \<open>The traced values are the mathematical ones as long as the square fits 31 bits.\<close>

lemma uprobe_round_exact:
  assumes "i < 46341"
  shows "uprobe_round (of_nat i) =
    [''uprobed_add ENTRY: a = '' @ fmt_nat i @ '', b = '' @ fmt_nat (i + 1), ''uprobed_add EXIT: return = '' @ fmt_nat (2 * i + 1),
     ''uprobed_sub ENTRY: a = '' @ fmt_nat (i * i) @ '', b = '' @ fmt_nat i, ''uprobed_sub EXIT: return = '' @ fmt_nat (i * i - i)]"
proof -
  have sq: "i * i \<le> 46340 * 46340" using assms by (intro mult_le_mono) simp_all
  have val: "fmt_d (sint (of_nat n :: u32)) = fmt_nat n" if "n < 2 ^ 31" for n
    using that by (simp add: fmt_d_def signed_of_nat signed_take_bit_int_eq_self)
  have "(of_nat i :: u32) + 1 = of_nat (i + 1)" "(of_nat i :: u32) + of_nat (i + 1) = of_nat (2 * i + 1)"
    "(of_nat i :: u32) * of_nat i = of_nat (i * i)" "(of_nat (i * i) :: u32) - of_nat i = of_nat (i * i - i)"
    by (simp_all add: of_nat_diff)
  note words = this
  have "fmt_d (sint (of_nat i :: u32)) = fmt_nat i" "fmt_d (sint (of_nat (i + 1) :: u32)) = fmt_nat (i + 1)"
    "fmt_d (sint (of_nat (2 * i + 1) :: u32)) = fmt_nat (2 * i + 1)" "fmt_d (sint (of_nat (i * i) :: u32)) = fmt_nat (i * i)"
    "fmt_d (sint (of_nat (i * i - i) :: u32)) = fmt_nat (i * i - i)"
    by (rule val; use assms sq in simp)+
  then show ?thesis
    unfolding uprobe_round_def uprobe_add_def uretprobe_add_def uprobe_sub_def uretprobe_sub_def uprobed_add_def uprobed_sub_def
      words snd_conv by (simp only: append.simps)
qed

text \<open>Minimal and minimal_legacy trace the same system calls. Over an array map with its one entry, after
  the loader of minimal_legacy has stored its process id, both programs write the same lines for every
  sequence of \<open>write()\<close> calls, and both loaders behave the same while the programs are attached.\<close>

theorem minimal_variants_equivalent:
  assumes "bpf_array ops keys cap" and "cap m = 1" and "x_opened env" and "x_load_err env = 0"
    and "minimal_legacy_main ops my_pid env m = (r, m')"
  shows "concat (map (\<lambda>h. snd (minimal_handle_tp my_pid h)) hs) = concat (map (\<lambda>h. snd (legacy_handle_tp ops m' h)) hs)
    \<and> minimal_main env = r"
proof -
  have ok: "fst (update_elem ops m 0 my_pid BPF_ANY) = 0"
    using bpf_array.array_update [OF assms(1)] assms(2) by simp
  then have "m' = snd (update_elem ops m 0 my_pid BPF_ANY)" and r: "r = minimal_main env"
    using assms(3-5) by (auto simp: minimal_legacy_main_def minimal_main_def case_prod_unfold Let_def split: if_splits)
  then have "lookup_elem ops m' 0 = Some my_pid"
    using bpf_map.update_ok [OF bpf_array.axioms(1) [OF assms(1)] ok] by simp
  then have "snd (minimal_handle_tp my_pid h) = snd (legacy_handle_tp ops m' h)" for h
    by (simp add: minimal_handle_tp_def legacy_handle_tp_def Let_def)
  then show ?thesis by (simp add: r)
qed

definition quiet_env :: ex_env where
  "quiet_env = \<lparr>x_opened = True, x_load_err = 0, x_attach_err = 0, x_sigset_ok = True, x_errno = 0, x_strerror = (\<lambda>_. ''error''), x_sleeps = [None, None]\<rparr>"

theorem minimal_variants_equivalent_witness:
  "concat (map (\<lambda>h. snd (minimal_handle_tp 5 h)) [task_ctx 5 ''a'' 0 0, task_ctx 6 ''b'' 1 0]) =
     concat (map (\<lambda>h. snd (legacy_handle_tp array_ops (snd (minimal_legacy_main array_ops 5 quiet_env [0])) h))
       [task_ctx 5 ''a'' 0 0, task_ctx 6 ''b'' 1 0])
   \<and> minimal_main quiet_env = fst (minimal_legacy_main array_ops 5 quiet_env [0])"
  by (rule minimal_variants_equivalent [OF ar.bpf_array_axioms, where m = "[0]"]) (simp_all add: quiet_env_def)

text \<open>The loaders of fentry, kprobe and ksyscall exit with 0, as after a normal run, when the programs are
  attached but the handler for SIGINT cannot be installed; the loader of usdt reports the error in the
  same situation.\<close>

theorem signal_setup_failure_unreported:
  assumes "x_opened env" and "x_attach_err env = 0" and "\<not> x_sigset_ok env"
  shows "fst (fentry_main env) = Exited 0 \<and> fst (kprobe_main env) = Exited 0 \<and> fst (ksyscall_main env) = Exited 0
    \<and> fst (usdt_main True env) = Exited (- x_errno env)"
  using assms by (simp add: fentry_main_def kprobe_main_def ksyscall_main_def usdt_main_def)

theorem signal_setup_failure_unreported_witness:
  "fst (fentry_main (quiet_env\<lparr>x_sigset_ok := False, x_errno := 22\<rparr>)) = Exited 0
   \<and> fst (usdt_main True (quiet_env\<lparr>x_sigset_ok := False, x_errno := 22\<rparr>)) = Exited (- 22)"
  using signal_setup_failure_unreported [of "quiet_env\<lparr>x_sigset_ok := False, x_errno := 22\<rparr>"]
  by (simp add: quiet_env_def)

text \<open>Every other way out releases an opened skeleton exactly once; minimal_ns alone returns without.\<close>

lemma after_loop_releases:
  "fst (after_loop err [Destroy] (dot_loop H rs)) = Exited c \<Longrightarrow>
     count_list (snd (after_loop err [Destroy] (dot_loop H rs))) Destroy = 1"
  using dot_loop_quiet [of H rs] by (auto simp: after_loop_def started_def count_list_0_iff count_list_append split: loop_end.splits)

lemma err_line_no_Destroy [simp]: "err_line e \<noteq> Destroy"
  by (simp add: err_line_def)

lemma examples_release:
  assumes "x_opened env" and "fst r = Exited c"
    and "r \<in> {minimal_main env, minimal_ns_main True env, fentry_main env, kprobe_main env, ksyscall_main env, lsm_main junk env,
      usdt_main manual_ok env, uprobe_main add_ok ret_ok env}"
  shows "count_list (snd r) Destroy = 1"
  using assms after_loop_releases
  by (auto simp: minimal_main_def minimal_ns_main_def fentry_main_def kprobe_main_def ksyscall_main_def lsm_main_def usdt_main_def
      uprobe_main_def Let_def split: if_splits)

lemma minimal_ns_leaks:
  "x_opened env \<Longrightarrow> fst (minimal_ns_main False env) = Exited 1 \<and> count_list (snd (minimal_ns_main False env)) Destroy = 0"
  by (simp add: minimal_ns_main_def)

end
