(* ===== verification/Profile.thy ===== *)
theory Profile
  imports RingBuf
begin

section \<open>profile: sampled stack traces\<close>

text \<open>
  \<open>examples/c/profile.bpf.c\<close> runs at every sample of a performance event and submits the kernel and the user stack of
  the interrupted task; \<open>examples/c/profile.c\<close> opens one performance event for every online CPU, attaches
  the program to each, prints the symbolised stacks and takes everything down again. The symbolizer
  (blazesym) and \<open>parse_cpu_mask_file\<close> of libbpf are parameters; memory allocation succeeds. What the kernel
  gives the program for a sample is the record \<open>sample\<close>.
  Shown: on whatever way the loader returns, exactly the links it created are destroyed and exactly the
  descriptors it opened are closed, each once, the links first; CPUs that are offline are skipped.
\<close>

subsection \<open>The program\<close>

definition MAX_STACK_DEPTH :: nat where
  "MAX_STACK_DEPTH = 128"

record stacktrace_event =
  se_pid :: u32
  se_cpu_id :: u32
  se_comm :: "char list"
  se_kstack_sz :: u32
  se_ustack_sz :: u32
  se_kstack :: "u64 list"
  se_ustack :: "u64 list"

text \<open>\<open>kres\<close> and \<open>ures\<close> are the results of \<open>bpf_get_stack\<close>, the number of bytes or a negative code; \<open>kframes\<close> and
  \<open>uframes\<close> the arrays afterwards.\<close>

record sample = helpers +
  slot :: "stacktrace_event option"
  comm_err :: int
  kres :: u32
  kframes :: "u64 list"
  ures :: u32
  uframes :: "u64 list"

definition profile :: "sample \<Rightarrow> int \<times> stacktrace_event list" where
  "profile ctx =
     (let pid = cur_pid ctx; cpu_id = smp_cpu ctx in
      case slot ctx of
        None \<Rightarrow> (1, [])
      | Some e \<Rightarrow>
          let e1 = e\<lparr>se_pid := pid, se_cpu_id := cpu_id,
                     se_comm := (if comm_err ctx \<noteq> 0 then (se_comm e)[0 := CHR 0x00] else cur_comm ctx)\<rparr>;
              e2 = e1\<lparr>se_kstack := kframes ctx, se_kstack_sz := kres ctx\<rparr>;
              e3 = e2\<lparr>se_ustack := uframes ctx, se_ustack_sz := ures ctx\<rparr>
          in (0, [e3]))"

subsection \<open>Printing a stack\<close>

definition hex_digit :: "nat \<Rightarrow> char" where
  "hex_digit d = char_of (if d < 10 then 48 + d else 87 + d)"

fun fmt_hex :: "nat \<Rightarrow> string" where
  "fmt_hex n = (if n < 16 then [hex_digit n] else fmt_hex (n div 16) @ [hex_digit (n mod 16)])"

declare fmt_hex.simps [simp del]

text \<open>\<open>%016lx\<close> and \<open>%lx\<close>.\<close>

definition fmt_016lx :: "u64 \<Rightarrow> string" where
  "fmt_016lx w = (let s = fmt_hex (unat w) in replicate (16 - length s) CHR ''0'' @ s)"

definition fmt_lx :: "u64 \<Rightarrow> string" where
  "fmt_lx w = fmt_hex (unat w)"

record code_info =
  ci_dir :: "string option"
  ci_file :: "string option"
  ci_line :: u32

record inlined_fn =
  in_name :: string
  in_code :: code_info

record blaze_sym =
  bs_name :: "string option"
  bs_addr :: u64
  bs_offset :: u64
  bs_code :: code_info
  bs_inlined :: "inlined_fn list"

definition print_frame :: "string \<Rightarrow> u64 \<Rightarrow> u64 \<Rightarrow> u64 \<Rightarrow> code_info option \<Rightarrow> effect list" where
  "print_frame name input_addr addr offset code_info =
     (let dir = Option.bind code_info ci_dir; file = Option.bind code_info ci_file;
          line = (case code_info of Some c \<Rightarrow> fmt_u (ci_line c) | None \<Rightarrow> '''')
      in if input_addr \<noteq> 0
         then [Stdout (fmt_016lx input_addr @ '': '' @ name @ '' @ 0x'' @ fmt_lx addr @ ''+0x'' @ fmt_lx offset),
               (case (dir, file) of
                  (Some d, Some f) \<Rightarrow> Stdout ('' '' @ d @ ''/'' @ f @ '':'' @ line @ nl)
                | (None, Some f) \<Rightarrow> Stdout ('' '' @ f @ '':'' @ line @ nl)
                | _ \<Rightarrow> Stdout nl)]
         else [Stdout (replicate 16 CHR '' '' @ ''  '' @ name),
               (case (dir, file) of
                  (Some d, Some f) \<Rightarrow> Stdout (''@ '' @ d @ ''/'' @ f @ '':'' @ line @ '' [inlined]'' @ nl)
                | (None, Some f) \<Rightarrow> Stdout (''@ '' @ f @ '':'' @ line @ '' [inlined]'' @ nl)
                | _ \<Rightarrow> Stdout (''[inlined]'' @ nl))])"

text \<open>The symbolizer: symbols for a list of addresses, in a process or in the kernel, or an error text.\<close>

record symbolizer =
  sym_process :: "u32 \<Rightarrow> u64 list \<Rightarrow> string + blaze_sym list"
  sym_kernel :: "u64 list \<Rightarrow> string + blaze_sym list"

definition show_frame :: "blaze_sym list \<Rightarrow> u64 list \<Rightarrow> nat \<Rightarrow> effect list" where
  "show_frame syms stack i =
     (if length syms \<le> i \<or> bs_name (syms ! i) = None
      then [Stdout (fmt_016lx (stack ! i) @ '': <no-symbol>'' @ nl)]
      else let sy = syms ! i in
        print_frame (the (bs_name sy)) (stack ! i) (bs_addr sy) (bs_offset sy) (Some (bs_code sy)) @
        concat (map (\<lambda>inlined. print_frame (in_name inlined) 0 0 0 (Some (in_code inlined))) (bs_inlined sy)))"

definition show_stack_trace :: "symbolizer \<Rightarrow> u64 list \<Rightarrow> nat \<Rightarrow> u32 \<Rightarrow> effect list" where
  "show_stack_trace S stack stack_sz pid =
     (case (if pid \<noteq> 0 then sym_process S pid (take stack_sz stack) else sym_kernel S (take stack_sz stack)) of
        Inl e \<Rightarrow> [Stdout (''  failed to symbolize addresses: '' @ e @ nl)]
      | Inr syms \<Rightarrow> concat (map (show_frame syms stack) [0..<stack_sz]))"

definition event_handler :: "symbolizer \<Rightarrow> stacktrace_event \<Rightarrow> int \<times> effect list" where
  "event_handler S event =
     (let k = sint (se_kstack_sz event); u = sint (se_ustack_sz event) in
      if k \<le> 0 \<and> u \<le> 0 then (1, [])
      else (0,
        [Stdout (''COMM: '' @ c_str (se_comm event) @ '' (pid='' @ fmt_d (sint (se_pid event)) @ '') @ CPU '' @
           fmt_d (sint (se_cpu_id event)) @ nl)] @
        (if k > 0 then [Stdout (''Kernel:'' @ nl)] @ show_stack_trace S (se_kstack event) (nat k div 8) 0
         else [Stdout (''No Kernel Stack'' @ nl)]) @
        (if u > 0 then [Stdout (''Userspace:'' @ nl)] @ show_stack_trace S (se_ustack event) (nat u div 8) (se_pid event)
         else [Stdout (''No Userspace Stack'' @ nl)]) @
        [Stdout nl]))"

definition show_help :: "string \<Rightarrow> effect list" where
  "show_help progname =
     [Stdout (''Usage: '' @ progname @ '' [-f <frequency>] [--sw-event] [-h]'' @ nl),
      Stdout (''Options:'' @ nl),
      Stdout (''  -f <frequency>  Sampling frequency [default: 1]'' @ nl),
      Stdout (''  --sw-event      Use software event for triggering stack trace capture'' @ nl),
      Stdout (''  -h              Print help'' @ nl)]"

subsection \<open>The command line\<close>

text \<open>What \<open>getopt_long\<close> returns, with \<open>optarg\<close>; \<open>-h\<close> and everything it does not know is \<open>Other_opt\<close>.\<close>

datatype prof_opt = Opt_f string | Opt_s | Other_opt

record prof_args =
  freq :: int
  sw_event :: bool

definition atoi :: "string \<Rightarrow> int" where
  "atoi s = sint (word_of_int (fst (strtol10 s)) :: u32)"

fun parse_opts :: "prof_opt list \<Rightarrow> prof_args \<Rightarrow> prof_args option" where
  "parse_opts [] a = Some a"
| "parse_opts (Opt_f arg # os) a = parse_opts os (a\<lparr>freq := (if atoi arg < 1 then 1 else atoi arg)\<rparr>)"
| "parse_opts (Opt_s # os) a = parse_opts os (a\<lparr>sw_event := True\<rparr>)"
| "parse_opts (Other_opt # os) a = None"

subsection \<open>The loader\<close>

datatype perf_type = PERF_TYPE_HARDWARE | PERF_TYPE_SOFTWARE
datatype perf_config = PERF_COUNT_HW_CPU_CYCLES | PERF_COUNT_SW_CPU_CLOCK

record perf_attr =
  pa_type :: perf_type
  pa_config :: perf_config
  pa_sample_freq :: int

definition perf_attr_of :: "prof_args \<Rightarrow> perf_attr" where
  "perf_attr_of a =
     \<lparr>pa_type = (if sw_event a then PERF_TYPE_SOFTWARE else PERF_TYPE_HARDWARE),
      pa_config = (if sw_event a then PERF_COUNT_SW_CPU_CLOCK else PERF_COUNT_HW_CPU_CYCLES),
      pa_sample_freq = freq a\<rparr>"

definition ENOENT :: int where
  "ENOENT = 2"

text \<open>\<open>pe_open\<close> is the system call \<open>perf_event_open\<close> (a descriptor or a negative value) and \<open>pe_errno\<close> the error number
  it leaves; \<open>pe_link\<close> whether the program could be attached on a CPU. A poll delivers the records of the
  samples so far and returns a code.\<close>

record prof_env =
  p_argv0 :: string
  p_opts :: "prof_opt list"
  p_mask_err :: int
  p_online :: "bool list"
  p_num_cpus :: int
  p_opened :: bool
  p_symbolizer :: "symbolizer option"
  p_ring_ok :: bool
  pe_open :: "perf_attr \<Rightarrow> nat \<Rightarrow> int"
  pe_errno :: "nat \<Rightarrow> int"
  pe_link :: "nat \<Rightarrow> bool"
  p_polls :: "(sample list \<times> int) list"

definition is_online :: "prof_env \<Rightarrow> nat \<Rightarrow> bool" where
  "is_online env cpu \<longleftrightarrow> cpu < length (p_online env) \<and> p_online env ! cpu"

definition perf_fail_msg :: "bool \<Rightarrow> int \<Rightarrow> effect" where
  "perf_fail_msg sw errno =
     (if \<not> sw \<and> errno = ENOENT
      then Stderr (''Fail to set up performance monitor on a CPU/Core.'' @ nl @
             ''Try running the profile example with the `--sw-event` option.'' @ nl)
      else Stderr (''Fail to set up performance monitor on a CPU/Core.'' @ nl))"

text \<open>The loop over the CPUs, on the arrays \<open>pefds\<close> and \<open>links\<close>; the result is \<open>err\<close>, the messages and the arrays.\<close>

primrec setup_cpus ::
  "prof_env \<Rightarrow> prof_args \<Rightarrow> nat list \<Rightarrow> int list \<Rightarrow> bool list \<Rightarrow> int \<times> effect list \<times> int list \<times> bool list" where
  "setup_cpus env a [] pefds links = (0, [], pefds, links)"
| "setup_cpus env a (cpu # cpus) pefds links =
     (if \<not> is_online env cpu then setup_cpus env a cpus pefds links
      else let pefd = pe_open env (perf_attr_of a) cpu in
        if pefd < 0 then (-1, [perf_fail_msg (sw_event a) (pe_errno env cpu)], pefds, links)
        else let pefds = pefds[cpu := pefd] in
          if \<not> pe_link env cpu then (-1, [], pefds, links)
          else setup_cpus env a cpus pefds (links[cpu := True]))"

definition close_pefd :: "int \<Rightarrow> effect" where
  "close_pefd fd = Release (''fd '' @ fmt_d fd)"

definition destroy_link :: "nat \<Rightarrow> effect" where
  "destroy_link cpu = Release (''link '' @ fmt_nat cpu)"

text \<open>\<open>cleanup\<close> from the arrays down; \<open>bpf_link__destroy\<close> of a null pointer does nothing.\<close>

definition prof_cleanup :: "int list \<Rightarrow> bool list \<Rightarrow> effect list" where
  "prof_cleanup pefds links =
     map destroy_link (filter (\<lambda>cpu. links ! cpu) [0..<length links]) @
     map close_pefd (filter (\<lambda>fd. 0 \<le> fd) pefds) @
     [Release ''ring_buf'', Destroy, Release ''symbolizer'', Release ''online_mask'']"

text \<open>\<open>while (ring_buffer__poll(ring_buf, -1) >= 0) {}\<close>: what is printed, and whether the loop ended.\<close>

primrec prof_loop :: "symbolizer \<Rightarrow> (sample list \<times> int) list \<Rightarrow> bool \<times> effect list" where
  "prof_loop S [] = (False, [])"
| "prof_loop S (r # rs) =
     (let out = concat (map (\<lambda>e. snd (event_handler S e)) (concat (map (\<lambda>c. snd (profile c)) (fst r)))) in
      if snd r \<ge> 0 then let (done, out') = prof_loop S rs in (done, out @ out') else (True, []))"

definition profile_main :: "prof_env \<Rightarrow> status \<times> effect list" where
  "profile_main env =
     (case parse_opts (p_opts env) \<lparr>freq = 1, sw_event = False\<rparr> of
        None \<Rightarrow> (Exited 1, show_help (p_argv0 env))
      | Some a \<Rightarrow>
          if p_mask_err env \<noteq> 0
          then (Exited (- p_mask_err env), [err_line (''Fail to get online CPU numbers: '' @ fmt_d (p_mask_err env))])
          else if p_num_cpus env \<le> 0
          then (Exited 1, [err_line ''Fail to get the number of processors'', Release ''online_mask''])
          else if \<not> p_opened env
          then (Exited 1, [err_line ''Fail to open and load BPF skeleton'', Release ''online_mask''])
          else (case p_symbolizer env of
             None \<Rightarrow> (Exited 1, [err_line ''Fail to create a symbolizer'', Destroy, Release ''online_mask''])
           | Some S \<Rightarrow>
               if \<not> p_ring_ok env then (Exited 1, [Destroy, Release ''symbolizer'', Release ''online_mask''])
               else let n = nat (p_num_cpus env);
                        (err, msgs, pefds, links) = setup_cpus env a [0..<n] (replicate n (- 1)) (replicate n False)
                    in if err \<noteq> 0 then (Exited (- err), msgs @ prof_cleanup pefds links)
                       else let (done, out) = prof_loop S (p_polls env) in
                         if done then (Exited 0, msgs @ out @ prof_cleanup pefds links) else (Running, msgs @ out)))"

subsection \<open>Only text is printed before the cleanup\<close>

definition is_print :: "effect \<Rightarrow> bool" where
  "is_print e = (case e of Stdout _ \<Rightarrow> True | Stderr _ \<Rightarrow> True | _ \<Rightarrow> False)"

lemma print_frame_prints: "list_all is_print (print_frame name i a off ci)"
  by (auto simp: print_frame_def is_print_def Let_def split: option.splits)

lemma show_frame_prints: "list_all is_print (show_frame syms stack i)"
  using print_frame_prints by (auto simp: show_frame_def is_print_def list_all_iff Let_def)

lemma show_stack_trace_prints: "list_all is_print (show_stack_trace S stack n pid)"
  using show_frame_prints by (auto simp: show_stack_trace_def list_all_iff is_print_def split: sum.split)

lemma event_handler_prints: "list_all is_print (snd (event_handler S e))"
  using show_stack_trace_prints by (auto simp: event_handler_def list_all_iff is_print_def Let_def)

lemma prof_loop_prints: "list_all is_print (snd (prof_loop S rs))"
  using event_handler_prints by (induction rs) (auto simp: list_all_iff case_prod_unfold Let_def)

subsection \<open>Which events are opened\<close>

text \<open>The specification: the online CPUs in order; those that were set up completely; and after them the one whose
  event was opened but could not be attached to.\<close>

definition online_cpus :: "prof_env \<Rightarrow> nat list" where
  "online_cpus env = filter (is_online env) [0..<nat (p_num_cpus env)]"

definition cpu_good :: "prof_env \<Rightarrow> prof_args \<Rightarrow> nat \<Rightarrow> bool" where
  "cpu_good env a cpu \<longleftrightarrow> 0 \<le> pe_open env (perf_attr_of a) cpu \<and> pe_link env cpu"

definition attached :: "prof_env \<Rightarrow> prof_args \<Rightarrow> nat list \<Rightarrow> nat list" where
  "attached env a cs = takeWhile (cpu_good env a) cs"

definition half_done :: "prof_env \<Rightarrow> prof_args \<Rightarrow> nat list \<Rightarrow> nat list" where
  "half_done env a cs =
     filter (\<lambda>c. 0 \<le> pe_open env (perf_attr_of a) c) (take 1 (dropWhile (cpu_good env a) cs))"

definition set_all :: "(nat \<Rightarrow> 'v) \<Rightarrow> nat list \<Rightarrow> 'v list \<Rightarrow> 'v list" where
  "set_all f cs xs = fold (\<lambda>c xs. xs[c := f c]) cs xs"

lemma setup_cpus_spec:
  fixes cs :: "nat list" and env :: prof_env and a :: prof_args
  defines "on \<equiv> filter (is_online env) cs" and "pe \<equiv> pe_open env (perf_attr_of a)"
  shows "\<exists>msgs. setup_cpus env a cs p l =
      (if list_all (cpu_good env a) on then 0 else - 1, msgs,
       set_all pe (attached env a on @ half_done env a on) p, set_all (\<lambda>_. True) (attached env a on) l)
    \<and> list_all is_print msgs"
  unfolding on_def pe_def
proof (induction cs arbitrary: p l)
  case Nil
  then show ?case by (simp add: set_all_def attached_def half_done_def)
next
  case (Cons c cs)
  show ?case
  proof (cases "is_online env c \<and> cpu_good env a c")
    case True
    then show ?thesis using Cons.IH [of "p[c := pe_open env (perf_attr_of a) c]" "l[c := True]"]
      by (auto simp: set_all_def attached_def half_done_def cpu_good_def Let_def)
  next
    case False
    then show ?thesis using Cons.IH [of p l]
      by (auto simp: set_all_def attached_def half_done_def cpu_good_def is_print_def perf_fail_msg_def Let_def)
  qed
qed

lemma set_all_nth:
  "set cs \<subseteq> {..<n} \<Longrightarrow> length xs = n \<Longrightarrow>
     set_all f cs xs = map (\<lambda>i. if i \<in> set cs then f i else xs ! i) [0..<n]"
proof (induction cs arbitrary: xs)
  case Nil
  then show ?case using map_nth [of xs] by (simp add: set_all_def)
next
  case (Cons c cs)
  have "set_all f (c # cs) xs = set_all f cs (xs[c := f c])" by (simp add: set_all_def)
  also have "\<dots> = map (\<lambda>i. if i \<in> set cs then f i else xs[c := f c] ! i) [0..<n]" using Cons by (intro Cons.IH) simp_all
  finally show ?case using Cons.prems by (auto simp: nth_list_update)
qed

lemma filter_upt_sorted:
  assumes "sorted cs" and "distinct cs" and "set cs \<subseteq> {..<n}"
  shows "filter (\<lambda>i. i \<in> set cs) [0..<n] = cs"
  using assms by (intro sorted_distinct_set_unique) (auto simp: sorted_wrt_filter)

lemma set_all_fds:
  assumes "sorted cs" and "distinct cs" and "set cs \<subseteq> {..<n}" and "\<forall>c \<in> set cs. 0 \<le> f c"
  shows "filter (\<lambda>fd. 0 \<le> fd) (set_all f cs (replicate n (- 1 :: int))) = map f cs"
proof -
  have "set_all f cs (replicate n (- 1)) = map (\<lambda>i. if i \<in> set cs then f i else - 1) [0..<n]"
    by (subst set_all_nth [OF assms(3)]) auto
  moreover have "filter (\<lambda>i. 0 \<le> (if i \<in> set cs then f i else - 1)) [0..<n] = cs"
    using filter_upt_sorted [OF assms(1-3)] assms(4) by (simp cong: filter_cong if_cong)
  ultimately show ?thesis by (simp add: filter_map o_def)
qed

lemma set_all_links:
  assumes "sorted cs" and "distinct cs" and "set cs \<subseteq> {..<n}" and "ls = set_all (\<lambda>_. True) cs (replicate n False)"
  shows "filter (\<lambda>c. ls ! c) [0..<length ls] = cs"
proof -
  have "ls = map (\<lambda>i. i \<in> set cs) [0..<n]" unfolding assms(4) by (subst set_all_nth [OF assms(3)]) auto
  then have "filter (\<lambda>c. ls ! c) [0..<length ls] = filter (\<lambda>i. i \<in> set cs) [0..<n]" by (auto intro: filter_cong)
  with filter_upt_sorted [OF assms(1-3)] show ?thesis by simp
qed

lemma filter_take_1: "filter P (take 1 xs) = [] \<or> (\<exists>c d. xs = c # d \<and> filter P (take 1 xs) = [c])"
  by (cases xs) simp_all

lemma prefix_props:
  assumes "cs = attached env a (online_cpus env) \<or> cs = attached env a (online_cpus env) @ half_done env a (online_cpus env)"
  shows "sorted cs \<and> distinct cs \<and> set cs \<subseteq> {..<nat (p_num_cpus env)} \<and> (\<forall>c \<in> set cs. 0 \<le> pe_open env (perf_attr_of a) c)"
proof -
  let ?on = "online_cpus env" let ?d = "dropWhile (cpu_good env a) ?on"
  have on: "sorted ?on" "distinct ?on" "set ?on \<subseteq> {..<nat (p_num_cpus env)}" by (auto simp: online_cpus_def sorted_wrt_filter)
  have split: "attached env a ?on @ ?d = ?on" by (simp add: attached_def)
  have half: "half_done env a ?on = [] \<or> (\<exists>c d. ?d = c # d \<and> half_done env a ?on = [c])"
    unfolding half_done_def by (rule filter_take_1)
  have "\<forall>c \<in> set (attached env a ?on). 0 \<le> pe_open env (perf_attr_of a) c"
    by (auto simp: attached_def cpu_good_def dest: set_takeWhileD)
  moreover have "\<forall>c \<in> set (half_done env a ?on). 0 \<le> pe_open env (perf_attr_of a) c" by (simp add: half_done_def)
  moreover have "\<exists>rest. cs @ rest = ?on"
    using assms half split by (metis append.right_neutral append_Cons append_Nil append_assoc)
  then obtain rest where "cs @ rest = ?on" ..
  with on have "sorted cs \<and> distinct cs \<and> set cs \<subseteq> {..<nat (p_num_cpus env)}"
    by (metis distinct_append le_supE set_append sorted_append)
  ultimately show ?thesis using assms by auto
qed

subsection \<open>Properties\<close>

text \<open>C12: once profile has created its symbolizer and ring buffer, then whether the set-up fails at some CPU or the
  polling ends, it prints text and then takes down, in this order: the links of exactly the online CPUs
  that it had attached to, the descriptors of exactly the performance events that it had opened, each
  once (one more than the links when attaching failed), the ring buffer, the skeleton, the symbolizer
  and the mask. It reports an error exactly when some online CPU could not be set up.\<close>

theorem profile_releases:
  assumes "parse_opts (p_opts env) \<lparr>freq = 1, sw_event = False\<rparr> = Some a" and "p_mask_err env = 0" and "0 < p_num_cpus env"
    and "p_opened env" and "p_symbolizer env = Some S" and "p_ring_ok env" and "profile_main env = (Exited c, out)"
    and "on = online_cpus env"
  shows "\<exists>txt. out = txt @ map destroy_link (attached env a on) @
      map (\<lambda>cpu. close_pefd (pe_open env (perf_attr_of a) cpu)) (attached env a on @ half_done env a on) @
      [Release ''ring_buf'', Destroy, Release ''symbolizer'', Release ''online_mask'']
    \<and> list_all is_print txt \<and> (c = 0 \<longleftrightarrow> list_all (cpu_good env a) on)"
proof -
  let ?n = "nat (p_num_cpus env)"
  let ?pe = "pe_open env (perf_attr_of a)"
  let ?fds = "set_all ?pe (attached env a on @ half_done env a on) (replicate ?n (- 1))"
  let ?ls = "set_all (\<lambda>_. True) (attached env a on) (replicate ?n False)"
  obtain msgs where cfg: "setup_cpus env a [0..<?n] (replicate ?n (- 1)) (replicate ?n False) =
      (if list_all (cpu_good env a) on then 0 else - 1, msgs, ?fds, ?ls)" and msgs: "list_all is_print msgs"
    using setup_cpus_spec [of env a "[0..<?n]" "replicate ?n (- 1)" "replicate ?n False"] assms(8) unfolding online_cpus_def by blast
  have clean: "prof_cleanup ?fds ?ls = map destroy_link (attached env a on) @
      map (\<lambda>cpu. close_pefd (?pe cpu)) (attached env a on @ half_done env a on) @
      [Release ''ring_buf'', Destroy, Release ''symbolizer'', Release ''online_mask'']"
  proof -
    have "filter (\<lambda>fd. 0 \<le> fd) ?fds = map ?pe (attached env a on @ half_done env a on)"
      unfolding assms(8) using prefix_props [OF disjI2 [OF refl], of env a] by (intro set_all_fds) simp_all
    moreover have "filter (\<lambda>cpu. ?ls ! cpu) [0..<length ?ls] = attached env a on"
      unfolding assms(8) using prefix_props [OF disjI1 [OF refl], of env a] by (intro set_all_links) simp_all
    ultimately show ?thesis by (simp add: prof_cleanup_def)
  qed
  have "\<exists>txt. out = txt @ prof_cleanup ?fds ?ls \<and> list_all is_print txt \<and> (c = 0 \<longleftrightarrow> list_all (cpu_good env a) on)"
    using assms(1-7) cfg msgs prof_loop_prints [of S "p_polls env"]
    by (auto simp: profile_main_def Let_def case_prod_unfold split: if_splits)
  then show ?thesis unfolding clean .
qed

definition prof_demo :: prof_env where
  "prof_demo = \<lparr>p_argv0 = ''profile'', p_opts = [Opt_s], p_mask_err = 0, p_online = [True, False, True], p_num_cpus = 4, p_opened = True,
     p_symbolizer = Some \<lparr>sym_process = (\<lambda>_ _. Inr []), sym_kernel = (\<lambda>_. Inr [])\<rparr>, p_ring_ok = True,
     pe_open = (\<lambda>_ cpu. 10 + int cpu), pe_errno = (\<lambda>_. 0), pe_link = (\<lambda>cpu. cpu = 0), p_polls = []\<rparr>"

theorem profile_releases_witness:
  "\<exists>txt. snd (profile_main prof_demo) = txt @ [destroy_link 0, close_pefd 10, close_pefd 12,
      Release ''ring_buf'', Destroy, Release ''symbolizer'', Release ''online_mask''] \<and> list_all is_print txt"
proof -
  have upt: "[0..<nat (p_num_cpus prof_demo)] = [0, 1, 2, 3]" by (simp add: prof_demo_def upt_rec)
  have on: "online_cpus prof_demo = [0, 2]" unfolding online_cpus_def upt by (simp add: prof_demo_def is_online_def)
  have opts: "parse_opts (p_opts prof_demo) \<lparr>freq = 1, sw_event = False\<rparr> = Some \<lparr>freq = 1, sw_event = True\<rparr>" (is "_ = Some ?a")
    by (simp add: prof_demo_def)
  have cpus: "attached prof_demo ?a [0, 2] = [0]" "half_done prof_demo ?a [0, 2] = [2]"
    by (simp_all add: attached_def half_done_def cpu_good_def prof_demo_def)
  have four: "[0..<4] = [0, 1, 2, 3 :: nat]" by (simp add: upt_rec)
  obtain c out where run: "profile_main prof_demo = (Exited c, out)"
    by (auto simp: profile_main_def opts prof_demo_def is_online_def four)
  have "p_symbolizer prof_demo = Some \<lparr>sym_process = (\<lambda>_ _. Inr []), sym_kernel = (\<lambda>_. Inr [])\<rparr>" "pe_open prof_demo b k = 10 + int k" for b k
    by (simp_all add: prof_demo_def)
  note env = this
  have "\<exists>txt. out = txt @ map destroy_link (attached prof_demo ?a [0, 2]) @
      map (\<lambda>cpu. close_pefd (pe_open prof_demo (perf_attr_of ?a) cpu)) (attached prof_demo ?a [0, 2] @ half_done prof_demo ?a [0, 2]) @
      [Release ''ring_buf'', Destroy, Release ''symbolizer'', Release ''online_mask'']
    \<and> list_all is_print txt \<and> (c = 0 \<longleftrightarrow> list_all (cpu_good prof_demo ?a) [0, 2])"
    by (rule profile_releases [OF opts _ _ _ env(1) _ run on [symmetric]]) (simp_all add: prof_demo_def)
  then show ?thesis by (auto simp: run cpus env(2))
qed

end
