(* ===== verification/TaskIter.thy ===== *)
theory TaskIter
  imports RingBuf
begin

section \<open>task_iter: the tasks of the system\<close>

text \<open>
  \<open>examples/c/task_iter.bpf.c\<close> is run by the kernel's task iterator for every task, and once more with no task at the
  end; it writes a record to the iterator's file. \<open>examples/c/task_iter.c\<close> reads the file and prints a
  line for every record. What the kernel gives the program for a task is a \<open>task_visit\<close>: the task, and what
  \<open>bpf_get_task_stack\<close> returns and stores. The per-CPU buffer keeps its contents from one task to the next.
  The variables that the loader reads before it sets them are the fields \<open>i_junk_err\<close> and \<open>i_junk_fd\<close>.
  Shown: the loader prints one line for every task, in the order of the visits, however often a read has
  to be repeated; and its exit code when no argument is given is the uninitialised variable.
\<close>

subsection \<open>Data\<close>

definition MAX_STACK_LEN :: nat where
  "MAX_STACK_LEN = 127"

definition TASK_COMM_LEN :: nat where
  "TASK_COMM_LEN = 16"

record task_info =
  ti_pid :: u32
  ti_tid :: u32
  ti_state :: u32
  ti_comm :: "char list"
  ti_kstack_len :: u32
  ti_kstack :: "u64 list"

text \<open>A task as the kernel has it: before version 5.14 the state is a \<open>long\<close> named \<open>state\<close>, since then an
  \<open>unsigned int\<close> named \<open>__state\<close>.\<close>

datatype state_field = Pre514 u64 | Post514 u32

record task_struct =
  k_tgid :: u32
  k_pid :: u32
  k_state :: state_field
  k_comm :: comm

record task_visit =
  v_task :: "task_struct option"
  v_res :: int
  v_frames :: "u64 list"

subsection \<open>The iterator program\<close>

definition get_task_state_bpf :: "state_field \<Rightarrow> u32" where
  "get_task_state_bpf f = (case f of Pre514 s \<Rightarrow> ucast s | Post514 s \<Rightarrow> s)"

text \<open>\<open>buf\<close> is the entry of the per-CPU array. The result is the return value, the entry afterwards and
  what \<open>bpf_seq_write\<close> wrote. \<open>bpf_get_task_stack\<close> stores as many frames as its result says.\<close>

definition store_frames :: "u64 list \<Rightarrow> u64 list \<Rightarrow> int \<Rightarrow> u64 list" where
  "store_frames old new res = (let n = nat (res div 8) in take n new @ drop n old)"

definition get_tasks :: "task_visit \<Rightarrow> task_info option \<Rightarrow> int \<times> task_info option \<times> task_info list" where
  "get_tasks v buf =
     (case v_task v of
        None \<Rightarrow> (0, buf, [])
      | Some task \<Rightarrow>
          (case buf of
             None \<Rightarrow> (0, buf, [])
           | Some t \<Rightarrow>
               let t1 = t\<lparr>ti_pid := k_tgid task, ti_tid := k_pid task, ti_state := get_task_state_bpf (k_state task),
                          ti_comm := read_str TASK_COMM_LEN (k_comm task)\<rparr>;
                   res = v_res v;
                   t2 = t1\<lparr>ti_kstack := (if res \<le> 0 then ti_kstack t1 else store_frames (ti_kstack t1) (v_frames v) res),
                           ti_kstack_len := word_of_int (if res \<le> 0 then res else res div 8)\<rparr>
               in (0, Some t2, [t2])))"

primrec iter_output :: "task_visit list \<Rightarrow> task_info option \<Rightarrow> task_info list" where
  "iter_output [] buf = []"
| "iter_output (v # vs) buf = (let (r, buf', out) = get_tasks v buf in out @ iter_output vs buf')"

subsection \<open>The loader\<close>

definition get_task_state :: "u32 \<Rightarrow> string" where
  "get_task_state state =
     (if state = 0x0000 then ''RUNNING''
      else if state = 0x0001 then ''INTERRUPTIBLE''
      else if state = 0x0002 then ''UNINTERRUPTIBLE''
      else if state = 0x0200 then ''WAKING''
      else if state = 0x0400 then ''NOLOAD''
      else if state = 0x0402 then ''IDLE''
      else if state = 0x0800 then ''NEW''
      else ''<unknown>'')"

definition EAGAIN :: int where "EAGAIN = 11"
definition ERANGE :: int where "ERANGE = 34"

datatype read_result = Got task_info | Read_fail int | Eof

definition print_task :: "task_info \<Rightarrow> effect" where
  "print_task buf =
     (let len = sint (ti_kstack_len buf); pid = fmt_d (sint (ti_pid buf)); name = c_str (ti_comm buf);
          state = get_task_state (ti_state buf)
      in if len \<le> 0
         then Stdout (''Error getting kernel stack for task. Task Info. Pid: '' @ pid @ ''. Process Name: '' @ name @
                ''. Kernel Stack Error: '' @ fmt_d len @ ''. State: '' @ state @ nl)
         else Stdout (''Task Info. Pid: '' @ pid @ ''. Process Name: '' @ name @ ''. Kernel Stack Len: '' @ fmt_d len @
                ''. State: '' @ state @ nl))"

text \<open>The read loop: \<open>err\<close> at the end, or \<open>None\<close> while it still reads.\<close>

fun read_loop :: "read_result list \<Rightarrow> int \<Rightarrow> int option \<times> effect list" where
  "read_loop [] err = (None, [])"
| "read_loop (Read_fail e # rs) err = (if e = EAGAIN then read_loop rs err else (Some (- e), []))"
| "read_loop (Eof # rs) err = (Some err, [])"
| "read_loop (Got buf # rs) err = (let (r, out) = read_loop rs err in (r, print_task buf # out))"

record iter_env =
  i_arg :: "string option"
  i_opened :: bool
  i_attach_ok :: bool
  i_errno :: int
  i_fd :: int
  i_reads :: "int \<Rightarrow> read_result list"
  i_junk_err :: int
  i_junk_fd :: int

definition close_fd :: "int \<Rightarrow> effect" where
  "close_fd fd = Release (''fd '' @ fmt_d fd)"

definition iter_exit :: "int \<Rightarrow> status" where
  "iter_exit err = Exited (if err < 0 then - err else 0)"

text \<open>The argument: the value of \<open>err\<close> and the process id to filter for, or the failure.\<close>

definition parse_pid :: "iter_env \<Rightarrow> (int \<times> effect list) + (int \<times> int)" where
  "parse_pid env =
     (case i_arg env of
        None \<Rightarrow> Inr (i_junk_err env, 0)
      | Some a \<Rightarrow>
          let (v, overflow) = strtol10 a;
              pid_filter = sint (word_of_int v :: u32);
              err = (if overflow then - ERANGE else 0)
          in if err \<noteq> 0 \<or> pid_filter < 0 then Inl (err, [err_line (''Failed to parse pid '' @ [CHR 0x27] @ a @ [CHR 0x27])])
             else Inr (err, pid_filter))"

definition task_iter_main :: "iter_env \<Rightarrow> status \<times> effect list" where
  "task_iter_main env =
     (case parse_pid env of
        Inl (err, out) \<Rightarrow> (Exited err, out)
      | Inr (err, pid_filter) \<Rightarrow>
          if \<not> i_opened env
          then (iter_exit err, [err_line ''Failed to open and load BPF skeleton'', close_fd (i_junk_fd env), Destroy])
          else if \<not> i_attach_ok env
          then (iter_exit (- i_errno env), [err_line ''Failed to attach BPF skeleton'', close_fd (i_junk_fd env), Destroy])
          else if i_fd env < 0
          then (iter_exit (- 1), [err_line ''Failed to create iter'', close_fd (i_fd env), Destroy])
          else let (r, out) = read_loop (i_reads env pid_filter) err in
            case r of
              None \<Rightarrow> (Running, out)
            | Some err' \<Rightarrow> (iter_exit err', out @ [close_fd (i_fd env), Destroy]))"

subsection \<open>The specification: one line for a task\<close>

definition frames_text :: "int \<Rightarrow> string \<times> string \<times> string" where
  "frames_text res =
     (if res < 8 then (''Error getting kernel stack for task. '', ''Kernel Stack Error: '', fmt_d (if res \<le> 0 then res else 0))
      else ('''', ''Kernel Stack Len: '', fmt_nat (nat res div 8)))"

definition task_line :: "task_visit \<Rightarrow> effect list" where
  "task_line v =
     (case v_task v of
        None \<Rightarrow> []
      | Some task \<Rightarrow>
          let (pre, label, len) = frames_text (v_res v) in
          [Stdout (pre @ ''Task Info. Pid: '' @ fmt_d (sint (k_tgid task)) @ ''. Process Name: '' @ take 15 (c_str (k_comm task)) @
             ''. '' @ label @ len @ ''. State: '' @ get_task_state (get_task_state_bpf (k_state task)) @ nl)])"

definition visit_ok :: "task_visit \<Rightarrow> bool" where
  "visit_ok v \<longleftrightarrow> - (2 ^ 31) \<le> v_res v \<and> v_res v \<le> int (8 * MAX_STACK_LEN)"

lemma sint_len: "- (2 ^ 31) \<le> n \<Longrightarrow> n < 2 ^ 31 \<Longrightarrow> sint (word_of_int n :: u32) = n"
  by (simp add: signed_of_int signed_take_bit_int_eq_self)

lemma print_visit:
  assumes "visit_ok v" and "v_task v = Some task"
  shows "\<exists>t r. get_tasks v (Some b) = (r, Some t, [t]) \<and> [print_task t] = task_line v"
proof -
  let ?n = "if v_res v \<le> 0 then v_res v else v_res v div 8"
  have "v_res v \<le> 1016" using assms(1) by (simp add: visit_ok_def MAX_STACK_LEN_def)
  then have "v_res v div 8 \<le> 127" by linarith
  then have n: "sint (word_of_int ?n :: u32) = ?n" using assms(1) by (intro sint_len) (auto simp: visit_ok_def)
  have pos: "?n \<le> 0 \<longleftrightarrow> v_res v < 8" by auto
  have len: "fmt_d ?n = snd (snd (frames_text (v_res v)))"
  proof (cases "v_res v < 8")
    case True
    then show ?thesis by (auto simp: frames_text_def)
  next
    case False
    then have "?n = int (nat (v_res v) div 8)" by (simp add: zdiv_int)
    then have "fmt_d ?n = fmt_nat (nat (v_res v) div 8)" unfolding fmt_d_def by (simp del: zdiv_int)
    with False show ?thesis by (simp add: frames_text_def)
  qed
  have name: "c_str (read_str TASK_COMM_LEN (k_comm task)) = take 15 (c_str (k_comm task))"
    by (simp add: c_str_read_str TASK_COMM_LEN_def)
  define w where "w = (word_of_int ?n :: u32)"
  define t where "t = b\<lparr>ti_pid := k_tgid task, ti_tid := k_pid task, ti_state := get_task_state_bpf (k_state task),
    ti_comm := read_str TASK_COMM_LEN (k_comm task),
    ti_kstack := (if v_res v \<le> 0 then ti_kstack b else store_frames (ti_kstack b) (v_frames v) (v_res v)), ti_kstack_len := w\<rparr>"
  have "get_tasks v (Some b) = (0, Some t, [t])" using assms(2) by (simp add: get_tasks_def t_def w_def Let_def)
  moreover have "sint w \<le> 0 \<longleftrightarrow> v_res v < 8" "fmt_d (sint w) = snd (snd (frames_text (v_res v)))"
    unfolding w_def n by (rule pos, rule len)
  then have "[print_task t] = task_line v"
    using assms(2) by (cases "v_res v < 8") (simp_all add: print_task_def task_line_def t_def name frames_text_def)
  ultimately show ?thesis by blast
qed

lemma iter_output_lines:
  assumes "\<forall>v \<in> set vs. visit_ok v"
  shows "map print_task (iter_output vs (Some b)) = concat (map task_line vs)"
  using assms
proof (induction vs arbitrary: b)
  case (Cons v vs)
  show ?case
  proof (cases "v_task v")
    case None
    then show ?thesis using Cons by (simp add: get_tasks_def task_line_def)
  next
    case (Some task)
    then obtain t r where t: "get_tasks v (Some b) = (r, Some t, [t])" "[print_task t] = task_line v"
      using print_visit Cons.prems by (metis list.set_intros(1))
    then show ?thesis using Cons by (simp flip: t(2))
  qed
qed simp

text \<open>Reads that have to be repeated make no difference.\<close>

lemma read_loop_retry: "read_loop rs err = read_loop (filter (\<lambda>r. r \<noteq> Read_fail EAGAIN) rs) err"
  by (induction rs err rule: read_loop.induct) auto

lemma read_loop_records: "read_loop (map Got ts @ Eof # rs) err = (Some err, map print_task ts)"
  by (induction ts) simp_all

subsection \<open>Properties\<close>


definition demo_visits :: "task_visit list" where
  "demo_visits = [\<lparr>v_task = Some \<lparr>k_tgid = 1, k_pid = 1, k_state = Post514 1, k_comm = ''init''\<rparr>, v_res = 16, v_frames = [5, 6]\<rparr>,
     \<lparr>v_task = None, v_res = 0, v_frames = []\<rparr>]"

definition zero_task_info :: task_info where
  "zero_task_info = \<lparr>ti_pid = 0, ti_tid = 0, ti_state = 0, ti_comm = [], ti_kstack_len = 0, ti_kstack = replicate MAX_STACK_LEN 0\<rparr>"

definition iter_demo :: iter_env where
  "iter_demo = \<lparr>i_arg = Some ''1'', i_opened = True, i_attach_ok = True, i_errno = 0, i_fd = 5,
     i_reads = (\<lambda>p. Read_fail EAGAIN # map Got (iter_output demo_visits (Some zero_task_info)) @ [Eof]), i_junk_err = 99, i_junk_fd = 99\<rparr>"


text \<open>Run without an argument, task_iter never sets \<open>err\<close> on the way to a successful end: whatever the tasks, its
  exit code is whatever the uninitialised variable held.\<close>

theorem task_iter_exit_uninitialised:
  assumes "i_arg env = None" and "i_opened env" and "i_attach_ok env" and "0 \<le> i_fd env"
    and "filter (\<lambda>r. r \<noteq> Read_fail EAGAIN) (i_reads env 0) = map Got ts @ [Eof]"
  shows "fst (task_iter_main env) = Exited (if i_junk_err env < 0 then - i_junk_err env else 0)"
proof -
  have "read_loop (i_reads env 0) (i_junk_err env) = (Some (i_junk_err env), map print_task ts)"
    by (subst read_loop_retry) (simp add: assms(5) read_loop_records)
  then show ?thesis using assms(1-4) by (simp add: task_iter_main_def parse_pid_def iter_exit_def)
qed

theorem task_iter_exit_uninitialised_witness:
  "fst (task_iter_main (iter_demo\<lparr>i_arg := None, i_junk_err := - 7\<rparr>)) = Exited 7"
  using task_iter_exit_uninitialised [of "iter_demo\<lparr>i_arg := None, i_junk_err := - 7\<rparr>" "iter_output demo_visits (Some zero_task_info)"]
  by (simp add: iter_demo_def)

end
