(* ===== verification/Tracecon.thy ===== *)
theory Tracecon
  imports RingBuf MapInstances
begin

section \<open>tracecon: connections with the host names they were looked up by\<close>

text \<open>
  \<open>examples/rust/tracecon/src/bpf/tracecon.bpf.c\<close> follows \<open>getaddrinfo\<close> and \<open>tcp_v4_connect\<close> by their entry and return
  probes. Two maps keyed by thread carry the arguments from entry to return, a third remembers the host
  name of every address resolved; a successful connection is reported by that name, which is then
  forgotten, or by its address.
  The probes read user and kernel memory: \<open>probe_ctx\<close> has what a read returns at the time of the probe. A
  read that fails fills its destination with zeros, and \<open>user_str\<close> is then the empty string.
  Shown: a connection to an address that a lookup has resolved is reported by the name looked up,
  whatever other lookups and connections all threads interleave with it.
\<close>

subsection \<open>Data\<close>

definition HOSTNAME_LEN :: nat where
  "HOSTNAME_LEN = 84"

record lookup =
  lk_c :: "char list"
  lk_results :: u64

datatype tag = IP | HOSTNAME

record tcon_event =
  te_tag :: tag
  te_ip :: u32
  te_hostname :: "char list"

definition zero_chars :: "char list" where
  "zero_chars = replicate HOSTNAME_LEN (CHR 0x00)"

definition zero_tcon_event :: tcon_event where
  "zero_tcon_event = \<lparr>te_tag = IP, te_ip = 0, te_hostname = zero_chars\<rparr>"

record ('l, 'h, 's) tcon =
  lookups :: 'l
  hostnames :: 'h
  sockets :: 's
  outbox :: "tcon_event list"

record probe_ctx = helpers +
  user_str :: "u64 \<Rightarrow> char list"
  user_ptr :: "u64 \<Rightarrow> u64"
  user_u32 :: "u64 \<Rightarrow> u32"
  skc_daddr :: "u64 \<Rightarrow> u32"

record ('l, 'h, 's) tcon_ops =
  l_ops :: "('l, u32, lookup) map_ops"
  h_ops :: "('h, u32, lookup) map_ops"
  s_ops :: "('s, u32, u64) map_ops"

subsection \<open>The probes\<close>

definition get_tid :: "u32 \<Rightarrow> probe_ctx \<Rightarrow> u32" where
  "get_tid target_pid ctx =
     (let tgid = cur_pid_tgid ctx; pid = tgid_of tgid in
      if target_pid \<noteq> 0 \<and> target_pid \<noteq> pid then 0 else tid_of tgid)"

text \<open>\<open>bpf_probe_read_user_str\<close> into a zeroed array.\<close>

definition read_hostname :: "char list \<Rightarrow> char list" where
  "read_hostname s = (let t = read_str HOSTNAME_LEN s in t @ drop (length t) zero_chars)"

lemma c_str_append: "CHR 0x00 \<in> set s \<Longrightarrow> c_str (s @ t) = c_str s"
  by (simp add: c_str_def takeWhile_append1)

lemma c_str_read_hostname: "c_str (read_hostname s) = take 83 (c_str s)"
proof -
  have "CHR 0x00 \<in> set (read_str HOSTNAME_LEN s)" by (simp add: read_str_def)
  from c_str_append [OF this] show ?thesis by (simp add: read_hostname_def Let_def c_str_read_str HOSTNAME_LEN_def)
qed

definition getaddrinfo_enter ::
  "('l, 'h, 's) tcon_ops \<Rightarrow> u32 \<Rightarrow> probe_ctx \<Rightarrow> u64 \<Rightarrow> u64 \<Rightarrow> ('l, 'h, 's) tcon \<Rightarrow> int \<times> ('l, 'h, 's) tcon" where
  "getaddrinfo_enter ops target_pid ctx hostname res s =
     (let tid = get_tid target_pid ctx in
      if tid = 0 then (0, s)
      else let lookup = \<lparr>lk_c = read_hostname (user_str ctx hostname), lk_results = res\<rparr> in
           (0, s\<lparr>lookups := snd (update_elem (l_ops ops) (lookups s) tid lookup BPF_ANY)\<rparr>))"

text \<open>\<open>ai_addr\<close> is at offset 24 of \<open>struct addrinfo\<close>, \<open>sin_addr\<close> at offset 4 of \<open>struct sockaddr_in\<close>.\<close>

definition resolved :: "probe_ctx \<Rightarrow> u64 \<Rightarrow> u32" where
  "resolved ctx results =
     (let result = user_ptr ctx results; addr = user_ptr ctx (result + 24) in user_u32 ctx (addr + 4))"

definition getaddrinfo_exit ::
  "('l, 'h, 's) tcon_ops \<Rightarrow> u32 \<Rightarrow> probe_ctx \<Rightarrow> int \<Rightarrow> ('l, 'h, 's) tcon \<Rightarrow> int \<times> ('l, 'h, 's) tcon" where
  "getaddrinfo_exit ops target_pid ctx ret s =
     (let tid = get_tid target_pid ctx;
          cleanup = (\<lambda>s. (0, s\<lparr>lookups := snd (delete_elem (l_ops ops) (lookups s) tid)\<rparr>))
      in if tid = 0 then (0, s)
         else if ret \<noteq> 0 then cleanup s
         else case lookup_elem (l_ops ops) (lookups s) tid of
                None \<Rightarrow> (0, s)
              | Some lookup \<Rightarrow>
                  cleanup (s\<lparr>hostnames := snd (update_elem (h_ops ops) (hostnames s) (resolved ctx (lk_results lookup)) lookup BPF_ANY)\<rparr>))"

definition tcp_v4_connect_enter ::
  "('l, 'h, 's) tcon_ops \<Rightarrow> u32 \<Rightarrow> probe_ctx \<Rightarrow> u64 \<Rightarrow> ('l, 'h, 's) tcon \<Rightarrow> int \<times> ('l, 'h, 's) tcon" where
  "tcp_v4_connect_enter ops target_pid ctx sk s =
     (let tid = get_tid target_pid ctx in
      if tid = 0 then (0, s)
      else (0, s\<lparr>sockets := snd (update_elem (s_ops ops) (sockets s) tid sk BPF_ANY)\<rparr>))"

definition tcp_v4_connect_exit ::
  "('l, 'h, 's) tcon_ops \<Rightarrow> u32 \<Rightarrow> probe_ctx \<Rightarrow> int \<Rightarrow> ('l, 'h, 's) tcon \<Rightarrow> int \<times> ('l, 'h, 's) tcon" where
  "tcp_v4_connect_exit ops target_pid ctx ret s =
     (let tid = get_tid target_pid ctx;
          cleanup = (\<lambda>s. (0, s\<lparr>sockets := snd (delete_elem (s_ops ops) (sockets s) tid)\<rparr>))
      in if tid = 0 then (0, s)
         else if ret \<noteq> 0 then cleanup s
         else case lookup_elem (s_ops ops) (sockets s) tid of
                None \<Rightarrow> (0, s)
              | Some sockp \<Rightarrow>
                  let ip = skc_daddr ctx sockp in
                  case lookup_elem (h_ops ops) (hostnames s) ip of
                    None \<Rightarrow> cleanup (s\<lparr>outbox := outbox s @ [zero_tcon_event\<lparr>te_tag := IP, te_ip := ip\<rparr>]\<rparr>)
                  | Some lookup \<Rightarrow>
                      cleanup (s\<lparr>hostnames := snd (delete_elem (h_ops ops) (hostnames s) ip),
                                 outbox := outbox s @ [zero_tcon_event\<lparr>te_tag := HOSTNAME, te_hostname := lk_c lookup\<rparr>]\<rparr>))"

datatype tcon_probe =
    Gai_enter probe_ctx u64 u64
  | Gai_exit probe_ctx int
  | Conn_enter probe_ctx u64
  | Conn_exit probe_ctx int

definition tcon_step :: "('l, 'h, 's) tcon_ops \<Rightarrow> u32 \<Rightarrow> tcon_probe \<Rightarrow> ('l, 'h, 's) tcon \<Rightarrow> ('l, 'h, 's) tcon" where
  "tcon_step ops target_pid e s =
     snd (case e of
        Gai_enter ctx hostname res \<Rightarrow> getaddrinfo_enter ops target_pid ctx hostname res s
      | Gai_exit ctx ret \<Rightarrow> getaddrinfo_exit ops target_pid ctx ret s
      | Conn_enter ctx sk \<Rightarrow> tcp_v4_connect_enter ops target_pid ctx sk s
      | Conn_exit ctx ret \<Rightarrow> tcp_v4_connect_exit ops target_pid ctx ret s)"

subsection \<open>What an event leaves alone\<close>

text \<open>The thread's own lookup or connection is not interfered with, and the address is neither resolved again
  nor connected to.\<close>

fun gai_of :: "u32 \<Rightarrow> u32 \<Rightarrow> tcon_probe \<Rightarrow> bool" where
  "gai_of target tid (Gai_enter ctx h r) = (get_tid target ctx = tid)"
| "gai_of target tid (Gai_exit ctx ret) = (get_tid target ctx = tid)"
| "gai_of target tid _ = False"

fun conn_of :: "u32 \<Rightarrow> u32 \<Rightarrow> tcon_probe \<Rightarrow> bool" where
  "conn_of target tid (Conn_enter ctx sk) = (get_tid target ctx = tid)"
| "conn_of target tid (Conn_exit ctx ret) = (get_tid target ctx = tid)"
| "conn_of target tid _ = False"

fun uses_ip :: "('l, 'h, 's) tcon_ops \<Rightarrow> u32 \<Rightarrow> u32 \<Rightarrow> tcon_probe \<Rightarrow> ('l, 'h, 's) tcon \<Rightarrow> bool" where
  "uses_ip ops target ip (Gai_exit ctx ret) s =
     (case lookup_elem (l_ops ops) (lookups s) (get_tid target ctx) of None \<Rightarrow> False | Some lk \<Rightarrow> resolved ctx (lk_results lk) = ip)"
| "uses_ip ops target ip (Conn_exit ctx ret) s =
     (case lookup_elem (s_ops ops) (sockets s) (get_tid target ctx) of None \<Rightarrow> False | Some sk \<Rightarrow> skc_daddr ctx sk = ip)"
| "uses_ip ops target ip _ s = False"

primrec ip_unused :: "('l, 'h, 's) tcon_ops \<Rightarrow> u32 \<Rightarrow> u32 \<Rightarrow> tcon_probe list \<Rightarrow> ('l, 'h, 's) tcon \<Rightarrow> bool" where
  "ip_unused ops target ip [] s = True"
| "ip_unused ops target ip (e # es) s = (\<not> uses_ip ops target ip e s \<and> ip_unused ops target ip es (tcon_step ops target e s))"

lemmas tcon_defs = tcon_step_def getaddrinfo_enter_def getaddrinfo_exit_def tcp_v4_connect_enter_def tcp_v4_connect_exit_def

locale tcon_tool =
  l: bpf_hash "l_ops ops" lkeys lcap + h: bpf_hash "h_ops ops" nkeys ncap + s: bpf_hash "s_ops ops" skeys scap
  for ops :: "('l, 'h, 's) tcon_ops" and lkeys lcap nkeys ncap skeys scap
begin

lemma lookups_kept:
  assumes "\<not> gai_of tp t e"
  shows "lookup_elem (l_ops ops) (lookups (tcon_step ops tp e x)) t = lookup_elem (l_ops ops) (lookups x) t"
  using assms
  by (cases e) (auto simp: tcon_defs Let_def l.lookup_update_other l.lookup_delete_any split: option.split)

lemma sockets_kept:
  assumes "\<not> conn_of tp t e"
  shows "lookup_elem (s_ops ops) (sockets (tcon_step ops tp e x)) t = lookup_elem (s_ops ops) (sockets x) t"
  using assms
  by (cases e) (auto simp: tcon_defs Let_def s.lookup_update_other s.lookup_delete_any split: option.split)

lemma hostnames_kept:
  assumes "\<not> uses_ip ops tp ip e x"
  shows "lookup_elem (h_ops ops) (hostnames (tcon_step ops tp e x)) ip = lookup_elem (h_ops ops) (hostnames x) ip"
  using assms
  by (cases e) (auto simp: tcon_defs Let_def h.lookup_update_other h.lookup_delete_any split: option.splits)

lemma lookups_run:
  "\<forall>e \<in> set es. \<not> gai_of tp t e \<Longrightarrow>
     lookup_elem (l_ops ops) (lookups (fold (tcon_step ops tp) es x)) t = lookup_elem (l_ops ops) (lookups x) t"
  by (induction es arbitrary: x) (simp_all add: lookups_kept)

lemma sockets_run:
  "\<forall>e \<in> set es. \<not> conn_of tp t e \<Longrightarrow>
     lookup_elem (s_ops ops) (sockets (fold (tcon_step ops tp) es x)) t = lookup_elem (s_ops ops) (sockets x) t"
  by (induction es arbitrary: x) (simp_all add: sockets_kept)

lemma hostnames_run:
  "ip_unused ops tp ip es x \<Longrightarrow>
     lookup_elem (h_ops ops) (hostnames (fold (tcon_step ops tp) es x)) ip = lookup_elem (h_ops ops) (hostnames x) ip"
  by (induction es arbitrary: x) (simp_all add: hostnames_kept)

text \<open>A completed lookup, and a completed connection.\<close>

lemma lookup_recorded:
  assumes "get_tid tp c1 = t" and "get_tid tp c2 = t" and "t \<noteq> 0" and "length (lkeys (lookups x)) < lcap (lookups x)"
    and "\<forall>e \<in> set es. \<not> gai_of tp t e" and "y = fold (tcon_step ops tp) (Gai_enter c1 name res # es) x"
    and "length (nkeys (hostnames y)) < ncap (hostnames y)" and "z = tcon_step ops tp (Gai_exit c2 0) y"
  shows "lookup_elem (h_ops ops) (hostnames z) (resolved c2 res) = Some \<lparr>lk_c = read_hostname (user_str c1 name), lk_results = res\<rparr>
    \<and> lookup_elem (l_ops ops) (lookups z) t = None"
proof -
  let ?lk = "\<lparr>lk_c = read_hostname (user_str c1 name), lk_results = res\<rparr>"
  have "lookup_elem (l_ops ops) (lookups y) t = Some ?lk"
    using assms(1,3,4,6) lookups_run [OF assms(5)] l.lookup_update_room [of "lookups x" t ?lk] by (simp add: tcon_defs Let_def)
  then show ?thesis
    using assms(2,3,7,8) h.lookup_update_room [of "hostnames y" "resolved c2 res" ?lk] by (simp add: tcon_defs Let_def l.lookup_delete_any)
qed

lemma connection_reported:
  assumes "get_tid tp c3 = t" and "get_tid tp c4 = t" and "t \<noteq> 0" and "length (skeys (sockets x)) < scap (sockets x)"
    and "\<forall>e \<in> set es. \<not> conn_of tp t e" and "y = fold (tcon_step ops tp) (Conn_enter c3 sk # es) x"
    and "lookup_elem (h_ops ops) (hostnames y) (skc_daddr c4 sk) = hn" and "z = tcon_step ops tp (Conn_exit c4 0) y"
  shows "outbox z = outbox y @ [case hn of
        None \<Rightarrow> zero_tcon_event\<lparr>te_tag := IP, te_ip := skc_daddr c4 sk\<rparr>
      | Some lk \<Rightarrow> zero_tcon_event\<lparr>te_tag := HOSTNAME, te_hostname := lk_c lk\<rparr>]
    \<and> lookup_elem (h_ops ops) (hostnames z) (skc_daddr c4 sk) = None \<and> lookup_elem (s_ops ops) (sockets z) t = None"
proof -
  have "lookup_elem (s_ops ops) (sockets y) t = Some sk"
    using assms(1,3,4,6) sockets_run [OF assms(5)] s.lookup_update_room [of "sockets x" t sk] by (simp add: tcon_defs Let_def)
  then show ?thesis
    using assms(2,3,7,8) by (cases hn) (simp_all add: tcon_defs Let_def s.lookup_delete_any h.lookup_delete_any)
qed

end

interpretation tcon: tcon_tool "\<lparr>l_ops = hash_ops a, h_ops = hash_ops b, s_ops = hash_ops c\<rparr>" hm_keys hcap hm_keys hcap hm_keys hcap
  by (rule tcon_tool.intro; simp add: hm.bpf_hash_axioms)

subsection \<open>Properties\<close>

text \<open>C6: a thread looks a name up and the lookup succeeds; later a thread, the same or another, connects to the
  address found. Whatever probes of other threads come in between, as long as the address is neither
  resolved nor connected to meanwhile and the maps have room, the return of the connection submits one
  event with the name that was looked up (its first 83 characters), and the name, the pending lookup
  and the pending connection are all forgotten.\<close>

theorem tracecon_reports_hostname:
  assumes "bpf_hash (l_ops ops) lkeys lcap" and "bpf_hash (h_ops ops) nkeys ncap" and "bpf_hash (s_ops ops) skeys scap"
    and "get_tid tp c1 = t" and "get_tid tp c2 = t" and "t \<noteq> 0" and "get_tid tp c3 = t'" and "get_tid tp c4 = t'" and "t' \<noteq> 0"
    and "\<forall>e \<in> set es1. \<not> gai_of tp t e" and "\<forall>e \<in> set es3. \<not> conn_of tp t' e"
    and "s1 = fold (tcon_step ops tp) (Gai_enter c1 name res # es1) s0" and "s2 = tcon_step ops tp (Gai_exit c2 0) s1"
    and "s3 = fold (tcon_step ops tp) es2 s2" and "s4 = fold (tcon_step ops tp) (Conn_enter c3 sk # es3) s3"
    and "s5 = tcon_step ops tp (Conn_exit c4 0) s4"
    and "ip_unused ops tp ip (es2 @ Conn_enter c3 sk # es3) s2" and "ip = resolved c2 res" and "skc_daddr c4 sk = ip"
    and "length (lkeys (lookups s0)) < lcap (lookups s0)" and "length (nkeys (hostnames s1)) < ncap (hostnames s1)"
    and "length (skeys (sockets s3)) < scap (sockets s3)"
  shows "outbox s5 = outbox s4 @ [zero_tcon_event\<lparr>te_tag := HOSTNAME, te_hostname := read_hostname (user_str c1 name)\<rparr>]
    \<and> c_str (te_hostname (last (outbox s5))) = take 83 (c_str (user_str c1 name))
    \<and> lookup_elem (h_ops ops) (hostnames s5) ip = None \<and> lookup_elem (l_ops ops) (lookups s2) t = None
    \<and> lookup_elem (s_ops ops) (sockets s5) t' = None"
proof -
  have tool: "tcon_tool ops lkeys lcap nkeys ncap skeys scap" using assms(1-3) by (rule tcon_tool.intro)
  note found = tcon_tool.lookup_recorded [OF tool assms(4-6) assms(20) assms(10,12) assms(21) assms(13)]
  have "s4 = fold (tcon_step ops tp) (es2 @ Conn_enter c3 sk # es3) s2" using assms(14,15) by simp
  then have "lookup_elem (h_ops ops) (hostnames s4) (skc_daddr c4 sk) = Some \<lparr>lk_c = read_hostname (user_str c1 name), lk_results = res\<rparr>"
    using tcon_tool.hostnames_run [OF tool assms(17)] found assms(18,19) by simp
  from tcon_tool.connection_reported [OF tool assms(7-9) assms(22) assms(11,15) this assms(16)] found assms(18,19)
  show ?thesis by (simp add: c_str_read_hostname)
qed

definition demo_ctx :: "u32 \<Rightarrow> probe_ctx" where
  "demo_ctx t = \<lparr>cur_pid_tgid = mk_pid_tgid 7 t, cur_comm = [], ktime_ns = 0, smp_cpu = 0, user_str = (\<lambda>_. ''example.org''),
     user_ptr = (\<lambda>p. p + 100), user_u32 = (\<lambda>_. 0x5DB8D822), skc_daddr = (\<lambda>_. 0x5DB8D822)\<rparr>"

definition demo_tcon_ops :: "((u32, lookup) hmap, (u32, lookup) hmap, (u32, u64) hmap) tcon_ops" where
  "demo_tcon_ops = \<lparr>l_ops = hash_ops False, h_ops = hash_ops True, s_ops = hash_ops False\<rparr>"

definition demo_tcon :: "((u32, lookup) hmap, (u32, lookup) hmap, (u32, u64) hmap) tcon" where
  "demo_tcon = \<lparr>lookups = empty_hash 10240, hostnames = empty_hash 10240, sockets = empty_hash 10240, outbox = []\<rparr>"

theorem tracecon_reports_hostname_witness:
  "map te_hostname (outbox (fold (tcon_step demo_tcon_ops 7)
     [Gai_enter (demo_ctx 8) 1 2, Conn_enter (demo_ctx 9) 5, Gai_exit (demo_ctx 8) 0, Conn_enter (demo_ctx 8) 3,
      Gai_enter (demo_ctx 9) 1 2, Conn_exit (demo_ctx 8) 0] demo_tcon)) = [read_hostname ''example.org'']"
proof -
  let ?s1 = "fold (tcon_step demo_tcon_ops 7) (Gai_enter (demo_ctx 8) 1 2 # [Conn_enter (demo_ctx 9) 5]) demo_tcon"
  let ?s2 = "tcon_step demo_tcon_ops 7 (Gai_exit (demo_ctx 8) 0) ?s1"
  let ?s4 = "fold (tcon_step demo_tcon_ops 7) (Conn_enter (demo_ctx 8) 3 # [Gai_enter (demo_ctx 9) 1 2]) ?s2"
  have hash: "bpf_hash (l_ops demo_tcon_ops) hm_keys hcap" "bpf_hash (h_ops demo_tcon_ops) hm_keys hcap" "bpf_hash (s_ops demo_tcon_ops) hm_keys hcap"
    by (simp_all add: demo_tcon_ops_def hm.bpf_hash_axioms)
  have tid: "get_tid 7 (demo_ctx t) = t" for t by (simp add: get_tid_def demo_ctx_def)
  have mem: "user_str (demo_ctx t) n = ''example.org''" "resolved (demo_ctx t) r = 0x5DB8D822" "skc_daddr (demo_ctx t) k = 0x5DB8D822" for t n r k
    by (simp_all add: demo_ctx_def resolved_def)
  note run = tcon_defs tid mem demo_tcon_ops_def demo_tcon_def hash_ops_def hm_update_def hm_lookup_def hm_keys_def empty_hash_def Let_def
  have room: "length (hm_keys (lookups demo_tcon)) < hcap (lookups demo_tcon)"
      "length (hm_keys (hostnames ?s1)) < hcap (hostnames ?s1)" "length (hm_keys (sockets ?s2)) < hcap (sockets ?s2)"
    by (simp_all add: run)
  have quiet: "ip_unused demo_tcon_ops 7 0x5DB8D822 ([] @ Conn_enter (demo_ctx 8) 3 # [Gai_enter (demo_ctx 9) 1 2]) ?s2" by simp
  have others: "\<forall>e \<in> set [Conn_enter (demo_ctx 9) 5]. \<not> gai_of 7 8 e" "\<forall>e \<in> set [Gai_enter (demo_ctx 9) 1 2]. \<not> conn_of 7 8 e"
    by simp_all
  have skip: "?s2 = fold (tcon_step demo_tcon_ops 7) [] ?s2" by simp
  have "outbox (tcon_step demo_tcon_ops 7 (Conn_exit (demo_ctx 8) 0) ?s4) =
      outbox ?s4 @ [zero_tcon_event\<lparr>te_tag := HOSTNAME, te_hostname := read_hostname (user_str (demo_ctx 8) 1)\<rparr>]"
    by (rule tracecon_reports_hostname [OF hash tid tid _ tid tid _ others refl refl skip refl refl quiet mem(2) [symmetric] mem(3) room,
        THEN conjunct1]) simp_all
  then show ?thesis by (simp add: run)
qed

end
