(* ===== verification/KernelUtils.thy ===== *)
theory KernelUtils
  imports CLib
begin

section \<open>kernel_utils.h: looking a symbol up in /proc/kallsyms\<close>

text \<open>
  \<open>my_tools/common/kernel_utils.h\<close> reads \<open>/proc/kallsyms\<close> with \<open>fscanf\<close>, three conversions a round. A line of
  that file is an address, a type and a name, and for a symbol of a module a fourth column, the module
  in brackets; the symbols of the modules follow those of the kernel proper.
  Shown: on the lines of the kernel proper the lookup is exact. From the first module on the conversions
  no longer line up with the lines.
\<close>

definition fscanf3 :: "string \<Rightarrow> ((string \<times> char \<times> string) \<times> string) option" where
  "fscanf3 s =
     Option.bind (scan_s 31 s) (\<lambda>(addr, s1).
     Option.bind (scan_c (skip_ws s1)) (\<lambda>(type, s2).
     Option.bind (scan_s 255 (skip_ws s2)) (\<lambda>(name, s3).
       Some ((addr, type, name), s3))))"

lemma skip_ws_le: "length (skip_ws s) \<le> length s"
  by (simp add: skip_ws_def length_dropWhile_le)

lemma fscanf3_shorter:
  assumes "fscanf3 s = Some (r, s')"
  shows "length s' < length s"
proof -
  from assms obtain addr s1 c s2 name where
    1: "scan_s 31 s = Some (addr, s1)" and 2: "scan_c (skip_ws s1) = Some (c, s2)" and 3: "scan_s 255 (skip_ws s2) = Some (name, s')"
    by (auto simp: fscanf3_def Option.bind_eq_Some_conv)
  have "length s2 < length (skip_ws s1)" using 2 by (auto simp: scan_c_def split: list.splits)
  with scan_s_shorter [OF 1] scan_s_shorter [OF 3] skip_ws_le [of s1] skip_ws_le [of s2] show ?thesis by simp
qed

function scan_loop :: "string \<Rightarrow> string \<Rightarrow> bool" where
  "scan_loop symb s =
     (case fscanf3 s of
        None \<Rightarrow> False
      | Some ((addr, type, name), s') \<Rightarrow> if name = symb then True else scan_loop symb s')"
  by pat_completeness auto
termination
  by (relation "measure (\<lambda>(symb, s). length s)") (auto dest: fscanf3_shorter)

declare scan_loop.simps [simp del]

text \<open>\<open>kallsyms\<close> is the contents of the file, or nothing if it cannot be opened.\<close>

definition symbol_exists :: "string option \<Rightarrow> string \<Rightarrow> bool" where
  "symbol_exists kallsyms symb = (case kallsyms of None \<Rightarrow> False | Some s \<Rightarrow> scan_loop symb s)"

text \<open>\<open>uname\<close> and \<open>strdup\<close>: a copy of the release string unless one of them fails.\<close>

definition get_kernel_release :: "string option \<Rightarrow> bool \<Rightarrow> string option" where
  "get_kernel_release uname_release strdup_ok =
     (case uname_release of None \<Rightarrow> None | Some r \<Rightarrow> if strdup_ok then Some (c_str r) else None)"

subsection \<open>The file\<close>

record ksym =
  ks_addr :: string
  ks_type :: char
  ks_name :: string

definition ksym_ok :: "ksym \<Rightarrow> bool" where
  "ksym_ok y \<longleftrightarrow> solid (ks_addr y) \<and> 2 \<le> length (ks_addr y) \<and> length (ks_addr y) \<le> 31 \<and> \<not> is_space (ks_type y) \<and>
     solid (ks_name y) \<and> 2 \<le> length (ks_name y) \<and> length (ks_name y) \<le> 255"

definition ksym_cols :: "ksym \<Rightarrow> string" where
  "ksym_cols y = ks_addr y @ '' '' @ [ks_type y] @ '' '' @ ks_name y"

definition kernel_line :: "ksym \<Rightarrow> string" where
  "kernel_line y = ksym_cols y @ nl"

definition module_line :: "string \<Rightarrow> ksym \<Rightarrow> string" where
  "module_line md y = ksym_cols y @ [CHR 0x09] @ md @ nl"

definition module_ok :: "string \<Rightarrow> bool" where
  "module_ok md \<longleftrightarrow> solid md \<and> md \<noteq> [] \<and> length md \<le> 31"

subsection \<open>One round of conversions\<close>

lemma blanks [simp]: "blank []" "blank nl" "blank [CHR 0x09]" "blank '' ''" "blank (CHR 0x0A # [])" "blank (CHR 0x09 # [])"
  by (simp_all add: blank_def nl_def is_space_def)

lemma word_ends_blank [simp]: "word_ends (CHR '' '' # s)" "word_ends (CHR 0x0A # s)" "word_ends (CHR 0x09 # s)" "word_ends []"
  by (simp_all add: word_ends_def is_space_def)

lemma fscanf3_words:
  assumes "blank b" and "solid a" and "a \<noteq> []" and "length a \<le> 31" and "blank b'" and "b' \<noteq> []" and "\<not> is_space c"
    and "blank b''" and "solid w" and "w \<noteq> []" and "length w \<le> 255" and "word_ends s"
  shows "fscanf3 (b @ a @ b' @ c # b'' @ w @ s) = Some ((a, c, w), s)"
proof -
  have "word_ends (b' @ c # b'' @ w @ s)" using assms(5,6) by (cases b') (simp_all add: blank_def word_ends_def)
  then have 1: "scan_s 31 (b @ a @ b' @ c # b'' @ w @ s) = Some (a, b' @ c # b'' @ w @ s)" using assms(1-4) by (intro scan_s_word)
  have 2: "skip_ws (b' @ c # b'' @ w @ s) = c # b'' @ w @ s"
    using assms(5,7) by (simp add: skip_ws_blank) (simp add: skip_ws_def)
  have 3: "skip_ws (b'' @ w @ s) = w @ s" using assms(8-10) by (simp add: skip_ws_blank skip_ws_solid)
  have "scan_s 255 (w @ s) = Some (w, s)" using scan_s_word [of "[]" w 255 s] assms(9-12) by simp
  with 1 2 3 show ?thesis by (simp add: fscanf3_def scan_c_def)
qed

lemma scan_loop_words:
  assumes "blank b" and "solid a" and "a \<noteq> []" and "length a \<le> 31" and "blank b'" and "b' \<noteq> []" and "\<not> is_space c"
    and "blank b''" and "solid w" and "w \<noteq> []" and "length w \<le> 255" and "word_ends s"
  shows "scan_loop symb (b @ a @ b' @ c # b'' @ w @ s) \<longleftrightarrow> symb = w \<or> scan_loop symb s"
  by (subst scan_loop.simps) (auto simp: fscanf3_words [OF assms])

lemma scan_loop_blank: "blank b \<Longrightarrow> \<not> scan_loop symb b"
  by (subst scan_loop.simps) (simp add: fscanf3_def scan_s_blank)

lemma scan_loop_ksym:
  assumes "ksym_ok y" and "blank b" and "word_ends s"
  shows "scan_loop symb (b @ ksym_cols y @ s) \<longleftrightarrow> symb = ks_name y \<or> scan_loop symb s"
proof -
  have "ks_addr y \<noteq> []" "ks_name y \<noteq> []" using assms(1) by (auto simp: ksym_ok_def)
  then show ?thesis
    using assms scan_loop_words [of b "ks_addr y" "'' ''" "ks_type y" "'' ''" "ks_name y" s symb]
    by (simp add: ksym_ok_def ksym_cols_def)
qed

text \<open>Two rounds that start at a module column: they take the rest of the address and the rest of the name
  for names.\<close>

lemma solid_tl:
  assumes "solid w" and "2 \<le> length w"
  obtains c v where "w = c # v" "\<not> is_space c" "solid v" "v \<noteq> []"
  using assms by (cases w; cases "tl w") (auto simp: solid_def)

lemma scan_loop_shifted:
  assumes "ksym_ok y" and "module_ok md" and "blank b" and "word_ends s"
  shows "scan_loop symb (b @ md @ nl @ ksym_cols y @ s) \<longleftrightarrow> symb = tl (ks_addr y) \<or> symb = tl (ks_name y) \<or> scan_loop symb s"
proof -
  note ok = assms(1) [unfolded ksym_ok_def]
  obtain c a where a: "ks_addr y = c # a" "\<not> is_space c" "solid a" "a \<noteq> []" using ok solid_tl by metis
  obtain d w where w: "ks_name y = d # w" "\<not> is_space d" "solid w" "w \<noteq> []" using ok solid_tl by metis
  let ?t = "ks_type y" let ?s' = "'' '' @ ks_name y @ s"
  have "scan_loop symb (b @ md @ nl @ ksym_cols y @ s) \<longleftrightarrow> symb = a \<or> scan_loop symb ('' '' @ [?t] @ ?s')"
    using scan_loop_words [of b md nl c "[]" a "'' '' @ [?t] @ ?s'" symb] assms(2,3) a ok
    by (simp add: module_ok_def ksym_cols_def nl_def)
  moreover have "scan_loop symb ('' '' @ [?t] @ ?s') \<longleftrightarrow> symb = w \<or> scan_loop symb s"
    using scan_loop_words [of "'' ''" "[?t]" "'' ''" d "[]" w s symb] assms(4) w ok
    by (simp add: solid_def)
  ultimately show ?thesis by (auto simp: a w)
qed

subsection \<open>Whole files\<close>

definition kernel_part :: "ksym list \<Rightarrow> string" where
  "kernel_part ys = concat (map kernel_line ys)"

definition module_part :: "(string \<times> ksym) list \<Rightarrow> string" where
  "module_part zs = concat (map (\<lambda>(md, y). module_line md y) zs)"

lemma scan_kernel_part:
  assumes "\<forall>y \<in> set ys. ksym_ok y" and "blank b"
  shows "\<exists>b'. blank b' \<and> (scan_loop symb (b @ kernel_part ys @ s) \<longleftrightarrow> symb \<in> ks_name ` set ys \<or> scan_loop symb (b' @ s))"
  using assms
proof (induction ys arbitrary: b)
  case Nil
  then show ?case by (auto simp: kernel_part_def)
next
  case (Cons y ys)
  obtain b' where b': "blank b'"
      "scan_loop symb (nl @ kernel_part ys @ s) \<longleftrightarrow> symb \<in> ks_name ` set ys \<or> scan_loop symb (b' @ s)"
    using Cons.IH [of nl] Cons.prems(1) by auto
  have "scan_loop symb (b @ kernel_part (y # ys) @ s) \<longleftrightarrow> symb = ks_name y \<or> scan_loop symb (nl @ kernel_part ys @ s)"
    using scan_loop_ksym [of y b "nl @ kernel_part ys @ s" symb] Cons.prems by (simp add: kernel_part_def kernel_line_def nl_def)
  with b' show ?case by auto
qed

lemma scan_module_part:
  assumes "\<forall>(md, y) \<in> set zs. module_ok md \<and> ksym_ok y" and "module_ok md" and "blank b"
  shows "scan_loop symb (b @ md @ nl @ module_part zs) \<longleftrightarrow> (\<exists>(md, y) \<in> set zs. symb = tl (ks_addr y) \<or> symb = tl (ks_name y))"
  using assms
proof (induction zs arbitrary: md b)
  case Nil
  have "fscanf3 (b @ md @ nl) = None"
    using Nil(2,3) scan_s_word [of b md 31 nl]
    by (simp add: fscanf3_def module_ok_def scan_c_def skip_ws_def nl_def is_space_def)
  then show ?case by (subst scan_loop.simps) (simp add: module_part_def)
next
  case (Cons z zs)
  obtain md' y where z: "z = (md', y)" by (cases z)
  have "scan_loop symb (b @ md @ nl @ module_part (z # zs)) \<longleftrightarrow>
      symb = tl (ks_addr y) \<or> symb = tl (ks_name y) \<or> scan_loop symb ([CHR 0x09] @ md' @ nl @ module_part zs)"
    using scan_loop_shifted [of y md b "[CHR 0x09] @ md' @ nl @ module_part zs" symb] Cons.prems z
    by (simp add: module_part_def module_line_def)
  then show ?case using Cons.IH [of md' "[CHR 0x09]"] Cons.prems z by auto
qed

subsection \<open>Properties\<close>

text \<open>C25: on a well-formed \<open>/proc/kallsyms\<close>, lines of the kernel followed by lines of modules, \<open>symbol_exists\<close> finds exactly
  the symbols of the kernel and the first symbol of the first module; from there on the fourth column
  shifts the conversions, so that every further module symbol is looked for without its first
  character, and so are the addresses. With no module loaded the answer is exact.\<close>

theorem symbol_exists_spec:
  assumes "\<forall>y \<in> set ys. ksym_ok y" and "\<forall>(md, y) \<in> set zs. module_ok md \<and> ksym_ok y"
  shows "symbol_exists (Some (kernel_part ys @ module_part zs)) symb \<longleftrightarrow>
    symb \<in> ks_name ` set ys \<or>
    (case zs of [] \<Rightarrow> False
     | (md, y) # zs' \<Rightarrow> symb = ks_name y \<or> (\<exists>(md', y') \<in> set zs'. symb = tl (ks_addr y') \<or> symb = tl (ks_name y')))"
proof -
  obtain b where b: "blank b"
      "scan_loop symb (kernel_part ys @ module_part zs) \<longleftrightarrow> symb \<in> ks_name ` set ys \<or> scan_loop symb (b @ module_part zs)"
    using scan_kernel_part [OF assms(1), of "[]" symb "module_part zs"] by auto
  show ?thesis
  proof (cases zs)
    case Nil
    then show ?thesis using b scan_loop_blank [of b symb] by (simp add: symbol_exists_def module_part_def)
  next
    case (Cons z zs')
    obtain md y where z: "z = (md, y)" by (cases z)
    have "scan_loop symb (b @ module_part zs) \<longleftrightarrow> symb = ks_name y \<or> scan_loop symb ([CHR 0x09] @ md @ nl @ module_part zs')"
      using scan_loop_ksym [of y b "[CHR 0x09] @ md @ nl @ module_part zs'" symb] assms(2) b(1)
      by (simp add: Cons z module_part_def module_line_def)
    then show ?thesis using b(2) scan_module_part [of zs' md "[CHR 0x09]" symb] assms(2) by (simp add: symbol_exists_def Cons z)
  qed
qed

definition ksym_of :: "string \<Rightarrow> ksym" where
  "ksym_of n = \<lparr>ks_addr = ''ffffffff81000000'', ks_type = CHR ''t'', ks_name = n\<rparr>"

theorem symbol_exists_spec_witness:
  "symbol_exists (Some (kernel_part [ksym_of ''_text''] @ module_part [(''[nf]'', ksym_of ''nf_a''), (''[nf]'', ksym_of ''nf_b'')])) ''_text''
   \<and> \<not> symbol_exists (Some (kernel_part [ksym_of ''_text''] @ module_part [(''[nf]'', ksym_of ''nf_a''), (''[nf]'', ksym_of ''nf_b'')])) ''nf_b''"
  using symbol_exists_spec [of "[ksym_of ''_text'']" "[(''[nf]'', ksym_of ''nf_a''), (''[nf]'', ksym_of ''nf_b'')]" "''_text''"]
    symbol_exists_spec [of "[ksym_of ''_text'']" "[(''[nf]'', ksym_of ''nf_a''), (''[nf]'', ksym_of ''nf_b'')]" "''nf_b''"]
  by (simp add: ksym_of_def ksym_ok_def module_ok_def solid_def is_space_def)

end
