(* ===== verification/PyLib.thy ===== *)
theory PyLib
  imports CDouble
begin

section \<open>What the web console uses of Python\<close>

text \<open>
  \<open>client/main.py\<close> reads what the tools print with \<open>str.splitlines\<close>, \<open>float\<close>, addition of floats and
  \<open>json.loads\<close>; this theory has these on ASCII text (the decoding of other bytes is not modelled). A Python
  string is the list of its code points. A float is a rational that binary64 represents, an infinity or
  NaN; \<open>round64\<close> rounds to the nearest, ties to even, subnormals and overflow included; the sign of zero is
  dropped. \<open>json_loads\<close> is the decoder of the standard library with its extensions \<open>NaN\<close>, \<open>Infinity\<close> and
  \<open>-Infinity\<close>; \<open>None\<close> is a \<open>ValueError\<close> (malformed input, or an integer of more than 4300 digits). The
  limit on nesting is left out.
  Shown: integers below 2^53 are exact and their sums too; a member of an object written as the tools write
  it is read back.
\<close>

subsection \<open>Floats\<close>

datatype pyfloat = Fin rat | PInf | NInf | NaN

definition round64 :: "rat \<Rightarrow> pyfloat" where
  "round64 q =
     (let a = \<bar>q\<bar>;
          r = (if a < 1 / 2 ^ 1022 then of_int (rne (a * 2 ^ 1074)) / 2 ^ 1074 else rnd53 a)
      in if r \<ge> 2 ^ 1024 then (if q < 0 then NInf else PInf) else Fin (if q < 0 then - r else r))"

fun float_add :: "pyfloat \<Rightarrow> pyfloat \<Rightarrow> pyfloat" where
  "float_add (Fin a) (Fin b) = round64 (a + b)"
| "float_add NaN _ = NaN"
| "float_add _ NaN = NaN"
| "float_add PInf NInf = NaN"
| "float_add NInf PInf = NaN"
| "float_add PInf _ = PInf"
| "float_add _ PInf = PInf"
| "float_add NInf _ = NInf"
| "float_add _ NInf = NInf"

fun isfinite :: "pyfloat \<Rightarrow> bool" where
  "isfinite (Fin _) = True"
| "isfinite _ = False"

lemma round64_nat:
  assumes "n < 2 ^ 53"
  shows "round64 (of_nat n) = Fin (of_nat n)"
proof (cases "n = 0")
  case True
  then show ?thesis by (simp add: round64_def rne_def)
next
  case False
  then have ge: "(1 :: rat) \<le> of_nat n" by simp
  have "(1 :: rat) / 2 ^ 1022 \<le> 1" by (simp add: divide_le_eq_1)
  with ge have not_sub: "\<not> (of_nat n :: rat) < 1 / 2 ^ 1022" by linarith
  have "(of_nat n :: rat) < 2 ^ 53" using assms by (metis of_nat_less_iff of_nat_numeral of_nat_power)
  also have "(2 ^ 53 :: rat) \<le> 2 ^ 1024" by (rule power_increasing) simp_all
  finally have "(of_nat n :: rat) < 2 ^ 1024" .
  with ge not_sub rnd53_exact [OF assms] show ?thesis by (simp add: round64_def Let_def)
qed

lemma float_add_nat: "m + n < 2 ^ 53 \<Longrightarrow> float_add (Fin (of_nat m)) (Fin (of_nat n)) = Fin (of_nat (m + n))"
  using round64_nat [of "m + n"] by simp

subsection \<open>Dictionaries\<close>

text \<open>An association list in the order of insertion; an assignment to a present key keeps its place.\<close>

fun dict_set :: "'k \<Rightarrow> 'v \<Rightarrow> ('k \<times> 'v) list \<Rightarrow> ('k \<times> 'v) list" where
  "dict_set k v [] = [(k, v)]"
| "dict_set k v ((j, w) # d) = (if j = k then (j, v) # d else (j, w) # dict_set k v d)"

lemma map_of_dict_set [simp]: "map_of (dict_set k v d) = (map_of d)(k \<mapsto> v)"
  by (induction d rule: dict_set.induct) (auto simp: fun_upd_twist)

lemma keys_dict_set: "fst ` set (dict_set k v d) = insert k (fst ` set d)"
  by (induction d rule: dict_set.induct) auto

lemma distinct_dict_set: "distinct (map fst d) \<Longrightarrow> distinct (map fst (dict_set k v d))"
proof (induction d rule: dict_set.induct)
  case (2 k v j w d)
  then show ?case using keys_dict_set [of k v d] by (auto simp flip: set_map)
qed simp

subsection \<open>Text\<close>

type_synonym pystr = "nat list"

definition py :: "string \<Rightarrow> pystr" where
  "py = map of_char"

lemma py_inject [simp]: "py s = py t \<longleftrightarrow> s = t"
  unfolding py_def by (rule inj_map_eq_map) (simp add: inj_on_def)

lemma length_py [simp]: "length (py s) = length s"
  by (simp add: py_def)

definition is_digit :: "char \<Rightarrow> bool" where
  "is_digit c \<longleftrightarrow> of_char c \<in> {48..57::nat}"

text \<open>\<open>str.splitlines\<close>: the line boundaries among ASCII characters, where CR LF is one.\<close>

definition line_break :: "char \<Rightarrow> bool" where
  "line_break c \<longleftrightarrow> of_char c \<in> {10, 11, 12, 13, 28, 29, 30::nat}"

fun splitlines :: "string \<Rightarrow> string list" where
  "splitlines [] = []"
| "splitlines (c # s) =
     (if c = CHR 0x0D \<and> s \<noteq> [] \<and> hd s = CHR 0x0A then [] # splitlines (tl s)
      else if line_break c then [] # splitlines s
      else case splitlines s of [] \<Rightarrow> [[c]] | l # ls \<Rightarrow> (c # l) # ls)"

lemma splitlines_line:
  assumes "\<forall>c \<in> set l. \<not> line_break c"
  shows "splitlines (l @ CHR 0x0A # s) = l # splitlines s"
  using assms
proof (induction l)
  case Nil
  then show ?case by (simp add: line_break_def)
next
  case (Cons c l)
  then have "c \<noteq> CHR 0x0D" by (auto simp: line_break_def)
  with Cons show ?case by simp
qed

lemma splitlines_lines:
  assumes "\<forall>l \<in> set ls. \<forall>c \<in> set l. \<not> line_break c"
  shows "splitlines (concat (map (\<lambda>l. l @ [CHR 0x0A]) ls)) = ls"
  using assms by (induction ls) (simp_all add: splitlines_line)

subsection \<open>JSON\<close>

datatype json = JNull | JBool bool | JInt int | JFloat pyfloat | JStr pystr | JArr "json list" | JObj "(pystr \<times> json) list"

definition quote :: char where
  "quote = CHR 0x22"

definition backslash :: char where
  "backslash = CHR 0x5C"

definition skip_ws :: "string \<Rightarrow> string" where
  "skip_ws = dropWhile (\<lambda>c. c \<in> {CHR '' '', CHR 0x09, CHR 0x0A, CHR 0x0D})"

definition hex_val :: "char \<Rightarrow> nat option" where
  "hex_val c = (let n = (of_char c :: nat) in
     if n \<in> {48..57} then Some (n - 48) else if n \<in> {65..70} then Some (n - 55)
     else if n \<in> {97..102} then Some (n - 87) else None)"

text \<open>The four digits after \<open>\u\<close>.\<close>

definition hex4 :: "string \<Rightarrow> nat option" where
  "hex4 s = (if length s < 4 \<or> (\<exists>c \<in> set (take 4 s). hex_val c = None) then None
     else Some (foldl (\<lambda>n c. 16 * n + the (hex_val c)) 0 (take 4 s)))"

definition simple_escapes :: "(char \<times> nat) list" where
  "simple_escapes = [(quote, 34), (backslash, 92), (CHR ''/'', 47), (CHR ''b'', 8), (CHR ''f'', 12),
     (CHR ''n'', 10), (CHR ''r'', 13), (CHR ''t'', 9)]"

text \<open>What follows a backslash: the code point and the rest. A high surrogate takes the low surrogate after it along.\<close>

definition json_escape :: "string \<Rightarrow> (nat \<times> string) option" where
  "json_escape s =
     (case s of [] \<Rightarrow> None
      | c # r \<Rightarrow>
          if c = CHR ''u'' then
            (case hex4 r of None \<Rightarrow> None
             | Some hi \<Rightarrow>
                 let r' = drop 4 r in
                 if hi \<in> {0xD800..0xDBFF} \<and> take 2 r' = [backslash, CHR ''u''] then
                   (case hex4 (drop 2 r') of
                      Some lo \<Rightarrow> if lo \<in> {0xDC00..0xDFFF}
                        then Some (0x10000 + 0x400 * (hi - 0xD800) + (lo - 0xDC00), drop 6 r') else Some (hi, r')
                    | None \<Rightarrow> Some (hi, r'))
                 else Some (hi, r'))
          else map_option (\<lambda>n. (n, r)) (map_of simple_escapes c))"

lemma json_escape_shorter: "json_escape s = Some (n, r) \<Longrightarrow> length r < length s"
  by (auto simp: json_escape_def Let_def split: list.splits option.splits if_splits)

text \<open>A string after its opening quote: its code points and what follows the closing quote.\<close>

function (sequential) json_str :: "string \<Rightarrow> (pystr \<times> string) option" where
  "json_str [] = None"
| "json_str (c # s) =
     (if c = quote then Some ([], s)
      else if c = backslash then
        (case json_escape s of None \<Rightarrow> None
         | Some (n, r) \<Rightarrow> map_option (\<lambda>(k, r'). (n # k, r')) (json_str r))
      else if of_char c < (32::nat) then None
      else map_option (\<lambda>(k, r'). (of_char c # k, r')) (json_str s))"
  by pat_completeness auto
termination
  by (relation "measure length") (auto dest: json_escape_shorter)

lemma json_str_shorter: "json_str s = Some (k, r) \<Longrightarrow> length r < length s"
proof (induction s arbitrary: k r rule: json_str.induct)
  case (2 c s)
  then show ?case
    by (fastforce dest: json_escape_shorter split: if_splits option.splits prod.splits)
qed simp

text \<open>\<open>-?(0|[1-9][0-9]*)(\.[0-9]+)?([eE][-+]?[0-9]+)?\<close>: an integer without the optional parts, a float with one.\<close>

definition json_frac :: "string \<Rightarrow> string \<times> string" where
  "json_frac s = (case s of c # t \<Rightarrow>
     if c = CHR ''.'' \<and> takeWhile is_digit t \<noteq> [] then (takeWhile is_digit t, dropWhile is_digit t) else ([], s) | [] \<Rightarrow> ([], s))"

definition json_sign :: "string \<Rightarrow> bool \<times> string" where
  "json_sign s = (case s of c # t \<Rightarrow> if c = CHR ''-'' then (True, t) else if c = CHR ''+'' then (False, t) else (False, s) | [] \<Rightarrow> (False, s))"

definition json_exp :: "string \<Rightarrow> int option \<times> string" where
  "json_exp s = (case s of c # t \<Rightarrow>
     if c \<in> {CHR ''e'', CHR ''E''} then
       let (sgn, t') = json_sign t; ds = takeWhile is_digit t'
       in if ds = [] then (None, s)
          else (Some (if sgn then - int (read_nat ds) else int (read_nat ds)), dropWhile is_digit t')
     else (None, s) | [] \<Rightarrow> (None, s))"

definition json_int_part :: "string \<Rightarrow> string" where
  "json_int_part s = (case takeWhile is_digit s of [] \<Rightarrow> [] | c # ds \<Rightarrow> if c = CHR ''0'' then [c] else c # ds)"

definition json_unsigned :: "bool \<Rightarrow> string \<Rightarrow> (json \<times> string) option" where
  "json_unsigned neg s =
     (let ip = json_int_part s;
          frac = json_frac (drop (length ip) s);
          ex = json_exp (snd frac)
      in if ip = [] then None
         else if fst frac = [] \<and> fst ex = None then
           (if length ip > 4300 then None
            else Some (JInt (if neg then - int (read_nat ip) else int (read_nat ip)), snd ex))
         else
           let e = (case fst ex of Some e \<Rightarrow> e | None \<Rightarrow> 0);
               q = of_nat (read_nat (ip @ fst frac)) * power_int 10 (e - int (length (fst frac)))
           in Some (JFloat (round64 (if neg then - q else q)), snd ex))"

definition json_number :: "string \<Rightarrow> (json \<times> string) option" where
  "json_number s = (if s \<noteq> [] \<and> hd s = CHR ''-'' then json_unsigned True (tl s) else json_unsigned False s)"

definition json_words :: "(string \<times> json) list" where
  "json_words = [(''null'', JNull), (''true'', JBool True), (''false'', JBool False), (''NaN'', JFloat NaN),
     (''Infinity'', JFloat PInf), (''-Infinity'', JFloat NInf)]"

definition json_atom :: "string \<Rightarrow> (json \<times> string) option" where
  "json_atom s =
     (case filter (\<lambda>(w, v). take (length w) s = w) json_words of
        (w, v) # _ \<Rightarrow> Some (v, drop (length w) s)
      | [] \<Rightarrow> json_number s)"

lemma json_ws_le: "length (skip_ws s) \<le> length s"
  by (simp add: skip_ws_def length_dropWhile_le)

lemma json_ws_Cons: "skip_ws s = c # r \<Longrightarrow> length r < length s"
  using json_ws_le [of s] by simp

text \<open>Values, the members of an object from a property name on, and the elements of an array from a value on. The
  comparison of lengths is always true (\<open>json_shorter\<close>); it is there for the termination of the definition.\<close>

function (sequential) json_value :: "string \<Rightarrow> (json \<times> string) option"
  and json_members :: "(pystr \<times> json) list \<Rightarrow> string \<Rightarrow> (json \<times> string) option"
  and json_elems :: "json list \<Rightarrow> string \<Rightarrow> (json \<times> string) option" where
  "json_value [] = None"
| "json_value (c # s) =
     (if c = quote then map_option (\<lambda>(k, r). (JStr k, r)) (json_str s)
      else if c = CHR ''{'' then
        (case skip_ws s of [] \<Rightarrow> None
         | d # t \<Rightarrow> if d = CHR ''}'' then Some (JObj [], t) else json_members [] (d # t))
      else if c = CHR ''['' then
        (case skip_ws s of [] \<Rightarrow> None
         | d # t \<Rightarrow> if d = CHR '']'' then Some (JArr [], t) else json_elems [] (d # t))
      else json_atom (c # s))"
| "json_members d [] = None"
| "json_members d (c # s) =
     (if c \<noteq> quote then None
      else case json_str s of None \<Rightarrow> None
      | Some (k, r) \<Rightarrow>
          (case skip_ws r of [] \<Rightarrow> None
           | col # r1 \<Rightarrow>
               if col \<noteq> CHR '':'' then None
               else case json_value (skip_ws r1) of None \<Rightarrow> None
               | Some (v, r2) \<Rightarrow>
                   if \<not> length r2 < length (c # s) then None
                   else case skip_ws r2 of [] \<Rightarrow> None
                   | e # r3 \<Rightarrow>
                       if e = CHR ''}'' then Some (JObj (dict_set k v d), r3)
                       else if e = CHR '','' then json_members (dict_set k v d) (skip_ws r3)
                       else None))"
| "json_elems xs s =
     (case json_value s of None \<Rightarrow> None
      | Some (v, r) \<Rightarrow>
          if \<not> length r < length s then None
          else case skip_ws r of [] \<Rightarrow> None
          | e # r1 \<Rightarrow>
              if e = CHR '']'' then Some (JArr (xs @ [v]), r1)
              else if e = CHR '','' then json_elems (xs @ [v]) (skip_ws r1)
              else None)"
  by pat_completeness auto

termination
proof (relation "measure (\<lambda>x. case x of Inl s \<Rightarrow> 2 * length s | Inr (Inl (d, s)) \<Rightarrow> 2 * length s | Inr (Inr (xs, s)) \<Rightarrow> 2 * length s + 1)",
    goal_cases)
  case (2 c s d t)
  then show ?case using json_ws_Cons [of s d t] by simp
next
  case (3 c s d t)
  then show ?case using json_ws_Cons [of s d t] by simp
next
  case (4 d c s x k r col r1)
  then have "length (skip_ws r1) < length s"
    using json_str_shorter [of s k r] json_ws_Cons [of r col r1] json_ws_le [of r1] by simp
  then show ?case by simp
next
  case (5 d c s x k r col r1 y v r2 e r3)
  then have "length (skip_ws r3) < length (c # s)"
    using json_ws_Cons [of r2 e r3] json_ws_le [of r3] by simp
  then show ?case by simp
next
  case (7 xs s x v r e r1)
  then have "length (skip_ws r1) < length s"
    using json_ws_Cons [of r e r1] json_ws_le [of r1] by simp
  then show ?case by simp
qed simp_all

declare json_elems.simps [simp del]

definition json_loads :: "string \<Rightarrow> json option" where
  "json_loads s = (case json_value (skip_ws s) of
     Some (v, r) \<Rightarrow> if skip_ws r = [] then Some v else None
   | None \<Rightarrow> None)"

subsection \<open>The decoder consumes what it reads\<close>

lemma dropWhile_le: "length (dropWhile P s) \<le> length s"
  by (rule length_dropWhile_le)

lemma json_frac_le: "length (snd (json_frac s)) \<le> length s"
  by (simp add: json_frac_def le_SucI dropWhile_le split: list.split)

lemma json_sign_le: "length (snd (json_sign s)) \<le> length s"
  by (simp add: json_sign_def split: list.split)

lemma json_exp_le: "length (snd (json_exp s)) \<le> length s"
proof (cases s)
  case (Cons c t)
  have "length (dropWhile is_digit (snd (json_sign t))) \<le> Suc (length t)"
    using dropWhile_le [of is_digit "snd (json_sign t)"] json_sign_le [of t] by linarith
  then show ?thesis by (simp add: Cons json_exp_def Let_def case_prod_unfold)
qed (simp add: json_exp_def)

lemma json_unsigned_shorter:
  assumes "json_unsigned neg s = Some (v, r)"
  shows "length r < length s"
proof -
  define rest where "rest = drop (length (json_int_part s)) s"
  have ip: "json_int_part s \<noteq> []" and r: "r = snd (json_exp (snd (json_frac rest)))"
    using assms by (auto simp: json_unsigned_def Let_def rest_def split: if_splits)
  from ip have "s \<noteq> []" by (auto simp: json_int_part_def)
  with ip have "length rest < length s" by (simp add: rest_def)
  moreover have "length r \<le> length rest"
    unfolding r using json_frac_le [of rest] json_exp_le [of "snd (json_frac rest)"] by linarith
  ultimately show ?thesis by linarith
qed

lemma json_number_shorter: "json_number s = Some (v, r) \<Longrightarrow> length r < length s"
  by (cases s) (auto simp: json_number_def dest!: json_unsigned_shorter split: if_splits)

lemma json_atom_shorter:
  assumes "json_atom s = Some (v, r)"
  shows "length r < length s"
proof (cases "filter (\<lambda>(w, v). take (length w) s = w) json_words")
  case Nil
  with assms show ?thesis by (simp add: json_atom_def json_number_shorter)
next
  case (Cons x xs)
  obtain w u where x: "x = (w, u)" by fastforce
  have "(w, u) \<in> set (filter (\<lambda>(w, v). take (length w) s = w) json_words)" using Cons x by simp
  then have "(w, u) \<in> set json_words" "take (length w) s = w" by simp_all
  moreover from this(1) have "w \<noteq> []" by (auto simp: json_words_def)
  ultimately have "length (drop (length w) s) < length s" by (cases s) auto
  with assms Cons x show ?thesis by (simp add: json_atom_def)
qed

lemma json_shorter:
  "json_value s = Some (v, r) \<Longrightarrow> length r < length s"
  "json_members d s = Some (v, r) \<Longrightarrow> length r < length s"
  "json_elems xs s = Some (v, r) \<Longrightarrow> length r < length s"
proof (induction s and d s and xs s arbitrary: v r and v r and v r rule: json_value_json_members_json_elems.induct)
  case (2 c s)
  show ?case
  proof (cases "c = quote")
    case True
    then show ?thesis using 2(3) json_str_shorter [of s] by fastforce
  next
    case nq: False
    show ?thesis
    proof (cases "c = CHR ''{''")
      case True
      then show ?thesis using 2(1,3) nq json_ws_Cons [of s] by (fastforce split: list.splits if_splits)
    next
      case nb: False
      show ?thesis
      proof (cases "c = CHR ''[''")
        case True
        then show ?thesis using 2(2,3) nq nb json_ws_Cons [of s] by (fastforce split: list.splits if_splits)
      next
        case False
        then show ?thesis using 2(3) nq nb json_atom_shorter [of "c # s"] by simp
      qed
    qed
  qed
next
  case (4 d c s)
  obtain k r1 col r2 u r3 e r4 where k: "c = quote" "json_str s = Some (k, r1)" "skip_ws r1 = col # r2" "col = CHR '':''"
    "json_value (skip_ws r2) = Some (u, r3)" "length r3 < length (c # s)" "skip_ws r3 = e # r4"
    and e: "e = CHR ''}'' \<and> r = r4 \<or> e = CHR '','' \<and> json_members (dict_set k u d) (skip_ws r4) = Some (v, r)"
    using 4(3) by (auto split: if_splits option.splits list.splits)
  have "length r4 < length (c # s)" using json_ws_Cons [OF k(7)] k(6) by simp
  moreover have "length r < length (skip_ws r4)" if "e = CHR '',''" "json_members (dict_set k u d) (skip_ws r4) = Some (v, r)"
    using 4(2) k that by fastforce
  ultimately show ?case using e json_ws_le [of r4] by fastforce
next
  case (5 xs s)
  obtain u r1 e r2 where u: "json_value s = Some (u, r1)" "length r1 < length s" "skip_ws r1 = e # r2"
    and e: "e = CHR '']'' \<and> r = r2 \<or> e = CHR '','' \<and> json_elems (xs @ [u]) (skip_ws r2) = Some (v, r)"
    using 5(3) by (auto simp: json_elems.simps [of xs s] split: if_splits option.splits list.splits)
  have "length r2 < length s" using json_ws_Cons [OF u(3)] u(2) by simp
  moreover have "length r < length (skip_ws r2)" if "e = CHR '',''" "json_elems (xs @ [u]) (skip_ws r2) = Some (v, r)"
    using 5(2) u that by fastforce
  ultimately show ?case using e json_ws_le [of r2] by fastforce
qed simp_all

subsection \<open>What is read back\<close>

lemma is_digit_fmt: "c \<in> set (fmt_nat n) \<Longrightarrow> is_digit c"
  unfolding is_digit_def by (rule fmt_nat_digits)

lemma takeWhile_fmt: "(s = [] \<or> \<not> is_digit (hd s)) \<Longrightarrow> takeWhile is_digit (fmt_nat n @ s) = fmt_nat n"
  by (cases s) (auto simp: is_digit_fmt takeWhile_tail)

lemma dropWhile_fmt: "(s = [] \<or> \<not> is_digit (hd s)) \<Longrightarrow> dropWhile is_digit (fmt_nat n @ s) = s"
  by (cases s) (auto simp: is_digit_fmt dropWhile_append3)

lemma fmt_nat_length: "n < 10 ^ k \<Longrightarrow> 0 < k \<Longrightarrow> length (fmt_nat n) \<le> k"
proof (induction n arbitrary: k rule: fmt_nat.induct)
  case (1 n)
  show ?case
  proof (cases "n < 10")
    case False
    then obtain j where k: "k = Suc j" "0 < j" using 1(2,3) by (cases k; cases "k - 1") auto
    have "n div 10 < 10 ^ j" using 1(2) k by (simp add: less_mult_imp_div_less mult.commute)
    then show ?thesis using 1(1) [OF False, of j] False k by (simp add: fmt_nat_large)
  qed (use 1(3) in \<open>simp add: fmt_nat_small\<close>)
qed

lemma fmt_u64_length: "length (fmt_u (w :: u64)) \<le> 20"
proof -
  have "unat w < 2 ^ 64" using unsigned_less [of w] by simp
  also have "(2 :: nat) ^ 64 < 10 ^ 20" by simp
  finally show ?thesis unfolding fmt_u_def by (intro fmt_nat_length) simp_all
qed

lemma hd_fmt_nat: "0 < n \<Longrightarrow> hd (fmt_nat n) \<noteq> CHR ''0''"
proof (induction n rule: fmt_nat.induct)
  case (1 n)
  show ?case
  proof (cases "n < 10")
    case True
    have "digit_val (CHR ''0'') = 0" by (simp add: digit_val_def)
    then have "digit_char n = CHR ''0'' \<Longrightarrow> n = 0" using digit_val_digit_char [OF True] by (simp only:)
    then have "digit_char n \<noteq> CHR ''0''" using 1(2) by blast
    then show ?thesis using True by (simp add: fmt_nat_small)
  next
    case False
    then show ?thesis using 1(1) by (simp add: fmt_nat_large)
  qed
qed

lemma json_int_part_fmt:
  assumes "s = [] \<or> \<not> is_digit (hd s)"
  shows "json_int_part (fmt_nat n @ s) = fmt_nat n"
proof (cases "n = 0")
  case True
  then show ?thesis using takeWhile_fmt [OF assms, of n] by (simp add: json_int_part_def fmt_nat_small digit_char_simps)
next
  case False
  obtain c ds where f: "fmt_nat n = c # ds" by (cases "fmt_nat n") simp_all
  with hd_fmt_nat [of n] False have "c \<noteq> CHR ''0''" by simp
  then show ?thesis using takeWhile_fmt [OF assms, of n] by (simp add: json_int_part_def f)
qed

lemma json_number_fmt:
  assumes "length (fmt_nat n) \<le> 4300" and "s = [] \<or> hd s \<notin> {CHR ''.'', CHR ''e'', CHR ''E''} \<and> \<not> is_digit (hd s)"
  shows "json_number (fmt_nat n @ s) = Some (JInt (int n), s)"
proof -
  have "is_digit (hd (fmt_nat n @ s))" using is_digit_fmt [of "hd (fmt_nat n)" n] by simp
  then have "hd (fmt_nat n @ s) \<noteq> CHR ''-''" by (auto simp: is_digit_def)
  moreover have "json_frac s = ([], s)" "json_exp s = (None, s)"
    using assms(2) by (auto simp: json_frac_def json_exp_def split: list.split)
  ultimately show ?thesis using assms json_int_part_fmt [of s n] by (auto simp: json_number_def json_unsigned_def)
qed

lemma json_str_plain:
  assumes "\<forall>c \<in> set k. c \<noteq> quote \<and> c \<noteq> backslash \<and> (32 :: nat) \<le> of_char c"
  shows "json_str (k @ quote # s) = Some (py k, s)"
  using assms by (induction k) (auto simp: py_def)

text \<open>The line irq_stat prints for a name.\<close>

lemma json_loads_member:
  assumes "\<forall>c \<in> set k. c \<noteq> quote \<and> c \<noteq> backslash \<and> (32 :: nat) \<le> of_char c" and "length (fmt_nat n) \<le> 4300"
  shows "json_loads (''{'' @ [quote] @ k @ [quote] @ '': '' @ fmt_nat n @ ''}'') = Some (JObj [(py k, JInt (int n))])"
proof -
  obtain c ds where f: "fmt_nat n = c # ds" and d: "is_digit c" using is_digit_fmt [of _ n] by (cases "fmt_nat n") auto
  have ws: "skip_ws (fmt_nat n @ s) = fmt_nat n @ s" for s
    using d by (auto simp: f skip_ws_def is_digit_def)
  have atom: "json_value (fmt_nat n @ ''}'') = Some (JInt (int n), ''}'')"
  proof -
    have "c \<notin> set ''ntfNI-''" using d by (auto simp: is_digit_def)
    then have "filter (\<lambda>(w, v). take (length w) (fmt_nat n @ ''}'') = w) json_words = []"
      by (simp add: f json_words_def)
    then have "json_atom (fmt_nat n @ ''}'') = Some (JInt (int n), ''}'')"
      using json_number_fmt [OF assms(2), of "''}''"] by (simp add: json_atom_def is_digit_def)
    moreover have "c \<noteq> quote" "c \<noteq> CHR ''{''" "c \<noteq> CHR ''[''" using d by (auto simp: is_digit_def quote_def)
    ultimately show ?thesis by (simp add: f)
  qed
  have str: "json_str (k @ quote # '': '' @ fmt_nat n @ ''}'') = Some (py k, '': '' @ fmt_nat n @ ''}'')"
    by (rule json_str_plain [OF assms(1)])
  have col: "skip_ws ('': '' @ fmt_nat n @ ''}'') = CHR '':'' # '' '' @ fmt_nat n @ ''}''" by (simp add: skip_ws_def)
  have val: "skip_ws ('' '' @ fmt_nat n @ ''}'') = fmt_nat n @ ''}''" using ws [of "''}''"] by (simp add: skip_ws_def)
  have brace: "skip_ws ''}'' = ''}''" by (simp add: skip_ws_def)
  have "json_members [] (quote # k @ quote # '': '' @ fmt_nat n @ ''}'') = Some (JObj [(py k, JInt (int n))], [])"
    by (simp only: json_members.simps str option.case prod.case col list.case val atom brace) simp
  moreover have "skip_ws (quote # k @ quote # '': '' @ fmt_nat n @ ''}'') = quote # k @ quote # '': '' @ fmt_nat n @ ''}''"
    by (simp add: skip_ws_def quote_def)
  ultimately have "json_value (CHR ''{'' # quote # k @ quote # '': '' @ fmt_nat n @ ''}'') = Some (JObj [(py k, JInt (int n))], [])"
    by (simp only: json_value.simps list.case) (simp add: quote_def)
  moreover have "skip_ws (CHR ''{'' # s) = CHR ''{'' # s" "skip_ws [] = []" for s by (simp_all add: skip_ws_def)
  ultimately show ?thesis by (simp add: json_loads_def)
qed

text \<open>No value begins with any other character.\<close>

lemma json_loads_letter:
  assumes "s \<noteq> []" and "hd s \<notin> set ('' {[-nNtfI0123456789'' @ [quote, CHR 0x09, CHR 0x0A, CHR 0x0D])"
  shows "json_loads s = None"
proof -
  obtain c t where s: "s = c # t" using assms(1) by (cases s) simp_all
  have nd: "\<not> is_digit c"
  proof
    assume "is_digit c"
    then have "of_char c \<in> {48..57::nat}" by (simp add: is_digit_def)
    then have "of_char c \<in> {48, 49, 50, 51, 52, 53, 54, 55, 56, 57 :: nat}"
      unfolding atLeastAtMost_iff insert_iff empty_iff by presburger
    then have "c \<in> char_of ` {48, 49, 50, 51, 52, 53, 54, 55, 56, 57 :: nat}" by (metis char_of_char image_eqI)
    then show False using assms(2) s by (auto simp: char_of_def bit_0)
  qed
  have "filter (\<lambda>(w, v). take (length w) s = w) json_words = []" using assms(2) s by (auto simp: json_words_def)
  moreover have "json_number s = None" using nd assms(2) by (simp add: s json_number_def json_unsigned_def json_int_part_def Let_def)
  ultimately have "json_atom s = None" by (simp add: json_atom_def)
  then have "json_value s = None" using assms(2) by (simp add: s)
  moreover have "skip_ws s = s" using assms(2) by (simp add: s skip_ws_def)
  ultimately show ?thesis by (simp add: json_loads_def)
qed

end
