(* ===== verification/Console.thy ===== *)
theory Console
  imports PyLib Loader
begin

section \<open>The web console: reading what the tools print\<close>

text \<open>
  \<open>client/main.py\<close> starts a tool, collects the lines it writes to standard output and standard error, and
  adds up the values by key (\<open>parse_output_metrics\<close>): a line of the form \<open>key: value\<close> counts for its key,
  any other line that is a JSON object counts for each of its numeric members, and everything else is
  ignored. Keys of more than 128 characters and values that are not finite are left out.
  The regular expression is \<open>^\s*([A-Za-z0-9_.-]+)\s*(?:[:=])\s*([-+]?\d*\.?\d+)\s*$\<close>; no character of a key is a
  space or a separator and no digit is a dot, so it matches in at most one way and \<open>kv_match\<close> reads from
  left to right. An integer member that no float can represent makes \<open>math.isfinite\<close> raise an
  \<open>OverflowError\<close>, which the function does not catch.
  Shown: a line of a tool is read back exactly, whatever the text around it; the metric of a key is the
  sum of its lines, exact below 2^53; and which lines are lost.
\<close>

datatype py_error = OverflowError

subsection \<open>The regular expression\<close>

definition re_space :: "char \<Rightarrow> bool" where
  "re_space c \<longleftrightarrow> of_char c \<in> {9, 10, 11, 12, 13, 28, 29, 30, 31, 32 :: nat}"

definition key_char :: "char \<Rightarrow> bool" where
  "key_char c \<longleftrightarrow> (let n = (of_char c :: nat) in n \<in> {65..90} \<or> n \<in> {97..122} \<or> n \<in> {48..57}) \<or>
     c \<in> {CHR ''_'', CHR ''.'', CHR ''-''}"

text \<open>The rational that the second group denotes, and the rest of the line.\<close>

definition kv_number :: "string \<Rightarrow> (rat \<times> string) option" where
  "kv_number s =
     (let (neg, s1) = json_sign s;
          a = takeWhile is_digit s1;
          r = dropWhile is_digit s1;
          sgn = (\<lambda>q :: rat. if neg then - q else q)
      in case r of
           c # t \<Rightarrow>
             if c = CHR ''.'' then
               let b = takeWhile is_digit t in
               if b = [] then None
               else Some (sgn (of_nat (read_nat (a @ b)) / 10 ^ length b), dropWhile is_digit t)
             else if a = [] then None else Some (sgn (of_nat (read_nat a)), r)
         | [] \<Rightarrow> if a = [] then None else Some (sgn (of_nat (read_nat a)), r))"

definition kv_match :: "string \<Rightarrow> (string \<times> rat) option" where
  "kv_match line =
     (let s1 = dropWhile re_space line;
          key = takeWhile key_char s1
      in if key = [] then None
      else case dropWhile re_space (dropWhile key_char s1) of
        [] \<Rightarrow> None
      | c # s2 \<Rightarrow>
          if c \<notin> {CHR '':'', CHR ''=''} then None
          else case kv_number (dropWhile re_space s2) of
            None \<Rightarrow> None
          | Some (q, rest) \<Rightarrow> if list_all re_space rest then Some (key, q) else None)"

subsection \<open>Metrics\<close>

type_synonym metrics = "(pystr \<times> pyfloat) list"

text \<open>\<open>out[key] = out.get(key, 0.0) + val\<close>\<close>

definition add_metric :: "pystr \<Rightarrow> pyfloat \<Rightarrow> metrics \<Rightarrow> metrics" where
  "add_metric key val out =
     dict_set key (float_add (case map_of out key of Some v \<Rightarrow> v | None \<Rightarrow> Fin 0) val) out"

text \<open>One member of a JSON object; a Boolean is an integer in Python.\<close>

definition add_member :: "pystr \<Rightarrow> json \<Rightarrow> metrics \<Rightarrow> py_error + metrics" where
  "add_member k v out =
     (if length k > 128 then Inr out
      else case v of
        JInt i \<Rightarrow> if isfinite (round64 (of_int i)) then Inr (add_metric k (round64 (of_int i)) out) else Inl OverflowError
      | JBool b \<Rightarrow> Inr (add_metric k (Fin (if b then 1 else 0)) out)
      | JFloat f \<Rightarrow> if isfinite f then Inr (add_metric k f out) else Inr out
      | _ \<Rightarrow> Inr out)"

fun add_members :: "(pystr \<times> json) list \<Rightarrow> metrics \<Rightarrow> py_error + metrics" where
  "add_members [] out = Inr out"
| "add_members ((k, v) # j) out =
     (case add_member k v out of Inl e \<Rightarrow> Inl e | Inr out' \<Rightarrow> add_members j out')"

definition metric_line :: "string \<Rightarrow> metrics \<Rightarrow> py_error + metrics" where
  "metric_line line out =
     (case kv_match line of
        Some (key, q) \<Rightarrow>
          if length key \<le> 128 \<and> isfinite (round64 q) then Inr (add_metric (py key) (round64 q) out) else Inr out
      | None \<Rightarrow> (case json_loads line of Some (JObj j) \<Rightarrow> add_members j out | _ \<Rightarrow> Inr out))"

fun metric_lines :: "string list \<Rightarrow> metrics \<Rightarrow> py_error + metrics" where
  "metric_lines [] out = Inr out"
| "metric_lines (line # lines) out =
     (case metric_line line out of Inl e \<Rightarrow> Inl e | Inr out' \<Rightarrow> metric_lines lines out')"

definition parse_output_metrics :: "string \<Rightarrow> py_error + metrics" where
  "parse_output_metrics output = metric_lines (splitlines output) []"

subsection \<open>Lines of the tools\<close>

lemma takeWhile_upto: "\<forall>x \<in> set xs. P x \<Longrightarrow> \<not> P y \<Longrightarrow> takeWhile P (xs @ y # ys) = xs"
  by (simp add: takeWhile_tail)

lemma dropWhile_upto: "\<forall>x \<in> set xs. P x \<Longrightarrow> \<not> P y \<Longrightarrow> dropWhile P (xs @ y # ys) = y # ys"
  by (simp add: dropWhile_append3)

lemma digit_no_space: "is_digit c \<Longrightarrow> \<not> re_space c"
  by (auto simp: is_digit_def re_space_def)

lemma key_no_space: "key_char c \<Longrightarrow> \<not> re_space c"
  by (auto simp: key_char_def re_space_def Let_def)

lemma key_no_break: "key_char c \<Longrightarrow> \<not> line_break c"
  by (auto simp: key_char_def line_break_def Let_def)

lemma digit_no_break: "is_digit c \<Longrightarrow> \<not> line_break c"
  by (auto simp: is_digit_def line_break_def)

lemma kv_number_fmt: "kv_number (fmt_nat n) = Some (of_nat n, [])"
proof -
  obtain c ds where f: "fmt_nat n = c # ds" and d: "is_digit c" using is_digit_fmt [of _ n] by (cases "fmt_nat n") auto
  then have sgn: "json_sign (fmt_nat n) = (False, fmt_nat n)" by (auto simp: json_sign_def is_digit_def)
  have run: "takeWhile is_digit (fmt_nat n) = fmt_nat n" "dropWhile is_digit (fmt_nat n) = []"
    using takeWhile_fmt [of "[]" n] dropWhile_fmt [of "[]" n] by simp_all
  show ?thesis unfolding kv_number_def Let_def sgn prod.case run by simp
qed

lemma kv_match_line:
  assumes "key \<noteq> []" and "\<forall>c \<in> set key. key_char c"
  shows "kv_match (key @ '': '' @ fmt_nat n) = Some (key, of_nat n)"
proof -
  have sep: "\<not> key_char (CHR '':'')" "\<not> re_space (CHR '':'')" "re_space (CHR '' '')"
    by (simp_all add: key_char_def re_space_def)
  have s1: "dropWhile re_space (key @ '': '' @ fmt_nat n) = key @ '': '' @ fmt_nat n"
    using assms key_no_space by (cases key) auto
  have k: "takeWhile key_char (key @ '': '' @ fmt_nat n) = key" "dropWhile key_char (key @ '': '' @ fmt_nat n) = '': '' @ fmt_nat n"
    using takeWhile_upto [OF assms(2) sep(1)] dropWhile_upto [OF assms(2) sep(1)] by simp_all
  obtain c ds where "fmt_nat n = c # ds" "is_digit c" using is_digit_fmt [of _ n] by (cases "fmt_nat n") auto
  then have "dropWhile re_space ('' '' @ fmt_nat n) = fmt_nat n" using sep(3) digit_no_space by auto
  then show ?thesis using sep by (simp add: kv_match_def s1 [simplified] k [simplified] assms(1) kv_number_fmt)
qed

lemma metric_line_kv:
  assumes "key \<noteq> []" and "\<forall>c \<in> set key. key_char c" and "length key \<le> 128" and "n < 2 ^ 53"
  shows "metric_line (key @ '': '' @ fmt_nat n) out = Inr (add_metric (py key) (Fin (of_nat n)) out)"
  using kv_match_line [OF assms(1,2)] assms(3) round64_nat [OF assms(4)] by (simp add: metric_line_def)

lemma metric_lines_append:
  "metric_lines (xs @ ys) out = (case metric_lines xs out of Inl e \<Rightarrow> Inl e | Inr out' \<Rightarrow> metric_lines ys out')"
  by (induction xs arbitrary: out) (simp_all split: sum.split)

text \<open>A line that neither matches nor is JSON changes nothing.\<close>

definition ignored :: "string \<Rightarrow> bool" where
  "ignored line \<longleftrightarrow> kv_match line = None \<and> json_loads line = None \<and> (\<forall>c \<in> set line. \<not> line_break c)"

lemma metric_lines_ignored: "\<forall>l \<in> set ls. ignored l \<Longrightarrow> metric_lines ls out = Inr out"
  by (induction ls) (simp_all add: ignored_def metric_line_def)

text \<open>A report is a list of keys and numbers.\<close>

definition key_ok :: "string \<Rightarrow> bool" where
  "key_ok k \<longleftrightarrow> k \<noteq> [] \<and> (\<forall>c \<in> set k. key_char c) \<and> length k \<le> 128"

definition kv_text :: "(string \<times> nat) list \<Rightarrow> string" where
  "kv_text kvs = concat (map (\<lambda>(k, n). kv_line k (fmt_nat n)) kvs)"

definition total :: "(string \<times> nat) list \<Rightarrow> string \<Rightarrow> nat" where
  "total kvs k = sum_list (map snd (filter (\<lambda>x. fst x = k) kvs))"

lemma total_simps [simp]:
  "total [] k = 0" "total (x # kvs) k = (if fst x = k then snd x else 0) + total kvs k"
  by (simp_all add: total_def)

lemma total_append [simp]: "total (xs @ ys) k = total xs k + total ys k"
  by (simp add: total_def)

definition metric :: "metrics \<Rightarrow> string \<Rightarrow> pyfloat option" where
  "metric out k = map_of out (py k)"

text \<open>What the dictionary holds when it has added up \<open>kvs\<close>.\<close>

definition tallies :: "metrics \<Rightarrow> (string \<times> nat) list \<Rightarrow> bool" where
  "tallies out kvs \<longleftrightarrow> (\<forall>k. metric out k = (if k \<in> fst ` set kvs then Some (Fin (of_nat (total kvs k))) else None))"

lemma tallies_add:
  assumes "tallies out kvs" and "total (kvs @ [(k, n)]) k < 2 ^ 53"
  shows "tallies (add_metric (py k) (Fin (of_nat n)) out) (kvs @ [(k, n)])"
proof -
  have cur: "(case map_of out (py k) of Some v \<Rightarrow> v | None \<Rightarrow> Fin 0) = Fin (of_nat (total kvs k))"
  proof (cases "k \<in> fst ` set kvs")
    case True
    then show ?thesis using assms(1) by (simp add: tallies_def metric_def)
  next
    case False
    then have "filter (\<lambda>x. fst x = k) kvs = []" by (auto simp: filter_empty_conv)
    then have "total kvs k = 0" by (simp add: total_def)
    then show ?thesis using assms(1) False by (simp add: tallies_def metric_def)
  qed
  have "float_add (Fin (of_nat (total kvs k))) (Fin (of_nat n)) = Fin (of_nat (total kvs k + n))"
    using assms(2) by (intro float_add_nat) simp
  then show ?thesis using assms(1) unfolding tallies_def metric_def add_metric_def cur by auto
qed

lemma metric_lines_kvs:
  assumes "tallies out kvs" and "\<forall>x \<in> set new. key_ok (fst x)" and "\<And>k. total (kvs @ new) k < 2 ^ 53"
  shows "\<exists>out'. metric_lines (map (\<lambda>(k, n). k @ '': '' @ fmt_nat n) new) out = Inr out' \<and> tallies out' (kvs @ new)"
  using assms
proof (induction new arbitrary: out kvs)
  case (Cons x new)
  obtain k n where x: "x = (k, n)" by fastforce
  have small: "total (kvs @ [(k, n)]) k < 2 ^ 53" using Cons.prems(3) [of k] by (simp add: x)
  let ?out = "add_metric (py k) (Fin (of_nat n)) out"
  have "metric_line (k @ '': '' @ fmt_nat n) out = Inr ?out"
    using Cons.prems(2) small by (intro metric_line_kv) (auto simp: x key_ok_def)
  moreover obtain out' where "metric_lines (map (\<lambda>(k, n). k @ '': '' @ fmt_nat n) new) ?out = Inr out'"
      "tallies out' ((kvs @ [(k, n)]) @ new)"
    using Cons.IH [OF tallies_add [OF Cons.prems(1) small]] Cons.prems(2,3) by (auto simp: x)
  ultimately show ?case by (auto simp: x)
qed auto

text \<open>The whole of what a tool writes: text that is ignored, then reports.\<close>

lemma splitlines_kv_text:
  assumes "\<forall>x \<in> set kvs. key_ok (fst x)" and "\<forall>l \<in> set pre. ignored l"
  shows "splitlines (concat (map (\<lambda>l. l @ nl) pre) @ kv_text kvs) = pre @ map (\<lambda>(k, n). k @ '': '' @ fmt_nat n) kvs"
proof -
  let ?ls = "pre @ map (\<lambda>(k, n). k @ '': '' @ fmt_nat n) kvs"
  have whole: "concat (map (\<lambda>l. l @ nl) pre) @ kv_text kvs = concat (map (\<lambda>l. l @ [CHR 0x0A]) ?ls)"
    by (simp add: kv_text_def kv_line_def nl_def comp_def case_prod_unfold)
  have "\<not> line_break (CHR '':'')" "\<not> line_break (CHR '' '')" by (simp_all add: line_break_def)
  then have "\<forall>l \<in> set ?ls. \<forall>c \<in> set l. \<not> line_break c"
    using assms key_no_break digit_no_break [OF is_digit_fmt] by (fastforce simp: ignored_def key_ok_def)
  then show ?thesis unfolding whole by (rule splitlines_lines)
qed

lemma console_sums:
  assumes "\<forall>x \<in> set kvs. key_ok (fst x)" and "\<And>k. total kvs k < 2 ^ 53" and "\<forall>l \<in> set pre. ignored l"
  shows "\<exists>m. parse_output_metrics (concat (map (\<lambda>l. l @ nl) pre) @ kv_text kvs) = Inr m \<and> tallies m kvs"
proof -
  have "tallies [] []" by (simp add: tallies_def metric_def)
  from metric_lines_kvs [OF this assms(1)] assms(2)
  obtain m where "metric_lines (map (\<lambda>(k, n). k @ '': '' @ fmt_nat n) kvs) [] = Inr m" "tallies m kvs" by auto
  then show ?thesis unfolding parse_output_metrics_def splitlines_kv_text [OF assms(1,3)] metric_lines_append
    by (simp add: metric_lines_ignored [OF assms(3)])
qed

end
