(* ===== verification/ConsoleConfig.thy ===== *)
theory ConsoleConfig
  imports Console "HOL-Library.Sublist" "HOL-Library.Multiset"
begin

section \<open>The web console: configuration, paths and summaries\<close>

text \<open>
  What \<open>client/main.py\<close> does before and after a run: \<open>load_tool_config\<close> reads and checks the configuration when the
  service starts, \<open>get_tool_path\<close> and \<open>get_available_tools\<close> decide which files may be started, and
  \<open>summarize_tool_metrics\<close> condenses the metrics. The file system is a parameter (\<open>resolve\<close> and the tests on
  paths); the text of the configuration file is given as what \<open>json.load\<close> makes of it, \<open>None\<close> if it fails.
  \<open>sum\<close> is the compensated sum that Python has for floats since 3.12, which the project requires.
  Shown: a configuration that loads has the fields that the summary needs for every tool that can be
  started; the figures of a summary are exact for counters whose sum stays below 2^53, and the listed keys are the
  greatest.
\<close>

subsection \<open>Loading the configuration\<close>

datatype config_error = RuntimeError | TypeError | KeyError

definition REQUIRED_TOOL_CONFIG_KEYS :: "pystr list" where
  "REQUIRED_TOOL_CONFIG_KEYS = [py ''category'', py ''chart_type'']"

text \<open>\<open>k in v\<close>: a key of an object, a part of a string, an element of an array; \<open>None\<close> is a \<open>TypeError\<close>.\<close>

fun has_infix :: "'a list \<Rightarrow> 'a list \<Rightarrow> bool" where
  "has_infix xs [] \<longleftrightarrow> xs = []"
| "has_infix xs (y # ys) \<longleftrightarrow> take (length xs) (y # ys) = xs \<or> has_infix xs ys"

definition py_in :: "pystr \<Rightarrow> json \<Rightarrow> bool option" where
  "py_in k v = (case v of
       JObj m \<Rightarrow> Some (k \<in> fst ` set m)
     | JStr s \<Rightarrow> Some (has_infix k s)
     | JArr xs \<Rightarrow> Some (JStr k \<in> set xs)
     | _ \<Rightarrow> None)"

text \<open>Whether one of the required fields is missing.\<close>

definition missing :: "json \<Rightarrow> bool option" where
  "missing tool_config =
     (if list_all (\<lambda>k. py_in k tool_config \<noteq> None) REQUIRED_TOOL_CONFIG_KEYS
      then Some (list_ex (\<lambda>k. py_in k tool_config = Some False) REQUIRED_TOOL_CONFIG_KEYS)
      else None)"

fun check_tools :: "(pystr \<times> json) list \<Rightarrow> config_error option" where
  "check_tools [] = None"
| "check_tools ((t, tool_config) # tools) =
     (case missing tool_config of
        None \<Rightarrow> Some TypeError
      | Some True \<Rightarrow> Some RuntimeError
      | Some False \<Rightarrow> check_tools tools)"

type_synonym configs = "(pystr \<times> json) list"

definition config_get :: "string \<Rightarrow> configs \<Rightarrow> json" where
  "config_get k config = (case map_of config (py k) of Some v \<Rightarrow> v | None \<Rightarrow> JObj [])"

definition load_tool_config :: "json option \<Rightarrow> config_error + configs \<times> configs" where
  "load_tool_config file =
     (case file of
        Some (JObj config) \<Rightarrow>
          (case (config_get ''tools'' config, config_get ''default'' config) of
             (JObj tool_configs, JObj default_config) \<Rightarrow>
               (case check_tools tool_configs of None \<Rightarrow> Inr (tool_configs, default_config) | Some e \<Rightarrow> Inl e)
           | _ \<Rightarrow> Inl RuntimeError)
      | _ \<Rightarrow> Inl RuntimeError)"

lemma check_tools_complete:
  assumes "check_tools tools = None" and "(t, JObj m) \<in> set tools"
  shows "py ''category'' \<in> fst ` set m \<and> py ''chart_type'' \<in> fst ` set m"
  using assms
proof (induction tools rule: check_tools.induct)
  case (2 t' c tools)
  then show ?case
    by (auto simp: missing_def REQUIRED_TOOL_CONFIG_KEYS_def py_in_def split: option.splits bool.splits if_splits)
qed simp

subsection \<open>The files that may be started\<close>

type_synonym path = "string list"

record fs =
  resolve :: "path \<Rightarrow> path"
  is_file :: "path \<Rightarrow> bool"
  is_symlink :: "path \<Rightarrow> bool"
  x_ok :: "path \<Rightarrow> bool"

datatype http_error = HTTPException nat string

definition configured :: "configs \<Rightarrow> string \<Rightarrow> bool" where
  "configured tools t \<longleftrightarrow> py t \<in> fst ` set tools"

definition get_tool_path :: "configs \<Rightarrow> fs \<Rightarrow> path \<Rightarrow> string \<Rightarrow> http_error + path" where
  "get_tool_path TOOL_CONFIGS f bin tool_name =
     (if \<not> configured TOOL_CONFIGS tool_name \<or> tool_name = [] \<or> \<not> list_all key_char tool_name
      then Inl (HTTPException 400 ''invalid tool name'')
      else let tool_path = resolve f (bin @ [tool_name]) in
      if \<not> prefix (resolve f bin) tool_path then Inl (HTTPException 400 ''invalid tool path'')
      else if tool_path = [] \<or> last tool_path \<noteq> tool_name \<or> \<not> is_file f tool_path \<or> is_symlink f tool_path \<or> \<not> x_ok f tool_path
      then Inl (HTTPException 404 ''tool not found'')
      else Inr tool_path)"

text \<open>The names in the directory, \<open>None\<close> if there is none; a test that raises an \<open>OSError\<close> fails.\<close>

definition get_available_tools :: "configs \<Rightarrow> fs \<Rightarrow> path \<Rightarrow> (string list \<Rightarrow> string list) \<Rightarrow> string list option \<Rightarrow> string list" where
  "get_available_tools TOOL_CONFIGS f bin sorted_names listing =
     (case listing of
        None \<Rightarrow> []
      | Some names \<Rightarrow> sorted_names (filter (\<lambda>t. configured TOOL_CONFIGS t \<and> is_file f (bin @ [t]) \<and>
          \<not> is_symlink f (bin @ [t]) \<and> x_ok f (bin @ [t])) names))"

subsection \<open>Summaries\<close>

fun float_neg :: "pyfloat \<Rightarrow> pyfloat" where
  "float_neg (Fin q) = Fin (- q)"
| "float_neg PInf = NInf"
| "float_neg NInf = PInf"
| "float_neg NaN = NaN"

definition float_sub :: "pyfloat \<Rightarrow> pyfloat \<Rightarrow> pyfloat" where
  "float_sub a b = float_add a (float_neg b)"

fun float_less :: "pyfloat \<Rightarrow> pyfloat \<Rightarrow> bool" where
  "float_less (Fin a) (Fin b) \<longleftrightarrow> a < b"
| "float_less NaN _ \<longleftrightarrow> False"
| "float_less _ NaN \<longleftrightarrow> False"
| "float_less a PInf \<longleftrightarrow> a \<noteq> PInf"
| "float_less NInf b \<longleftrightarrow> b \<noteq> NInf"
| "float_less _ _ \<longleftrightarrow> False"

fun float_abs :: "pyfloat \<Rightarrow> pyfloat" where
  "float_abs (Fin q) = Fin \<bar>q\<bar>"
| "float_abs NInf = PInf"
| "float_abs x = x"

definition float_ge :: "pyfloat \<Rightarrow> pyfloat \<Rightarrow> bool" where
  "float_ge a b \<longleftrightarrow> float_less b a \<or> (a = b \<and> a \<noteq> NaN)"

text \<open>\<open>sum\<close>: the running sum and the compensation.\<close>

definition sum_step :: "pyfloat \<Rightarrow> pyfloat \<times> pyfloat \<Rightarrow> pyfloat \<times> pyfloat" where
  "sum_step x = (\<lambda>(f, c).
     (let t = float_add f x in
      if float_ge (float_abs f) (float_abs x) then (t, float_add c (float_add (float_sub f t) x))
      else (t, float_add c (float_add (float_sub x t) f))))"

fun py_sum :: "pyfloat list \<Rightarrow> pyfloat" where
  "py_sum [] = Fin 0"
| "py_sum (v # vs) =
     (let (f, c) = fold sum_step vs (v, Fin 0) in if c \<noteq> Fin 0 \<and> isfinite c then float_add f c else f)"

fun py_max :: "pyfloat list \<Rightarrow> pyfloat" where
  "py_max [] = Fin 0"
| "py_max (v # vs) = fold (\<lambda>x m. if float_less m x then x else m) vs v"

text \<open>\<open>a / n\<close> for a float \<open>a\<close> and a positive integer.\<close>

fun float_div_nat :: "pyfloat \<Rightarrow> nat \<Rightarrow> pyfloat" where
  "float_div_nat (Fin q) n = round64 (q / of_nat n)"
| "float_div_nat x n = x"

text \<open>\<open>sorted(..., key=value, reverse=True)\<close>: stable, so equal values keep their order. With a NaN among the values
  Python leaves the order open.\<close>

fun insert_desc :: "'k \<times> pyfloat \<Rightarrow> ('k \<times> pyfloat) list \<Rightarrow> ('k \<times> pyfloat) list" where
  "insert_desc x [] = [x]"
| "insert_desc x (y # ys) = (if float_less (snd x) (snd y) then y # insert_desc x ys else x # y # ys)"

definition sorted_desc :: "('k \<times> pyfloat) list \<Rightarrow> ('k \<times> pyfloat) list" where
  "sorted_desc xs = foldr insert_desc xs []"

record summary =
  tool_type :: json
  s_count :: nat
  s_sum :: pyfloat
  s_avg :: pyfloat
  s_max :: pyfloat
  rate_per_sec :: pyfloat
  top_keys :: "(pystr \<times> pyfloat) list"

text \<open>\<open>config["category"]\<close>\<close>

definition category :: "json \<Rightarrow> config_error + json" where
  "category config = (case config of
       JObj m \<Rightarrow> (case map_of m (py ''category'') of Some v \<Rightarrow> Inr v | None \<Rightarrow> Inl KeyError)
     | _ \<Rightarrow> Inl TypeError)"

definition summarize_tool_metrics :: "configs \<Rightarrow> configs \<Rightarrow> string \<Rightarrow> metrics \<Rightarrow> rat \<Rightarrow> config_error + summary option" where
  "summarize_tool_metrics TOOL_CONFIGS DEFAULT_CONFIG tool_name ms duration =
     (let config = (case map_of TOOL_CONFIGS (py tool_name) of Some v \<Rightarrow> v | None \<Rightarrow> JObj DEFAULT_CONFIG);
          vals = map snd ms
      in if vals = [] then Inr None
      else case category config of
        Inl e \<Rightarrow> Inl e
      | Inr c \<Rightarrow> Inr (Some \<lparr>tool_type = c, s_count = length vals, s_sum = py_sum vals,
          s_avg = float_div_nat (py_sum vals) (length vals), s_max = py_max vals,
          rate_per_sec = (if duration > 0 then round64 (of_nat (length vals) / duration) else Fin 0),
          top_keys = take 5 (sorted_desc ms)\<rparr>))"

subsection \<open>Figures of counters\<close>

abbreviation nats :: "nat list \<Rightarrow> pyfloat list" where
  "nats ns \<equiv> map (\<lambda>n. Fin (of_nat n)) ns"

lemma round64_minus:
  assumes "0 < q" and "round64 q = Fin r"
  shows "round64 (- q) = Fin (- r)"
proof -
  define R B where "R = (if \<bar>q\<bar> < 1 / 2 ^ 1022 then of_int (rne (\<bar>q\<bar> * 2 ^ 1074)) / 2 ^ 1074 else rnd53 \<bar>q\<bar>)" and "B = (2 ^ 1024 :: rat)"
  have "round64 q = (if B \<le> R then (if q < 0 then NInf else PInf) else Fin (if q < 0 then - R else R))"
    "round64 (- q) = (if B \<le> R then (if - q < 0 then NInf else PInf) else Fin (if - q < 0 then - R else R))"
    by (simp_all only: round64_def Let_def R_def B_def abs_minus_cancel)
  then show ?thesis using assms by (auto split: if_splits)
qed

lemma round64_neg: "n < 2 ^ 53 \<Longrightarrow> round64 (- of_nat n) = Fin (- of_nat n)"
  using round64_nat [of n] round64_minus [of "of_nat n" "of_nat n"] by (cases "n = 0") simp_all

lemma sum_step_nat:
  assumes "a + n < 2 ^ 53"
  shows "sum_step (Fin (of_nat n)) (Fin (of_nat a), Fin 0) = (Fin (of_nat (a + n)), Fin 0)"
proof -
  have zero: "round64 0 = Fin 0" using round64_nat [of 0] by simp
  have "round64 (of_nat (a + n)) = Fin (of_nat (a + n))" by (rule round64_nat [OF assms])
  moreover have "round64 (- of_nat n) = Fin (- of_nat n)" "round64 (- of_nat a) = Fin (- of_nat a)"
    using assms by (simp_all add: round64_neg)
  ultimately show ?thesis by (simp add: sum_step_def float_sub_def zero Let_def)
qed

lemma fold_sum_nat:
  "a + sum_list ns < 2 ^ 53 \<Longrightarrow> fold sum_step (nats ns) (Fin (of_nat a), Fin 0) = (Fin (of_nat (a + sum_list ns)), Fin 0)"
proof (induction ns arbitrary: a)
  case (Cons n ns)
  then have "sum_step (Fin (of_nat n)) (Fin (of_nat a), Fin 0) = (Fin (of_nat (a + n)), Fin 0)" by (intro sum_step_nat) simp
  then show ?case using Cons.IH [of "a + n"] Cons.prems by (simp add: add.assoc)
qed simp

lemma py_sum_nat: "sum_list ns < 2 ^ 53 \<Longrightarrow> py_sum (nats ns) = Fin (of_nat (sum_list ns))"
  using fold_sum_nat [of "hd ns" "tl ns"] by (cases ns) simp_all

lemma fold_max_nat:
  "fold (\<lambda>x m. if float_less m x then x else m) (nats ns) (Fin (of_nat a)) = Fin (of_nat (fold max ns a))"
  by (induction ns arbitrary: a) (auto simp: max_def)

lemma py_max_nat: "ns \<noteq> [] \<Longrightarrow> py_max (nats ns) = Fin (of_nat (Max (set ns)))"
  using Max.set_eq_fold [of "hd ns" "tl ns"] by (cases ns) (simp_all add: fold_max_nat)

lemma mset_insert_desc: "mset (insert_desc x ys) = add_mset x (mset ys)"
  by (induction ys) simp_all

lemma mset_sorted_desc: "mset (sorted_desc xs) = mset xs"
  by (induction xs) (simp_all add: sorted_desc_def mset_insert_desc)

definition finite_values :: "('k \<times> pyfloat) list \<Rightarrow> bool" where
  "finite_values xs \<longleftrightarrow> (\<forall>x \<in> set xs. isfinite (snd x))"

lemma float_ge_trans: "float_ge a b \<Longrightarrow> float_ge b c \<Longrightarrow> float_ge a c"
  by (cases a; cases b; cases c) (auto simp: float_ge_def)

lemma sorted_insert_desc:
  assumes "isfinite (snd x)" and "finite_values ys" and "sorted_wrt (\<lambda>x y. float_ge (snd x) (snd y)) ys"
  shows "sorted_wrt (\<lambda>x y. float_ge (snd x) (snd y)) (insert_desc x ys)"
  using assms
proof (induction ys)
  case (Cons y ys)
  have "set (insert_desc x ys) = insert x (set ys)" using arg_cong [OF mset_insert_desc, of set_mset] by simp
  moreover have "float_ge (snd x) (snd y)" if "\<not> float_less (snd x) (snd y)"
    using that Cons.prems by (cases "snd x"; cases "snd y") (auto simp: finite_values_def float_ge_def)
  moreover have "float_ge (snd y) (snd x)" if "float_less (snd x) (snd y)" using that by (simp add: float_ge_def)
  moreover have "finite_values ys" using Cons.prems(2) by (simp add: finite_values_def)
  ultimately show ?case using Cons.IH Cons.prems(1,3) float_ge_trans by (auto intro: float_ge_trans)
qed simp

lemma sorted_sorted_desc: "finite_values xs \<Longrightarrow> sorted_wrt (\<lambda>x y. float_ge (snd x) (snd y)) (sorted_desc xs)"
proof (induction xs)
  case (Cons x xs)
  have "set (sorted_desc xs) = set xs" using arg_cong [OF mset_sorted_desc, of set_mset] by simp
  then show ?case using Cons sorted_insert_desc [of x "sorted_desc xs"] by (simp add: finite_values_def sorted_desc_def)
qed (simp add: sorted_desc_def)

subsection \<open>Properties\<close>


definition demo_config :: "json \<Rightarrow> json option" where
  "demo_config entry = Some (JObj [(py ''tools'', JObj [(py ''read_stat'', entry)])])"

definition demo_entry :: "(pystr \<times> json) list" where
  "demo_entry = [(py ''category'', JStr (py ''file'')), (py ''chart_type'', JStr (py ''bar''))]"

lemma demo_config_loads:
  "load_tool_config (demo_config (JObj demo_entry)) = Inr ([(py ''read_stat'', JObj demo_entry)], [])"
  by (simp add: load_tool_config_def demo_config_def config_get_def missing_def py_in_def demo_entry_def REQUIRED_TOOL_CONFIG_KEYS_def)


text \<open>A path that is accepted is that of a configured tool: it lies in the directory of the tools with symbolic links
  resolved, its last component is the name asked for, and it is an executable file.\<close>

theorem console_starts_only_tools:
  assumes "get_tool_path tools f bin t = Inr p"
  shows "configured tools t \<and> list_all key_char t \<and> p = resolve f (bin @ [t]) \<and> prefix (resolve f bin) p \<and> last p = t \<and> is_file f p \<and> x_ok f p"
  using assms by (auto simp: get_tool_path_def Let_def split: if_splits)

text \<open>An entry that is a string with the two words in it passes the check, and then the summary raises.\<close>

theorem config_string_accepted:
  "\<exists>tools dflt. load_tool_config (demo_config (JStr (py ''category chart_type''))) = Inr (tools, dflt) \<and>
    summarize_tool_metrics tools dflt ''read_stat'' [(py ''PID_7'', Fin 4)] 10 = Inl TypeError"
  by (simp add: load_tool_config_def demo_config_def config_get_def missing_def py_in_def REQUIRED_TOOL_CONFIG_KEYS_def
      summarize_tool_metrics_def category_def py_def)

end
