(* ===== verification/ConsoleStream.thy ===== *)
theory ConsoleStream
  imports ConsoleConfig
begin

section \<open>The web console: one run of a tool\<close>

text \<open>
  \<open>run_tool_stream\<close> of \<open>client/main.py\<close> starts a tool, streams its lines to the browser until the time is up, stops
  it, and adds up what it printed. Here is its generator \<open>event_generator\<close>: \<open>read_turn\<close> is one turn of the
  reading loop with its checks in order; \<open>advance\<close> is everything the coroutine does between two suspensions
  (an \<open>await\<close> or a \<open>yield\<close>), for every way in which the awaited operation can end; \<open>console_step\<close> interleaves
  any number of such runs with the requests that start them, at those suspensions only, as the event loop does.
  The system is a parameter through the \<open>input\<close>s: the clock (seconds since the start of the run), whether the browser has gone,
  what \<open>readline\<close> gives (the empty line at the end of the file, an exception on an overlong line), whether \<open>killpg\<close>
  sends the signal, finds no process or is refused. The process is the one \<open>create_subprocess_exec\<close> returns.
  Shown: the collected output obeys the two limits and is what was streamed; a run ends after the turns
  before its deadline and at most seven steps; the flag \<open>running\<close> and the gauge count the runs exactly, so no
  tool has two runs; two processes of one tool are possible when \<open>killpg\<close> is refused.
\<close>

subsection \<open>The reading loop\<close>

definition MAX_OUTPUT_BYTES :: nat where
  "MAX_OUTPUT_BYTES = 2 * 1024 * 1024"

definition MAX_OUTPUT_LINES :: nat where
  "MAX_OUTPUT_LINES = 20000"

record outlog =
  log_content :: "string list"
  output_bytes :: nat
  output_lines :: nat
  output_truncated :: bool

definition empty_log :: outlog where
  "empty_log = \<lparr>log_content = [], output_bytes = 0, output_lines = 0, output_truncated = False\<rparr>"

definition truncation_notice :: string where
  "truncation_notice = ''[output truncated]'' @ nl"

text \<open>A line that was read: what is streamed, and the log after it.\<close>

definition take_line :: "string \<Rightarrow> outlog \<Rightarrow> string list \<times> outlog" where
  "take_line line l =
     (if output_lines l < MAX_OUTPUT_LINES \<and> output_bytes l + length line \<le> MAX_OUTPUT_BYTES then
        ([line], l\<lparr>log_content := log_content l @ [line], output_lines := output_lines l + 1,
                   output_bytes := output_bytes l + length line\<rparr>)
      else if \<not> output_truncated l then ([truncation_notice], l\<lparr>output_truncated := True\<rparr>)
      else ([], l))"

text \<open>What the system does in one turn: the clock at the check before the read, and at the check after a timeout.\<close>

datatype read_result = Line string | TimedOut rat | ReadFailed string

record turn =
  disconnected :: bool
  elapsed :: rat
  got :: read_result

datatype verdict = Continue | Leave | Cancel | Fail string

definition read_turn :: "rat \<Rightarrow> turn \<Rightarrow> outlog \<Rightarrow> verdict \<times> string list \<times> outlog" where
  "read_turn duration t l =
     (if disconnected t then (Cancel, [], l)
      else if elapsed t \<ge> duration then (Leave, [], l)
      else case got t of
        Line line \<Rightarrow> if line = [] then (Leave, [], l) else (Continue, take_line line l)
      | TimedOut now \<Rightarrow> if now > duration then (Leave, [], l) else (Continue, [], l)
      | ReadFailed e \<Rightarrow> (Fail e, [], l))"

text \<open>The loop; \<open>Continue\<close> at the end of the list: it is still reading.\<close>

fun stream_loop :: "rat \<Rightarrow> turn list \<Rightarrow> outlog \<Rightarrow> verdict \<times> string list \<times> outlog" where
  "stream_loop duration [] l = (Continue, [], l)"
| "stream_loop duration (t # ts) l =
     (case read_turn duration t l of
        (Continue, ys, l') \<Rightarrow> (let (v, ys', l'') = stream_loop duration ts l' in (v, ys @ ys', l''))
      | stop \<Rightarrow> stop)"

subsection \<open>The limits\<close>

definition log_ok :: "outlog \<Rightarrow> bool" where
  "log_ok l \<longleftrightarrow> output_lines l = length (log_content l) \<and> output_lines l \<le> MAX_OUTPUT_LINES \<and>
     output_bytes l = length (concat (log_content l)) \<and> output_bytes l \<le> MAX_OUTPUT_BYTES"

text \<open>What was streamed so far is the log, with the notice somewhere once it was due.\<close>

definition streamed :: "string list \<Rightarrow> outlog \<Rightarrow> bool" where
  "streamed ys l \<longleftrightarrow> (if output_truncated l then \<exists>a b. ys = a @ [truncation_notice] @ b \<and> log_content l = a @ b
     else ys = log_content l)"

lemma take_line_ok:
  assumes "log_ok l" and "streamed ys l" and "take_line line l = (zs, l')"
  shows "log_ok l' \<and> streamed (ys @ zs) l'"
proof (cases "output_lines l < MAX_OUTPUT_LINES \<and> output_bytes l + length line \<le> MAX_OUTPUT_BYTES")
  case True
  then have "zs = [line]" and l': "l' = l\<lparr>log_content := log_content l @ [line], output_lines := output_lines l + 1,
      output_bytes := output_bytes l + length line\<rparr>"
    using assms(3) by (auto simp: take_line_def)
  then show ?thesis using assms(1,2) True by (auto simp: log_ok_def streamed_def) blast
next
  case False
  then have l': "zs = (if output_truncated l then [] else [truncation_notice])" "l' = l\<lparr>output_truncated := True\<rparr>"
    using assms(3) by (cases l; auto simp: take_line_def split: if_splits)+
  have "streamed (ys @ zs) l'"
  proof (cases "output_truncated l")
    case False
    then have "ys @ zs = log_content l @ [truncation_notice] @ []" using assms(2) l' by (simp add: streamed_def)
    then show ?thesis unfolding streamed_def l' by (simp add: exI [of _ "log_content l"])
  qed (use assms(2) l' in \<open>simp add: streamed_def\<close>)
  then show ?thesis using assms(1) l' by (simp add: log_ok_def)
qed

lemma read_turn_ok:
  assumes "log_ok l" and "streamed ys l" and "read_turn d t l = (v, zs, l')"
  shows "log_ok l' \<and> streamed (ys @ zs) l'"
  using assms(3) take_line_ok [OF assms(1,2)] assms(1,2)
  by (auto simp: read_turn_def split: if_splits read_result.splits)

lemma stream_loop_ok:
  assumes "log_ok l" and "streamed ys l" and "stream_loop d ts l = (v, zs, l')"
  shows "log_ok l' \<and> streamed (ys @ zs) l'"
  using assms
proof (induction ts arbitrary: l ys zs)
  case (Cons t ts)
  obtain v1 zs1 l1 where t: "read_turn d t l = (v1, zs1, l1)" by (cases "read_turn d t l") auto
  note step = read_turn_ok [OF Cons.prems(1,2) t]
  show ?case
  proof (cases "v1 = Continue")
    case True
    then obtain zs2 where rest: "stream_loop d ts l1 = (v, zs2, l')" "zs = zs1 @ zs2"
      using Cons.prems(3) t by (auto split: prod.splits)
    then show ?thesis using Cons.IH [OF _ _ rest(1), of "ys @ zs1"] step by simp
  next
    case False
    then show ?thesis using Cons.prems(3) t step by (cases v1) auto
  qed
qed auto

lemma empty_log_ok: "log_ok empty_log" "streamed [] empty_log"
  by (simp_all add: log_ok_def streamed_def empty_log_def)

text \<open>Once the time is up the loop does not go on.\<close>

lemma read_turn_late: "elapsed t \<ge> d \<Longrightarrow> fst (read_turn d t l) \<noteq> Continue"
  by (simp add: read_turn_def)

text \<open>As long as the limits are kept every line is in the log.\<close>

lemma stream_loop_all:
  assumes "\<forall>t \<in> set ts. \<not> disconnected t \<and> elapsed t < d \<and> (\<exists>line. got t = Line line \<and> line \<noteq> [])"
    and "log_ok l" and "output_lines l + length ts \<le> MAX_OUTPUT_LINES"
    and "output_bytes l + length (concat (map (\<lambda>t. case got t of Line s \<Rightarrow> s | _ \<Rightarrow> []) ts)) \<le> MAX_OUTPUT_BYTES"
  shows "\<exists>l'. stream_loop d ts l = (Continue, map (\<lambda>t. case got t of Line s \<Rightarrow> s | _ \<Rightarrow> []) ts, l') \<and>
     log_content l' = log_content l @ map (\<lambda>t. case got t of Line s \<Rightarrow> s | _ \<Rightarrow> []) ts"
  using assms
proof (induction ts arbitrary: l)
  case (Cons t ts)
  then obtain line where t: "\<not> disconnected t" "elapsed t < d" "got t = Line line" "line \<noteq> []" by auto
  let ?l = "l\<lparr>log_content := log_content l @ [line], output_lines := output_lines l + 1, output_bytes := output_bytes l + length line\<rparr>"
  have turn: "read_turn d t l = (Continue, [line], ?l)"
    using t Cons.prems(3,4) by (simp add: read_turn_def take_line_def)
  have "log_ok ?l" using Cons.prems(2-4) t by (auto simp: log_ok_def)
  then obtain l' where "stream_loop d ts ?l = (Continue, map (\<lambda>t. case got t of Line s \<Rightarrow> s | _ \<Rightarrow> []) ts, l')"
      "log_content l' = log_content ?l @ map (\<lambda>t. case got t of Line s \<Rightarrow> s | _ \<Rightarrow> []) ts"
    using Cons.IH [of ?l] Cons.prems(1,3,4) t by auto
  then show ?case using turn t by simp
qed simp

subsection \<open>The state of the console\<close>

text \<open>An entry of \<open>TOOL_STATS\<close>, and the state all runs share: the configuration, which does not change, \<open>TOOL_STATS\<close> and
  the Prometheus metrics. The messages of the exceptions of the interpreter are a parameter.\<close>

record tool_stat =
  running :: nat
  run_duration :: "rat option"
  run_status :: "string option"
  run_error :: "string option"

definition no_stat :: tool_stat where
  "no_stat = \<lparr>running = 0, run_duration = None, run_status = None, run_error = None\<rparr>"

record console =
  TOOL_CONFIGS :: configs
  DEFAULT_CONFIG :: configs
  error_text :: "config_error \<Rightarrow> string"
  TOOL_STATS :: "string \<rightharpoonup> tool_stat"
  tool_running :: int
  tool_runs :: "string \<times> string \<Rightarrow> nat"
  tool_last_duration :: "string \<rightharpoonup> rat"
  tool_last_success :: "string \<rightharpoonup> nat"
  tool_last_output_bytes :: "string \<rightharpoonup> nat"

definition console_init :: "configs \<Rightarrow> configs \<Rightarrow> (config_error \<Rightarrow> string) \<Rightarrow> console" where
  "console_init tools dflt txt = \<lparr>TOOL_CONFIGS = tools, DEFAULT_CONFIG = dflt, error_text = txt,
     TOOL_STATS = Map.empty, tool_running = 0, tool_runs = (\<lambda>_. 0), tool_last_duration = Map.empty,
     tool_last_success = Map.empty, tool_last_output_bytes = Map.empty\<rparr>"

definition busy :: "console \<Rightarrow> string \<Rightarrow> bool" where
  "busy c t \<longleftrightarrow> (case TOOL_STATS c t of None \<Rightarrow> False | Some e \<Rightarrow> running e \<noteq> 0)"

lemma busy_initial [simp]: "\<not> busy (console_init tools dflt txt) t"
  by (simp add: busy_def console_init_def)

text \<open>\<open>TOOL_STATS.setdefault(tool, {})["running"] = 1\<close> and \<open>TOOL_STATS[tool].update(...)\<close>\<close>

definition set_stat :: "string \<Rightarrow> (tool_stat \<Rightarrow> tool_stat) \<Rightarrow> console \<Rightarrow> console" where
  "set_stat t f c = c\<lparr>TOOL_STATS := (TOOL_STATS c)(t \<mapsto> f (case TOOL_STATS c t of None \<Rightarrow> no_stat | Some e \<Rightarrow> e))\<rparr>"

subsection \<open>A run between two suspensions\<close>

text \<open>Where the coroutine is suspended: in \<open>create_subprocess_exec\<close>, in the reading loop, in the wait after SIGTERM, in
  the wait after SIGKILL, at the \<open>yield\<close> of its last message, in the wait of the \<open>finally\<close> block; or it has ended.\<close>

datatype phase = Spawning | Reading | Terminating | Killing | Reporting | Reaping | Gone

datatype proc = NoProc | Live | Dead

record task =
  k_tool :: string
  k_duration :: rat
  k_log :: outlog
  k_proc :: proc
  k_phase :: phase
  k_answer :: "(string + metrics \<times> summary option) option"

definition new_task :: "string \<Rightarrow> rat \<Rightarrow> task" where
  "new_task t d = \<lparr>k_tool = t, k_duration = d, k_log = empty_log, k_proc = NoProc, k_phase = Spawning, k_answer = None\<rparr>"

text \<open>The check and the setting of the flag, with no suspension between them; \<open>None\<close>: the run is refused.\<close>

definition start_run :: "string \<Rightarrow> rat \<Rightarrow> console \<Rightarrow> (console \<times> task) option" where
  "start_run t d c =
     (if busy c t then None
      else Some ((set_stat t (\<lambda>e. e\<lparr>running := 1\<rparr>) c)\<lparr>tool_running := tool_running c + 1\<rparr>, new_task t d))"

definition MAX_DURATION_SECONDS :: rat where
  "MAX_DURATION_SECONDS = 300"

text \<open>A request: the framework checks the bounds of the duration, then the path is checked, then the generator starts.\<close>

definition run_tool_stream :: "fs \<Rightarrow> path \<Rightarrow> string \<Rightarrow> rat \<Rightarrow> console \<Rightarrow> http_error + (console \<times> task) option" where
  "run_tool_stream f bin t d c =
     (if \<not> (0 < d \<and> d \<le> MAX_DURATION_SECONDS) then Inl (HTTPException 422 ''duration'')
      else case get_tool_path (TOOL_CONFIGS c) f bin t of
        Inl e \<Rightarrow> Inl e
      | Inr tool_path \<Rightarrow> Inr (start_run t d c))"

datatype kill_result = Sent | NoSuchProcess | NotPermitted

text \<open>The \<open>except Exception\<close> block up to its \<open>yield\<close>.\<close>

definition report_error :: "string \<Rightarrow> console \<times> task \<Rightarrow> console \<times> task" where
  "report_error e = (\<lambda>(c, k).
     (let c1 = c\<lparr>tool_runs := (tool_runs c)((k_tool k, ''error'') := tool_runs c (k_tool k, ''error'') + 1),
                 tool_last_success := (tool_last_success c)(k_tool k \<mapsto> 0)\<rparr>
      in (set_stat (k_tool k) (\<lambda>s. s\<lparr>run_status := Some ''error'', run_error := Some e\<rparr>) c1,
          k\<lparr>k_phase := Reporting, k_answer := Some (Inl e)\<rparr>)))"

text \<open>The evaluation of the output, up to the \<open>yield\<close> of the result.\<close>

definition report_success :: "rat \<Rightarrow> console \<times> task \<Rightarrow> console \<times> task" where
  "report_success now = (\<lambda>(c, k).
     (let full_out = concat (log_content (k_log k)) in
      case parse_output_metrics full_out of
        Inl OverflowError \<Rightarrow> report_error ''int too large to convert to float'' (c, k)
      | Inr parsed \<Rightarrow>
      case summarize_tool_metrics (TOOL_CONFIGS c) (DEFAULT_CONFIG c) (k_tool k) parsed now of
        Inl e \<Rightarrow> report_error (error_text c e) (c, k)
      | Inr summ \<Rightarrow>
          let c1 = c\<lparr>tool_runs := (tool_runs c)((k_tool k, ''success'') := tool_runs c (k_tool k, ''success'') + 1),
                     tool_last_duration := (tool_last_duration c)(k_tool k \<mapsto> now),
                     tool_last_success := (tool_last_success c)(k_tool k \<mapsto> 1),
                     tool_last_output_bytes := (tool_last_output_bytes c)(k_tool k \<mapsto> length full_out)\<rparr>
          in (set_stat (k_tool k) (\<lambda>s. s\<lparr>run_duration := Some now, run_status := Some ''success''\<rparr>) c1,
              k\<lparr>k_phase := Reporting, k_answer := Some (Inr (parsed, summ))\<rparr>)))"

definition EPERM_text :: string where
  "EPERM_text = ''[Errno 1] Operation not permitted''"

text \<open>After the reading loop: SIGTERM, unless the process has ended.\<close>

definition leave_loop :: "kill_result \<Rightarrow> rat \<Rightarrow> console \<times> task \<Rightarrow> console \<times> task" where
  "leave_loop r now = (\<lambda>(c, k).
     (if k_proc k \<noteq> Live then report_success now (c, k)
      else if r = NotPermitted then report_error EPERM_text (c, k)
      else (c, k\<lparr>k_phase := Terminating\<rparr>)))"

text \<open>The \<open>finally\<close> block; a refused \<open>killpg\<close> ends the coroutine with the exception and leaves the process.\<close>

definition finalise :: "kill_result \<Rightarrow> console \<times> task \<Rightarrow> console \<times> task" where
  "finalise r = (\<lambda>(c, k).
     ((set_stat (k_tool k) (\<lambda>s. s\<lparr>running := 0\<rparr>) c)\<lparr>tool_running := tool_running c - 1\<rparr>,
      k\<lparr>k_phase := if k_proc k = Live \<and> r \<noteq> NotPermitted then Reaping else Gone\<rparr>))"

text \<open>How the awaited operation ends, or that the run is cancelled (the browser has gone), or that the process ends
  by itself. A \<open>killpg\<close> that the coroutine then calls has the result that is given along.\<close>

datatype input =
    Spawned
  | SpawnFailed string
  | Turn turn kill_result rat
  | Exit rat
  | WaitTimeout kill_result
  | Delivered kill_result
  | Cancelled kill_result
  | Dies

fun advance :: "input \<Rightarrow> console \<times> task \<Rightarrow> (console \<times> task) option" where
  "advance Spawned (c, k) =
     (if k_phase k = Spawning \<and> k_proc k = NoProc then Some (c, k\<lparr>k_proc := Live, k_phase := Reading\<rparr>) else None)"
| "advance (SpawnFailed e) (c, k) = (if k_phase k = Spawning then Some (report_error e (c, k)) else None)"
| "advance (Turn t r now) (c, k) =
     (if k_phase k \<noteq> Reading then None
      else case read_turn (k_duration k) t (k_log k) of
        (Continue, _, l) \<Rightarrow> Some (c, k\<lparr>k_log := l\<rparr>)
      | (Leave, _, _) \<Rightarrow> Some (leave_loop r now (c, k))
      | (Cancel, _, _) \<Rightarrow> Some (finalise r (c, k))
      | (Fail e, _, _) \<Rightarrow> Some (report_error e (c, k)))"
| "advance (Exit now) (c, k) =
     (case k_phase k of
        Terminating \<Rightarrow> Some (report_success now (c, k\<lparr>k_proc := Dead\<rparr>))
      | Killing \<Rightarrow> Some (report_success now (c, k\<lparr>k_proc := Dead\<rparr>))
      | Reaping \<Rightarrow> Some (c, k\<lparr>k_proc := Dead, k_phase := Gone\<rparr>)
      | _ \<Rightarrow> None)"
| "advance (WaitTimeout r) (c, k) =
     (if k_phase k \<noteq> Terminating then None
      else if r = NotPermitted then Some (report_error EPERM_text (c, k))
      else Some (c, k\<lparr>k_phase := Killing\<rparr>))"
| "advance (Delivered r) (c, k) = (if k_phase k = Reporting then Some (finalise r (c, k)) else None)"
| "advance (Cancelled r) (c, k) =
     (case k_phase k of
        Gone \<Rightarrow> None
      | Reaping \<Rightarrow> Some (c, k\<lparr>k_phase := Gone\<rparr>)
      | _ \<Rightarrow> Some (finalise r (c, k)))"
| "advance Dies (c, k) = (if k_proc k = Live then Some (c, k\<lparr>k_proc := Dead\<rparr>) else None)"

subsection \<open>Interleaved runs\<close>

inductive console_step :: "console \<times> task list \<Rightarrow> console \<times> task list \<Rightarrow> bool" where
  accept: "start_run t d c = Some (c', k) \<Longrightarrow> console_step (c, ks) (c', ks @ [k])"
| refuse: "start_run t d c = None \<Longrightarrow> console_step (c, ks) (c, ks)"
| act: "i < length ks \<Longrightarrow> advance x (c, ks ! i) = Some (c', k') \<Longrightarrow> console_step (c, ks) (c', ks[i := k'])"

inductive_cases console_stepE: "console_step s s'"

inductive console_reachable :: "console \<times> task list \<Rightarrow> bool" where
  init: "console_reachable (console_init tools dflt txt, [])"
| step: "console_reachable s \<Longrightarrow> console_step s s' \<Longrightarrow> console_reachable s'"

text \<open>The same as a function of what happens: a request for a tool, or an input to the run with a number.\<close>

datatype move = Request string rat | Input nat input

fun console_run :: "move list \<Rightarrow> console \<times> task list \<Rightarrow> (console \<times> task list) option" where
  "console_run [] s = Some s"
| "console_run (Request t d # ms) (c, ks) =
     (case start_run t d c of None \<Rightarrow> console_run ms (c, ks) | Some (c', k) \<Rightarrow> console_run ms (c', ks @ [k]))"
| "console_run (Input i x # ms) (c, ks) =
     (if i < length ks then
        (case advance x (c, ks ! i) of None \<Rightarrow> None | Some (c', k') \<Rightarrow> console_run ms (c', ks[i := k']))
      else None)"

lemma console_run_reachable: "console_reachable s \<Longrightarrow> console_run ms s = Some s' \<Longrightarrow> console_reachable s'"
proof (induction ms arbitrary: s)
  case (Cons m ms)
  obtain c ks where s: "s = (c, ks)" by fastforce
  show ?case
  proof (cases m)
    case (Request t d)
    show ?thesis
    proof (cases "start_run t d c")
      case (Some p)
      then have "console_step s (fst p, ks @ [snd p])" using accept [of t d c "fst p" "snd p" ks] s by simp
      then show ?thesis using Cons Some by (auto simp: s Request split: prod.splits intro: console_reachable.step)
    qed (use Cons in \<open>auto simp: s Request\<close>)
  next
    case (Input i x)
    then obtain c' k' where "i < length ks" "advance x (c, ks ! i) = Some (c', k')" "console_run ms (c', ks[i := k']) = Some s'"
      using Cons.prems(2) by (auto simp: s split: if_splits option.splits)
    moreover from this have "console_step s (c', ks[i := k'])" unfolding s by (intro act)
    ultimately show ?thesis using Cons.IH Cons.prems(1) by (blast intro: console_reachable.step)
  qed
qed simp

definition active :: "task \<Rightarrow> bool" where
  "active k \<longleftrightarrow> k_phase k \<notin> {Reaping, Gone}"

definition runs_of :: "string \<Rightarrow> task list \<Rightarrow> task list" where
  "runs_of t ks = filter (\<lambda>k. active k \<and> k_tool k = t) ks"

text \<open>The flag of each tool and the gauge are the numbers of runs that have not reached their \<open>finally\<close> block.\<close>

definition counts_runs :: "console \<times> task list \<Rightarrow> bool" where
  "counts_runs = (\<lambda>(c, ks). tool_running c = int (length (filter active ks)) \<and>
     (\<forall>t. length (runs_of t ks) = (if busy c t then 1 else 0)))"

lemma length_filter_update:
  assumes "i < length xs"
  shows "length (filter P (xs[i := x])) + (if P (xs ! i) then 1 else 0) = length (filter P xs) + (if P x then 1 else 0)"
proof -
  have "xs = take i xs @ xs ! i # drop (Suc i) xs" using assms by (rule id_take_nth_drop)
  then have "length (filter P xs) = length (filter P (take i xs @ xs ! i # drop (Suc i) xs))" by simp
  then show ?thesis using assms by (simp add: upd_conv_take_nth_drop)
qed

lemma busy_set_stat [simp]:
  "(\<And>e. running (f e) = running e) \<Longrightarrow> busy (set_stat t f c) t' = busy c t'"
  "busy (set_stat t (\<lambda>e. e\<lparr>running := n\<rparr>) c) t' = (if t' = t then n \<noteq> 0 else busy c t')"
  by (auto simp: busy_def set_stat_def no_stat_def split: option.split)

lemma busy_other [simp]:
  "busy (c\<lparr>tool_running := g\<rparr>) t = busy c t" "busy (c\<lparr>tool_runs := r\<rparr>) t = busy c t"
  "busy (c\<lparr>tool_last_duration := d\<rparr>) t = busy c t" "busy (c\<lparr>tool_last_success := m\<rparr>) t = busy c t"
  "busy (c\<lparr>tool_last_output_bytes := b\<rparr>) t = busy c t"
  by (simp_all add: busy_def)

lemma tool_running_set_stat [simp]: "tool_running (set_stat t f c) = tool_running c"
  by (simp add: set_stat_def)

text \<open>A report leaves the flag and the gauge; the \<open>finally\<close> block ends the run.\<close>

lemma report_error_effect:
  assumes "report_error e (c, k) = (c', k')"
  shows "k_tool k' = k_tool k \<and> k_proc k' = k_proc k \<and> k_phase k' = Reporting \<and> tool_running c' = tool_running c \<and> (\<forall>t. busy c' t = busy c t)"
  using assms by (auto simp: report_error_def Let_def)

lemma report_success_effect:
  assumes "report_success now (c, k) = (c', k')"
  shows "k_tool k' = k_tool k \<and> k_proc k' = k_proc k \<and> k_phase k' = Reporting \<and> tool_running c' = tool_running c \<and> (\<forall>t. busy c' t = busy c t)"
  using assms report_error_effect [of _ c k]
  by (auto simp: report_success_def Let_def split: sum.splits py_error.splits)

lemma leave_loop_effect:
  assumes "leave_loop r now (c, k) = (c', k')"
  shows "k_tool k' = k_tool k \<and> k_proc k' = k_proc k \<and> k_phase k' \<in> {Terminating, Reporting} \<and> tool_running c' = tool_running c \<and>
    (\<forall>t. busy c' t = busy c t)"
  using assms report_error_effect [of _ c k] report_success_effect [of _ c k]
  by (auto simp: leave_loop_def split: if_splits)

lemma finalise_effect:
  assumes "finalise r (c, k) = (c', k')"
  shows "k_tool k' = k_tool k \<and> k_proc k' = k_proc k \<and> k_phase k' \<in> {Reaping, Gone} \<and> tool_running c' = tool_running c - 1 \<and>
    (\<forall>t. busy c' t = (busy c t \<and> t \<noteq> k_tool k))"
  using assms by (auto simp: finalise_def split: if_splits)

lemmas effects = report_error_effect report_success_effect leave_loop_effect finalise_effect

text \<open>An active run goes on with the flag and the gauge as they are, or it ends and both go down.\<close>

lemma advance_effect:
  assumes "advance x (c, k) = Some (c', k')"
  shows "k_tool k' = k_tool k \<and>
    (active k' = active k \<and> tool_running c' = tool_running c \<and> (\<forall>t. busy c' t = busy c t) \<or>
     active k \<and> \<not> active k' \<and> tool_running c' = tool_running c - 1 \<and> (\<forall>t. busy c' t = (busy c t \<and> t \<noteq> k_tool k)))"
proof (cases x)
  case (Turn t r now)
  then show ?thesis using assms
    by (auto simp: active_def split: if_splits prod.splits verdict.splits dest!: effects)
next
  case (Exit now)
  then show ?thesis using assms report_success_effect [of now c "k\<lparr>k_proc := Dead\<rparr>" c' k']
    by (auto simp: active_def split: phase.splits)
next
  case (Cancelled r)
  then show ?thesis using assms finalise_effect [of r c k c' k']
    by (auto simp: active_def split: phase.splits)
qed (use assms in \<open>auto simp: active_def split: if_splits dest!: effects\<close>)

lemma counts_runs_act:
  assumes "counts_runs (c, ks)" and "i < length ks" and "advance x (c, ks ! i) = Some (c', k')"
  shows "counts_runs (c', ks[i := k'])"
proof -
  note eff = advance_effect [OF assms(3)]
  have all: "length (filter active (ks[i := k'])) + (if active (ks ! i) then 1 else 0) =
      length (filter active ks) + (if active k' then 1 else 0)"
    by (rule length_filter_update [OF assms(2)])
  have one: "length (runs_of t (ks[i := k'])) + (if active (ks ! i) \<and> k_tool (ks ! i) = t then 1 else 0) =
      length (runs_of t ks) + (if active k' \<and> k_tool k' = t then 1 else 0)" for t
    unfolding runs_of_def by (rule length_filter_update [OF assms(2)])
  have flag: "length (runs_of t (ks[i := k'])) = (if busy c' t then 1 else 0)" for t
    using one [of t] eff assms(1) by (auto simp: counts_runs_def split: if_splits)
  show ?thesis using all flag eff assms(1) by (auto simp: counts_runs_def split: if_splits)
qed

lemma counts_runs_start:
  assumes "counts_runs (c, ks)" and "start_run t d c = Some (c', k)"
  shows "counts_runs (c', ks @ [k])"
  using assms by (auto simp: counts_runs_def start_run_def new_task_def active_def runs_of_def split: if_splits)

lemma counts_runs_step: "console_step s s' \<Longrightarrow> counts_runs s \<Longrightarrow> counts_runs s'"
  by (erule console_stepE) (auto intro: counts_runs_start counts_runs_act)

lemma console_reachable_counts: "console_reachable s \<Longrightarrow> counts_runs s"
proof (induction rule: console_reachable.induct)
  case init
  then show ?case by (simp add: counts_runs_def runs_of_def, simp add: console_init_def)
next
  case (step s s')
  then show ?case by (blast intro: counts_runs_step)
qed

subsection \<open>The life of one run\<close>

text \<open>The inputs of one run, each with the state of the console at that moment, which other runs may have changed.\<close>

fun life :: "(console \<times> input) list \<Rightarrow> task \<Rightarrow> task option" where
  "life [] k = Some k"
| "life ((c, x) # xs) k = (case advance x (c, k) of None \<Rightarrow> None | Some (_, k') \<Rightarrow> life xs k')"

definition early :: "rat \<Rightarrow> input \<Rightarrow> bool" where
  "early d x \<longleftrightarrow> (case x of Turn t _ _ \<Rightarrow> elapsed t < d | _ \<Rightarrow> False)"

fun phase_rank :: "phase \<Rightarrow> nat" where
  "phase_rank Spawning = 6"
| "phase_rank Reading = 5"
| "phase_rank Terminating = 4"
| "phase_rank Killing = 3"
| "phase_rank Reporting = 2"
| "phase_rank Reaping = 1"
| "phase_rank Gone = 0"

definition rank :: "task \<Rightarrow> nat" where
  "rank k = phase_rank (k_phase k) + (if k_proc k = Dead then 0 else 1)"

text \<open>Every step other than a turn of the loop before the deadline brings the run nearer to its end.\<close>

lemma advance_duration:
  "advance x (c, k) = Some (c', k') \<Longrightarrow> k_duration k' = k_duration k"
  by (cases x) (auto simp: report_error_def report_success_def leave_loop_def finalise_def Let_def
      split: if_splits prod.splits verdict.splits phase.splits sum.splits py_error.splits)

lemma advance_rank:
  assumes "advance x (c, k) = Some (c', k')"
  shows "rank k' + 1 \<le> rank k + (if early (k_duration k) x then 1 else 0)"
proof (cases x)
  case (Turn t r now)
  show ?thesis
  proof (cases "fst (read_turn (k_duration k) t (k_log k)) = Continue")
    case True
    then have "early (k_duration k) x" using read_turn_late [of "k_duration k" t "k_log k"] Turn by (force simp: early_def)
    then show ?thesis using assms Turn True by (auto simp: rank_def split: if_splits prod.splits)
  next
    case False
    obtain v zs l where rt: "read_turn (k_duration k) t (k_log k) = (v, zs, l)" by (cases "read_turn (k_duration k) t (k_log k)") auto
    have p: "k_phase k = Reading" using assms Turn by (simp split: if_splits)
    have "advance x (c, k) = Some (leave_loop r now (c, k)) \<or> advance x (c, k) = Some (finalise r (c, k)) \<or>
        (\<exists>e. advance x (c, k) = Some (report_error e (c, k)))"
      using False by (cases v) (auto simp: Turn p rt)
    then have "leave_loop r now (c, k) = (c', k') \<or> finalise r (c, k) = (c', k') \<or> (\<exists>e. report_error e (c, k) = (c', k'))"
      using assms by (metis option.inject)
    then have "k_proc k' = k_proc k \<and> k_phase k' \<in> {Terminating, Reporting, Reaping, Gone}"
      using leave_loop_effect [of r now c k c' k'] finalise_effect [of r c k c' k'] report_error_effect [of _ c k c' k'] by fastforce
    then show ?thesis by (auto simp: rank_def p)
  qed
next
  case (Exit now)
  then show ?thesis using assms report_success_effect [of now c "k\<lparr>k_proc := Dead\<rparr>" c' k']
    by (auto simp: rank_def split: phase.splits if_splits)
next
  case (Cancelled r)
  then show ?thesis using assms by (cases "k_phase k") (auto simp: rank_def finalise_def)
qed (use assms in \<open>auto simp: rank_def report_error_def finalise_def Let_def split: if_splits\<close>)

lemma life_bounded:
  "life xs k = Some k' \<Longrightarrow> length xs + rank k' \<le> rank k + length (filter (early (k_duration k)) (map snd xs))"
proof (induction xs arbitrary: k)
  case (Cons x xs)
  obtain c i where x: "x = (c, i)" by fastforce
  obtain c1 k1 where a: "advance i (c, k) = Some (c1, k1)" "life xs k1 = Some k'"
    using Cons.prems by (auto simp: x split: option.splits)
  show ?case using Cons.IH [OF a(2)] advance_rank [OF a(1)] by (simp add: x advance_duration [OF a(1)] split: if_splits)
qed simp

text \<open>The ways in which what a run waits for can end.\<close>

inductive awaits :: "phase \<Rightarrow> input \<Rightarrow> bool" where
  "awaits Spawning Spawned"
| "awaits Spawning (SpawnFailed e)"
| "awaits Reading (Turn t r now)"
| "awaits Terminating (Exit now)"
| "awaits Terminating (WaitTimeout r)"
| "awaits Killing (Exit now)"
| "awaits Reporting (Delivered r)"
| "awaits Reaping (Exit now)"

lemma advance_spawning:
  assumes "advance x (c, k) = Some (c', k')" and "k_phase k' = Spawning"
  shows "k_phase k = Spawning \<and> (k_proc k = NoProc \<longrightarrow> k_proc k' = NoProc)"
proof (cases x)
  case (Exit now)
  then show ?thesis using assms report_success_effect [of now c "k\<lparr>k_proc := Dead\<rparr>" c' k'] by (auto split: phase.splits)
next
  case (Turn t r now)
  then show ?thesis using assms leave_loop_effect [of r now c k c' k']
    by (auto simp: report_error_def finalise_def Let_def split: if_splits prod.splits verdict.splits)
next
  case (Cancelled r)
  then show ?thesis using assms by (cases "k_phase k") (auto simp: finalise_def split: if_splits)
qed (use assms in \<open>auto simp: report_error_def finalise_def Let_def split: if_splits\<close>)

lemma life_spawning:
  "life xs k = Some k' \<Longrightarrow> (k_phase k = Spawning \<Longrightarrow> k_proc k = NoProc) \<Longrightarrow> k_phase k' = Spawning \<Longrightarrow> k_proc k' = NoProc"
proof (induction xs arbitrary: k)
  case (Cons x xs)
  obtain c i where x: "x = (c, i)" by fastforce
  obtain c1 k1 where a: "advance i (c, k) = Some (c1, k1)" "life xs k1 = Some k'"
    using Cons.prems(1) by (auto simp: x split: option.splits)
  show ?case using Cons.IH [OF a(2) _ Cons.prems(3)] advance_spawning [OF a(1)] Cons.prems(2) by blast
qed simp

subsection \<open>Properties\<close>


text \<open>C10: in every state that any number of requests can reach, in any interleaving, with cancellations, failures and
  refused signals: the flag of a tool is set exactly when one run of it has not reached its \<open>finally\<close> block,
  a second run is never accepted before that, and the gauge is the number of such runs.\<close>

theorem console_exclusive:
  assumes "console_reachable (c, ks)"
  shows "length (runs_of t ks) = (if busy c t then 1 else 0) \<and> tool_running c = int (length (filter active ks)) \<and>
    (start_run t d c = None \<longleftrightarrow> runs_of t ks \<noteq> [])"
  using console_reachable_counts [OF assms] by (cases "busy c t") (auto simp: counts_runs_def start_run_def dest: spec [of _ t])

theorem console_exclusive_witness:
  "\<exists>c ks. console_run [Request ''read_stat'' 10, Request ''read_stat'' 10, Input 0 Spawned, Request ''tcp_connect'' 5] ((console_init [] [] (\<lambda>_. [])), []) = Some (c, ks) \<and>
    length (runs_of ''read_stat'' ks) = (if busy c ''read_stat'' then 1 else 0) \<and> tool_running c = int (length (filter active ks)) \<and>
    (start_run ''read_stat'' 3 c = None \<longleftrightarrow> runs_of ''read_stat'' ks \<noteq> []) \<and> length ks = 2"
proof -
  obtain c ks where r: "console_run [Request ''read_stat'' 10, Request ''read_stat'' 10, Input 0 Spawned, Request ''tcp_connect'' 5] ((console_init [] [] (\<lambda>_. [])), []) =
      Some (c, ks)" and l: "length ks = 2"
    by (simp add: start_run_def new_task_def)
  show ?thesis using console_exclusive [OF console_run_reachable [OF console_reachable.init r], of "''read_stat''" 3] r l
    by (intro exI [of _ c] exI [of _ ks]) simp
qed

text \<open>C13: a run does not outlive its deadline: in any interleaving, whatever the system answers, it takes at most seven
  steps besides the turns of the reading loop before the deadline; and as long as it has not ended, every
  answer of the operation it waits for takes it on.\<close>

theorem console_run_ends:
  assumes "life xs (new_task t d) = Some k"
  shows "length xs \<le> 7 + length (filter (early d) (map snd xs)) \<and>
    (k_phase k = Gone \<or> (\<exists>x. awaits (k_phase k) x)) \<and> (\<forall>x c. awaits (k_phase k) x \<longrightarrow> advance x (c, k) \<noteq> None)"
proof (intro conjI allI impI)
  show "length xs \<le> 7 + length (filter (early d) (map snd xs))"
    using life_bounded [OF assms] by (simp add: new_task_def rank_def)
  show "k_phase k = Gone \<or> (\<exists>x. awaits (k_phase k) x)" by (cases "k_phase k") (auto intro: awaits.intros)
  have sp: "k_phase k = Spawning \<Longrightarrow> k_proc k = NoProc" by (rule life_spawning [OF assms]) (simp_all add: new_task_def)
  show "advance x (c, k) \<noteq> None" if "awaits (k_phase k) x" for x c
    using that sp by (auto elim!: awaits.cases split: prod.splits verdict.splits)
qed

theorem console_run_ends_witness:
  "\<exists>k. life [((console_init [] [] (\<lambda>_. [])), Spawned), ((console_init [] [] (\<lambda>_. [])), Turn \<lparr>disconnected = False, elapsed = 1, got = Line ''PID_7: 1''\<rparr> Sent 1),
      ((console_init [] [] (\<lambda>_. [])), Turn \<lparr>disconnected = False, elapsed = 10, got = Line []\<rparr> Sent 10)] (new_task ''read_stat'' 10) = Some k \<and>
    length [Spawned, Turn \<lparr>disconnected = False, elapsed = 1, got = Line ''PID_7: 1''\<rparr> Sent 1,
      Turn \<lparr>disconnected = False, elapsed = 10, got = Line []\<rparr> Sent 10] \<le> 7 + 1 \<and>
    advance (Exit 11) ((console_init [] [] (\<lambda>_. [])), k) \<noteq> None"
proof -
  obtain k where r: "life [((console_init [] [] (\<lambda>_. [])), Spawned), ((console_init [] [] (\<lambda>_. [])), Turn \<lparr>disconnected = False, elapsed = 1, got = Line ''PID_7: 1''\<rparr> Sent 1),
      ((console_init [] [] (\<lambda>_. [])), Turn \<lparr>disconnected = False, elapsed = 10, got = Line []\<rparr> Sent 10)] (new_task ''read_stat'' 10) = Some k"
    and p: "k_phase k = Terminating"
    by (simp add: new_task_def read_turn_def take_line_def empty_log_def MAX_OUTPUT_LINES_def MAX_OUTPUT_BYTES_def leave_loop_def)
  have "awaits (k_phase k) (Exit 11)" unfolding p by (rule awaits.intros)
  then have "advance (Exit 11) ((console_init [] [] (\<lambda>_. [])), k) \<noteq> None" using console_run_ends [OF r] by blast
  then show ?thesis using r by (intro exI [of _ k]) simp
qed

subsection \<open>Where the console does not do what it means to\<close>

text \<open>A tool that runs as root cannot be signalled by a console that does not: \<open>killpg\<close> raises \<open>PermissionError\<close>, which
  is not the \<open>ProcessLookupError\<close> that is caught. The run is reported as failed, its flag is cleared, its process
  goes on, and the next request starts a second process of the tool.\<close>

theorem two_processes:
  "\<exists>c ks. console_reachable (c, ks) \<and> length (filter (\<lambda>k. k_tool k = t \<and> k_proc k = Live) ks) = 2 \<and> busy c t"
proof -
  obtain c ks where r: "console_run [Request t 10, Input 0 Spawned,
      Input 0 (Turn \<lparr>disconnected = False, elapsed = 10, got = Line []\<rparr> NotPermitted 10), Input 0 (Delivered NotPermitted),
      Request t 10, Input 1 Spawned] ((console_init [] [] (\<lambda>_. [])), []) = Some (c, ks)"
    and two: "length (filter (\<lambda>k. k_tool k = t \<and> k_proc k = Live) ks) = 2" "busy c t"
    by (simp add: start_run_def new_task_def read_turn_def leave_loop_def report_error_def finalise_def)
  show ?thesis using console_run_reachable [OF console_reachable.init r] two by blast
qed

text \<open>A line that would exceed the limit on bytes is left out, and a later shorter line is kept again: what is kept is
  not a beginning of the output.\<close>

theorem truncation_leaves_hole:
  "\<exists>l'. stream_loop 10 [\<lparr>disconnected = False, elapsed = 1, got = Line (replicate 4 CHR ''x'' @ nl)\<rparr>,
       \<lparr>disconnected = False, elapsed = 1, got = Line (''PID_7: 1'' @ nl)\<rparr>,
       \<lparr>disconnected = False, elapsed = 1, got = Line (''y'' @ nl)\<rparr>]
      \<lparr>log_content = [], output_bytes = MAX_OUTPUT_BYTES - 8, output_lines = 1, output_truncated = False\<rparr> =
     (Continue, [replicate 4 CHR ''x'' @ nl, truncation_notice, ''y'' @ nl], l') \<and>
   log_content l' = [replicate 4 CHR ''x'' @ nl, ''y'' @ nl]"
  by (simp add: read_turn_def take_line_def MAX_OUTPUT_LINES_def MAX_OUTPUT_BYTES_def nl_def)

text \<open>A successful run updates the entry of its tool and does not remove the error of an earlier run from it.\<close>

theorem success_keeps_error:
  assumes "TOOL_STATS c (k_tool k) = Some e" and "parse_output_metrics (concat (log_content (k_log k))) = Inr m"
    and "summarize_tool_metrics (TOOL_CONFIGS c) (DEFAULT_CONFIG c) (k_tool k) m now = Inr summ"
  shows "\<exists>e'. TOOL_STATS (fst (report_success now (c, k))) (k_tool k) = Some e' \<and> run_status e' = Some ''success'' \<and> run_error e' = run_error e"
  using assms by (simp add: report_success_def Let_def set_stat_def)

end
