(* ===== verification/ConsoleRuns.thy ===== *)
theory ConsoleRuns
  imports ConsoleStream CountSessions
begin

section \<open>From kernel events to the console\<close>

text \<open>
  The console reads standard output and standard error of a tool through one pipe. Standard error is not
  buffered; standard output, which is no terminal here, is written when the buffer of the C library is full (the
  contract \<open>stdout_buffer\<close>), at \<open>fflush\<close> and at \<open>exit\<close>, and is lost when a signal kills the tool. What the console makes of
  the events in the kernel follows from the theorems on whole runs: for read_stat, whose lines are
  increments and which flushes in every iteration, the sums it shows are the numbers of calls.
  write_stat and mmap_stat do not flush: until a block is full the console has nothing to show, and what is
  in the block when the time is up is lost. write_stat prints running totals, which the console adds up.
\<close>

subsection \<open>The pipe\<close>

fun effect_text :: "effect \<Rightarrow> string" where
  "effect_text (Stdout s) = s"
| "effect_text (Stderr s) = s"
| "effect_text _ = []"

definition output_text :: "effect list \<Rightarrow> string" where
  "output_text es = concat (map effect_text es)"

lemma output_text_simps [simp]:
  "output_text [] = []" "output_text (e # es) = effect_text e @ output_text es"
  "output_text (xs @ ys) = output_text xs @ output_text ys"
  by (simp_all add: output_text_def)

lemma output_text_sleeps:
  "output_text (concat (map (Cons (Sleep n)) outs)) = concat (map output_text outs)"
  "output_text (concat (map (\<lambda>out. out @ [Sleep n]) outs)) = concat (map output_text outs)"
  by (induction outs) simp_all

lemma output_text_map_err: "effect_text (err_line s) = s @ nl"
  by (simp add: err_line_def)

text \<open>The text in the pipe and the text in the buffer of standard output; \<open>emit\<close> is what the C library does with the text
  of a \<open>printf\<close>.\<close>

type_synonym stdio = "string \<Rightarrow> string \<times> string \<Rightarrow> string \<times> string"

definition pipe_step :: "stdio \<Rightarrow> effect \<Rightarrow> string \<times> string \<Rightarrow> string \<times> string" where
  "pipe_step emit e = (\<lambda>(p, b). case e of
     Stdout s \<Rightarrow> emit s (p, b)
   | Stderr s \<Rightarrow> (p @ s, b)
   | Flush \<Rightarrow> (p @ b, [])
   | _ \<Rightarrow> (p, b))"

definition pipe_run :: "stdio \<Rightarrow> effect list \<Rightarrow> string \<times> string \<Rightarrow> string \<times> string" where
  "pipe_run emit es pb = fold (pipe_step emit) es pb"

text \<open>What has come through the pipe while the tool runs.\<close>

definition piped :: "stdio \<Rightarrow> effect list \<Rightarrow> string" where
  "piped emit es = fst (pipe_run emit es ([], []))"

lemma pipe_run_simps [simp]:
  "pipe_run emit [] pb = pb" "pipe_run emit (e # es) pb = pipe_run emit es (pipe_step emit e pb)"
  "pipe_run emit (xs @ ys) pb = pipe_run emit ys (pipe_run emit xs pb)"
  by (simp_all add: pipe_run_def)

definition prints_only :: "effect list \<Rightarrow> bool" where
  "prints_only es \<longleftrightarrow> list_all (\<lambda>e. \<exists>s. e = Stdout s) es"

lemma prints_only_simps [simp]:
  "prints_only []" "prints_only (Stdout s # es) = prints_only es" "prints_only (map (\<lambda>x. out_kv (f x) (g x)) zs)"
  "prints_only (xs @ ys) = (prints_only xs \<and> prints_only ys)" "prints_only (map (\<lambda>y. json_line (f' y) (h y)) us)"
  by (auto simp: prints_only_def out_kv_def json_line_def list_all_iff)

text \<open>What a C library promises of a fully buffered stream: it takes nothing back, loses and reorders nothing, and writes
  nothing as long as less than \<open>B\<close> characters wait in the buffer.\<close>

locale stdout_buffer =
  fixes emit :: stdio and B :: nat
  assumes emit_extends: "prefix (fst pb) (fst (emit s pb))"
    and emit_keeps: "fst (emit s pb) @ snd (emit s pb) = fst pb @ snd pb @ s"
    and emit_waits: "length (snd pb @ s) < B \<Longrightarrow> emit s pb = (fst pb, snd pb @ s)"
begin

lemma pipe_prints:
  assumes "prints_only es"
  shows "fst (pipe_run emit es pb) @ snd (pipe_run emit es pb) = fst pb @ snd pb @ output_text es"
  using assms
proof (induction es arbitrary: pb)
  case (Cons e es)
  then obtain s where e: "e = Stdout s" and es: "prints_only es" by (auto simp: prints_only_def)
  then show ?case using Cons.IH [OF es, of "emit s pb"] emit_keeps [of s pb] by (simp add: pipe_step_def case_prod_unfold)
qed simp

lemma pipe_flushed:
  assumes "prints_only es"
  shows "pipe_run emit (es @ [Flush]) (p, b) = (p @ b @ output_text es, [])"
  using pipe_prints [OF assms, of "(p, b)"] by (cases "pipe_run emit es (p, b)") (simp add: pipe_step_def)

lemma pipe_reports:
  assumes "\<forall>out \<in> set outs. \<exists>es. prints_only es \<and> out = es @ [Flush]"
  shows "pipe_run emit (concat (map (Cons (Sleep n)) outs)) (p, []) = (p @ concat (map output_text outs), [])"
  using assms
proof (induction outs arbitrary: p)
  case (Cons out outs)
  then obtain es where es: "prints_only es" "out = es @ [Flush]" by auto
  have "pipe_step emit (Sleep n) (p, []) = (p, [])" by (simp add: pipe_step_def)
  then have "pipe_run emit (Sleep n # out) (p, []) = (p @ output_text out, [])"
    using pipe_flushed [OF es(1), of p "[]"] by (simp add: es(2))
  then show ?case using Cons by simp
qed simp

text \<open>Until the first block is full, output that is never flushed stays in the buffer.\<close>

lemma pipe_silent:
  assumes "list_all (\<lambda>e. (\<exists>s. e = Stdout s) \<or> (\<exists>n. e = Sleep n)) es" and "length (b @ output_text es) < B"
  shows "pipe_run emit es (p, b) = (p, b @ output_text es)"
  using assms
proof (induction es arbitrary: b)
  case (Cons e es)
  have "pipe_step emit e (p, b) = (p, b @ effect_text e)" using Cons.prems emit_waits by (auto simp: pipe_step_def)
  then show ?case using Cons.IH [of "b @ effect_text e"] Cons.prems by simp
qed simp

end

text \<open>A library that writes whole blocks of \<open>B\<close> characters.\<close>

definition block_emit :: "nat \<Rightarrow> stdio" where
  "block_emit B s = (\<lambda>(p, b). let t = b @ s; n = length t - length t mod B in (p @ take n t, drop n t))"

interpretation blocks: stdout_buffer "block_emit B" B for B
  by unfold_locales (auto simp: block_emit_def Let_def case_prod_unfold simp del: take_append drop_append)

subsection \<open>The lines the console reads\<close>

text \<open>What \<open>readline\<close> returns, one after the other.\<close>

fun file_lines :: "string \<Rightarrow> string list" where
  "file_lines [] = []"
| "file_lines (c # s) =
     (if c = CHR 0x0A then [c] # file_lines s
      else case file_lines s of [] \<Rightarrow> [[c]] | l # ls \<Rightarrow> (c # l) # ls)"

lemma concat_file_lines [simp]: "concat (file_lines s) = s"
  by (induction s) (auto split: list.split)

lemma file_lines_nonempty: "l \<in> set (file_lines s) \<Longrightarrow> l \<noteq> []"
  by (induction s arbitrary: l) (auto split: list.splits if_splits)

lemma file_lines_line: "CHR 0x0A \<notin> set l \<Longrightarrow> file_lines (l @ nl @ s) = (l @ nl) # file_lines s"
  by (induction l) (auto simp: nl_def)

lemma file_lines_lines:
  "\<forall>l \<in> set ls. CHR 0x0A \<notin> set l \<Longrightarrow> file_lines (concat (map (\<lambda>l. l @ nl) ls)) = map (\<lambda>l. l @ nl) ls"
  by (induction ls) (simp_all add: file_lines_line)

text \<open>The turns of the loop deliver the lines of \<open>s\<close>, with timeouts between them, before the time is up.\<close>

definition quiet :: "rat \<Rightarrow> turn \<Rightarrow> bool" where
  "quiet d t \<longleftrightarrow> (case got t of TimedOut now \<Rightarrow> now \<le> d | _ \<Rightarrow> False)"

definition hears :: "rat \<Rightarrow> turn list \<Rightarrow> string \<Rightarrow> bool" where
  "hears d ts s \<longleftrightarrow> list_all (\<lambda>t. \<not> disconnected t \<and> elapsed t < d) ts \<and>
     map got (filter (\<lambda>t. \<not> quiet d t) ts) = map Line (file_lines s)"

lemma stream_loop_quiet:
  assumes "list_all (\<lambda>t. \<not> disconnected t \<and> elapsed t < d) ts"
  shows "stream_loop d ts l = stream_loop d (filter (\<lambda>t. \<not> quiet d t) ts) l"
  using assms
proof (induction ts arbitrary: l)
  case (Cons t ts)
  have "read_turn d t l = (Continue, [], l)" if "quiet d t"
    using that Cons.prems by (auto simp: quiet_def read_turn_def split: read_result.splits)
  then show ?case using Cons by (auto split: prod.splits verdict.splits)
qed simp

lemma stream_loop_hears:
  assumes "hears d ts s" and "length (file_lines s) \<le> MAX_OUTPUT_LINES" and "length s \<le> MAX_OUTPUT_BYTES"
  shows "\<exists>l. stream_loop d ts empty_log = (Continue, file_lines s, l) \<and> log_content l = file_lines s"
proof -
  let ?ts = "filter (\<lambda>t. \<not> quiet d t) ts"
  let ?line = "\<lambda>t. case got t of Line s \<Rightarrow> s | _ \<Rightarrow> []"
  have m: "map got ?ts = map Line (file_lines s)" using assms(1) by (simp add: hears_def)
  have "map ?line ?ts = map (\<lambda>g. case g of Line s \<Rightarrow> s | _ \<Rightarrow> []) (map got ?ts)" by simp
  then have lines: "map ?line ?ts = file_lines s" unfolding m by (simp add: comp_def)
  have n: "length ?ts = length (file_lines s)" using arg_cong [OF m, of length] by simp
  have ok: "\<not> disconnected t \<and> elapsed t < d \<and> (\<exists>line. got t = Line line \<and> line \<noteq> [])" if "t \<in> set ?ts" for t
  proof -
    have "got t \<in> set (map Line (file_lines s))" using imageI [OF that, of got] unfolding m [symmetric] by simp
    then show ?thesis using that assms(1) file_lines_nonempty by (auto simp: hears_def list_all_iff)
  qed
  have "\<exists>l'. stream_loop d ?ts empty_log = (Continue, map ?line ?ts, l') \<and> log_content l' = log_content empty_log @ map ?line ?ts"
    by (rule stream_loop_all)
      (use ok assms(2,3) empty_log_ok n in \<open>simp_all add: lines, simp_all add: empty_log_def\<close>)
  moreover have "stream_loop d ts empty_log = stream_loop d ?ts empty_log"
    by (rule stream_loop_quiet) (use assms(1) in \<open>simp add: hears_def\<close>)
  ultimately show ?thesis by (simp add: lines empty_log_def)
qed

lemma kv_text_append [simp]: "kv_text (xs @ ys) = kv_text xs @ kv_text ys"
  by (simp add: kv_text_def)

lemma kv_text_concat: "kv_text (concat kvss) = concat (map kv_text kvss)"
  by (induction kvss) (simp_all add: kv_text_def)

text \<open>The lines of one report, with keys \<open>name x\<close>.\<close>

lemma output_text_report:
  "output_text (map (\<lambda>x. out_kv (name x) (fmt_u (w x))) xs @ [Flush]) = kv_text (map (\<lambda>x. (name x, unat (w x))) xs)"
  by (induction xs) (simp_all add: kv_text_def out_kv_def fmt_u_def)

lemma total_map:
  assumes "distinct xs" and "inj name"
  shows "total (map (\<lambda>x. (name x, f x)) xs) (name y) = (if y \<in> set xs then f y else 0)"
  using assms(1) by (induction xs) (auto simp: inj_eq [OF assms(2)])

lemma total_concat: "total (concat kvss) k = sum_list (map (\<lambda>kvs. total kvs k) kvss)"
  by (induction kvss) simp_all

lemma total_absent: "k \<notin> fst ` set kvs \<Longrightarrow> total kvs k = 0"
  by (induction kvs) auto

subsection \<open>Keys made of a process id\<close>

definition pid_key :: "u32 \<Rightarrow> string" where
  "pid_key p = ''PID_'' @ fmt_u p"

lemma inj_pid_key: "inj pid_key"
  by (rule injI) (simp add: pid_key_def)

lemma fmt_u_length: "length (fmt_u (p :: u32)) \<le> 10"
proof -
  have "unat p < 2 ^ 32" using unsigned_less [of p] by simp
  also have "(2 :: nat) ^ 32 < 10 ^ 10" by simp
  finally show ?thesis unfolding fmt_u_def by (intro fmt_nat_length) simp_all
qed

lemma pid_key_ok: "key_ok (pid_key p)"
proof -
  have "\<forall>c \<in> set (fmt_u p). key_char c"
    using is_digit_fmt [of _ "unat p"] by (auto simp: fmt_u_def key_char_def is_digit_def)
  moreover have "\<forall>c \<in> set ''PID_''. key_char c" by (simp add: key_char_def)
  ultimately show ?thesis using fmt_u_length [of p] by (auto simp: key_ok_def pid_key_def)
qed

subsection \<open>read\_stat\<close>

definition read_calls :: "helpers list \<Rightarrow> u32 \<Rightarrow> nat" where
  "read_calls es p = length (filter (\<lambda>h. cur_pid h = p) es)"

lemma read_reports_text:
  assumes "read_reports es out" and "length es < 2 ^ 53"
  shows "\<exists>pids. distinct pids \<and> set pids = cur_pid ` set es \<and> (\<exists>ps. prints_only ps \<and> out = ps @ [Flush]) \<and>
    output_text out = kv_text (map (\<lambda>p. (pid_key p, read_calls es p)) pids)"
proof -
  obtain pids where p: "distinct pids" "set pids = cur_pid ` set es"
    and out: "out = map (\<lambda>p. out_kv (''PID_'' @ fmt_u p) (fmt_u (of_nat (length (filter (\<lambda>h. cur_pid h = p) es)) :: u64))) pids @ [Flush]"
    using assms(1) by (auto simp: read_reports_def)
  have "unat (of_nat (length (filter (\<lambda>h. cur_pid h = p) es)) :: u64) = read_calls es p" for p
  proof -
    have "length (filter (\<lambda>h. cur_pid h = p) es) < 2 ^ 64"
      using le_less_trans [OF length_filter_le assms(2)] by (rule less_trans) simp
    then show ?thesis by (simp add: read_calls_def unat_of_nat take_bit_nat_eq_self)
  qed
  then have "output_text out = kv_text (map (\<lambda>p. (pid_key p, read_calls es p)) pids)"
    unfolding out output_text_report by (simp add: pid_key_def)
  moreover have "\<exists>ps. prints_only ps \<and> out = ps @ [Flush]" unfolding out
    by (rule exI, rule conjI, rule prints_only_simps(3), rule refl)
  ultimately show ?thesis using p by blast
qed

text \<open>The lines of a whole run: which keys they have, how many they are, and what they add up to.\<close>

lemma read_run_lines:
  assumes "list_all2 read_reports ess outs" and "length (concat ess) < 2 ^ 53"
  shows "\<exists>kvs. concat (map output_text outs) = kv_text kvs \<and>
    (\<forall>out \<in> set outs. \<exists>ps. prints_only ps \<and> out = ps @ [Flush]) \<and>
    (\<forall>x \<in> set kvs. key_ok (fst x) \<and> snd x < 2 ^ 53) \<and>
    (\<forall>p. total kvs (pid_key p) = read_calls (concat ess) p) \<and> fst ` set kvs = pid_key ` cur_pid ` set (concat ess) \<and>
    length kvs = (\<Sum>es\<leftarrow>ess. card (cur_pid ` set es))"
  using assms
proof (induction ess outs rule: list_all2_induct)
  case Nil
  show ?case by (intro exI [of _ "[]"]) (simp add: kv_text_def read_calls_def)
next
  case (Cons es ess out outs)
  then have small: "length es < 2 ^ 53" by simp
  obtain pids where p: "distinct pids" "set pids = cur_pid ` set es" "\<exists>ps. prints_only ps \<and> out = ps @ [Flush]"
    "output_text out = kv_text (map (\<lambda>p. (pid_key p, read_calls es p)) pids)"
    using read_reports_text [OF Cons.hyps(1) small] by blast
  obtain kvs where kvs: "concat (map output_text outs) = kv_text kvs"
      "\<forall>out \<in> set outs. \<exists>ps. prints_only ps \<and> out = ps @ [Flush]" "\<forall>x \<in> set kvs. key_ok (fst x) \<and> snd x < 2 ^ 53"
      "\<forall>p. total kvs (pid_key p) = read_calls (concat ess) p" "fst ` set kvs = pid_key ` cur_pid ` set (concat ess)"
      "length kvs = (\<Sum>es\<leftarrow>ess. card (cur_pid ` set es))"
    using Cons by auto
  let ?kvs = "map (\<lambda>p. (pid_key p, read_calls es p)) pids @ kvs"
  have "read_calls es q < 2 ^ 53" for q
    using le_less_trans [OF length_filter_le small] by (simp add: read_calls_def)
  then have keys: "\<forall>x \<in> set ?kvs. key_ok (fst x) \<and> snd x < 2 ^ 53" using kvs(3) pid_key_ok by auto
  have none: "q \<notin> set pids \<Longrightarrow> read_calls es q = 0" for q
    unfolding p(2) read_calls_def by (auto simp: filter_empty_conv)
  have sums: "\<forall>q. total ?kvs (pid_key q) = read_calls (concat (es # ess)) q"
    using none by (simp add: total_map [OF p(1) inj_pid_key] kvs(4)) (simp add: read_calls_def)
  have names: "fst ` set ?kvs = pid_key ` cur_pid ` set (concat (es # ess))"
    unfolding set_append image_Un kvs(5) by (simp add: p(2) [symmetric] image_image image_Un)
  have count: "length ?kvs = (\<Sum>es\<leftarrow>es # ess. card (cur_pid ` set es))" using kvs(6) distinct_card [OF p(1)] p(2) by simp
  have texts: "concat (map output_text (out # outs)) = kv_text ?kvs" using p(4) kvs(1) by simp
  have flushed: "\<forall>out \<in> set (out # outs). \<exists>ps. prints_only ps \<and> out = ps @ [Flush]" using p(3) kvs(2) by simp
  show ?case by (intro exI [of _ ?kvs] conjI) (fact texts flushed keys sums names count)+
qed

lemma kv_text_lines: "kv_text kvs = concat (map (\<lambda>l. l @ nl) (map (\<lambda>(k, n). k @ '': '' @ fmt_nat n) kvs))"
  by (simp add: kv_text_def kv_line_def nl_def comp_def case_prod_unfold)

lemma read_line_length: "n < 2 ^ 53 \<Longrightarrow> length (pid_key p @ '': '' @ fmt_nat n) \<le> 32"
proof -
  assume "n < 2 ^ 53"
  also have "(2 :: nat) ^ 53 < 10 ^ 16" by simp
  finally have "length (fmt_nat n) \<le> 16" by (intro fmt_nat_length) simp_all
  then show ?thesis using fmt_u_length [of p] by (simp add: pid_key_def)
qed

lemma kv_text_length: "\<forall>x \<in> set kvs. length (fst x @ '': '' @ fmt_nat (snd x)) \<le> n \<Longrightarrow> length (kv_text kvs) \<le> (n + 1) * length kvs"
  by (induction kvs) (auto simp: kv_text_def kv_line_def nl_def)

lemma kv_line_clean: "key_ok k \<Longrightarrow> CHR 0x0A \<notin> set (k @ '': '' @ fmt_nat n)"
  using key_no_break digit_no_break [OF is_digit_fmt] by (fastforce simp: key_ok_def line_break_def)

lemma banner_ignored:
  assumes "line = ''Monitoring read syscalls, press Ctrl+C to stop.'' \<or> line = ''Monitoring write syscalls by PID, press Ctrl+C to stop.''"
  shows "ignored line"
proof -
  have "kv_match line = None" using assms by (auto simp: kv_match_def key_char_def re_space_def)
  moreover have "json_loads line = None" using assms by (intro json_loads_letter) (auto simp: quote_def)
  ultimately show ?thesis using assms unfolding ignored_def by (auto simp: line_break_def)
qed

lemma read_run_text:
  assumes "list_all2 read_reports ess outs" and "length (concat ess) < 2 ^ 53"
    and "(\<Sum>es\<leftarrow>ess. card (cur_pid ` set es)) < MAX_OUTPUT_LINES"
  defines "banner \<equiv> ''Monitoring read syscalls, press Ctrl+C to stop.''"
  shows "\<exists>m. (\<forall>emit B d ts. stdout_buffer emit B \<longrightarrow> hears d ts (piped emit (err_line banner # concat (map (Cons (Sleep 1)) outs))) \<longrightarrow>
      (\<exists>ys l. stream_loop d ts empty_log = (Continue, ys, l) \<and> parse_output_metrics (concat (log_content l)) = Inr m)) \<and>
    (\<forall>p. metric m (pid_key p) = (if p \<in> cur_pid ` set (concat ess) then Some (Fin (of_nat (read_calls (concat ess) p))) else None))"
proof -
  obtain kvs where kvs: "concat (map output_text outs) = kv_text kvs"
      "\<forall>out \<in> set outs. \<exists>ps. prints_only ps \<and> out = ps @ [Flush]" "\<forall>x \<in> set kvs. key_ok (fst x) \<and> snd x < 2 ^ 53"
      "\<forall>p. total kvs (pid_key p) = read_calls (concat ess) p" "fst ` set kvs = pid_key ` cur_pid ` set (concat ess)"
      "length kvs = (\<Sum>es\<leftarrow>ess. card (cur_pid ` set es))"
    using read_run_lines [OF assms(1,2)] by blast
  let ?s = "concat (map (\<lambda>l. l @ nl) [banner]) @ kv_text kvs"
  have ban: "\<forall>l \<in> set [banner]. ignored l" using banner_ignored by (simp add: banner_def)
  have ok: "\<forall>x \<in> set kvs. key_ok (fst x)" using kvs(3) by blast
  have "total kvs k < 2 ^ 53" for k
  proof (cases "k \<in> range pid_key")
    case True
    then show ?thesis using kvs(4) le_less_trans [OF length_filter_le assms(2)] by (auto simp: read_calls_def)
  next
    case False
    then have "total kvs k = 0" using kvs(5) by (intro total_absent) auto
    then show ?thesis by simp
  qed
  from console_sums [OF ok this ban] obtain m where m: "parse_output_metrics ?s = Inr m" "tallies m kvs" by blast
  have metric: "metric m (pid_key p) = (if p \<in> cur_pid ` set (concat ess) then Some (Fin (of_nat (read_calls (concat ess) p))) else None)" for p
    using m(2) kvs(4,5) inj_image_mem_iff [OF inj_pid_key, of p "cur_pid ` set (concat ess)"] by (simp add: tallies_def)
  have through: "piped emit (err_line banner # concat (map (Cons (Sleep 1)) outs)) = ?s" if "stdout_buffer emit B" for emit B
    using stdout_buffer.pipe_reports [OF that kvs(2)] by (simp add: piped_def err_line_def pipe_step_def kvs(1))
  let ?ls = "banner # map (\<lambda>(k, n). k @ '': '' @ fmt_nat n) kvs"
  have s_lines: "?s = concat (map (\<lambda>l. l @ nl) ?ls)" by (simp add: kv_text_lines)
  have clean: "\<forall>l \<in> set ?ls. CHR 0x0A \<notin> set l"
    using ok kv_line_clean by (auto simp: banner_def)
  have lines: "length (file_lines ?s) \<le> MAX_OUTPUT_LINES"
    unfolding s_lines file_lines_lines [OF clean] using kvs(6) assms(3) by simp
  have "\<forall>x \<in> set kvs. length (fst x @ '': '' @ fmt_nat (snd x)) \<le> 32"
  proof
    fix x assume x: "x \<in> set kvs"
    then obtain p where "fst x = pid_key p" using imageI [OF x, of fst] unfolding kvs(5) by blast
    then show "length (fst x @ '': '' @ fmt_nat (snd x)) \<le> 32" using read_line_length kvs(3) x by metis
  qed
  from kv_text_length [OF this] have "length (kv_text kvs) \<le> 33 * length kvs" by simp
  then have bytes: "length ?s \<le> MAX_OUTPUT_BYTES"
    using kvs(6) assms(3) by (simp add: banner_def nl_def MAX_OUTPUT_LINES_def MAX_OUTPUT_BYTES_def)
  have "\<exists>ys l. stream_loop d ts empty_log = (Continue, ys, l) \<and> parse_output_metrics (concat (log_content l)) = Inr m"
    if h: "hears d ts (piped emit (err_line banner # concat (map (Cons (Sleep 1)) outs)))" and b: "stdout_buffer emit B" for emit B d ts
  proof -
    obtain l where "stream_loop d ts empty_log = (Continue, file_lines ?s, l)" "log_content l = file_lines ?s"
      using stream_loop_hears [OF h [unfolded through [OF b]] lines bytes] by blast
    then show ?thesis using m(1) concat_file_lines by metis
  qed
  then show ?thesis using metric by blast
qed

subsection \<open>write\_stat\<close>

lemma write_run_prints: "chronicle write_reports hs ess outs \<Longrightarrow> \<forall>out \<in> set outs. prints_only out"
proof (induction ess arbitrary: hs outs)
  case (Cons es ess)
  then obtain out outs' where o: "outs = out # outs'" "write_reports hs es out" "chronicle write_reports (hs @ es) ess outs'" by auto
  then have "prints_only out" unfolding write_reports_def by (auto simp del: append_Cons intro: prints_only_simps(3))
  then show ?case using Cons.IH [OF o(3)] o(1) by simp
qed simp

subsection \<open>Properties\<close>

text \<open>C1: what the console shows for read_stat is what happened in the kernel: as long as the processes of each interval
  fit the map, process 0 is not among them and the lines stay below the limit of the console, the tool runs on, and
  however the C library cuts its output into blocks and whenever the console reads the lines, once it has read
  them before its deadline it has kept all of them, and the metrics it computes give for each process exactly the
  number of its \<open>read()\<close> calls over all intervals, and nothing for any other process.\<close>

theorem console_read_stat:
  assumes "bpf_hash ops keys cap" and "runs_on env ess" and "\<forall>es \<in> set ess. read_fine es"
    and "keys (file_read_counter s) = []" and "cap (file_read_counter s) = MAX_ENTRIES"
    and "length (concat ess) < 2 ^ 53" and "(\<Sum>es\<leftarrow>ess. card (cur_pid ` set es)) < MAX_OUTPUT_LINES"
  shows "\<exists>out s' m. read_stat_main ops True env s = Some (Running, out, s') \<and>
    (\<forall>emit B d ts. stdout_buffer emit B \<longrightarrow> hears d ts (piped emit out) \<longrightarrow>
      (\<exists>ys l. stream_loop d ts empty_log = (Continue, ys, l) \<and> parse_output_metrics (concat (log_content l)) = Inr m)) \<and>
    (\<forall>p. metric m (pid_key p) = (if p \<in> cur_pid ` set (concat ess) then Some (Fin (of_nat (read_calls (concat ess) p))) else None))"
proof -
  obtain outs s' where r: "read_stat_main ops True env s =
      Some (Running, err_line ''Monitoring read syscalls, press Ctrl+C to stop.'' # concat (map (Cons (Sleep 1)) outs), s')"
    and rep: "list_all2 read_reports ess outs"
    using read_stat.session_exact [OF read_stat.intro [OF assms(1)] assms(2-5)] by blast
  show ?thesis using read_run_text [OF rep assms(6,7)] r by blast
qed

text \<open>Turns that deliver the lines of a text at once.\<close>

definition prompt_turns :: "string \<Rightarrow> turn list" where
  "prompt_turns s = map (\<lambda>l. \<lparr>disconnected = False, elapsed = 1, got = Line l\<rparr>) (file_lines s)"

lemma hears_prompt: "hears 10 (prompt_turns s) s"
proof -
  have "filter (\<lambda>t. \<not> quiet 10 t) (prompt_turns s) = prompt_turns s"
    unfolding filter_id_conv by (auto simp: prompt_turns_def quiet_def)
  then show ?thesis by (auto simp: hears_def prompt_turns_def list_all_iff)
qed

theorem console_read_stat_witness:
  "\<exists>out s' ys l m. read_stat_main (hash_ops False) True (going_on read_demo) \<lparr>file_read_counter = empty_hash MAX_ENTRIES\<rparr> = Some (Running, out, s') \<and>
    stream_loop 10 (prompt_turns (piped (block_emit 4096) out)) empty_log = (Continue, ys, l) \<and>
    parse_output_metrics (concat (log_content l)) = Inr m \<and>
    metric m (pid_key 7) = Some (Fin 4) \<and> metric m (pid_key 9) = Some (Fin 2) \<and> metric m (pid_key 8) = None"
proof -
  have "\<exists>out s' m. read_stat_main (hash_ops False) True (going_on read_demo) \<lparr>file_read_counter = empty_hash MAX_ENTRIES\<rparr> = Some (Running, out, s') \<and>
    (\<forall>emit B d ts. stdout_buffer emit B \<longrightarrow> hears d ts (piped emit out) \<longrightarrow>
      (\<exists>ys l. stream_loop d ts empty_log = (Continue, ys, l) \<and> parse_output_metrics (concat (log_content l)) = Inr m)) \<and>
    (\<forall>p. metric m (pid_key p) = (if p \<in> cur_pid ` set (concat [read_demo, read_demo])
      then Some (Fin (of_nat (read_calls (concat [read_demo, read_demo]) p))) else None))"
    by (rule console_read_stat [OF hm.bpf_hash_axioms going_on_runs])
      (simp_all add: read_fine_def read_demo_def MAX_ENTRIES_def MAX_OUTPUT_LINES_def card_insert_if)
  then obtain out s' m where r: "read_stat_main (hash_ops False) True (going_on read_demo) \<lparr>file_read_counter = empty_hash MAX_ENTRIES\<rparr> =
      Some (Running, out, s')"
    and h: "\<forall>emit B d ts. stdout_buffer emit B \<longrightarrow> hears d ts (piped emit out) \<longrightarrow>
      (\<exists>ys l. stream_loop d ts empty_log = (Continue, ys, l) \<and> parse_output_metrics (concat (log_content l)) = Inr m)"
    and p: "\<forall>p. metric m (pid_key p) = (if p \<in> cur_pid ` set (concat [read_demo, read_demo])
      then Some (Fin (of_nat (read_calls (concat [read_demo, read_demo]) p))) else None)" by blast
  have "metric m (pid_key 7) = Some (Fin 4) \<and> metric m (pid_key 9) = Some (Fin 2) \<and> metric m (pid_key 8) = None"
    by (simp add: p read_demo_def read_calls_def)
  then show ?thesis using r h hears_prompt blocks.stdout_buffer_axioms by blast
qed

text \<open>C33: write_stat never flushes its output: as long as all it has printed is shorter than a block of the C library, the
  console gets the banner and nothing else, and the metrics it computes are empty, however many calls there were.\<close>

theorem console_write_stat_silent:
  assumes "bpf_hash ops keys cap" and "runs_on env ess" and "along (write_fine c) [] (butlast ([] # ess))"
    and "keys (file_write_counter s) = []" and "cap (file_write_counter s) = c"
  shows "\<exists>out s'. write_stat_main ops env s = Some (Running, out, s') \<and>
    (\<forall>emit B. stdout_buffer emit B \<longrightarrow> length (output_text out) < B \<longrightarrow> piped emit out = ''Monitoring write syscalls by PID, press Ctrl+C to stop.'' @ nl \<and>
      parse_output_metrics (piped emit out) = Inr [])"
proof -
  let ?banner = "''Monitoring write syscalls by PID, press Ctrl+C to stop.''"
  obtain outs s' where r: "write_stat_main ops env s = Some (Running, [err_line ?banner] @ concat (map (\<lambda>out. out @ [Sleep 1]) outs), s')"
    and rep: "chronicle write_reports [] (butlast ([] # ess)) outs"
    using write_stat.session_exact [OF write_stat.intro [OF assms(1)] assms(2-5)] by blast
  let ?es = "concat (map (\<lambda>out. out @ [Sleep 1]) outs)"
  have quiet: "list_all (\<lambda>e. (\<exists>s. e = Stdout s) \<or> (\<exists>n. e = Sleep n)) ?es" using write_run_prints [OF rep] by (auto simp: list_all_iff prints_only_def)
  have "piped emit ([err_line ?banner] @ ?es) = ?banner @ nl"
    if "stdout_buffer emit B" "length (output_text ([err_line ?banner] @ ?es)) < B" for emit B
    using stdout_buffer.pipe_silent [OF that(1) quiet, of "[]" "?banner @ nl"] that(2) by (simp add: piped_def err_line_def pipe_step_def)
  moreover have "parse_output_metrics (?banner @ nl) = Inr []"
    using banner_ignored [of ?banner] splitlines_kv_text [of "[]" "[?banner]"]
    by (simp add: parse_output_metrics_def kv_text_def ignored_def metric_line_def)
  ultimately show ?thesis using r by auto
qed

theorem console_write_stat_silent_witness:
  "\<exists>out s'. write_stat_main (hash_ops False) (going_on read_demo) \<lparr>file_write_counter = empty_hash 10240\<rparr> = Some (Running, out, s') \<and>
    parse_output_metrics (piped (block_emit (length (output_text out) + 1)) out) = Inr []"
proof -
  have "\<exists>out s'. write_stat_main (hash_ops False) (going_on read_demo) \<lparr>file_write_counter = empty_hash 10240\<rparr> = Some (Running, out, s') \<and>
    (\<forall>emit B. stdout_buffer emit B \<longrightarrow> length (output_text out) < B \<longrightarrow> piped emit out = ''Monitoring write syscalls by PID, press Ctrl+C to stop.'' @ nl \<and>
      parse_output_metrics (piped emit out) = Inr [])"
    by (rule console_write_stat_silent [OF hm.bpf_hash_axioms going_on_runs, where c = 10240])
      (simp_all add: write_fine_def read_demo_def card_insert_if)
  then show ?thesis by (metis less_add_one blocks.stdout_buffer_axioms)
qed



subsection \<open>Lines that mislead the console\<close>

text \<open>A name with a character outside the pattern, as kernel threads have, loses its count; a name with a quotation mark
  spoils the JSON line of irq_stat; a name with line breaks, which a process can give itself, adds to the metric of
  another process; and running totals, as write_stat prints them, are added up.\<close>

theorem console_drops_name:
  "parse_output_metrics (kv_line ''PID_21_kworker/0:1'' ''4'') = Inr []"
  by (simp add: parse_output_metrics_def kv_line_def nl_def line_break_def metric_line_def kv_match_def key_char_def re_space_def
      json_loads_letter quote_def)

theorem console_forged_metric:
  "parse_output_metrics (kv_line (''PID_21_a'' @ nl @ ''PID_7: 3'' @ nl) ''1'') = Inr [(py ''PID_7'', Fin 3)]"
proof -
  have digit: "fmt_nat 3 = ''3''" by code_simp
  have three: "kv_match ''PID_7: 3'' = Some (''PID_7'', 3)"
    using kv_match_line [of "''PID_7''" 3] by (simp add: key_char_def digit)
  have "kv_match ''PID_21_a'' = None" "kv_match '': 1'' = None" by (simp_all add: kv_match_def key_char_def re_space_def)
  moreover have "json_loads ''PID_21_a'' = None" "json_loads '': 1'' = None" by (rule json_loads_letter; simp add: quote_def)+
  moreover have "round64 3 = Fin 3" using round64_nat [of 3] by simp
  ultimately show ?thesis using three
    by (simp add: parse_output_metrics_def kv_line_def nl_def line_break_def metric_line_def add_metric_def)
qed

theorem console_adds_totals:
  "\<exists>m. parse_output_metrics (kv_text [(''write_calls_pid_7'', 3), (''write_calls_pid_7'', 5)]) = Inr m \<and> metric m ''write_calls_pid_7'' = Some (Fin 8)"
proof -
  have "\<exists>m. parse_output_metrics (concat (map (\<lambda>l. l @ nl) []) @ kv_text [(''write_calls_pid_7'', 3), (''write_calls_pid_7'', 5)]) = Inr m \<and>
      tallies m [(''write_calls_pid_7'', 3), (''write_calls_pid_7'', 5)]"
    by (rule console_sums) (auto simp: key_ok_def key_char_def)
  then show ?thesis by (auto simp: tallies_def)
qed

end
