(* ===== verification/Spec2Isabelle.thy ===== *)
theory Spec2Isabelle
  imports Lifecycle WholeRun CountSessions TimeSessions Race ConnRace Smp CpuFreq CpuRunDelay CpuUsage IrqStat DiskDelay DiskIoSched DiskIoSize FileOpen FsyncStat
    ReadStat WriteStat MemOom MmapStat PageFault PageSwap SocketStat TcpConnect TcpRetransmit UdpStat
    Bootstrap Sockfilter Probes Tc Profile TaskIter Tracecon KernelUtils ConsoleRuns
begin

text \<open>
  \<^bold>\<open>ebpf-demo: the observation tools and the libbpf-bootstrap examples\<close>

  \<^bold>\<open>The program.\<close> The repository holds twenty tools under \<open>src/my_tools\<close> (directories \<open>cpu\<close>, \<open>disk\<close>, \<open>file\<close>, \<open>memo\<close>,
  \<open>network\<close>) and the examples of libbpf-bootstrap under \<open>src/examples\<close>. Each tool is a pair: BPF programs
  (\<open>*.bpf.c\<close>), which the kernel runs at tracepoints and probes and which count or measure into BPF maps,
  and a loader (\<open>*.c\<close>), which opens, loads and attaches them and then reads the maps in a loop around
  \<open>sleep\<close>, prints lines of the form \<open>key: value\<close>, and destroys the skeleton when a signal has set
  \<open>exiting\<close>. The two sides share nothing but the maps. The web console \<open>src/client/main.py\<close> starts the tools, reads their
  lines through a pipe and adds them up. The examples use ring and perf buffers, packet
  memory, iterators and performance events instead.

  \<^bold>\<open>How it is modelled.\<close> The state of a tool is a record of its maps and of what its loader keeps between
  iterations; a BPF program is a function from the context it reads (\<open>helpers\<close> of \<open>Prelude\<close>, the arguments
  of the tracepoint) and this state to a return code and the new state; the body of the reading loop,
  an iteration (\<open>..._tick\<close>) and \<open>main\<close> are functions with the effects as a list (\<open>effect\<close> of \<open>Loader\<close>).
  Integers are words of their width. The kernel's maps, libbpf, the C library's calls into the system,
  the symbolizer and the user memory that probes read are parameters: every operation takes them as an
  argument, their documented behaviour is a locale, and \<open>MapInstances\<close> has executable instances that all
  witnesses run on.

  \<^bold>\<open>The library.\<close>
  \<^item> \<open>Prelude\<close>: machine types, helper calls, \<open>printf\<close> conversions, key enumeration. \<open>CLib\<close>: \<open>strtol\<close>, \<open>fscanf\<close>
    words, \<open>argp_parse\<close>. \<open>CDouble\<close>: the arithmetic on doubles that is printed with \<open>%.3f\<close>.
  \<^item> \<open>BpfMap\<close>: the contracts \<open>bpf_map\<close>, \<open>bpf_hash\<close>, \<open>stable_hash\<close>, \<open>bpf_array\<close>, \<open>counter_array\<close>; \<open>MapInstances\<close>
    interprets them.
  \<^item> \<open>KeyWalk\<close>: the \<open>get_next_key\<close> loop as a partial function, with contracts for bodies that only read, that
    write the current entry, and that delete it. \<open>Counting\<close>, \<open>CommCount\<close>: what a counter holds after any
    sequence of events. \<open>Latency\<close>: what an accumulator of start-to-stop times holds.
  \<^item> \<open>Loader\<close>: effects, signals, the polling loops, and the contract \<open>polled_tool\<close>. \<open>RingBuf\<close>: the loops around
    \<open>ring_buffer__poll\<close> and when two of them cannot be told apart.

  \<^bold>\<open>The tools\<close> (source files of the same name in the directory given), each theory with the maps, every
  program, every loop body, the iteration, \<open>main\<close>, and what an iteration prints after any events:
  \<^item> \<open>cpu\<close>: \<open>CpuFreq\<close> (\<open>cpu_freq_stat\<close>), \<open>CpuRunDelay\<close> (\<open>cpu_run_delay\<close>), \<open>CpuUsage\<close> (\<open>cpu_usage\<close>), \<open>IrqStat\<close> (\<open>irq_stat\<close>);
  \<^item> \<open>disk\<close>: \<open>DiskDelay\<close> (\<open>disk_read_delay\<close>, \<open>disk_write_delay\<close>), \<open>DiskIoSched\<close> (\<open>disk_io_sched\<close>), \<open>DiskIoSize\<close> (\<open>disk_io_size\<close>);
  \<^item> \<open>file\<close>: \<open>FileOpen\<close> (\<open>file_open_stat\<close>), \<open>FsyncStat\<close> (\<open>file_fsync_stat\<close>), \<open>ReadStat\<close> (\<open>read_stat\<close>), \<open>WriteStat\<close> (\<open>write_stat\<close>);
  \<^item> \<open>memo\<close>: \<open>MemOom\<close> (\<open>mem_oom_stat\<close>), \<open>MmapStat\<close> (\<open>mmap_stat\<close>), \<open>PageFault\<close> (\<open>page_fault_stat\<close>), \<open>PageSwap\<close> (\<open>page_swap_stat\<close>);
  \<^item> \<open>network\<close>: \<open>SocketStat\<close> (\<open>socket_stat\<close>), \<open>TcpConnect\<close> (\<open>tcp_connect\<close>), \<open>TcpRetransmit\<close> (\<open>net_tcp_retransmit\<close>),
    \<open>UdpStat\<close> (\<open>net_udp_stat\<close>);
  \<^item> \<open>common\<close>: \<open>KernelUtils\<close> (\<open>kernel_utils.h\<close>).

  \<^bold>\<open>Across the tools: whole runs.\<close> \<open>Lifecycle\<close> makes every tool an instance of \<open>polled_tool\<close> and shows how each
  \<open>main\<close> ends, for every answer of libbpf and every arrival of signals. \<open>WholeRun\<close> composes iterations and
  life cycle: \<open>chronicled_tool\<close> is the contract of an iteration given the events of all earlier intervals, and
  from it follows what a loader prints from its start to its exit, for loops that sleep first (the
  interval in which the signal arrives is still reported) and loops that sleep last (it is not).
  \<open>CountSessions\<close> has the theorem for the tools that count, \<open>TimeSessions\<close> for those that measure times, where an
  operation may start in one interval and end in a later one; \<open>..._fine\<close> are the events a tool can take in an
  interval, \<open>..._reports\<close> what it prints for them, \<open>..._ready\<close> the state between iterations. All twenty tools
  have their theorem.

  \<^bold>\<open>Across the tools: concurrency.\<close> \<open>Race\<close> takes \<open>read_stat\<close>, \<open>ConnRace\<close> \<open>tcp_connect\<close> apart into single map calls that
  interleave with the BPF program: the atomic iteration is refined, nothing is counted twice, one window
  loses events, and every name stored or printed is one the process had. \<open>Smp\<close> takes the counting programs of
  \<open>read_stat\<close>, \<open>write_stat\<close> and \<open>mmap_stat\<close> apart into their map calls on several CPUs: with \<open>BPF_NOEXIST\<close> a process
  loses fewer events than there are CPUs, with \<open>BPF_ANY\<close> the loss has no bound.

  \<^bold>\<open>The console\<close> (\<open>client/main.py\<close>). \<open>PyLib\<close> has what it uses of Python: floats with their rounding, dictionaries,
  \<open>splitlines\<close>, the JSON decoder. \<open>Console\<close> is \<open>parse_output_metrics\<close>: the metric of a key is the sum of its lines, exact
  below 2^53. \<open>ConsoleConfig\<close> is the check of the configuration, the paths that may be started, and
  \<open>summarize_tool_metrics\<close>. \<open>ConsoleStream\<close> is \<open>run_tool_stream\<close>: the reading loop with its limits, the coroutine as steps
  between its suspensions, and any number of runs interleaved; no tool has two runs, the gauge is exact, and a
  run ends after its deadline. \<open>ConsoleRuns\<close> models the pipe, with the buffer of standard output under the
  contract \<open>stdout_buffer\<close>, and composes the whole chain: the \<open>read()\<close> calls of each process are the metrics the console shows for read_stat, the JSON lines of
  irq_stat are read back, and write_stat, which does not flush, shows nothing until a block is full; at its end
  are the lines that mislead the console.

  \<^bold>\<open>The examples.\<close> \<open>Bootstrap\<close> (\<open>bootstrap\<close>, \<open>bootstrap_legacy\<close>: the variants are equivalent, which exits are
  reported), \<open>Sockfilter\<close> (parsing inverts building a frame), \<open>Tc\<close> (packet accesses are in bounds, cleanup),
  \<open>Profile\<close> (every link and descriptor is released), \<open>TaskIter\<close> (one line for each task), \<open>Tracecon\<close> (the BPF side
  of the Rust example; names follow connections under interleaving), \<open>Probes\<close> (\<open>minimal\<close>, \<open>minimal_legacy\<close>,
  \<open>minimal_ns\<close>, \<open>fentry\<close>, \<open>kprobe\<close>, \<open>ksyscall\<close>, \<open>lsm\<close>, \<open>usdt\<close>, \<open>uprobe\<close>, \<open>xdp\<close>).

  \<^bold>\<open>Termination and bounds.\<close> No fuel is used. The \<open>get_next_key\<close> loop may run forever and is a
  \<open>partial_function\<close> into options; that it returns is proved for every tool but \<open>mmap_stat\<close>, for which a
  lawful map is given on which it does not. Endless polling loops run over a finite list of rounds, and
  the status \<open>Running\<close> is what a list without a signal leaves. The reading loop of the console is a function of the turns
  that the system gives it. Counters are 64-bit words and the statements
  about sums hold modulo \<open>2 ^ 64\<close>; maps have their \<open>max_entries\<close>, and a statement that needs an insertion
  to succeed assumes that the keys fit.

  \<^bold>\<open>Assumptions.\<close> A BPF program runs atomically with respect to other programs, except in \<open>Smp\<close>, and to an
  iteration of its loader, except in \<open>Race\<close> and \<open>ConnRace\<close>. The machine is little endian with 64-bit
  pointers. A poll that fails delivers nothing. Memory allocation succeeds where the code does not test it. \<open>bpf_probe_read\<close> and
  \<open>bpf_skb_load_bytes\<close> zero their destination when they fail. The event loop of the console switches between runs only where
  they are suspended, and one thread runs it.

  \<^bold>\<open>Not modelled.\<close> \<open>my_tools/common/vmlinux.h\<close> (generated type declarations; the layouts used appear as
  offsets in the programs), the user programs of the Rust examples (\<open>main.rs\<close>, over libraries that are not in the repository), of the console
  the routes that render pages and metrics, the encoding of its messages and its command line (calls of the
  frameworks), the decoding of bytes that are not ASCII and systems other than POSIX; the
  configuration under \<open>prometheus-demo\<close>, build files. The print callbacks of libbpf (\<open>libbpf_print_fn\<close>) only
  pass text on and are left out of the effects.
\<close>

end
